(* ===== verification/Prelude.thy ===== *)
theory Prelude
  imports Main
begin

text \<open>
  Shared vocabulary of the development.

  \<^item> Rust's \<open>Result<T, E>\<close> is the sum \<open>'e + 'a\<close> (\<open>Inl\<close> the error), and the \<open>?\<close> operator is
    \<open>and_then\<close>; an early \<open>return Err(..)\<close> under a condition is \<open>require\<close>.
  \<^item> A Rust \<open>String\<close> is modelled twice, by what the code reads of it: as \<open>string\<close> (HOL characters
    are bytes, so a \<open>string\<close> is the UTF-8 byte sequence that \<open>len()\<close> and \<open>bytes()\<close> see) and as
    \<open>text\<close>, the list of Unicode scalar values that \<open>chars()\<close> sees.
  \<^item> Saturating unsigned arithmetic is written out with the type's maximum.
\<close>

section \<open>Proof collections\<close>

named_theorems result_simps \<open>rewriting of fallible computations\<close>
named_theorems text_simps \<open>rewriting of Unicode text operations\<close>

section \<open>Fallible computations\<close>

definition and_then :: "'e + 'a \<Rightarrow> ('a \<Rightarrow> 'e + 'b) \<Rightarrow> 'e + 'b" where
  "and_then r f = (case r of Inl e \<Rightarrow> Inl e | Inr x \<Rightarrow> f x)"

definition require :: "bool \<Rightarrow> 'e \<Rightarrow> 'e + unit" where
  "require b e = (if b then Inr () else Inl e)"

definition is_ok :: "'e + 'a \<Rightarrow> bool" where
  "is_ok r = (case r of Inl _ \<Rightarrow> False | Inr _ \<Rightarrow> True)"

lemma and_then_simps [simp, result_simps]:
  "and_then (Inl e) f = Inl e"
  "and_then (Inr x) f = f x"
  by (simp_all add: and_then_def)

lemma and_then_eq_Inr_iff [result_simps]:
  "and_then r f = Inr y \<longleftrightarrow> (\<exists>x. r = Inr x \<and> f x = Inr y)"
  by (cases r) simp_all

lemma and_then_eq_Inl_iff [result_simps]:
  "and_then r f = Inl e \<longleftrightarrow> r = Inl e \<or> (\<exists>x. r = Inr x \<and> f x = Inl e)"
  by (cases r) simp_all

lemma require_eq_Inr_iff [simp, result_simps]: "require b e = Inr u \<longleftrightarrow> b"
  by (simp add: require_def)

lemma require_eq_Inl_iff [simp, result_simps]: "require b e = Inl e' \<longleftrightarrow> \<not> b \<and> e = e'"
  by (auto simp: require_def)

lemma is_ok_simps [simp, result_simps]: "is_ok (Inl e) = False" "is_ok (Inr x) = True"
  by (simp_all add: is_ok_def)

lemma is_ok_iff: "is_ok r \<longleftrightarrow> (\<exists>x. r = Inr x)"
  by (cases r) simp_all

text \<open>\<open>collect::<Result<Vec<_>, _>>()\<close>: the first error, or every value.\<close>

fun collect_ok :: "('e + 'a) list \<Rightarrow> 'e + 'a list" where
  "collect_ok [] = Inr []"
| "collect_ok (r # rs) = and_then r (\<lambda>x. and_then (collect_ok rs) (\<lambda>xs. Inr (x # xs)))"

lemma collect_ok_eq_Inr_iff [result_simps]: "collect_ok rs = Inr xs \<longleftrightarrow> rs = map Inr xs"
proof (induction rs arbitrary: xs)
  case (Cons r rs)
  then show ?case by (cases xs) (auto simp: result_simps)
qed auto

lemma find_SomeD: "find P xs = Some x \<Longrightarrow> x \<in> set xs \<and> P x"
  by (induction xs) (auto split: if_splits)

lemma find_unique: "distinct (map f xs) \<Longrightarrow> x \<in> set xs \<Longrightarrow> find (\<lambda>y. f y = f x) xs = Some x"
  by (induction xs) force+

section \<open>Signed machine arithmetic\<close>

definition in_i64 :: "int \<Rightarrow> bool" where
  "in_i64 x \<longleftrightarrow> - (2 ^ 63) \<le> x \<and> x < 2 ^ 63"

definition in_i128 :: "int \<Rightarrow> bool" where
  "in_i128 x \<longleftrightarrow> - (2 ^ 127) \<le> x \<and> x < 2 ^ 127"

text \<open>A \<open>checked_\<close> operation on \<open>i64\<close> followed by \<open>ok_or_else\<close>.\<close>

definition checked_i64 :: "'e \<Rightarrow> int \<Rightarrow> 'e + int" where
  "checked_i64 e x = (if in_i64 x then Inr x else Inl e)"

lemma checked_i64_eq_Inr_iff [simp, result_simps]: "checked_i64 e x = Inr y \<longleftrightarrow> in_i64 x \<and> y = x"
  by (auto simp: checked_i64_def)

lemma checked_i64_eq_Inl_iff [simp, result_simps]: "checked_i64 e x = Inl e' \<longleftrightarrow> \<not> in_i64 x \<and> e' = e"
  by (auto simp: checked_i64_def)

section \<open>Unsigned machine arithmetic\<close>

definition U32_MAX :: nat where
  "U32_MAX = 2 ^ 32 - 1"

definition U64_MAX :: nat where
  "U64_MAX = 2 ^ 64 - 1"

definition sat_add :: "nat \<Rightarrow> nat \<Rightarrow> nat \<Rightarrow> nat" where
  "sat_add m a b = min m (a + b)"

definition sat_mul :: "nat \<Rightarrow> nat \<Rightarrow> nat \<Rightarrow> nat" where
  "sat_mul m a b = min m (a * b)"

lemma sat_add_le [simp]: "sat_add m a b \<le> m"
  by (simp add: sat_add_def)

lemma sat_mul_le [simp]: "sat_mul m a b \<le> m"
  by (simp add: sat_mul_def)

lemma sat_add_ge_left: "a \<le> m \<Longrightarrow> a \<le> sat_add m a b"
  by (simp add: sat_add_def)

text \<open>Decimal printing of an unsigned integer.\<close>

fun show_nat :: "nat \<Rightarrow> string" where
  "show_nat n = (if n < 10 then [char_of (48 + n)] else show_nat (n div 10) @ [char_of (48 + n mod 10)])"

declare show_nat.simps [simp del]

text \<open>Decimal printing of a signed integer.\<close>

definition show_int :: "int \<Rightarrow> string" where
  "show_int i = (if i < 0 then CHR ''-'' # show_nat (nat (- i)) else show_nat (nat i))"

text \<open>Decimal digits read back, so printing is injective, and no digit is a separator.\<close>

definition digits_value :: "string \<Rightarrow> nat" where
  "digits_value s = foldl (\<lambda>a c. 10 * a + (of_char c - 48)) 0 s"

lemma show_nat_value: "digits_value (show_nat n) = n"
proof (induction n rule: show_nat.induct)
  case (1 n)
  show ?case
  proof (cases "n < 10")
    case False
    then have "show_nat n = show_nat (n div 10) @ [char_of (48 + n mod 10)]"
      by (subst show_nat.simps) simp
    with 1 False show ?thesis by (simp add: digits_value_def)
  qed (simp add: show_nat.simps [of n] digits_value_def)
qed

lemma show_nat_inj [simp]: "show_nat a = show_nat b \<longleftrightarrow> a = b"
  by (metis show_nat_value)

lemma show_nat_digits: "c \<in> set (show_nat n) \<Longrightarrow> 48 \<le> (of_char c :: nat) \<and> (of_char c :: nat) \<le> 57"
proof (induction n rule: show_nat.induct)
  case (1 n)
  then show ?case by (subst (asm) (2) show_nat.simps) (auto split: if_splits)
qed

lemma show_int_inj [simp]: "show_int a = show_int b \<longleftrightarrow> a = b"
proof -
  have "CHR ''-'' \<notin> set (show_nat n)" for n
    using show_nat_digits [of "CHR ''-''" n] by auto
  then have "CHR ''-'' # show_nat m \<noteq> show_nat n" "show_nat n \<noteq> CHR ''-'' # show_nat m" for m n
    by (metis list.set_intros(1))+
  then show ?thesis by (auto simp: show_int_def)
qed

section \<open>Unicode text\<close>

type_synonym uchar = nat
type_synonym utext = "nat list"

text \<open>An ASCII literal of the source as a list of scalar values.\<close>

definition lit :: "string \<Rightarrow> utext" where
  "lit s = map of_char s"

lemma lit_eq_iff [simp]: "lit a = lit b \<longleftrightarrow> a = b"
  unfolding lit_def by (rule inj_map_eq_map) (simp add: inj_def)

lemma lit_eq_Nil_iff [simp]: "lit a = [] \<longleftrightarrow> a = []" "[] = lit a \<longleftrightarrow> a = []"
  by (auto simp: lit_def)

text \<open>Printed numbers contain no colon, so a colon ends them.\<close>

lemma colon_notin_show_nat [simp]: "58 \<notin> set (lit (show_nat n))"
proof
  assume "58 \<in> set (lit (show_nat n))"
  then obtain c where "c \<in> set (show_nat n)" and "(of_char c :: nat) = 58"
    by (auto simp: lit_def)
  then show False using show_nat_digits [of c n] by simp
qed

lemma colon_notin_show_int [simp]: "58 \<notin> set (lit (show_int i))"
  using colon_notin_show_nat [of "nat (- i)"] colon_notin_show_nat [of "nat i"]
  by (simp add: lit_def show_int_def)

lemma split_at_colon:
  "58 \<notin> set xs \<Longrightarrow> 58 \<notin> set xs' \<Longrightarrow>
   xs @ (58 :: nat) # ys = xs' @ 58 # ys' \<longleftrightarrow> xs = xs' \<and> ys = ys'"
proof (induction xs arbitrary: xs')
  case Nil
  then show ?case by (cases xs') auto
next
  case (Cons x xs)
  then show ?case by (cases xs') auto
qed

text \<open>
  \<open>to_ascii_lowercase\<close> on one character, and the comparison \<open>eq_ignore_ascii_case\<close>, which is also
  SQLite's collation \<open>NOCASE\<close>.
\<close>

definition ascii_lower :: "uchar \<Rightarrow> uchar" where
  "ascii_lower c = (if 65 \<le> c \<and> c \<le> 90 then c + 32 else c)"

definition eq_nocase :: "utext \<Rightarrow> utext \<Rightarrow> bool" where
  "eq_nocase a b \<longleftrightarrow> map ascii_lower a = map ascii_lower b"

lemma eq_nocase_refl [simp]: "eq_nocase a a"
  by (simp add: eq_nocase_def)

lemma eq_nocase_sym: "eq_nocase a b \<longleftrightarrow> eq_nocase b a"
  by (auto simp: eq_nocase_def)

lemma eq_nocase_trans [trans]: "eq_nocase a b \<Longrightarrow> eq_nocase b c \<Longrightarrow> eq_nocase a c"
  by (simp add: eq_nocase_def)

text \<open>SQLite's \<open>TRIM\<close> removes only the space character.\<close>

definition sql_trim :: "utext \<Rightarrow> utext" where
  "sql_trim s = rev (dropWhile (\<lambda>c. c = 32) (rev (dropWhile (\<lambda>c. c = 32) s)))"

text \<open>
  \<open>char::is_whitespace\<close>: the Unicode property White_Space, which is a fixed list of code points.
\<close>

definition is_whitespace :: "uchar \<Rightarrow> bool" where
  "is_whitespace c \<longleftrightarrow>
     (9 \<le> c \<and> c \<le> 13) \<or> c = 32 \<or> c = 133 \<or> c = 160 \<or> c = 5760 \<or>
     (8192 \<le> c \<and> c \<le> 8202) \<or> c = 8232 \<or> c = 8233 \<or> c = 8239 \<or> c = 8287 \<or> c = 12288"

lemma is_whitespace_space [simp]: "is_whitespace 32"
  by (simp add: is_whitespace_def)

text \<open>\<open>str::split_whitespace\<close>: the maximal runs of non-whitespace characters, in order.\<close>

fun split_words :: "utext \<Rightarrow> utext \<Rightarrow> utext list" where
  "split_words cur [] = (if cur = [] then [] else [cur])"
| "split_words cur (c # cs) =
     (if is_whitespace c
      then (if cur = [] then split_words [] cs else cur # split_words [] cs)
      else split_words (cur @ [c]) cs)"

definition split_whitespace :: "utext \<Rightarrow> utext list" where
  "split_whitespace s = split_words [] s"

text \<open>\<open>str::trim\<close>: leading and trailing whitespace removed.\<close>

definition trim_start :: "utext \<Rightarrow> utext" where
  "trim_start s = dropWhile is_whitespace s"

definition trim_end :: "utext \<Rightarrow> utext" where
  "trim_end s = rev (dropWhile is_whitespace (rev s))"

definition trim :: "utext \<Rightarrow> utext" where
  "trim s = trim_end (trim_start s)"

text \<open>\<open>[&str]::join\<close>.\<close>

fun join :: "'a list \<Rightarrow> 'a list list \<Rightarrow> 'a list" where
  "join sep [] = []"
| "join sep [w] = w"
| "join sep (w # v # ws) = w @ sep @ join sep (v # ws)"

text \<open>Number of UTF-8 bytes of a text, as \<open>str::len\<close> counts them.\<close>

definition utf8_len :: "utext \<Rightarrow> nat" where
  "utf8_len s = sum_list (map (\<lambda>c. if c < 0x80 then 1 else if c < 0x800 then 2
     else if c < 0x10000 then 3 else 4) s)"

text \<open>Two prefixes of one text that take the same number of bytes are equal.\<close>

lemma utf8_len_append [simp]: "utf8_len (s @ t) = utf8_len s + utf8_len t"
  by (simp add: utf8_len_def)

lemma utf8_len_Nil_iff [simp]: "utf8_len s = 0 \<longleftrightarrow> s = []"
  by (cases s) (simp_all add: utf8_len_def)

lemma utf8_prefix_eq: "utf8_len a = utf8_len b \<Longrightarrow> a @ s = b @ t \<Longrightarrow> a = b \<and> s = t"
  by (auto simp: append_eq_append_conv2)

text \<open>A word: not empty and free of whitespace.\<close>

definition is_word :: "utext \<Rightarrow> bool" where
  "is_word w \<longleftrightarrow> w \<noteq> [] \<and> list_all (\<lambda>c. \<not> is_whitespace c) w"

lemma split_words_nonspace:
  "list_all (\<lambda>c. \<not> is_whitespace c) w \<Longrightarrow> split_words cur (w @ s) = split_words (cur @ w) s"
  by (induction w arbitrary: cur) simp_all

lemma split_words_are_words:
  "list_all (\<lambda>c. \<not> is_whitespace c) cur \<Longrightarrow> w \<in> set (split_words cur s) \<Longrightarrow> is_word w"
  by (induction cur s rule: split_words.induct) (auto simp: is_word_def split: if_splits)

lemma split_whitespace_words [text_simps]: "w \<in> set (split_whitespace s) \<Longrightarrow> is_word w"
  unfolding split_whitespace_def by (rule split_words_are_words [of "[]"]) simp_all

lemma split_words_word_space:
  "is_word w \<Longrightarrow> split_words [] (w @ 32 # s) = w # split_words [] s"
  using split_words_nonspace [of w "[]" "32 # s"] by (simp add: is_word_def)

lemma split_words_join:
  "\<forall>w \<in> set ws. is_word w \<Longrightarrow> split_words [] (join [32] ws) = ws"
proof (induction "[32 :: nat]" ws rule: join.induct)
  case (2 w)
  then show ?case
    using split_words_nonspace [of w "[]" "[]"] by (simp add: is_word_def)
qed (simp_all add: split_words_word_space)

lemma split_whitespace_join [text_simps]:
  "\<forall>w \<in> set ws. is_word w \<Longrightarrow> split_whitespace (join [32] ws) = ws"
  by (simp add: split_whitespace_def split_words_join)

lemma split_words_append_space:
  "is_whitespace c \<Longrightarrow> split_words cur (s @ c # t) = split_words cur s @ split_words [] t"
  by (induction s arbitrary: cur) simp_all

lemma split_whitespace_append_space [text_simps]:
  "is_whitespace c \<Longrightarrow> split_whitespace (s @ c # t) = split_whitespace s @ split_whitespace t"
  by (simp add: split_whitespace_def split_words_append_space)

lemma split_words_cur:
  "cur \<noteq> [] \<Longrightarrow> \<exists>w ws. split_words cur s = (cur @ w) # ws \<and>
     split_words (c # cur) s = (c # cur @ w) # ws"
proof (induction s arbitrary: cur)
  case (Cons d s)
  show ?case
  proof (cases "is_whitespace d")
    case False
    obtain w ws where "split_words (cur @ [d]) s = ((cur @ [d]) @ w) # ws"
      "split_words (c # cur @ [d]) s = (c # (cur @ [d]) @ w) # ws"
      using Cons.IH [of "cur @ [d]"] by auto
    with False show ?thesis by (intro exI [of _ "d # w"] exI [of _ ws]) simp
  qed (use Cons.prems in auto)
qed simp

lemma split_words_subset: "w \<in> set (split_words cur s) \<Longrightarrow> set w \<subseteq> set cur \<union> set s"
  by (induction cur s rule: split_words.induct) (auto split: if_splits)

lemma split_whitespace_subset: "w \<in> set (split_whitespace s) \<Longrightarrow> set w \<subseteq> set s"
  using split_words_subset [of w "[]" s] by (simp add: split_whitespace_def)

text \<open>How a leading character changes the words of a text.\<close>

lemma split_whitespace_Cons [text_simps]:
  "is_whitespace c \<Longrightarrow> split_whitespace (c # s) = split_whitespace s"
  "\<not> is_whitespace c \<Longrightarrow> is_whitespace d \<Longrightarrow> split_whitespace (c # d # s) = [c] # split_whitespace (d # s)"
  "\<not> is_whitespace c \<Longrightarrow> split_whitespace [c] = [[c]]"
  by (simp_all add: split_whitespace_def)

lemma split_whitespace_extend:
  assumes "\<not> is_whitespace c" and "\<not> is_whitespace d"
  obtains w ws where "split_whitespace (d # s) = w # ws" "split_whitespace (c # d # s) = (c # w) # ws"
  using split_words_cur [of "[d]" s c] assms by (auto simp: split_whitespace_def)

lemma split_whitespace_Nil_iff: "split_whitespace s = [] \<longleftrightarrow> list_all is_whitespace s"
proof (induction s)
  case (Cons c s)
  show ?case
  proof (cases "is_whitespace c")
    case False
    then show ?thesis
      by (cases s; cases "is_whitespace (hd s)")
        (auto simp: split_whitespace_Cons elim!: split_whitespace_extend [of c "hd s" "tl s"])
  qed (use Cons in \<open>simp add: split_whitespace_Cons\<close>)
qed (simp add: split_whitespace_def)

lemma trim_ends_not_space:
  "trim s \<noteq> [] \<Longrightarrow> \<not> is_whitespace (last (trim s))"
  unfolding trim_def trim_end_def
  by (metis hd_dropWhile last_rev rev_is_Nil_conv)

section \<open>Counting loops\<close>

text \<open>A loop \<open>for i in 1..=n\<close> over a state is a fold over \<open>[1..<Suc n]\<close>; its last iteration.\<close>

lemma foldl_upt_Suc: "a \<le> n \<Longrightarrow> foldl f s [a..<Suc n] = f (foldl f s [a..<n]) n"
  by simp

lemma foldl_upt_invariant:
  assumes "P a s" and "\<And>i x. a \<le> i \<Longrightarrow> i < n \<Longrightarrow> P i x \<Longrightarrow> P (Suc i) (f x i)" and "a \<le> n"
  shows "P n (foldl f s [a..<n])"
  using assms(3,2)
proof (induction n rule: dec_induct)
  case (step n)
  then show ?case by (simp add: foldl_upt_Suc)
qed (simp add: assms(1))

section \<open>Tables filled row by row\<close>

text \<open>
  The loops \<open>for i in 1..=n { for j in 1..=m { dp[i][j] = f(dp, i, j) } }\<close>.
\<close>

definition fill_cell :: "(nat list list \<Rightarrow> nat \<Rightarrow> nat \<Rightarrow> nat) \<Rightarrow> nat \<Rightarrow> nat list list \<Rightarrow> nat \<Rightarrow> nat list list" where
  "fill_cell f i dp j = dp[i := (dp ! i)[j := f dp i j]]"

definition fill_table :: "(nat list list \<Rightarrow> nat \<Rightarrow> nat \<Rightarrow> nat) \<Rightarrow> nat \<Rightarrow> nat \<Rightarrow> nat list list \<Rightarrow> nat list list" where
  "fill_table f n m dp = foldl (\<lambda>dp i. foldl (fill_cell f i) dp [1..<Suc m]) dp [1..<Suc n]"

text \<open>
  Dynamic programming: if the first row and column hold the values of \<open>D\<close> and a cell computes its
  value of \<open>D\<close> from its three predecessors, the filled table holds \<open>D\<close> everywhere.
\<close>

locale dynamic_program =
  fixes f :: "nat list list \<Rightarrow> nat \<Rightarrow> nat \<Rightarrow> nat"
    and D :: "nat \<Rightarrow> nat \<Rightarrow> nat"
    and n m :: nat
    and start :: "nat list list"
  assumes start_rows: "length start = Suc n"
    and start_columns: "r \<le> n \<Longrightarrow> length (start ! r) = Suc m"
    and start_left: "r \<le> n \<Longrightarrow> start ! r ! 0 = D r 0"
    and start_top: "j \<le> m \<Longrightarrow> start ! 0 ! j = D 0 j"
    and cell: "\<lbrakk>0 < i; i \<le> n; 0 < j; j \<le> m; dp ! (i - 1) ! j = D (i - 1) j; dp ! i ! (j - 1) = D i (j - 1);
      dp ! (i - 1) ! (j - 1) = D (i - 1) (j - 1)\<rbrakk> \<Longrightarrow> f dp i j = D i j"
begin

definition filled :: "nat \<Rightarrow> nat \<Rightarrow> nat list list \<Rightarrow> bool" where
  "filled i k dp \<longleftrightarrow>
     length dp = Suc n \<and> (\<forall>r \<le> n. length (dp ! r) = Suc m) \<and> (\<forall>r \<le> n. dp ! r ! 0 = D r 0) \<and>
     (\<forall>r j. r < i \<or> (r = i \<and> j < k) \<longrightarrow> r \<le> n \<longrightarrow> j \<le> m \<longrightarrow> dp ! r ! j = D r j)"

lemma filled_cell:
  assumes "filled i j dp" and "0 < i" "i \<le> n" "0 < j" "j \<le> m"
  shows "filled i (Suc j) (fill_cell f i dp j)"
proof -
  have c: "fill_cell f i dp j = dp[i := (dp ! i)[j := D i j]]"
    using assms cell [of i j dp] by (simp add: filled_def fill_cell_def)
  have len: "length dp = Suc n" "\<forall>r \<le> n. length (dp ! r) = Suc m"
    using assms(1) by (simp_all add: filled_def)
  have nth: "fill_cell f i dp j ! r ! q = (if r = i \<and> q = j then D i j else dp ! r ! q)"
    if "r \<le> n" "q \<le> m" for r q
    using that len assms(3) unfolding c by (auto simp: nth_list_update)
  have "length (fill_cell f i dp j) = Suc n" "\<forall>r \<le> n. length (fill_cell f i dp j ! r) = Suc m"
    using len assms(3) unfolding c by (auto simp: nth_list_update)
  moreover have "\<forall>r \<le> n. fill_cell f i dp j ! r ! 0 = D r 0"
    using nth assms(1,4) by (simp add: filled_def)
  moreover have "fill_cell f i dp j ! r ! q = D r q"
    if "r < i \<or> (r = i \<and> q < Suc j)" "r \<le> n" "q \<le> m" for r q
    using nth [OF that(2,3)] that assms(1) unfolding filled_def by (auto simp: less_Suc_eq)
  ultimately show ?thesis unfolding filled_def by blast
qed

lemma filled_row:
  assumes "filled i 1 dp" and "0 < i" "i \<le> n"
  shows "filled i (Suc m) (foldl (fill_cell f i) dp [1..<Suc m])"
  by (rule foldl_upt_invariant [where P = "filled i"])
    (use assms in \<open>auto intro!: filled_cell simp: less_Suc_eq_le\<close>)

lemma fill_entry:
  assumes "i \<le> n" and "j \<le> m"
  shows "fill_table f n m start ! i ! j = D i j"
proof -
  have next_row: "filled i (Suc m) dp \<Longrightarrow> filled (Suc i) 1 dp" for i dp
    unfolding filled_def by (metis One_nat_def less_Suc_eq less_Suc_eq_le less_Suc0)
  have "filled (Suc n) 1 (fill_table f n m start)"
    unfolding fill_table_def
  proof (rule foldl_upt_invariant [where P = "\<lambda>i. filled i 1"], goal_cases)
    case 1
    show ?case
      using start_rows start_columns start_left start_top by (auto simp: filled_def less_Suc_eq)
  next
    case (2 i dp)
    then show ?case by (intro next_row filled_row) simp_all
  qed simp
  then show ?thesis using assms by (simp add: filled_def)
qed

end

section \<open>Runs of a machine and budgets\<close>

text \<open>Feeding a list of events to a state-passing operation, collecting its outputs.\<close>

fun run_steps :: "('e \<Rightarrow> 's \<Rightarrow> 'o \<times> 's) \<Rightarrow> 'e list \<Rightarrow> 's \<Rightarrow> 'o list \<times> 's" where
  "run_steps step [] s = ([], s)"
| "run_steps step (e # es) s =
     (case step e s of (x, s1) \<Rightarrow> (case run_steps step es s1 of (xs, s2) \<Rightarrow> (x # xs, s2)))"

lemma run_steps_snd [simp]:
  "snd (run_steps step (e # es) s) = snd (run_steps step es (snd (step e s)))"
  by (simp add: case_prod_beta)

lemma run_steps_fst [simp]:
  "fst (run_steps step (e # es) s) = fst (step e s) # fst (run_steps step es (snd (step e s)))"
  by (simp add: case_prod_beta)

lemma sum_list_indicator: "sum_list (map (\<lambda>x. if P x then 1 else 0) xs) = length (filter P xs)"
  by (induction xs) simp_all

text \<open>
  A machine whose outputs are charged against a budget of its state: over any run of the allowed
  events the total charge is at most the budget the run started with.
\<close>

locale budgeted_machine =
  fixes step :: "'e \<Rightarrow> 's \<Rightarrow> 'o \<times> 's"
    and invar :: "'s \<Rightarrow> bool"
    and allowed :: "'e \<Rightarrow> bool"
    and charge :: "'o \<Rightarrow> nat"
    and budget :: "'s \<Rightarrow> nat"
  assumes step_invar: "invar s \<Longrightarrow> allowed e \<Longrightarrow> invar (snd (step e s))"
    and step_charge: "invar s \<Longrightarrow> allowed e \<Longrightarrow>
      charge (fst (step e s)) + budget (snd (step e s)) \<le> budget s"
begin

lemma run_invar: "invar s \<Longrightarrow> list_all allowed es \<Longrightarrow> invar (snd (run_steps step es s))"
  by (induction es arbitrary: s) (simp_all del: run_steps.simps(2) add: step_invar)

lemma run_charge:
  "invar s \<Longrightarrow> list_all allowed es \<Longrightarrow>
   sum_list (map charge (fst (run_steps step es s))) + budget (snd (run_steps step es s)) \<le> budget s"
proof (induction es arbitrary: s)
  case (Cons e es)
  have "invar (snd (step e s))" using Cons.prems step_invar by simp
  from Cons.IH [OF this] show ?case
    using step_charge [of s e] Cons.prems by (simp del: run_steps.simps(2))
qed simp

lemma run_count:
  assumes "invar s" and "list_all allowed es" and "\<And>x. P x \<Longrightarrow> 1 \<le> charge x"
  shows "length (filter P (fst (run_steps step es s))) \<le> budget s"
proof -
  have "sum_list (map (\<lambda>x. if P x then 1 else 0) xs) \<le> sum_list (map charge xs)" for xs
    using assms(3) by (induction xs) (auto simp: add_mono)
  then show ?thesis
    using run_charge [OF assms(1,2)] by (metis sum_list_indicator le_add1 le_trans)
qed

end

section \<open>Functional refinement\<close>

text \<open>
  A fallible operation on a concrete state that implements an abstract one: on success it computes
  the abstract step under the abstraction function, on failure the state stays as it was.
\<close>

fun run_ops :: "('op \<Rightarrow> 's \<Rightarrow> 'e + 's) \<Rightarrow> 'op list \<Rightarrow> 's \<Rightarrow> 's" where
  "run_ops step [] s = s"
| "run_ops step (x # xs) s = run_ops step xs (case step x s of Inl _ \<Rightarrow> s | Inr s' \<Rightarrow> s')"

text \<open>The operations of a run that succeed.\<close>

fun effective_ops :: "('op \<Rightarrow> 's \<Rightarrow> 'e + 's) \<Rightarrow> 'op list \<Rightarrow> 's \<Rightarrow> 'op list" where
  "effective_ops step [] s = []"
| "effective_ops step (x # xs) s =
     (case step x s of Inl _ \<Rightarrow> effective_ops step xs s | Inr s' \<Rightarrow> x # effective_ops step xs s')"

locale functional_refinement =
  fixes step :: "'op \<Rightarrow> 's \<Rightarrow> 'e + 's"
    and astep :: "'op \<Rightarrow> 'a \<Rightarrow> 'a"
    and abs :: "'s \<Rightarrow> 'a"
    and invar :: "'s \<Rightarrow> bool"
  assumes refine_invar: "invar s \<Longrightarrow> step x s = Inr s' \<Longrightarrow> invar s'"
    and refine_abs: "invar s \<Longrightarrow> step x s = Inr s' \<Longrightarrow> abs s' = astep x (abs s)"
begin

lemma run_refines:
  "invar s \<Longrightarrow> invar (run_ops step xs s) \<and>
     abs (run_ops step xs s) = foldl (\<lambda>a x. astep x a) (abs s) (effective_ops step xs s)"
proof (induction xs arbitrary: s)
  case (Cons x xs)
  show ?case
  proof (cases "step x s")
    case (Inl e)
    then show ?thesis using Cons by simp
  next
    case (Inr s')
    then show ?thesis
      using Cons.IH [OF refine_invar [OF Cons.prems Inr]] refine_abs [OF Cons.prems Inr] by simp
  qed
qed simp

end

end
