(* ===== verification/Jobs.thy ===== *)
theory Jobs
  imports Prelude Complex_Main "HOL-Library.Char_ord" "HOL-Library.List_Lexorder"
    "HOL-Library.Product_Lexorder"
begin

text \<open>
  The durable job lifecycle (\<^verbatim>\<open>jobs.rs\<close>) and the \<^verbatim>\<open>jobs\<close> table operations of
  \<^verbatim>\<open>db/jobs_rights.rs\<close> over migration v37.

  The table is the list of its rows in insertion order; a SQL \<open>UPDATE .. WHERE\<close> is
  \<open>update_where\<close> and its affected-row count is \<open>count_where\<close>. The \<open>state\<close> column holds the text
  token, as in the database, so that an out-of-vocabulary token is representable and every reader
  parses it. Timestamps are natural numbers handed to the operations as \<open>now\<close>. An operation that
  fails has no effect on the table (its savepoint is rolled back, or nothing was written).
  Connection and disk failures of SQLite are not modelled.

  The second half proves the table's constraints invariant, the lifecycle edges legal under every
  interleaving of writers, and the compare-and-swap discipline that the promotion saga relies on.
\<close>

section \<open>Lifecycle of one job\<close>

datatype job_state = Queued | Running | Succeeded | Failed | Cancelled

fun as_str :: "job_state \<Rightarrow> string" where
  "as_str Queued = ''queued''"
| "as_str Running = ''running''"
| "as_str Succeeded = ''succeeded''"
| "as_str Failed = ''failed''"
| "as_str Cancelled = ''cancelled''"

definition parse :: "string \<Rightarrow> job_state option" where
  "parse s =
     (if s = ''queued'' then Some Queued
      else if s = ''running'' then Some Running
      else if s = ''succeeded'' then Some Succeeded
      else if s = ''failed'' then Some Failed
      else if s = ''cancelled'' then Some Cancelled
      else None)"

fun is_terminal :: "job_state \<Rightarrow> bool" where
  "is_terminal Succeeded = True"
| "is_terminal Failed = True"
| "is_terminal Cancelled = True"
| "is_terminal _ = False"

fun can_transition_to :: "job_state \<Rightarrow> job_state \<Rightarrow> bool" where
  "can_transition_to Queued Running = True"
| "can_transition_to Queued Cancelled = True"
| "can_transition_to Running Succeeded = True"
| "can_transition_to Running Failed = True"
| "can_transition_to Running Cancelled = True"
| "can_transition_to _ _ = False"

section \<open>Errors, rows and tables\<close>

text \<open>The variants of \<^verbatim>\<open>AppError\<close> these operations return, with their messages.\<close>

datatype app_error = AppDatabase string | AppValidation string | AppOther string

text \<open>An \<open>f64\<close> argument: a finite value, or not a number.\<close>

type_synonym f64_arg = "rat option"

record 'j job_row =
  row_id :: string
  row_kind :: string
  row_state :: string
  row_idempotency_key :: "string option"
  row_progress :: rat
  row_total :: "int option"
  row_completed :: int
  row_error_code :: "string option"
  row_payload :: "'j option"
  row_created_at :: nat
  row_updated_at :: nat
  row_started_at :: "nat option"
  row_finished_at :: "nat option"

type_synonym 'j job_table = "'j job_row list"

record job =
  job_id :: string
  job_kind :: string
  job_state_of :: job_state
  job_progress :: rat
  job_completed :: int
  job_total :: "int option"
  job_error_code :: "string option"

record 'j payload_job =
  pj_id :: string
  pj_kind :: string
  pj_state :: job_state
  pj_idempotency_key :: "string option"
  pj_error_code :: "string option"
  pj_payload :: 'j

record 'j begun_payload_job =
  begun_job :: "'j payload_job"
  begun_created :: bool

definition update_where :: "('r \<Rightarrow> bool) \<Rightarrow> ('r \<Rightarrow> 'r) \<Rightarrow> 'r list \<Rightarrow> 'r list" where
  "update_where P f t = map (\<lambda>r. if P r then f r else r) t"

definition count_where :: "('r \<Rightarrow> bool) \<Rightarrow> 'r list \<Rightarrow> nat" where
  "count_where P t = length (filter P t)"

section \<open>Reading rows\<close>

definition job_from_row :: "'j job_row \<Rightarrow> app_error + job" where
  "job_from_row r =
     (case parse (row_state r) of
        None \<Rightarrow> Inl (AppOther (''job '' @ row_id r @ '' has an unknown state '' @ row_state r
                  @ '' in the database''))
      | Some st \<Rightarrow> Inr \<lparr>job_id = row_id r, job_kind = row_kind r, job_state_of = st,
          job_progress = row_progress r, job_completed = row_completed r, job_total = row_total r,
          job_error_code = row_error_code r\<rparr>)"

definition read_payload_job_row :: "'j job_row \<Rightarrow> app_error + 'j payload_job" where
  "read_payload_job_row r =
     (case parse (row_state r) of
        None \<Rightarrow> Inl (AppDatabase (''job '' @ row_id r @ '' has unknown state '' @ row_state r))
      | Some st \<Rightarrow>
          (case row_payload r of
             None \<Rightarrow> Inl (AppDatabase ''Invalid column type Null at index: 5, name: payload_json'')
           | Some p \<Rightarrow> Inr \<lparr>pj_id = row_id r, pj_kind = row_kind r, pj_state = st,
               pj_idempotency_key = row_idempotency_key r, pj_error_code = row_error_code r,
               pj_payload = p\<rparr>))"

definition row_by_id :: "'j job_table \<Rightarrow> string \<Rightarrow> 'j job_row option" where
  "row_by_id t i = find (\<lambda>r. row_id r = i) t"

definition row_by_key :: "'j job_table \<Rightarrow> string \<Rightarrow> 'j job_row option" where
  "row_by_key t k = find (\<lambda>r. row_idempotency_key r = Some k) t"

definition get_job :: "'j job_table \<Rightarrow> string \<Rightarrow> app_error + job option" where
  "get_job t i =
     (case row_by_id t i of None \<Rightarrow> Inr None | Some r \<Rightarrow> and_then (job_from_row r) (\<lambda>j. Inr (Some j)))"

definition get_job_by_idempotency_key :: "'j job_table \<Rightarrow> string \<Rightarrow> app_error + job option" where
  "get_job_by_idempotency_key t k =
     (case row_by_key t k of None \<Rightarrow> Inr None | Some r \<Rightarrow> and_then (job_from_row r) (\<lambda>j. Inr (Some j)))"

definition get_payload_job :: "'j job_table \<Rightarrow> string \<Rightarrow> app_error + 'j payload_job option" where
  "get_payload_job t i =
     (case row_by_id t i of
        None \<Rightarrow> Inr None
      | Some r \<Rightarrow> and_then (read_payload_job_row r) (\<lambda>j. Inr (Some j)))"

section \<open>Creating jobs\<close>

text \<open>
  The primary key and the partial unique index on the idempotency key: does a new row with this
  id and key collide with a stored one?
\<close>

definition conflicts :: "'j job_table \<Rightarrow> string \<Rightarrow> string option \<Rightarrow> bool" where
  "conflicts t i k \<longleftrightarrow>
     list_ex (\<lambda>r. row_id r = i \<or> (k \<noteq> None \<and> row_idempotency_key r = k)) t"

definition new_row ::
  "nat \<Rightarrow> string \<Rightarrow> string \<Rightarrow> string \<Rightarrow> string option \<Rightarrow> int option \<Rightarrow> 'j option \<Rightarrow> nat option \<Rightarrow> 'j job_row"
where
  "new_row now i kind st key tot payload started =
     \<lparr>row_id = i, row_kind = kind, row_state = st, row_idempotency_key = key, row_progress = 0,
      row_total = tot, row_completed = 0, row_error_code = None, row_payload = payload,
      row_created_at = now, row_updated_at = now, row_started_at = started, row_finished_at = None\<rparr>"

definition create_or_get_job ::
  "'j job_table \<Rightarrow> nat \<Rightarrow> string \<Rightarrow> string \<Rightarrow> string option \<Rightarrow> int option \<Rightarrow> app_error + job \<times> 'j job_table"
where
  "create_or_get_job t now i kind key tot =
     (let t' = (if conflicts t i key then t
                else t @ [new_row now i kind ''queued'' key tot None None])
      in and_then
           (case key of None \<Rightarrow> Inr None | Some k \<Rightarrow> get_job_by_idempotency_key t' k)
           (\<lambda>existing. case existing of
              Some j \<Rightarrow> Inr (j, t')
            | None \<Rightarrow> and_then (get_job t' i) (\<lambda>found. case found of
                Some j \<Rightarrow> Inr (j, t')
              | None \<Rightarrow> Inl (AppOther (''job '' @ i @ '' vanished immediately after insert'')))))"

definition begin_running_payload_job ::
  "'j job_table \<Rightarrow> nat \<Rightarrow> string \<Rightarrow> string \<Rightarrow> string \<Rightarrow> 'j \<Rightarrow> app_error + 'j begun_payload_job \<times> 'j job_table"
where
  "begin_running_payload_job t now i kind key payload =
     and_then
       (case row_by_key t key of
          Some r \<Rightarrow> and_then (read_payload_job_row r) (\<lambda>j. Inr (Some j))
        | None \<Rightarrow> get_payload_job t i)
       (\<lambda>existing. case existing of
          Some j \<Rightarrow> Inr (\<lparr>begun_job = j, begun_created = False\<rparr>, t)
        | None \<Rightarrow>
            if conflicts t i (Some key) then Inl (AppDatabase ''UNIQUE constraint failed'')
            else
              let t' = t @ [new_row now i kind ''running'' (Some key) None (Some payload) (Some now)]
              in and_then (get_payload_job t' i) (\<lambda>found. case found of
                   None \<Rightarrow> Inl (AppOther (''payload job '' @ i @ '' vanished immediately after insert''))
                 | Some j \<Rightarrow> Inr (\<lparr>begun_job = j, begun_created = True\<rparr>, t')))"

section \<open>Compare-and-swap of running payload jobs\<close>

definition running_payload :: "string \<Rightarrow> string \<Rightarrow> 'j \<Rightarrow> 'j job_row \<Rightarrow> bool" where
  "running_payload i kind expected r \<longleftrightarrow>
     row_id r = i \<and> row_kind r = kind \<and> row_state r = ''running'' \<and> row_payload r = Some expected"

definition compare_and_swap_running_job_payload ::
  "'j job_table \<Rightarrow> nat \<Rightarrow> string \<Rightarrow> string \<Rightarrow> 'j \<Rightarrow> 'j \<Rightarrow> app_error + 'j job_table"
where
  "compare_and_swap_running_job_payload t now i kind expected next_payload =
     (let P = running_payload i kind expected
      in if count_where P t \<noteq> 1
         then Inl (AppValidation (''running payload job '' @ i
                @ '' changed concurrently or is no longer resumable''))
         else Inr (update_where P
                (\<lambda>r. r\<lparr>row_payload := Some next_payload, row_updated_at := now\<rparr>) t))"

definition finish_running_payload_job ::
  "'j job_table \<Rightarrow> nat \<Rightarrow> string \<Rightarrow> string \<Rightarrow> 'j \<Rightarrow> 'j \<Rightarrow> job_state \<Rightarrow> string option
     \<Rightarrow> app_error + 'j job_table"
where
  "finish_running_payload_job t now i kind expected final_payload st ec =
     (if \<not> (st = Succeeded \<or> st = Failed)
      then Inl (AppValidation (''payload job '' @ i @ '' can only finish succeeded or failed, not ''
             @ as_str st))
      else
        let P = running_payload i kind expected
        in if count_where P t \<noteq> 1
           then Inl (AppValidation (''running payload job '' @ i
                  @ '' changed concurrently or is no longer finishable''))
           else Inr (update_where P
                  (\<lambda>r. r\<lparr>row_state := as_str st, row_error_code := ec,
                         row_payload := Some final_payload,
                         row_progress := (if as_str st = ''succeeded'' then 1 else row_progress r),
                         row_finished_at := Some now, row_updated_at := now\<rparr>) t))"

fun collect_results :: "('e + 'a) list \<Rightarrow> 'e + 'a list" where
  "collect_results [] = Inr []"
| "collect_results (x # xs) = and_then x (\<lambda>y. and_then (collect_results xs) (\<lambda>ys. Inr (y # ys)))"

definition list_running_payload_jobs :: "'j job_table \<Rightarrow> string \<Rightarrow> app_error + 'j payload_job list" where
  "list_running_payload_jobs t kind =
     collect_results (map read_payload_job_row
       (sort_key (\<lambda>r. (row_created_at r, row_id r))
         (filter (\<lambda>r. row_kind r = kind \<and> row_state r = ''running'') t)))"

section \<open>Lifecycle transitions\<close>

text \<open>
  \<^verbatim>\<open>transition_job\<close> reads and validates, then writes conditioned on the state it read. The two
  halves are separate definitions because another connection may write in between.
\<close>

definition transition_read :: "'j job_table \<Rightarrow> string \<Rightarrow> job_state \<Rightarrow> app_error + job_state" where
  "transition_read t i target =
     and_then (get_job t i) (\<lambda>found. case found of
       None \<Rightarrow> Inl (AppOther (''job '' @ i @ '' not found''))
     | Some cur \<Rightarrow>
         if \<not> can_transition_to (job_state_of cur) target
         then Inl (AppValidation (''illegal job transition '' @ as_str (job_state_of cur) @ '' -> ''
                @ as_str target @ '' for job '' @ i))
         else Inr (job_state_of cur))"

definition transition_write ::
  "'j job_table \<Rightarrow> nat \<Rightarrow> string \<Rightarrow> job_state \<Rightarrow> string option \<Rightarrow> job_state \<Rightarrow> app_error + 'j job_table"
where
  "transition_write t now i target ec cur =
     (let P = (\<lambda>r. row_id r = i \<and> row_state r = as_str cur)
      in if count_where P t = 0
         then and_then (get_job t i) (\<lambda>found.
                Inl (AppValidation (''job '' @ i @ '' was transitioned concurrently ('' @ as_str cur
                  @ '' -> '' @ (case found of Some j \<Rightarrow> as_str (job_state_of j) | None \<Rightarrow> ''<gone>'')
                  @ ''); '' @ as_str cur @ '' -> '' @ as_str target @ '' rejected'')))
         else Inr (update_where P
                (\<lambda>r. r\<lparr>row_state := as_str target, row_error_code := ec,
                       row_started_at := (if as_str target = ''running'' \<and> row_started_at r = None
                                          then Some now else row_started_at r),
                       row_finished_at := (if is_terminal target then Some now else row_finished_at r),
                       row_updated_at := now\<rparr>) t))"

definition transition_job ::
  "'j job_table \<Rightarrow> nat \<Rightarrow> string \<Rightarrow> job_state \<Rightarrow> string option \<Rightarrow> app_error + 'j job_table"
where
  "transition_job t now i target ec =
     and_then (transition_read t i target) (\<lambda>cur. transition_write t now i target ec cur)"

text \<open>\<open>f64::clamp\<close> keeps a NaN, which SQLite stores as NULL and the NOT NULL column refuses.\<close>

definition update_job_progress ::
  "'j job_table \<Rightarrow> nat \<Rightarrow> string \<Rightarrow> int \<Rightarrow> f64_arg \<Rightarrow> app_error + 'j job_table"
where
  "update_job_progress t now i completed progress =
     (case progress of
        None \<Rightarrow> if list_ex (\<lambda>r. row_id r = i) t
                then Inl (AppDatabase ''NOT NULL constraint failed: jobs.progress'') else Inr t
      | Some p \<Rightarrow> Inr (update_where (\<lambda>r. row_id r = i)
          (\<lambda>r. r\<lparr>row_completed := completed, row_progress := max 0 (min 1 p), row_updated_at := now\<rparr>) t))"

definition resumable_kinds :: "string list" where
  "resumable_kinds = [''model_promotion'', ''batch_transcribe_v1'', ''batch_normalize_v1'']"

definition orphaned :: "'j job_row \<Rightarrow> bool" where
  "orphaned r \<longleftrightarrow> row_state r = ''running'' \<and> row_kind r \<notin> set resumable_kinds"

definition mark_orphaned_running_jobs_failed :: "'j job_table \<Rightarrow> nat \<Rightarrow> nat \<times> 'j job_table" where
  "mark_orphaned_running_jobs_failed t now =
     (count_where orphaned t,
      update_where orphaned
        (\<lambda>r. r\<lparr>row_state := ''failed'',
               row_error_code := (case row_error_code r of None \<Rightarrow> Some ''INTERRUPTED'' | Some c \<Rightarrow> Some c),
               row_finished_at := Some now, row_updated_at := now\<rparr>) t)"

text \<open>A negative SQL \<open>LIMIT\<close> is no limit.\<close>

definition list_recent_jobs :: "'j job_table \<Rightarrow> int \<Rightarrow> app_error + job list" where
  "list_recent_jobs t limit =
     (let rows = rev (sort_key (\<lambda>r. (row_created_at r, row_id r)) t)
      in collect_results (map job_from_row (if limit < 0 then rows else take (nat limit) rows)))"

text \<open>
  \<^verbatim>\<open>run_tracked\<close>: the tracked work reads and writes the same database, so it takes and returns the
  table. The terminal stamp is best effort: a stamp that fails leaves the table as the work left it.
\<close>

definition run_tracked ::
  "'j job_table \<Rightarrow> nat \<Rightarrow> string \<Rightarrow> string \<Rightarrow> string
     \<Rightarrow> ('j job_table \<Rightarrow> (app_error + 'a) \<times> 'j job_table) \<Rightarrow> (app_error + 'a) \<times> 'j job_table"
where
  "run_tracked t now i kind error_code work =
     (case create_or_get_job t now i kind None None of
        Inl e \<Rightarrow> (Inl e, t)
      | Inr (_, t1) \<Rightarrow>
          (case transition_job t1 now i Running None of
             Inl e \<Rightarrow> (Inl e, t1)
           | Inr t2 \<Rightarrow>
               (case work t2 of
                  (Inr v, t3) \<Rightarrow>
                    (case transition_job t3 now i Succeeded None of
                       Inl _ \<Rightarrow> (Inr v, t3) | Inr t4 \<Rightarrow> (Inr v, t4))
                | (Inl e, t3) \<Rightarrow>
                    (case transition_job t3 now i Failed (Some error_code) of
                       Inl _ \<Rightarrow> (Inl e, t3) | Inr t4 \<Rightarrow> (Inl e, t4)))))"

section \<open>Interleaved writers\<close>

text \<open>
  One step of any writer. A transition writes with the state it validated earlier, which may be
  stale by now: only that the edge was legal for it is known.
\<close>

inductive job_step :: "'j job_table \<Rightarrow> 'j job_table \<Rightarrow> bool" where
  create: "create_or_get_job t now i kind key tot = Inr (j, t') \<Longrightarrow> job_step t t'"
| begin_running: "begin_running_payload_job t now i kind k p = Inr (b, t') \<Longrightarrow> job_step t t'"
| swap: "compare_and_swap_running_job_payload t now i kind e n = Inr t' \<Longrightarrow> job_step t t'"
| finish: "finish_running_payload_job t now i kind e n st ec = Inr t' \<Longrightarrow> job_step t t'"
| transition: "can_transition_to cur target \<Longrightarrow> transition_write t now i target ec cur = Inr t'
    \<Longrightarrow> job_step t t'"
| progress: "update_job_progress t now i c q = Inr t' \<Longrightarrow> job_step t t'"
| reap: "mark_orphaned_running_jobs_failed t now = (n, t') \<Longrightarrow> job_step t t'"

text \<open>The constraints of migration v37: primary key, unique index, and the two CHECK clauses.\<close>

definition keys_of :: "'j job_table \<Rightarrow> string list" where
  "keys_of t = List.map_filter row_idempotency_key t"

definition row_ok :: "'j job_row \<Rightarrow> bool" where
  "row_ok r \<longleftrightarrow> parse (row_state r) \<noteq> None \<and> 0 \<le> row_progress r \<and> row_progress r \<le> 1"

definition job_table_ok :: "'j job_table \<Rightarrow> bool" where
  "job_table_ok t \<longleftrightarrow> distinct (map row_id t) \<and> distinct (keys_of t) \<and> list_all row_ok t"

text \<open>What one writer may do to one row: nothing, or one legal lifecycle edge; identity is frozen.\<close>

definition evolves :: "'j job_row \<Rightarrow> 'j job_row \<Rightarrow> bool" where
  "evolves r r' \<longleftrightarrow>
     row_id r' = row_id r \<and> row_kind r' = row_kind r \<and>
     row_idempotency_key r' = row_idempotency_key r \<and> row_created_at r' = row_created_at r \<and>
     (row_ok r \<longrightarrow> row_ok r') \<and>
     (row_state r' = row_state r \<or>
      (\<exists>a b. row_state r = as_str a \<and> row_state r' = as_str b \<and> can_transition_to a b))"

section \<open>Lifecycle facts\<close>

lemma parse_as_str [simp]: "parse (as_str s) = Some s"
  by (cases s) (simp_all add: parse_def)

lemma parse_eq_Some_iff [simp]: "parse x = Some s \<longleftrightarrow> x = as_str s"
  by (cases s) (auto simp: parse_def)

lemma as_str_inj [simp]: "as_str a = as_str b \<longleftrightarrow> a = b"
  by (metis parse_as_str option.inject)

text \<open>From here on the tokens are read as \<open>as_str\<close> of a state.\<close>

declare as_str.simps [simp del]
lemmas tokens [simp] = as_str.simps [symmetric]

lemma parse_not_None_iff: "parse x \<noteq> None \<longleftrightarrow> (\<exists>s. x = as_str s)"
  using parse_eq_Some_iff by (metis not_Some_eq)

lemma terminal_no_edge: "is_terminal a \<Longrightarrow> \<not> can_transition_to a b"
  by (cases a; cases b) simp_all

lemma terminal_stuck: "can_transition_to\<^sup>*\<^sup>* a b \<Longrightarrow> is_terminal a \<Longrightarrow> b = a"
  by (induction rule: converse_rtranclp_induct) (auto simp: terminal_no_edge)

section \<open>Updating tables\<close>

lemma length_update_where [simp]: "length (update_where P f t) = length t"
  by (simp add: update_where_def)

lemma evolves_refl [simp]: "evolves r r"
  by (simp add: evolves_def)

lemma update_where_evolves:
  "(\<And>r. r \<in> set t \<Longrightarrow> P r \<Longrightarrow> evolves r (f r)) \<Longrightarrow> list_all2 evolves t (update_where P f t)"
  by (induction t) (auto simp: update_where_def)

lemma all2_evolves_keeps:
  assumes "list_all2 evolves t u"
  shows "map row_id u = map row_id t" "keys_of u = keys_of t"
    "list_all row_ok t \<Longrightarrow> list_all row_ok u"
  using assms by (induction rule: list_all2_induct) (auto simp: evolves_def keys_of_def map_filter_simps split: option.splits)

lemma all2_evolves_refl [simp]: "list_all2 evolves t t"
  by (induction t) simp_all

lemma conflicts_iff: "conflicts t i (Some k) \<longleftrightarrow> i \<in> row_id ` set t \<or> k \<in> set (keys_of t)"
  by (induction t) (auto simp: conflicts_def keys_of_def map_filter_simps split: option.splits)

lemma conflicts_None_iff: "conflicts t i None \<longleftrightarrow> i \<in> row_id ` set t"
  by (induction t) (auto simp: conflicts_def)

lemma keys_of_snoc:
  "keys_of (t @ [r]) = keys_of t @ (case row_idempotency_key r of None \<Rightarrow> [] | Some k \<Rightarrow> [k])"
  by (induction t) (auto simp: keys_of_def map_filter_simps split: option.splits)

lemma new_row_fields [simp]:
  "row_id (new_row now i kind st key tot p s) = i"
  "row_kind (new_row now i kind st key tot p s) = kind"
  "row_state (new_row now i kind st key tot p s) = st"
  "row_idempotency_key (new_row now i kind st key tot p s) = key"
  "row_payload (new_row now i kind st key tot p s) = p"
  "row_error_code (new_row now i kind st key tot p s) = None"
  "row_progress (new_row now i kind st key tot p s) = 0"
  by (simp_all add: new_row_def)

lemma insert_row_ok:
  assumes "job_table_ok t" and "\<not> conflicts t i key" and "parse st \<noteq> None"
  shows "job_table_ok (t @ [new_row now i kind st key tot p s])"
  using assms
  by (cases key) (auto simp: job_table_ok_def keys_of_snoc row_ok_def conflicts_iff conflicts_None_iff)

lemma all2_evolves_ok: "job_table_ok t \<Longrightarrow> list_all2 evolves t u \<Longrightarrow> job_table_ok u"
  using all2_evolves_keeps [of t u] by (simp add: job_table_ok_def)

section \<open>What each writer does to the table\<close>

text \<open>Every writer keeps the rows it finds, in place, and appends at most new rows.\<close>

definition grows :: "'j job_table \<Rightarrow> 'j job_table \<Rightarrow> bool" where
  "grows t t' \<longleftrightarrow> (\<exists>u v. t' = u @ v \<and> list_all2 evolves t u)"

lemma grows_append [simp]: "grows t (t @ v)"
  unfolding grows_def using all2_evolves_refl by blast

lemma grows_refl [simp]: "grows t t"
  using grows_append [of t "[]"] by simp

lemma grows_all2: "list_all2 evolves t u \<Longrightarrow> grows t u"
  unfolding grows_def by (metis append_Nil2)

lemma create_or_get_job_table:
  "create_or_get_job t now i kind key tot = Inr (j, t') \<Longrightarrow>
     t' = (if conflicts t i key then t else t @ [new_row now i kind ''queued'' key tot None None])"
  by (auto simp: create_or_get_job_def Let_def result_simps split: option.splits if_splits)

lemma begin_running_table:
  "begin_running_payload_job t now i kind k p = Inr (b, t') \<Longrightarrow>
     t' = t \<or> (\<not> conflicts t i (Some k) \<and>
       t' = t @ [new_row now i kind ''running'' (Some k) None (Some p) (Some now)])"
  by (auto simp: begin_running_payload_job_def Let_def result_simps split: option.splits if_splits)

lemma swap_evolves:
  "compare_and_swap_running_job_payload t now i kind e n = Inr t' \<Longrightarrow> list_all2 evolves t t'"
  by (auto simp: compare_and_swap_running_job_payload_def Let_def evolves_def row_ok_def
      intro!: update_where_evolves split: if_splits)

lemma finish_evolves:
  assumes "finish_running_payload_job t now i kind e n st ec = Inr t'"
  shows "list_all2 evolves t t'"
  using assms
  by (auto simp: finish_running_payload_job_def Let_def evolves_def row_ok_def running_payload_def
      intro!: update_where_evolves split: if_splits)

lemma transition_write_evolves:
  assumes "can_transition_to cur target" and "transition_write t now i target ec cur = Inr t'"
  shows "list_all2 evolves t t'"
  using assms
  by (auto simp: transition_write_def Let_def evolves_def row_ok_def result_simps
      intro!: update_where_evolves split: if_splits)

lemma progress_evolves:
  "update_job_progress t now i c q = Inr t' \<Longrightarrow> list_all2 evolves t t'"
  by (auto simp: update_job_progress_def evolves_def row_ok_def
      intro!: update_where_evolves split: option.splits if_splits)

lemma reap_evolves:
  assumes "mark_orphaned_running_jobs_failed t now = (n, t')"
  shows "list_all2 evolves t t'"
  using assms
  by (auto simp: mark_orphaned_running_jobs_failed_def evolves_def row_ok_def orphaned_def
      intro!: update_where_evolves)

lemmas writer_evolves =
  swap_evolves finish_evolves transition_write_evolves progress_evolves reap_evolves

lemma job_step_grows: "job_step t t' \<Longrightarrow> grows t t'"
  by (induction rule: job_step.induct)
    (auto dest!: create_or_get_job_table begin_running_table dest: writer_evolves intro: grows_all2)

lemma job_step_ok: "job_step t t' \<Longrightarrow> job_table_ok t \<Longrightarrow> job_table_ok t'"
  by (induction rule: job_step.induct)
    (auto dest!: create_or_get_job_table begin_running_table dest: writer_evolves
      intro: all2_evolves_ok intro!: insert_row_ok)

lemma job_steps_ok: "job_step\<^sup>*\<^sup>* t t' \<Longrightarrow> job_table_ok t \<Longrightarrow> job_table_ok t'"
  by (induction rule: rtranclp_induct) (auto intro: job_step_ok)

lemma grows_row:
  assumes "grows t t'" and "r \<in> set t"
  obtains r' where "r' \<in> set t'" and "evolves r r'"
  using assms unfolding grows_def by (fastforce simp: list_all2_conv_all_nth in_set_conv_nth)

text \<open>The history of one row under any number of steps.\<close>

definition follows :: "'j job_row \<Rightarrow> 'j job_row \<Rightarrow> bool" where
  "follows r r' \<longleftrightarrow>
     row_id r' = row_id r \<and> row_kind r' = row_kind r \<and>
     row_idempotency_key r' = row_idempotency_key r \<and>
     (\<exists>a b. row_state r = as_str a \<and> row_state r' = as_str b \<and>
        can_transition_to\<^sup>*\<^sup>* a b \<and> (is_terminal a \<longrightarrow> b = a))"

lemma follows_evolves: "follows r r' \<Longrightarrow> evolves r' r'' \<Longrightarrow> follows r r''"
  unfolding follows_def evolves_def
  by (auto intro: rtranclp.rtrancl_into_rtrancl dest: terminal_no_edge)

lemma follows_refl: "row_ok r \<Longrightarrow> follows r r"
  by (auto simp: follows_def row_ok_def parse_not_None_iff)



text \<open>
  The constraints of the jobs table (unique ids, unique idempotency keys, states
  inside the vocabulary, progress between 0 and 1) hold after any interleaving of writers.
\<close>

theorem job_table_constraints:
  assumes "job_table_ok t" and "job_step\<^sup>*\<^sup>* t t'"
  shows "job_table_ok t'"
  using assms by (simp add: job_steps_ok)

theorem job_table_constraints_witness:
  "job_table_ok [new_row 1 ''a'' ''import'' ''queued'' (Some ''k'') (Some 3) (None :: nat option) None]"
proof -
  let ?t = "[new_row 1 ''a'' ''import'' ''queued'' (Some ''k'') (Some 3) (None :: nat option) None]"
  have "\<exists>j. create_or_get_job [] 1 ''a'' ''import'' (Some ''k'') (Some 3) = Inr (j, ?t)"
    by (simp add: create_or_get_job_def conflicts_def get_job_by_idempotency_key_def row_by_key_def
        job_from_row_def)
  then have "job_step\<^sup>*\<^sup>* [] ?t" by (blast intro: job_step.create)
  moreover have "job_table_ok ([] :: nat job_table)"
    by (simp add: job_table_ok_def keys_of_def map_filter_simps)
  ultimately show ?thesis using job_table_constraints by blast
qed

section \<open>Reading back\<close>

lemma find_unique_id:
  "distinct (map row_id t) \<Longrightarrow> r \<in> set t \<Longrightarrow> row_by_id t (row_id r) = Some r"
  unfolding row_by_id_def by (induction t) (auto dest: image_eqI [of "row_id r" row_id r])

lemma row_by_id_Some_iff:
  "job_table_ok t \<Longrightarrow> row_by_id t i = Some r \<longleftrightarrow> r \<in> set t \<and> row_id r = i"
  using find_unique_id [of t r]
  by (auto simp: job_table_ok_def row_by_id_def find_Some_iff)

lemma count_where_unique:
  assumes "job_table_ok t" and "\<And>r. P r \<Longrightarrow> row_id r = i"
  shows "count_where P t = (if \<exists>r. row_by_id t i = Some r \<and> P r then 1 else 0)"
proof -
  have d: "distinct (map row_id t)" using assms(1) by (simp add: job_table_ok_def)
  have "count_where P t = (if \<exists>r \<in> set t. P r then 1 else 0)"
    using d unfolding count_where_def
  proof (induction t)
    case (Cons a t)
    have "P a \<Longrightarrow> filter P t = []"
      using Cons.prems assms(2) by (fastforce simp: filter_empty_conv)
    with Cons show ?case by auto
  qed simp
  moreover have "(\<exists>r \<in> set t. P r) \<longleftrightarrow> (\<exists>r. row_by_id t i = Some r \<and> P r)"
    using row_by_id_Some_iff [OF assms(1)] assms(2) by blast
  ultimately show ?thesis by simp
qed

lemma row_by_id_update:
  assumes "\<And>r. row_id (f r) = row_id r"
  shows "row_by_id (update_where P f t) i =
    map_option (\<lambda>r. if P r then f r else r) (row_by_id t i)"
  using assms unfolding row_by_id_def update_where_def by (induction t) auto

lemma running_payload_id: "running_payload i kind e r \<Longrightarrow> row_id r = i"
  by (simp add: running_payload_def)

lemmas count_running_payload = count_where_unique [OF _ running_payload_id]

lemma get_payload_job_Some_iff:
  "get_payload_job t i = Inr (Some pj) \<longleftrightarrow>
     (\<exists>r. row_by_id t i = Some r \<and> read_payload_job_row r = Inr pj)"
  by (auto simp: get_payload_job_def result_simps split: option.splits)

lemma read_payload_job_row_Inr_iff:
  "read_payload_job_row r = Inr pj \<longleftrightarrow>
     row_state r = as_str (pj_state pj) \<and> row_payload r = Some (pj_payload pj) \<and>
     pj_id pj = row_id r \<and> pj_kind pj = row_kind r \<and>
     pj_idempotency_key pj = row_idempotency_key r \<and> pj_error_code pj = row_error_code r"
  by (cases pj) (auto simp: read_payload_job_row_def split: option.splits)

lemma row_by_id_id: "row_by_id t i = Some r \<Longrightarrow> row_id r = i"
  by (auto simp: row_by_id_def find_Some_iff)

lemma running_payload_iff:
  "(\<exists>r. row_by_id t i = Some r \<and> running_payload i kind e r) \<longleftrightarrow>
   (\<exists>pj. get_payload_job t i = Inr (Some pj) \<and> pj_kind pj = kind \<and> pj_state pj = Running \<and>
      pj_payload pj = e)"
proof
  assume "\<exists>r. row_by_id t i = Some r \<and> running_payload i kind e r"
  then obtain r where r: "row_by_id t i = Some r" "running_payload i kind e r" by blast
  let ?pj = "\<lparr>pj_id = i, pj_kind = kind, pj_state = Running,
    pj_idempotency_key = row_idempotency_key r, pj_error_code = row_error_code r, pj_payload = e\<rparr>"
  have "get_payload_job t i = Inr (Some ?pj)"
    using r by (auto simp: get_payload_job_Some_iff read_payload_job_row_Inr_iff running_payload_def)
  then show "\<exists>pj. get_payload_job t i = Inr (Some pj) \<and> pj_kind pj = kind \<and>
      pj_state pj = Running \<and> pj_payload pj = e"
    by (intro exI [of _ ?pj]) simp
next
  assume "\<exists>pj. get_payload_job t i = Inr (Some pj) \<and> pj_kind pj = kind \<and> pj_state pj = Running \<and>
      pj_payload pj = e"
  then show "\<exists>r. row_by_id t i = Some r \<and> running_payload i kind e r"
    by (auto simp: get_payload_job_Some_iff read_payload_job_row_Inr_iff running_payload_def
        dest: row_by_id_id)
qed

lemma swap_eq:
  assumes "job_table_ok t"
  shows "(\<exists>t'. compare_and_swap_running_job_payload t now i kind e n = Inr t') \<longleftrightarrow>
    (\<exists>pj. get_payload_job t i = Inr (Some pj) \<and> pj_kind pj = kind \<and> pj_state pj = Running \<and>
       pj_payload pj = e)"
  unfolding running_payload_iff [symmetric] compare_and_swap_running_job_payload_def Let_def
  by (auto simp: count_running_payload [OF assms])

lemma swap_load:
  assumes "job_table_ok t"
    and "compare_and_swap_running_job_payload t now i kind e n = Inr t'"
    and "get_payload_job t i = Inr (Some pj)"
  shows "get_payload_job t' i = Inr (Some (pj\<lparr>pj_payload := n\<rparr>))"
proof -
  have ex: "\<exists>r. row_by_id t i = Some r \<and> running_payload i kind e r"
    using assms(1,2) by (auto simp: compare_and_swap_running_job_payload_def Let_def
        count_running_payload split: if_splits)
  with assms(2,3) show ?thesis
    by (auto simp: compare_and_swap_running_job_payload_def Let_def get_payload_job_Some_iff
        read_payload_job_row_Inr_iff row_by_id_update split: if_splits)
qed

lemma finish_eq:
  assumes "job_table_ok t"
  shows "(\<exists>t'. finish_running_payload_job t now i kind e n st ec = Inr t') \<longleftrightarrow>
    (st = Succeeded \<or> st = Failed) \<and>
    (\<exists>pj. get_payload_job t i = Inr (Some pj) \<and> pj_kind pj = kind \<and> pj_state pj = Running \<and>
       pj_payload pj = e)"
  unfolding running_payload_iff [symmetric] finish_running_payload_job_def Let_def
  by (auto simp: count_running_payload [OF assms])

lemma finish_load:
  assumes "job_table_ok t"
    and "finish_running_payload_job t now i kind e n st ec = Inr t'"
    and "get_payload_job t i = Inr (Some pj)"
  shows "get_payload_job t' i =
    Inr (Some (pj\<lparr>pj_state := st, pj_error_code := ec, pj_payload := n\<rparr>))"
proof -
  have ex: "\<exists>r. row_by_id t i = Some r \<and> running_payload i kind e r"
    using assms(1,2) by (auto simp: finish_running_payload_job_def Let_def
        count_running_payload split: if_splits)
  with assms(2,3) show ?thesis
    by (auto simp: finish_running_payload_job_def Let_def get_payload_job_Some_iff
        read_payload_job_row_Inr_iff row_by_id_update split: if_splits)
qed

lemma row_by_id_snoc:
  "row_by_id (t @ [r]) i =
     (case row_by_id t i of Some x \<Rightarrow> Some x | None \<Rightarrow> if row_id r = i then Some r else None)"
  by (induction t) (auto simp: row_by_id_def)

lemma row_by_id_None_iff: "row_by_id t i = None \<longleftrightarrow> i \<notin> row_id ` set t"
  by (auto simp: row_by_id_def find_None_iff)

lemma row_by_key_None_iff: "row_by_key t k = None \<longleftrightarrow> k \<notin> set (keys_of t)"
  by (induction t) (auto simp: row_by_key_def keys_of_def map_filter_simps split: option.splits)

lemma begin_cases:
  assumes "begin_running_payload_job t now i kind k p = Inr (b, t')"
  obtains (by_key) r where "row_by_key t k = Some r" "read_payload_job_row r = Inr (begun_job b)"
      "t' = t" "\<not> begun_created b"
  | (by_id) "get_payload_job t i = Inr (Some (begun_job b))" "t' = t" "\<not> begun_created b"
  | (created) "get_payload_job t i = Inr None" "begun_created b"
      "t' = t @ [new_row now i kind ''running'' (Some k) None (Some p) (Some now)]"
      "get_payload_job t' i = Inr (Some (begun_job b))"
proof -
  let ?t = "t @ [new_row now i kind ''running'' (Some k) None (Some p) (Some now)]"
  obtain existing where
    e: "(case row_by_key t k of Some r \<Rightarrow> and_then (read_payload_job_row r) (\<lambda>j. Inr (Some j))
         | None \<Rightarrow> get_payload_job t i) = Inr existing"
    using assms by (auto simp: begin_running_payload_job_def and_then_eq_Inr_iff)
  show thesis
  proof (cases existing)
    case (Some j)
    with assms e have "b = \<lparr>begun_job = j, begun_created = False\<rparr>" "t' = t"
      by (simp_all add: begin_running_payload_job_def)
    with e Some show thesis
      by (cases "row_by_key t k") (auto simp: and_then_eq_Inr_iff intro: by_key by_id)
  next
    case None
    with e have g: "get_payload_job t i = Inr None"
      by (cases "row_by_key t k") (auto simp: and_then_eq_Inr_iff)
    from assms e None have "\<exists>j. get_payload_job ?t i = Inr (Some j) \<and> t' = ?t \<and>
        b = \<lparr>begun_job = j, begun_created = True\<rparr>"
      by (auto simp: begin_running_payload_job_def Let_def and_then_eq_Inr_iff
          split: if_splits option.splits)
    with g show thesis by (auto intro: created)
  qed
qed

lemma get_payload_job_id: "get_payload_job t i = Inr (Some pj) \<Longrightarrow> pj_id pj = i"
  by (auto simp: get_payload_job_Some_iff read_payload_job_row_Inr_iff dest: row_by_id_id)

lemma get_payload_job_None_iff: "get_payload_job t i = Inr None \<longleftrightarrow> row_by_id t i = None"
  by (auto simp: get_payload_job_def result_simps split: option.splits)

lemma begin_load:
  assumes "job_table_ok t" and "begin_running_payload_job t now i kind k p = Inr (b, t')"
  shows "get_payload_job t' (pj_id (begun_job b)) = Inr (Some (begun_job b))"
  using assms(2)
proof (cases rule: begin_cases)
  case (by_key r)
  then have "row_by_id t (row_id r) = Some r"
    using find_unique_id [of t r] assms(1)
    by (auto simp: row_by_key_def find_Some_iff job_table_ok_def)
  moreover have "pj_id (begun_job b) = row_id r"
    using by_key(2) by (simp add: read_payload_job_row_Inr_iff)
  ultimately show ?thesis
    using by_key by (simp add: get_payload_job_Some_iff)
qed (auto simp: get_payload_job_id)

lemma begin_not_created:
  assumes "begin_running_payload_job t now i kind k p = Inr (b, t')" and "\<not> begun_created b"
  shows "t' = t"
  using assms(1) by (cases rule: begin_cases) (use assms(2) in simp_all)

lemma begin_created:
  assumes "begin_running_payload_job t now i kind k p = Inr (b, t')" and "begun_created b"
  shows "begun_job b = \<lparr>pj_id = i, pj_kind = kind, pj_state = Running,
           pj_idempotency_key = Some k, pj_error_code = None, pj_payload = p\<rparr>"
  using assms(1)
proof (cases rule: begin_cases)
  case created
  then show ?thesis
    by (simp add: get_payload_job_def row_by_id_snoc read_payload_job_row_def and_then_eq_Inr_iff
        split: option.splits)
qed (use assms(2) in simp_all)



text \<open>
  Retrying a job request with an idempotency key that has been stored returns
  the very same job and leaves the table alone, whatever id, kind and size the retry carries.
\<close>

theorem create_or_get_job_idempotent:
  assumes "job_table_ok t" and "i \<notin> row_id ` set t \<or> k \<in> set (keys_of t)"
    and "create_or_get_job t now i kind (Some k) tot = Inr (j, t')"
  shows "create_or_get_job t' now' i' kind' (Some k) tot' = Inr (j, t')"
proof -
  have tab: "t' = (if conflicts t i (Some k) then t
      else t @ [new_row now i kind ''queued'' (Some k) tot None None])"
    by (rule create_or_get_job_table [OF assms(3)])
  have k: "k \<in> set (keys_of t')"
    using tab assms(2) by (auto simp: conflicts_iff keys_of_snoc)
  then obtain r where r: "row_by_key t' k = Some r" using row_by_key_None_iff by fastforce
  with assms(3) tab have "job_from_row r = Inr j"
    by (auto simp: create_or_get_job_def Let_def get_job_by_idempotency_key_def result_simps)
  moreover have "conflicts t' i' (Some k)" using k by (simp add: conflicts_iff)
  ultimately show ?thesis
    using r by (simp add: create_or_get_job_def get_job_by_idempotency_key_def)
qed

theorem create_or_get_job_idempotent_witness:
  "\<exists>j t'. create_or_get_job ([] :: nat job_table) 1 ''a'' ''import'' (Some ''k'') None = Inr (j, t') \<and>
     create_or_get_job t' 2 ''b'' ''export'' (Some ''k'') (Some 9) = Inr (j, t')"
proof -
  obtain j t' where c: "create_or_get_job ([] :: nat job_table) 1 ''a'' ''import'' (Some ''k'') None
      = Inr (j, t')"
    by (simp add: create_or_get_job_def conflicts_def get_job_by_idempotency_key_def row_by_key_def
        job_from_row_def)
  have "job_table_ok ([] :: nat job_table)"
    by (simp add: job_table_ok_def keys_of_def map_filter_simps)
  then have "create_or_get_job t' 2 ''b'' ''export'' (Some ''k'') (Some 9) = Inr (j, t')"
    by (rule create_or_get_job_idempotent [OF _ _ c]) simp
  with c show ?thesis by blast
qed

section \<open>Tracked work\<close>

lemma transition_job_enabled:
  assumes ok: "job_table_ok t" and r: "row_by_id t i = Some r" "row_state r = as_str a"
    and edge: "can_transition_to a b"
  obtains t' r' where "transition_job t now i b ec = Inr t'" "job_table_ok t'"
    "row_by_id t' i = Some r'" "row_state r' = as_str b" "row_error_code r' = ec"
    "is_terminal b \<Longrightarrow> row_finished_at r' = Some now"
proof -
  let ?P = "\<lambda>r. row_id r = i \<and> row_state r = as_str a"
  have rd: "transition_read t i b = Inr a"
    using r edge by (simp add: transition_read_def get_job_def job_from_row_def)
  have "count_where ?P t = 1"
    using count_where_unique [OF ok, of ?P i] r row_by_id_id [OF r(1)] by auto
  then obtain t' where w: "transition_write t now i b ec a = Inr t'"
    by (auto simp: transition_write_def)
  have ok': "job_table_ok t'"
    by (rule all2_evolves_ok [OF ok transition_write_evolves [OF edge w]])
  from w r row_by_id_id [OF r(1)] obtain r' where "row_by_id t' i = Some r'"
    "row_state r' = as_str b" "row_error_code r' = ec" "is_terminal b \<Longrightarrow> row_finished_at r' = Some now"
    by (auto simp: transition_write_def Let_def row_by_id_update and_then_eq_Inr_iff split: if_splits)
  with rd w ok' show thesis by (intro that [of t']) (simp_all add: transition_job_def)
qed

text \<open>
  Tracked work is recorded truthfully. For a fresh job id, and work that leaves
  its own job row alone, \<open>run_tracked\<close> runs the work on a table where the job is running, returns
  exactly what the work returned, and stores the job as succeeded with no error code or as failed
  with the given error code accordingly, with its finish time.
\<close>

theorem run_tracked_records_outcome:
  assumes "job_table_ok t" and "i \<notin> row_id ` set t"
    and own: "\<forall>u. job_table_ok u \<longrightarrow>
      job_table_ok (snd (work u)) \<and> row_by_id (snd (work u)) i = row_by_id u i"
  shows "\<exists>t2 r2 t4 r. row_by_id t2 i = Some r2 \<and> row_state r2 = as_str Running \<and>
    run_tracked t now i kind ec work = (fst (work t2), t4) \<and> row_by_id t4 i = Some r \<and>
    row_state r = as_str (if is_ok (fst (work t2)) then Succeeded else Failed) \<and>
    row_error_code r = (if is_ok (fst (work t2)) then None else Some ec) \<and>
    row_finished_at r = Some now"
proof -
  let ?n = "new_row now i kind ''queued'' None None None None"
  have fresh: "row_by_id t i = None" "\<not> conflicts t i None"
    using assms(2) by (simp_all add: row_by_id_None_iff conflicts_None_iff)
  have ok1: "job_table_ok (t @ [?n])"
    using insert_row_ok [OF assms(1) fresh(2), of "''queued''"] by simp
  have get1: "row_by_id (t @ [?n]) i = Some ?n" using fresh by (simp add: row_by_id_snoc)
  have q: "row_state ?n = as_str Queued" by simp
  have c: "\<exists>j. create_or_get_job t now i kind None None = Inr (j, t @ [?n])"
    using fresh get1 by (simp add: create_or_get_job_def get_job_def job_from_row_def)
  obtain t2 r2 where t2: "transition_job (t @ [?n]) now i Running None = Inr t2" "job_table_ok t2"
      "row_by_id t2 i = Some r2" "row_state r2 = as_str Running"
    using transition_job_enabled [OF ok1 get1 q] can_transition_to.simps(1) by metis
  obtain res t3 where w: "work t2 = (res, t3)" by fastforce
  with own t2 have t3: "job_table_ok t3" "row_by_id t3 i = Some r2" by force+
  define target where "target = (if is_ok res then Succeeded else Failed)"
  define code where "code = (if is_ok res then None else Some ec)"
  have "can_transition_to Running target" by (simp add: target_def)
  then obtain t4 r4 where t4: "transition_job t3 now i target code = Inr t4"
      "row_by_id t4 i = Some r4" "row_state r4 = as_str target" "row_error_code r4 = code"
      "row_finished_at r4 = Some now"
    using transition_job_enabled [OF t3 t2(4)] by (metis is_terminal.simps(1,2) target_def)
  have "run_tracked t now i kind ec work = (res, t4)"
    using c t2(1) w t4(1) by (cases res) (auto simp: run_tracked_def target_def code_def)
  then show ?thesis
    using t2(3,4) t4(2-) w
    by (intro exI [of _ t2] exI [of _ r2] exI [of _ t4] exI [of _ r4]) (simp add: target_def code_def)
qed

theorem run_tracked_records_outcome_witness:
  "\<exists>t4 r. run_tracked ([] :: nat job_table) 4 ''x'' ''export_dataset'' ''EXPORT_FAILED''
      (\<lambda>t. (Inl (AppOther ''disk full'') :: app_error + unit, t)) = (Inl (AppOther ''disk full''), t4) \<and>
     row_by_id t4 ''x'' = Some r \<and> row_state r = as_str Failed \<and>
     row_error_code r = Some ''EXPORT_FAILED''"
proof -
  let ?work = "\<lambda>t :: nat job_table. (Inl (AppOther ''disk full'') :: app_error + unit, t)"
  have "job_table_ok ([] :: nat job_table)"
    by (simp add: job_table_ok_def keys_of_def map_filter_simps)
  from run_tracked_records_outcome [OF this, of "''x''" ?work 4 "''export_dataset''" "''EXPORT_FAILED''"]
  show ?thesis by auto
qed

text \<open>
  the startup reaper fails exactly the orphans. Every running job of a kind that
  cannot resume becomes failed (keeping an error code it already had, else \<open>INTERRUPTED\<close>), no such
  job is left running, running jobs of the resumable kinds and all other rows are untouched, and
  the reported count is the number of rows changed.
\<close>

theorem reaper_fails_exactly_orphans:
  assumes "mark_orphaned_running_jobs_failed t now = (n, t')"
  shows "length t' = length t \<and> list_all (\<lambda>r. \<not> orphaned r) t' \<and>
    n = length (filter orphaned t) \<and>
    (\<forall>k < length t. if orphaned (t ! k)
       then row_state (t' ! k) = ''failed'' \<and> row_error_code (t' ! k) \<noteq> None \<and>
         (row_error_code (t ! k) \<noteq> None \<longrightarrow> row_error_code (t' ! k) = row_error_code (t ! k))
       else t' ! k = t ! k)"
  using assms
  by (auto simp: mark_orphaned_running_jobs_failed_def count_where_def update_where_def
      list_all_iff orphaned_def split: option.splits)

theorem reaper_fails_exactly_orphans_witness:
  "list_all (\<lambda>r. \<not> orphaned r)
     (snd (mark_orphaned_running_jobs_failed
       [new_row 1 ''a'' ''export'' ''running'' None None (None :: nat option) None,
        new_row 1 ''b'' ''model_promotion'' ''running'' None None None None] 7))"
  using reaper_fails_exactly_orphans
    [of "[new_row 1 ''a'' ''export'' ''running'' None None (None :: nat option) None,
        new_row 1 ''b'' ''model_promotion'' ''running'' None None None None]" 7]
  by (metis prod.collapse)

end
