(* ===== verification/Champion_Promotion.thy ===== *)
theory Champion_Promotion
  imports Jobs
begin

text \<open>
  The crash-recoverable champion promotion saga (\<^verbatim>\<open>champion_promotion.rs\<close>).

  The three traits of the source are records of functions: \<open>promotion_journal_ops\<close> over a journal
  state \<open>'s\<close>, \<open>promotion_runtime_ops\<close> over a runtime state \<open>'r\<close> and \<open>checkpoint\<close> over a
  fault-injection state \<open>'c\<close>; the state is passed explicitly in \<open>world\<close>. The JSON codec is serde,
  third-party code: \<open>to_json\<close> and \<open>from_json\<close> are fields of the environment and \<open>codec_ok\<close> states
  their round trip. \<open>database_journal\<close> is the production journal, over the jobs table.

  The loop of \<open>drive\<close> takes fuel; \<open>drive_returns\<close> proves that 12 iterations are always enough.
  The journal contract is the locale \<open>promotion_journal\<close>; it is interpreted on the database.
\<close>

section \<open>Data\<close>

definition MODEL_PROMOTION_JOB_KIND :: string where
  "MODEL_PROMOTION_JOB_KIND = ''model_promotion''"

definition PROMOTION_FAILED :: string where
  "PROMOTION_FAILED = ''PROMOTION_FAILED''"

definition ROLLBACK_UNVERIFIED :: string where
  "ROLLBACK_UNVERIFIED = ''ROLLBACK_UNVERIFIED''"

definition PROMOTION_PAYLOAD_SCHEMA :: nat where
  "PROMOTION_PAYLOAD_SCHEMA = 1"

record exact_deployment_identity =
  model_version_id :: string
  deployment_sha256 :: string

record canary_identity =
  suite_id :: string
  suite_sha256 :: string
  expected_model :: exact_deployment_identity

record promotion_contract =
  incumbent :: exact_deployment_identity
  candidate :: exact_deployment_identity
  scorecard_sha256 :: string
  verdict_sha256 :: string
  canary :: canary_identity

datatype promotion_phase =
    Prepared
  | CandidateDbActivated
  | CandidatePointerPublished
  | CandidateRestarted
  | CandidateVerified
  | RollbackPending
  | RollbackDbRestored
  | RollbackPointerRestored
  | RollbackRestarted
  | RollbackVerified
  | Completed
  | RollbackUnverified

record promotion_failure =
  runtime_code :: string
  operation :: string
  rollback_code :: "string option"

record promotion_payload =
  schema :: nat
  phase :: promotion_phase
  contract :: promotion_contract
  failure :: "promotion_failure option"

record saga_error =
  err_code :: string
  err_detail :: string

datatype promotion_outcome =
    Promoted exact_deployment_identity
  | RolledBack exact_deployment_identity string
  | AlreadyTerminal job_state "string option"

section \<open>Validation\<close>

definition contract_error :: "string \<Rightarrow> saga_error" where
  "contract_error detail = \<lparr>err_code = ''PROMOTION_CONTRACT_INVALID'', err_detail = detail\<rparr>"

definition journal_error :: "string \<Rightarrow> saga_error" where
  "journal_error detail = \<lparr>err_code = ''PROMOTION_JOURNAL_ERROR'', err_detail = detail\<rparr>"

definition rollback_unverified_error :: "string \<Rightarrow> saga_error" where
  "rollback_unverified_error code =
     \<lparr>err_code = ROLLBACK_UNVERIFIED, err_detail = ''incumbent recovery callback failed with '' @ code\<rparr>"

definition is_ascii_digit :: "char \<Rightarrow> bool" where
  "is_ascii_digit c \<longleftrightarrow> 48 \<le> (of_char c :: nat) \<and> (of_char c :: nat) \<le> 57"

definition is_ascii_alphanumeric :: "char \<Rightarrow> bool" where
  "is_ascii_alphanumeric c \<longleftrightarrow>
     is_ascii_digit c \<or> (65 \<le> (of_char c :: nat) \<and> (of_char c :: nat) \<le> 90)
     \<or> (97 \<le> (of_char c :: nat) \<and> (of_char c :: nat) \<le> 122)"

definition is_safe_token :: "string \<Rightarrow> nat \<Rightarrow> bool" where
  "is_safe_token v max_len \<longleftrightarrow>
     v \<noteq> [] \<and> length v \<le> max_len \<and>
     list_all (\<lambda>b. is_ascii_alphanumeric b \<or> b \<in> set ''._:-'') v"

definition validate_token :: "string \<Rightarrow> string \<Rightarrow> nat \<Rightarrow> saga_error + unit" where
  "validate_token label v max_len =
     require (is_safe_token v max_len)
       (contract_error (label @ '' must be 1..='' @ show_nat max_len @ '' safe ASCII token characters''))"

definition validate_sha :: "string \<Rightarrow> string \<Rightarrow> saga_error + unit" where
  "validate_sha label v =
     require (length v = 64 \<and>
         list_all (\<lambda>b. is_ascii_digit b \<or> (97 \<le> (of_char b :: nat) \<and> (of_char b :: nat) \<le> 102)) v)
       (contract_error (label @ '' must be exactly 64 lowercase hexadecimal characters''))"

definition validate_identity :: "string \<Rightarrow> exact_deployment_identity \<Rightarrow> saga_error + unit" where
  "validate_identity label idn =
     and_then (validate_token (label @ ''.modelVersionId'') (model_version_id idn) 160)
       (\<lambda>_. validate_sha (label @ ''.deploymentSha256'') (deployment_sha256 idn))"

definition durable_runtime_code :: "string \<Rightarrow> string" where
  "durable_runtime_code code = (if is_safe_token code 96 then code else ''RUNTIME_ERROR_INVALID_CODE'')"

fun rollback_phase :: "promotion_phase \<Rightarrow> bool" where
  "rollback_phase RollbackPending = True"
| "rollback_phase RollbackDbRestored = True"
| "rollback_phase RollbackPointerRestored = True"
| "rollback_phase RollbackRestarted = True"
| "rollback_phase RollbackVerified = True"
| "rollback_phase RollbackUnverified = True"
| "rollback_phase _ = False"

definition validate_failure :: "promotion_failure option \<Rightarrow> saga_error + unit" where
  "validate_failure fo =
     (case fo of
        None \<Rightarrow> Inr ()
      | Some f \<Rightarrow>
          and_then (validate_token ''failure.runtimeCode'' (runtime_code f) 96) (\<lambda>_.
          and_then (validate_token ''failure.operation'' (operation f) 96) (\<lambda>_.
          (case rollback_code f of
             None \<Rightarrow> Inr ()
           | Some code \<Rightarrow> validate_token ''failure.rollbackCode'' code 96))))"

definition validate_contract :: "promotion_contract \<Rightarrow> saga_error + unit" where
  "validate_contract c =
     and_then (validate_identity ''incumbent'' (incumbent c)) (\<lambda>_.
     and_then (validate_identity ''candidate'' (candidate c)) (\<lambda>_.
     and_then (require (incumbent c \<noteq> candidate c)
                 (contract_error ''candidate is already the exact incumbent'')) (\<lambda>_.
     and_then (validate_sha ''scorecardSha256'' (scorecard_sha256 c)) (\<lambda>_.
     and_then (validate_sha ''verdictSha256'' (verdict_sha256 c)) (\<lambda>_.
     and_then (validate_token ''canary.suiteId'' (suite_id (canary c)) 160) (\<lambda>_.
     and_then (validate_sha ''canary.suiteSha256'' (suite_sha256 (canary c))) (\<lambda>_.
     and_then (validate_identity ''canary.expectedModel'' (expected_model (canary c))) (\<lambda>_.
       require (expected_model (canary c) = candidate c)
         (contract_error ''canary expectedModel must equal the exact candidate identity'')))))))))"

definition validate :: "promotion_payload \<Rightarrow> saga_error + unit" where
  "validate p =
     and_then (require (schema p = PROMOTION_PAYLOAD_SCHEMA)
                 (contract_error (''unsupported promotion payload schema '' @ show_nat (schema p)))) (\<lambda>_.
     and_then (validate_contract (contract p)) (\<lambda>_.
     and_then (validate_failure (failure p)) (\<lambda>_.
       require (rollback_phase (phase p) = (failure p \<noteq> None))
         (contract_error
            ''rollback phases require failure provenance and candidate phases forbid it''))))"

definition prepared :: "promotion_contract \<Rightarrow> saga_error + promotion_payload" where
  "prepared c =
     (let p = \<lparr>schema = PROMOTION_PAYLOAD_SCHEMA, phase = Prepared, contract = c, failure = None\<rparr>
      in and_then (validate p) (\<lambda>_. Inr p))"

section \<open>Traits and the world\<close>

record ('s, 'j) promotion_journal_ops =
  j_begin_running :: "'s \<Rightarrow> string \<Rightarrow> string \<Rightarrow> 'j \<Rightarrow> saga_error + 'j begun_payload_job \<times> 's"
  j_load :: "'s \<Rightarrow> string \<Rightarrow> saga_error + 'j payload_job option"
  j_compare_and_swap :: "'s \<Rightarrow> string \<Rightarrow> 'j \<Rightarrow> 'j \<Rightarrow> saga_error + 's"
  j_finish :: "'s \<Rightarrow> string \<Rightarrow> 'j \<Rightarrow> 'j \<Rightarrow> job_state \<Rightarrow> string option \<Rightarrow> saga_error + 's"

text \<open>A runtime callback returns an error code or succeeds, and changes the runtime.\<close>

type_synonym 'r callback = "'r \<Rightarrow> (string + unit) \<times> 'r"

record 'r promotion_runtime_ops =
  set_database_champion :: "exact_deployment_identity \<Rightarrow> 'r callback"
  publish_champion_pointer :: "exact_deployment_identity \<Rightarrow> 'r callback"
  restart_champion :: "'r callback"
  verify_exact_and_canary :: "exact_deployment_identity \<Rightarrow> canary_identity \<Rightarrow> 'r callback"

type_synonym 'c checkpoint = "promotion_phase \<Rightarrow> 'c \<Rightarrow> (saga_error + unit) \<times> 'c"

definition NoPromotionFault :: "'c checkpoint" where
  "NoPromotionFault ph c = (Inr (), c)"

record ('s, 'j, 'r, 'c) saga_env =
  e_journal :: "('s, 'j) promotion_journal_ops"
  e_runtime :: "'r promotion_runtime_ops"
  e_checkpoint :: "'c checkpoint"
  to_json :: "promotion_payload \<Rightarrow> string + 'j"
  from_json :: "'j \<Rightarrow> string + promotion_payload"

record ('s, 'r, 'c) world =
  w_journal :: 's
  w_runtime :: 'r
  w_checkpoint :: 'c

text \<open>The production journal: the jobs table of the database.\<close>

fun display_app_error :: "app_error \<Rightarrow> string" where
  "display_app_error (AppDatabase m) = ''Database error: '' @ m"
| "display_app_error (AppValidation m) = ''Validation error: '' @ m"
| "display_app_error (AppOther m) = m"

definition map_journal :: "app_error + 'a \<Rightarrow> saga_error + 'a" where
  "map_journal r = (case r of Inl e \<Rightarrow> Inl (journal_error (display_app_error e)) | Inr x \<Rightarrow> Inr x)"

definition database_journal :: "nat \<Rightarrow> ('j job_table, 'j) promotion_journal_ops" where
  "database_journal now =
     \<lparr>j_begin_running = (\<lambda>t i k p.
        map_journal (begin_running_payload_job t now i MODEL_PROMOTION_JOB_KIND k p)),
      j_load = (\<lambda>t i. map_journal (get_payload_job t i)),
      j_compare_and_swap = (\<lambda>t i e n.
        map_journal (compare_and_swap_running_job_payload t now i MODEL_PROMOTION_JOB_KIND e n)),
      j_finish = (\<lambda>t i e n st ec.
        map_journal (finish_running_payload_job t now i MODEL_PROMOTION_JOB_KIND e n st ec))\<rparr>"

section \<open>Steps of the saga\<close>

definition encode_payload :: "('s, 'j, 'r, 'c) saga_env \<Rightarrow> promotion_payload \<Rightarrow> saga_error + 'j" where
  "encode_payload env p = (case to_json env p of Inl m \<Rightarrow> Inl (journal_error m) | Inr j \<Rightarrow> Inr j)"

definition decode_payload :: "('s, 'j, 'r, 'c) saga_env \<Rightarrow> 'j \<Rightarrow> saga_error + promotion_payload" where
  "decode_payload env j =
     (case from_json env j of
        Inl m \<Rightarrow> Inl (journal_error m)
      | Inr p \<Rightarrow> and_then (validate p) (\<lambda>_. Inr p))"

definition call_runtime ::
  "'r callback \<Rightarrow> ('s, 'r, 'c) world \<Rightarrow> (string + unit) \<times> ('s, 'r, 'c) world"
where
  "call_runtime f w = (case f (w_runtime w) of (res, r') \<Rightarrow> (res, w\<lparr>w_runtime := r'\<rparr>))"

definition call_checkpoint ::
  "('s, 'j, 'r, 'c) saga_env \<Rightarrow> promotion_phase \<Rightarrow> ('s, 'r, 'c) world
     \<Rightarrow> (saga_error + unit) \<times> ('s, 'r, 'c) world"
where
  "call_checkpoint env ph w =
     (case e_checkpoint env ph (w_checkpoint w) of (res, c') \<Rightarrow> (res, w\<lparr>w_checkpoint := c'\<rparr>))"

text \<open>\<open>advance_phase\<close> returns the new journal bytes, which the source writes through \<open>current_json\<close>.\<close>

definition advance_phase ::
  "('s, 'j, 'r, 'c) saga_env \<Rightarrow> string \<Rightarrow> promotion_payload \<Rightarrow> 'j \<Rightarrow> promotion_phase
     \<Rightarrow> ('s, 'r, 'c) world \<Rightarrow> (saga_error + 'j) \<times> ('s, 'r, 'c) world"
where
  "advance_phase env i p cur ph w =
     (let p' = p\<lparr>phase := ph\<rparr> in
      case and_then (validate p') (\<lambda>_. encode_payload env p') of
        Inl e \<Rightarrow> (Inl e, w)
      | Inr nj \<Rightarrow>
          (case j_compare_and_swap (e_journal env) (w_journal w) i cur nj of
             Inl e \<Rightarrow> (Inl e, w)
           | Inr s' \<Rightarrow>
               (case call_checkpoint env ph (w\<lparr>w_journal := s'\<rparr>) of
                  (Inl e, w') \<Rightarrow> (Inl e, w') | (Inr _, w') \<Rightarrow> (Inr nj, w'))))"

definition finish_phase ::
  "('s, 'j, 'r, 'c) saga_env \<Rightarrow> string \<Rightarrow> promotion_payload \<Rightarrow> 'j \<Rightarrow> promotion_phase \<Rightarrow> job_state
     \<Rightarrow> string option \<Rightarrow> ('s, 'r, 'c) world \<Rightarrow> (saga_error + unit) \<times> ('s, 'r, 'c) world"
where
  "finish_phase env i p cur ph st ec w =
     (let p' = p\<lparr>phase := ph\<rparr> in
      case and_then (validate p') (\<lambda>_. encode_payload env p') of
        Inl e \<Rightarrow> (Inl e, w)
      | Inr fj \<Rightarrow>
          (case j_finish (e_journal env) (w_journal w) i cur fj st ec of
             Inl e \<Rightarrow> (Inl e, w)
           | Inr s' \<Rightarrow> call_checkpoint env ph (w\<lparr>w_journal := s'\<rparr>)))"

definition begin_rollback ::
  "('s, 'j, 'r, 'c) saga_env \<Rightarrow> string \<Rightarrow> promotion_payload \<Rightarrow> 'j \<Rightarrow> string \<Rightarrow> string
     \<Rightarrow> ('s, 'r, 'c) world \<Rightarrow> (saga_error + 'j) \<times> ('s, 'r, 'c) world"
where
  "begin_rollback env i p cur op code w =
     advance_phase env i
       (p\<lparr>failure := Some \<lparr>runtime_code = durable_runtime_code code, operation = op,
                          rollback_code = None\<rparr>\<rparr>) cur RollbackPending w"

definition finish_rollback_unverified ::
  "('s, 'j, 'r, 'c) saga_env \<Rightarrow> string \<Rightarrow> promotion_payload \<Rightarrow> 'j \<Rightarrow> string
     \<Rightarrow> ('s, 'r, 'c) world \<Rightarrow> (saga_error + promotion_outcome) \<times> ('s, 'r, 'c) world"
where
  "finish_rollback_unverified env i p cur err w =
     (let code = durable_runtime_code err in
      case failure p of
        None \<Rightarrow> (Inl (contract_error ''rollback failed without original failure provenance''), w)
      | Some f \<Rightarrow>
          (case finish_phase env i (p\<lparr>failure := Some (f\<lparr>rollback_code := Some code\<rparr>)\<rparr>) cur
                  RollbackUnverified Failed (Some ROLLBACK_UNVERIFIED) w of
             (Inl e, w') \<Rightarrow> (Inl e, w')
           | (Inr _, w') \<Rightarrow> (Inl (rollback_unverified_error code), w')))"

definition rollback_canary :: "promotion_contract \<Rightarrow> canary_identity" where
  "rollback_canary c =
     \<lparr>suite_id = suite_id (canary c), suite_sha256 = suite_sha256 (canary c),
      expected_model = incumbent c\<rparr>"

fun debug_phase :: "promotion_phase \<Rightarrow> string" where
  "debug_phase Prepared = ''Prepared''"
| "debug_phase CandidateDbActivated = ''CandidateDbActivated''"
| "debug_phase CandidatePointerPublished = ''CandidatePointerPublished''"
| "debug_phase CandidateRestarted = ''CandidateRestarted''"
| "debug_phase CandidateVerified = ''CandidateVerified''"
| "debug_phase RollbackPending = ''RollbackPending''"
| "debug_phase RollbackDbRestored = ''RollbackDbRestored''"
| "debug_phase RollbackPointerRestored = ''RollbackPointerRestored''"
| "debug_phase RollbackRestarted = ''RollbackRestarted''"
| "debug_phase RollbackVerified = ''RollbackVerified''"
| "debug_phase Completed = ''Completed''"
| "debug_phase RollbackUnverified = ''RollbackUnverified''"

text \<open>\<open>{:?}\<close> of an optional error code, for codes that need no escaping.\<close>

fun debug_code :: "string option \<Rightarrow> string" where
  "debug_code None = ''None''"
| "debug_code (Some c) = ''Some('' @ [CHR 0x22] @ c @ [CHR 0x22] @ '')''"

text \<open>One iteration of the loop either continues with new journal bytes or returns.\<close>

datatype 'j drive_next = Continue 'j | Return promotion_outcome

definition continue_with ::
  "(saga_error + 'j) \<times> ('s, 'r, 'c) world \<Rightarrow> (saga_error + 'j drive_next) \<times> ('s, 'r, 'c) world"
where
  "continue_with r = (case r of (Inl e, w) \<Rightarrow> (Inl e, w) | (Inr nj, w) \<Rightarrow> (Inr (Continue nj), w))"

definition return_with ::
  "(saga_error + promotion_outcome) \<times> ('s, 'r, 'c) world
     \<Rightarrow> (saga_error + 'j drive_next) \<times> ('s, 'r, 'c) world"
where
  "return_with r = (case r of (Inl e, w) \<Rightarrow> (Inl e, w) | (Inr out, w) \<Rightarrow> (Inr (Return out), w))"

text \<open>A candidate step: advance on success, begin the rollback on failure.\<close>

definition candidate_step ::
  "('s, 'j, 'r, 'c) saga_env \<Rightarrow> string \<Rightarrow> promotion_payload \<Rightarrow> 'j \<Rightarrow> 'r callback \<Rightarrow> promotion_phase
     \<Rightarrow> string \<Rightarrow> ('s, 'r, 'c) world \<Rightarrow> (saga_error + 'j drive_next) \<times> ('s, 'r, 'c) world"
where
  "candidate_step env i p cur f ph op w =
     (case call_runtime f w of
        (Inr _, w1) \<Rightarrow> continue_with (advance_phase env i p cur ph w1)
      | (Inl code, w1) \<Rightarrow> continue_with (begin_rollback env i p cur op code w1))"

text \<open>A rollback step: advance on success, give up as unverified on failure.\<close>

definition rollback_step ::
  "('s, 'j, 'r, 'c) saga_env \<Rightarrow> string \<Rightarrow> promotion_payload \<Rightarrow> 'j \<Rightarrow> 'r callback \<Rightarrow> promotion_phase
     \<Rightarrow> ('s, 'r, 'c) world \<Rightarrow> (saga_error + 'j drive_next) \<times> ('s, 'r, 'c) world"
where
  "rollback_step env i p cur f ph w =
     (case call_runtime f w of
        (Inr _, w1) \<Rightarrow> continue_with (advance_phase env i p cur ph w1)
      | (Inl code, w1) \<Rightarrow> return_with (finish_rollback_unverified env i p cur code w1))"

definition drive_phase ::
  "('s, 'j, 'r, 'c) saga_env \<Rightarrow> string \<Rightarrow> promotion_payload \<Rightarrow> 'j
     \<Rightarrow> ('s, 'r, 'c) world \<Rightarrow> (saga_error + 'j drive_next) \<times> ('s, 'r, 'c) world"
where
  "drive_phase env i p cur w =
     (let R = e_runtime env; c = contract p in
      case phase p of
        Prepared \<Rightarrow> candidate_step env i p cur (set_database_champion R (candidate c))
          CandidateDbActivated ''set_candidate_database'' w
      | CandidateDbActivated \<Rightarrow> candidate_step env i p cur (publish_champion_pointer R (candidate c))
          CandidatePointerPublished ''publish_candidate_pointer'' w
      | CandidatePointerPublished \<Rightarrow> candidate_step env i p cur (restart_champion R)
          CandidateRestarted ''restart_candidate'' w
      | CandidateRestarted \<Rightarrow>
          candidate_step env i p cur (verify_exact_and_canary R (candidate c) (canary c))
            CandidateVerified ''verify_candidate_exact_and_canary'' w
      | CandidateVerified \<Rightarrow>
          (case call_runtime (verify_exact_and_canary R (candidate c) (canary c)) w of
             (Inr _, w1) \<Rightarrow>
               (case finish_phase env i p cur Completed Succeeded None w1 of
                  (Inl e, w2) \<Rightarrow> (Inl e, w2)
                | (Inr _, w2) \<Rightarrow> (Inr (Return (Promoted (candidate c))), w2))
           | (Inl code, w1) \<Rightarrow>
               continue_with (begin_rollback env i p cur ''final_candidate_reverification'' code w1))
      | RollbackPending \<Rightarrow> rollback_step env i p cur (set_database_champion R (incumbent c))
          RollbackDbRestored w
      | RollbackDbRestored \<Rightarrow> rollback_step env i p cur (publish_champion_pointer R (incumbent c))
          RollbackPointerRestored w
      | RollbackPointerRestored \<Rightarrow> rollback_step env i p cur (restart_champion R) RollbackRestarted w
      | RollbackRestarted \<Rightarrow>
          rollback_step env i p cur (verify_exact_and_canary R (incumbent c) (rollback_canary c))
            RollbackVerified w
      | RollbackVerified \<Rightarrow>
          (case call_runtime (verify_exact_and_canary R (incumbent c) (rollback_canary c)) w of
             (Inl code, w1) \<Rightarrow> return_with (finish_rollback_unverified env i p cur code w1)
           | (Inr _, w1) \<Rightarrow>
               (case failure p of
                  None \<Rightarrow> (Inl (contract_error
                    ''rollback verified without original failure provenance''), w1)
                | Some f \<Rightarrow>
                    (case finish_phase env i p cur RollbackVerified Failed (Some PROMOTION_FAILED) w1 of
                       (Inl e, w2) \<Rightarrow> (Inl e, w2)
                     | (Inr _, w2) \<Rightarrow> (Inr (Return (RolledBack (incumbent c) (runtime_code f))), w2))))
      | _ \<Rightarrow> (Inl (contract_error (''terminal phase '' @ debug_phase (phase p)
          @ '' persisted on a running job'')), w))"

fun drive ::
  "nat \<Rightarrow> ('s, 'j, 'r, 'c) saga_env \<Rightarrow> string \<Rightarrow> 'j \<Rightarrow> ('s, 'r, 'c) world
     \<Rightarrow> ((saga_error + promotion_outcome) \<times> ('s, 'r, 'c) world) option"
where
  "drive 0 env i cur w = None"
| "drive (Suc fuel) env i cur w =
     (case decode_payload env cur of
        Inl e \<Rightarrow> Some (Inl e, w)
      | Inr p \<Rightarrow>
          (case drive_phase env i p cur w of
             (Inl e, w') \<Rightarrow> Some (Inl e, w')
           | (Inr (Return out), w') \<Rightarrow> Some (Inr out, w')
           | (Inr (Continue nj), w') \<Rightarrow> drive fuel env i nj w'))"

definition DRIVE_FUEL :: nat where
  "DRIVE_FUEL = 12"

section \<open>Entry points\<close>

definition terminal_outcome ::
  "('s, 'j, 'r, 'c) saga_env \<Rightarrow> 'j payload_job \<Rightarrow> saga_error + promotion_outcome"
where
  "terminal_outcome env pj =
     and_then (decode_payload env (pj_payload pj)) (\<lambda>p.
       let st = pj_state pj; ec = pj_error_code pj; ph = phase p;
           valid = (st = Succeeded \<and> ec = None \<and> ph = Completed)
                 \<or> (st = Failed \<and> ec = Some PROMOTION_FAILED \<and> ph = RollbackVerified)
                 \<or> (st = Failed \<and> ec = Some ROLLBACK_UNVERIFIED \<and> ph = RollbackUnverified)
       in if \<not> valid then Inl (contract_error (''terminal job state/error/phase disagree: '' @ as_str st @ ''/''
            @ debug_code ec @ ''/'' @ debug_phase ph))
          else Inr (AlreadyTerminal st ec))"

definition validate_begun_job ::
  "('s, 'j, 'r, 'c) saga_env \<Rightarrow> 'j payload_job \<Rightarrow> string \<Rightarrow> string \<Rightarrow> promotion_contract \<Rightarrow> saga_error + unit"
where
  "validate_begun_job env pj i key c =
     and_then (require (pj_id pj = i \<and> pj_kind pj = MODEL_PROMOTION_JOB_KIND)
       (contract_error ''job id/idempotency collision belongs to a different durable operation'')) (\<lambda>_.
     and_then (require (pj_idempotency_key pj = Some key)
       (contract_error ''job id collision has a different idempotency key'')) (\<lambda>_.
     and_then (decode_payload env (pj_payload pj)) (\<lambda>persisted.
       require (contract persisted = c)
         (contract_error ''idempotency key already pins a different promotion contract''))))"

definition start_promotion_with_checkpoint ::
  "('s, 'j, 'r, 'c) saga_env \<Rightarrow> string \<Rightarrow> string \<Rightarrow> promotion_contract \<Rightarrow> ('s, 'r, 'c) world
     \<Rightarrow> ((saga_error + promotion_outcome) \<times> ('s, 'r, 'c) world) option"
where
  "start_promotion_with_checkpoint env i key c w =
     (case and_then (validate_token ''jobId'' i 160) (\<lambda>_.
           and_then (validate_token ''idempotencyKey'' key 200) (\<lambda>_.
           and_then (prepared c) (\<lambda>initial.
           and_then (encode_payload env initial) (\<lambda>json.
             j_begin_running (e_journal env) (w_journal w) i key json)))) of
        Inl e \<Rightarrow> Some (Inl e, w)
      | Inr (begun, s') \<Rightarrow>
          (let w1 = w\<lparr>w_journal := s'\<rparr> in
           case validate_begun_job env (begun_job begun) i key c of
             Inl e \<Rightarrow> Some (Inl e, w1)
           | Inr _ \<Rightarrow>
               (case (if begun_created begun then call_checkpoint env Prepared w1 else (Inr (), w1)) of
                  (Inl e, w2) \<Rightarrow> Some (Inl e, w2)
                | (Inr _, w2) \<Rightarrow>
                    if is_terminal (pj_state (begun_job begun))
                    then Some (terminal_outcome env (begun_job begun), w2)
                    else drive DRIVE_FUEL env i (pj_payload (begun_job begun)) w2)))"

definition start_promotion ::
  "('s, 'j, 'r, unit) saga_env \<Rightarrow> string \<Rightarrow> string \<Rightarrow> promotion_contract \<Rightarrow> ('s, 'r, unit) world
     \<Rightarrow> ((saga_error + promotion_outcome) \<times> ('s, 'r, unit) world) option"
where
  "start_promotion env i key c w =
     start_promotion_with_checkpoint (env\<lparr>e_checkpoint := NoPromotionFault\<rparr>) i key c w"

definition resume_promotion_with_checkpoint ::
  "('s, 'j, 'r, 'c) saga_env \<Rightarrow> string \<Rightarrow> ('s, 'r, 'c) world
     \<Rightarrow> ((saga_error + promotion_outcome) \<times> ('s, 'r, 'c) world) option"
where
  "resume_promotion_with_checkpoint env i w =
     (case j_load (e_journal env) (w_journal w) i of
        Inl e \<Rightarrow> Some (Inl e, w)
      | Inr None \<Rightarrow> Some (Inl (contract_error (''promotion job '' @ i @ '' does not exist'')), w)
      | Inr (Some pj) \<Rightarrow>
          if pj_kind pj \<noteq> MODEL_PROMOTION_JOB_KIND
          then Some (Inl (contract_error (''job '' @ i @ '' is kind '' @ pj_kind pj @ '', not ''
                 @ MODEL_PROMOTION_JOB_KIND)), w)
          else if is_terminal (pj_state pj) then Some (terminal_outcome env pj, w)
          else if pj_state pj \<noteq> Running
          then Some (Inl (contract_error (''promotion job '' @ i @ '' is '' @ as_str (pj_state pj)
                 @ '', not running'')), w)
          else drive DRIVE_FUEL env i (pj_payload pj) w)"

definition resume_promotion ::
  "('s, 'j, 'r, unit) saga_env \<Rightarrow> string \<Rightarrow> ('s, 'r, unit) world
     \<Rightarrow> ((saga_error + promotion_outcome) \<times> ('s, 'r, unit) world) option"
where
  "resume_promotion env i w =
     resume_promotion_with_checkpoint (env\<lparr>e_checkpoint := NoPromotionFault\<rparr>) i w"

definition running_promotions :: "'j job_table \<Rightarrow> app_error + 'j payload_job list" where
  "running_promotions t = list_running_payload_jobs t MODEL_PROMOTION_JOB_KIND"

section \<open>Validity\<close>

lemma unit_result: "r = Inr u \<longleftrightarrow> is_ok r" for u :: unit
  by (cases r) simp_all

lemma validate_iff:
  "is_ok (validate p) \<longleftrightarrow>
     schema p = PROMOTION_PAYLOAD_SCHEMA \<and> is_ok (validate_contract (contract p)) \<and>
     is_ok (validate_failure (failure p)) \<and> rollback_phase (phase p) = (failure p \<noteq> None)"
  by (auto simp: validate_def is_ok_iff and_then_eq_Inr_iff)

lemma validate_failure_iff:
  "is_ok (validate_failure (Some f)) \<longleftrightarrow>
     is_safe_token (runtime_code f) 96 \<and> is_safe_token (operation f) 96 \<and>
     (\<forall>c. rollback_code f = Some c \<longrightarrow> is_safe_token c 96)"
  by (auto simp: validate_failure_def validate_token_def is_ok_iff and_then_eq_Inr_iff
      split: option.splits)

lemma validate_failure_None [simp]: "is_ok (validate_failure None)"
  by (simp add: validate_failure_def)

lemma durable_runtime_code_safe [simp]: "is_safe_token (durable_runtime_code c) 96"
proof -
  have "is_safe_token ''RUNTIME_ERROR_INVALID_CODE'' 96" by code_simp
  then show ?thesis by (simp add: durable_runtime_code_def)
qed

definition rollback_operations :: "string list" where
  "rollback_operations = [''set_candidate_database'', ''publish_candidate_pointer'',
     ''restart_candidate'', ''verify_candidate_exact_and_canary'', ''final_candidate_reverification'']"

lemma rollback_operations_safe: "op \<in> set rollback_operations \<Longrightarrow> is_safe_token op 96"
proof -
  have "list_all (\<lambda>op. is_safe_token op 96) rollback_operations" by code_simp
  then show "op \<in> set rollback_operations \<Longrightarrow> is_safe_token op 96" by (simp add: list_all_iff)
qed

lemma rollback_payload_valid:
  "is_ok (validate p) \<Longrightarrow> op \<in> set rollback_operations \<Longrightarrow>
   is_ok (validate (p\<lparr>failure := Some \<lparr>runtime_code = durable_runtime_code code, operation = op,
      rollback_code = None\<rparr>, phase := RollbackPending\<rparr>))"
  by (simp add: validate_iff validate_failure_iff rollback_operations_safe)

lemma unverified_payload_valid:
  "is_ok (validate p) \<Longrightarrow> failure p = Some f \<Longrightarrow>
   is_ok (validate (p\<lparr>failure := Some (f\<lparr>rollback_code := Some (durable_runtime_code code)\<rparr>),
      phase := RollbackUnverified\<rparr>))"
  by (simp add: validate_iff validate_failure_iff)

lemma same_side_valid:
  "is_ok (validate p) \<Longrightarrow> rollback_phase ph = rollback_phase (phase p) \<Longrightarrow>
   is_ok (validate (p\<lparr>phase := ph\<rparr>))"
  by (simp add: validate_iff)

section \<open>What the journal knows\<close>

text \<open>serde's round trip: every payload serialises, and reading it back gives the same payload.\<close>

definition codec_ok :: "('s, 'j, 'r, 'c) saga_env \<Rightarrow> bool" where
  "codec_ok env \<longleftrightarrow> (\<forall>p. \<exists>j. to_json env p = Inr j \<and> from_json env j = Inr p)"

text \<open>The job is running with these journal bytes, which decode to a valid payload.\<close>

definition promotion_at ::
  "('s, 'j, 'r, 'c) saga_env \<Rightarrow> 's \<Rightarrow> string \<Rightarrow> 'j \<Rightarrow> promotion_payload \<Rightarrow> bool"
where
  "promotion_at env s i cur p \<longleftrightarrow>
     (\<exists>pj. j_load (e_journal env) s i = Inr (Some pj) \<and> pj_kind pj = MODEL_PROMOTION_JOB_KIND \<and>
        pj_state pj = Running \<and> pj_payload pj = cur) \<and>
     decode_payload env cur = Inr p"

text \<open>The job is stored with this state and error code, and a payload that decodes to \<open>p\<close>.\<close>

definition promotion_done ::
  "('s, 'j, 'r, 'c) saga_env \<Rightarrow> 's \<Rightarrow> string \<Rightarrow> job_state \<Rightarrow> string option \<Rightarrow> promotion_payload \<Rightarrow> bool"
where
  "promotion_done env s i st ec p \<longleftrightarrow>
     (\<exists>pj. j_load (e_journal env) s i = Inr (Some pj) \<and> pj_kind pj = MODEL_PROMOTION_JOB_KIND \<and>
        pj_state pj = st \<and> pj_error_code pj = ec \<and> decode_payload env (pj_payload pj) = Inr p)"

definition terminal_triple :: "job_state \<Rightarrow> string option \<Rightarrow> promotion_phase \<Rightarrow> bool" where
  "terminal_triple st ec ph \<longleftrightarrow>
     (st = Succeeded \<and> ec = None \<and> ph = Completed)
     \<or> (st = Failed \<and> ec = Some PROMOTION_FAILED \<and> ph = RollbackVerified)
     \<or> (st = Failed \<and> ec = Some ROLLBACK_UNVERIFIED \<and> ph = RollbackUnverified)"

text \<open>
  The recovery invariant: the job of contract \<open>c\<close> is either resumable (running, at a phase the loop
  handles) or finished with agreeing state, error code and phase.
\<close>

definition saga_state ::
  "('s, 'j, 'r, 'c) saga_env \<Rightarrow> 's \<Rightarrow> string \<Rightarrow> promotion_contract \<Rightarrow> bool"
where
  "saga_state env s i c \<longleftrightarrow>
     (\<exists>cur p. promotion_at env s i cur p \<and> contract p = c \<and> phase p \<notin> {Completed, RollbackUnverified})
     \<or> (\<exists>st ec p. promotion_done env s i st ec p \<and> contract p = c \<and> terminal_triple st ec (phase p))"

fun phase_rank :: "promotion_phase \<Rightarrow> nat" where
  "phase_rank Prepared = 0"
| "phase_rank CandidateDbActivated = 1"
| "phase_rank CandidatePointerPublished = 2"
| "phase_rank CandidateRestarted = 3"
| "phase_rank CandidateVerified = 4"
| "phase_rank RollbackPending = 5"
| "phase_rank RollbackDbRestored = 6"
| "phase_rank RollbackPointerRestored = 7"
| "phase_rank RollbackRestarted = 8"
| "phase_rank RollbackVerified = 9"
| "phase_rank Completed = 10"
| "phase_rank RollbackUnverified = 11"

text \<open>
  What a returned result says about the world it leaves: a promotion was verified live as the last
  runtime call and is recorded as succeeded; a rollback was verified live on the incumbent and is
  recorded as failed; an error is an injected fault or an unverifiable rollback, recorded as such;
  in every case the recovery invariant holds.
\<close>

definition result_ok ::
  "('s, 'j, 'r, 'c) saga_env \<Rightarrow> string \<Rightarrow> promotion_contract
     \<Rightarrow> (saga_error + promotion_outcome) \<times> ('s, 'r, 'c) world \<Rightarrow> bool"
where
  "result_ok env i c rw \<longleftrightarrow> saga_state env (w_journal (snd rw)) i c \<and>
     (case fst rw of
        Inr (Promoted idn) \<Rightarrow>
          idn = candidate c \<and>
          (\<exists>p. promotion_done env (w_journal (snd rw)) i Succeeded None p \<and> phase p = Completed \<and>
             contract p = c) \<and>
          (\<exists>r0. verify_exact_and_canary (e_runtime env) (candidate c) (canary c) r0
             = (Inr (), w_runtime (snd rw)))
      | Inr (RolledBack idn code) \<Rightarrow>
          idn = incumbent c \<and>
          (\<exists>p f. promotion_done env (w_journal (snd rw)) i Failed (Some PROMOTION_FAILED) p \<and>
             phase p = RollbackVerified \<and> contract p = c \<and> failure p = Some f \<and> runtime_code f = code) \<and>
          (\<exists>r0. verify_exact_and_canary (e_runtime env) (incumbent c) (rollback_canary c) r0
             = (Inr (), w_runtime (snd rw)))
      | Inr (AlreadyTerminal st ec) \<Rightarrow>
          (\<exists>p. promotion_done env (w_journal (snd rw)) i st ec p \<and> contract p = c \<and>
             terminal_triple st ec (phase p))
      | Inl e \<Rightarrow>
          (\<exists>ph k. fst (e_checkpoint env ph k) = Inl e) \<or>
          (\<exists>p code. e = rollback_unverified_error code \<and>
             promotion_done env (w_journal (snd rw)) i Failed (Some ROLLBACK_UNVERIFIED) p \<and>
             phase p = RollbackUnverified \<and> contract p = c))"

definition step_ok ::
  "('s, 'j, 'r, 'c) saga_env \<Rightarrow> string \<Rightarrow> promotion_payload
     \<Rightarrow> (saga_error + 'j drive_next) \<times> ('s, 'r, 'c) world \<Rightarrow> bool"
where
  "step_ok env i p rw \<longleftrightarrow>
     (case fst rw of
        Inr (Continue nj) \<Rightarrow>
          (\<exists>p'. promotion_at env (w_journal (snd rw)) i nj p' \<and> contract p' = contract p \<and>
             phase_rank (phase p) < phase_rank (phase p') \<and> phase p' \<notin> {Completed, RollbackUnverified})
      | Inr (Return out) \<Rightarrow> result_ok env i (contract p) (Inr out, snd rw)
      | Inl e \<Rightarrow> result_ok env i (contract p) (Inl e, snd rw))"

lemma promotion_at_saga_state:
  "promotion_at env s i cur p \<Longrightarrow> phase p \<notin> {Completed, RollbackUnverified} \<Longrightarrow>
     saga_state env s i (contract p)"
  unfolding saga_state_def by blast

lemma promotion_done_saga_state:
  "promotion_done env s i st ec p \<Longrightarrow> terminal_triple st ec (phase p) \<Longrightarrow>
     saga_state env s i (contract p)"
  unfolding saga_state_def by blast

lemma decode_payload_valid: "decode_payload env j = Inr p \<Longrightarrow> is_ok (validate p)"
  by (auto simp: decode_payload_def and_then_eq_Inr_iff is_ok_iff split: sum.splits)

lemma codec_decode:
  assumes "codec_ok env" and "encode_payload env p = Inr j" and "is_ok (validate p)"
  shows "decode_payload env j = Inr p"
proof -
  obtain j' where j': "to_json env p = Inr j'" "from_json env j' = Inr p"
    using assms(1) unfolding codec_ok_def by blast
  with assms(2) have "j' = j" by (simp add: encode_payload_def)
  with j' assms(3) show ?thesis by (auto simp: decode_payload_def is_ok_iff)
qed

lemma promotion_at_valid: "promotion_at env s i cur p \<Longrightarrow> is_ok (validate p)"
  by (auto simp: promotion_at_def intro: decode_payload_valid)

lemma fault_result_ok:
  "fst (e_checkpoint env ph k) = Inl e \<Longrightarrow> saga_state env (w_journal w) i c \<Longrightarrow>
     result_ok env i c (Inl e, w)"
  by (auto simp: result_ok_def)

lemma call_runtime_journal:
  "call_runtime f w = (res, w1) \<Longrightarrow> w_journal w1 = w_journal w \<and> w_checkpoint w1 = w_checkpoint w"
  "call_runtime f w = (res, w1) \<Longrightarrow> f (w_runtime w) = (res, w_runtime w1)"
  by (auto simp: call_runtime_def split: prod.splits)

text \<open>The callbacks the forward phases use always succeed; those of the rollback always succeed.\<close>

definition candidate_succeeds :: "('s, 'j, 'r, 'c) saga_env \<Rightarrow> promotion_contract \<Rightarrow> bool" where
  "candidate_succeeds env c \<longleftrightarrow>
     (\<forall>r. is_ok (fst (set_database_champion (e_runtime env) (candidate c) r))) \<and>
     (\<forall>r. is_ok (fst (publish_champion_pointer (e_runtime env) (candidate c) r))) \<and>
     (\<forall>r. is_ok (fst (restart_champion (e_runtime env) r))) \<and>
     (\<forall>r. is_ok (fst (verify_exact_and_canary (e_runtime env) (candidate c) (canary c) r)))"

definition incumbent_restorable :: "('s, 'j, 'r, 'c) saga_env \<Rightarrow> promotion_contract \<Rightarrow> bool" where
  "incumbent_restorable env c \<longleftrightarrow>
     (\<forall>r. is_ok (fst (set_database_champion (e_runtime env) (incumbent c) r))) \<and>
     (\<forall>r. is_ok (fst (publish_champion_pointer (e_runtime env) (incumbent c) r))) \<and>
     (\<forall>r. is_ok (fst (restart_champion (e_runtime env) r))) \<and>
     (\<forall>r. is_ok (fst (verify_exact_and_canary (e_runtime env) (incumbent c) (rollback_canary c) r)))"

section \<open>The journal contract\<close>

locale promotion_journal =
  fixes J :: "('s, 'j) promotion_journal_ops"
    and invar :: "'s \<Rightarrow> bool"
  assumes swap_law: "\<lbrakk>invar s; j_load J s i = Inr (Some pj); pj_kind pj = MODEL_PROMOTION_JOB_KIND;
      pj_state pj = Running\<rbrakk> \<Longrightarrow>
      \<exists>s'. j_compare_and_swap J s i (pj_payload pj) n = Inr s' \<and> invar s' \<and>
        j_load J s' i = Inr (Some (pj\<lparr>pj_payload := n\<rparr>))"
    and finish_law: "\<lbrakk>invar s; j_load J s i = Inr (Some pj); pj_kind pj = MODEL_PROMOTION_JOB_KIND;
      pj_state pj = Running; st = Succeeded \<or> st = Failed\<rbrakk> \<Longrightarrow>
      \<exists>s'. j_finish J s i (pj_payload pj) n st ec = Inr s' \<and> invar s' \<and>
        j_load J s' i = Inr (Some (pj\<lparr>pj_state := st, pj_error_code := ec, pj_payload := n\<rparr>))"
    and begin_law: "\<lbrakk>invar s; j_begin_running J s i k n = Inr (b, s')\<rbrakk> \<Longrightarrow>
      invar s' \<and> j_load J s' (pj_id (begun_job b)) = Inr (Some (begun_job b)) \<and>
      (\<not> begun_created b \<longrightarrow> s' = s) \<and>
      (begun_created b \<longrightarrow> begun_job b = \<lparr>pj_id = i, pj_kind = MODEL_PROMOTION_JOB_KIND,
         pj_state = Running, pj_idempotency_key = Some k, pj_error_code = None, pj_payload = n\<rparr>)"
begin

lemma advance_phase_sound:
  assumes env: "e_journal env = J" "codec_ok env"
    and w: "invar (w_journal w)" "promotion_at env (w_journal w) i cur p0"
    and ok: "is_ok (validate (p\<lparr>phase := ph\<rparr>))"
  obtains nj w' where
    "advance_phase env i p cur ph w =
       ((case fst (e_checkpoint env ph (w_checkpoint w)) of Inl e \<Rightarrow> Inl e | Inr _ \<Rightarrow> Inr nj), w')"
    "invar (w_journal w')" "promotion_at env (w_journal w') i nj (p\<lparr>phase := ph\<rparr>)"
    "w_runtime w' = w_runtime w"
proof -
  obtain nj where nj: "to_json env (p\<lparr>phase := ph\<rparr>) = Inr nj" "from_json env nj = Inr (p\<lparr>phase := ph\<rparr>)"
    using env(2) unfolding codec_ok_def by blast
  obtain pj where pj: "j_load J (w_journal w) i = Inr (Some pj)"
    "pj_kind pj = MODEL_PROMOTION_JOB_KIND" "pj_state pj = Running" "pj_payload pj = cur"
    using w(2) env(1) by (auto simp: promotion_at_def)
  obtain s' where s': "j_compare_and_swap J (w_journal w) i cur nj = Inr s'" "invar s'"
    "j_load J s' i = Inr (Some (pj\<lparr>pj_payload := nj\<rparr>))"
    using swap_law [OF w(1) pj(1-3)] pj(4) by blast
  have dec: "decode_payload env nj = Inr (p\<lparr>phase := ph\<rparr>)"
    using nj(2) ok by (auto simp: decode_payload_def is_ok_iff)
  obtain res c' where ck: "e_checkpoint env ph (w_checkpoint w) = (res, c')" by fastforce
  show thesis
  proof (rule that)
    show "advance_phase env i p cur ph w =
        ((case fst (e_checkpoint env ph (w_checkpoint w)) of Inl e \<Rightarrow> Inl e | Inr _ \<Rightarrow> Inr nj),
         w\<lparr>w_journal := s', w_checkpoint := c'\<rparr>)"
      using ok nj(1) s'(1) env(1) ck
      by (auto simp: advance_phase_def Let_def encode_payload_def call_checkpoint_def is_ok_iff
          split: sum.splits)
    show "promotion_at env (w_journal (w\<lparr>w_journal := s', w_checkpoint := c'\<rparr>)) i nj (p\<lparr>phase := ph\<rparr>)"
      using s'(3) pj(2,3) env(1) dec by (simp add: promotion_at_def)
  qed (use s' in simp_all)
qed

lemma finish_phase_sound:
  assumes env: "e_journal env = J" "codec_ok env"
    and w: "invar (w_journal w)" "promotion_at env (w_journal w) i cur p0"
    and ok: "is_ok (validate (p\<lparr>phase := ph\<rparr>))" and st: "st = Succeeded \<or> st = Failed"
  obtains w' where
    "finish_phase env i p cur ph st ec w = (fst (e_checkpoint env ph (w_checkpoint w)), w')"
    "invar (w_journal w')" "promotion_done env (w_journal w') i st ec (p\<lparr>phase := ph\<rparr>)"
    "w_runtime w' = w_runtime w"
proof -
  obtain nj where nj: "to_json env (p\<lparr>phase := ph\<rparr>) = Inr nj" "from_json env nj = Inr (p\<lparr>phase := ph\<rparr>)"
    using env(2) unfolding codec_ok_def by blast
  obtain pj where pj: "j_load J (w_journal w) i = Inr (Some pj)"
    "pj_kind pj = MODEL_PROMOTION_JOB_KIND" "pj_state pj = Running" "pj_payload pj = cur"
    using w(2) env(1) by (auto simp: promotion_at_def)
  obtain s' where s': "j_finish J (w_journal w) i cur nj st ec = Inr s'" "invar s'"
    "j_load J s' i = Inr (Some (pj\<lparr>pj_state := st, pj_error_code := ec, pj_payload := nj\<rparr>))"
    using finish_law [OF w(1) pj(1-3) st] pj(4) by blast
  have dec: "decode_payload env nj = Inr (p\<lparr>phase := ph\<rparr>)"
    using nj(2) ok by (auto simp: decode_payload_def is_ok_iff)
  obtain res c' where ck: "e_checkpoint env ph (w_checkpoint w) = (res, c')" by fastforce
  show thesis
  proof (rule that)
    show "finish_phase env i p cur ph st ec w =
        (fst (e_checkpoint env ph (w_checkpoint w)), w\<lparr>w_journal := s', w_checkpoint := c'\<rparr>)"
      using ok nj(1) s'(1) env(1) ck
      by (auto simp: finish_phase_def Let_def encode_payload_def call_checkpoint_def is_ok_iff)
    show "promotion_done env (w_journal (w\<lparr>w_journal := s', w_checkpoint := c'\<rparr>)) i st ec (p\<lparr>phase := ph\<rparr>)"
      using s'(3) pj(2) env(1) dec by (simp add: promotion_done_def)
  qed (use s' in simp_all)
qed

lemma continue_sound:
  assumes env: "e_journal env = J" "codec_ok env"
    and w: "invar (w_journal w)" "promotion_at env (w_journal w) i cur p"
    and q: "is_ok (validate (q\<lparr>phase := ph\<rparr>))" "contract q = contract p"
    and ph: "phase_rank (phase p) < phase_rank ph" "ph \<notin> {Completed, RollbackUnverified}"
  shows "step_ok env i p (continue_with (advance_phase env i q cur ph w)) \<and>
    invar (w_journal (snd (continue_with (advance_phase env i q cur ph w))))"
proof -
  obtain nj w' where a: "advance_phase env i q cur ph w =
       ((case fst (e_checkpoint env ph (w_checkpoint w)) of Inl e \<Rightarrow> Inl e | Inr _ \<Rightarrow> Inr nj), w')"
    "invar (w_journal w')" "promotion_at env (w_journal w') i nj (q\<lparr>phase := ph\<rparr>)"
    by (rule advance_phase_sound [OF env w q(1)])
  have st: "saga_state env (w_journal w') i (contract p)"
    using promotion_at_saga_state [OF a(3)] ph(2) q(2) by simp
  show ?thesis
  proof (cases "fst (e_checkpoint env ph (w_checkpoint w))")
    case (Inl e)
    then show ?thesis using a fault_result_ok [OF Inl st] by (simp add: continue_with_def step_ok_def)
  next
    case (Inr u)
    then show ?thesis
      using a(1,2) ph q(2) by (auto simp: continue_with_def step_ok_def intro!: a(3))
  qed
qed

lemma unverified_sound:
  assumes env: "e_journal env = J" "codec_ok env"
    and w: "invar (w_journal w)" "promotion_at env (w_journal w) i cur p"
    and p: "rollback_phase (phase p)"
  shows "step_ok env i p (return_with (finish_rollback_unverified env i p cur code w)) \<and>
    invar (w_journal (snd (return_with (finish_rollback_unverified env i p cur code w))))"
proof -
  have ok: "is_ok (validate p)" by (rule promotion_at_valid [OF w(2)])
  then obtain f where f: "failure p = Some f" using p by (auto simp: validate_iff)
  let ?q = "p\<lparr>failure := Some (f\<lparr>rollback_code := Some (durable_runtime_code code)\<rparr>)\<rparr>"
  obtain w' where a: "finish_phase env i ?q cur RollbackUnverified Failed (Some ROLLBACK_UNVERIFIED) w =
      (fst (e_checkpoint env RollbackUnverified (w_checkpoint w)), w')" "invar (w_journal w')"
    "promotion_done env (w_journal w') i Failed (Some ROLLBACK_UNVERIFIED) (?q\<lparr>phase := RollbackUnverified\<rparr>)"
    using finish_phase_sound [OF env w unverified_payload_valid [OF ok f]] by metis
  have st: "saga_state env (w_journal w') i (contract p)"
    using promotion_done_saga_state [OF a(3)] by (simp add: terminal_triple_def)
  show ?thesis
  proof (cases "fst (e_checkpoint env RollbackUnverified (w_checkpoint w))")
    case (Inl e)
    then show ?thesis using a f fault_result_ok [OF Inl st]
      by (simp add: return_with_def step_ok_def finish_rollback_unverified_def)
  next
    case (Inr u)
    have "result_ok env i (contract p) (Inl (rollback_unverified_error (durable_runtime_code code)), w')"
      using st a(3) unfolding result_ok_def by force
    then show ?thesis using a f Inr
      by (simp add: return_with_def step_ok_def finish_rollback_unverified_def)
  qed
qed

lemma candidate_step_sound:
  assumes env: "e_journal env = J" "codec_ok env"
    and w: "invar (w_journal w)" "promotion_at env (w_journal w) i cur p"
    and ph: "phase_rank (phase p) < phase_rank ph" "phase_rank ph < 5" and op: "op \<in> set rollback_operations"
  shows "step_ok env i p (candidate_step env i p cur f ph op w) \<and>
    invar (w_journal (snd (candidate_step env i p cur f ph op w)))"
proof -
  obtain res w1 where c: "call_runtime f w = (res, w1)" by fastforce
  have w1: "invar (w_journal w1)" "promotion_at env (w_journal w1) i cur p"
    using w call_runtime_journal [OF c] by simp_all
  have ok: "is_ok (validate p)" by (rule promotion_at_valid [OF w(2)])
  show ?thesis
  proof (cases res)
    case (Inl code)
    have "phase_rank (phase p) < phase_rank RollbackPending" using ph by simp
    with continue_sound [OF env w1 rollback_payload_valid [OF ok op]] show ?thesis
      using c Inl by (simp add: candidate_step_def begin_rollback_def)
  next
    case (Inr u)
    have side: "rollback_phase ph = rollback_phase (phase p)" "ph \<notin> {Completed, RollbackUnverified}"
      using ph by (cases ph; cases "phase p"; simp)+
    show ?thesis
      using continue_sound [OF env w1 same_side_valid [OF ok side(1)] _ ph(1) side(2)] c Inr
      by (simp add: candidate_step_def)
  qed
qed

lemma rollback_step_sound:
  assumes env: "e_journal env = J" "codec_ok env"
    and w: "invar (w_journal w)" "promotion_at env (w_journal w) i cur p"
    and ph: "phase_rank (phase p) < phase_rank ph" "5 \<le> phase_rank (phase p)" "phase_rank ph < 10"
  shows "step_ok env i p (rollback_step env i p cur f ph w) \<and>
    invar (w_journal (snd (rollback_step env i p cur f ph w)))"
proof -
  obtain res w1 where c: "call_runtime f w = (res, w1)" by fastforce
  have w1: "invar (w_journal w1)" "promotion_at env (w_journal w1) i cur p"
    using w call_runtime_journal [OF c] by simp_all
  have ok: "is_ok (validate p)" by (rule promotion_at_valid [OF w(2)])
  have side: "rollback_phase ph = rollback_phase (phase p)" "ph \<notin> {Completed, RollbackUnverified}"
    "rollback_phase (phase p)"
    using ph by (cases ph; cases "phase p"; simp)+
  show ?thesis
  proof (cases res)
    case (Inl code)
    show ?thesis using unverified_sound [OF env w1 side(3), of code] c Inl by (simp add: rollback_step_def)
  next
    case (Inr u)
    show ?thesis
      using continue_sound [OF env w1 same_side_valid [OF ok side(1)] _ ph(1) side(2)] c Inr
      by (simp add: rollback_step_def)
  qed
qed

lemma complete_step_sound:
  assumes env: "e_journal env = J" "codec_ok env"
    and w: "invar (w_journal w)" "promotion_at env (w_journal w) i cur p"
    and p: "phase p = CandidateVerified"
  shows "step_ok env i p (drive_phase env i p cur w) \<and> invar (w_journal (snd (drive_phase env i p cur w)))"
proof -
  let ?V = "verify_exact_and_canary (e_runtime env) (candidate (contract p)) (canary (contract p))"
  obtain res w1 where c: "call_runtime ?V w = (res, w1)" by fastforce
  have w1: "invar (w_journal w1)" "promotion_at env (w_journal w1) i cur p"
    using w call_runtime_journal [OF c] by simp_all
  have ok: "is_ok (validate p)" by (rule promotion_at_valid [OF w(2)])
  show ?thesis
  proof (cases res)
    case (Inl code)
    have "''final_candidate_reverification'' \<in> set rollback_operations"
      by (simp add: rollback_operations_def)
    from continue_sound [OF env w1 rollback_payload_valid [OF ok this]] show ?thesis
      using c Inl p by (simp add: drive_phase_def begin_rollback_def)
  next
    case (Inr u)
    have v: "is_ok (validate (p\<lparr>phase := Completed\<rparr>))" using same_side_valid [OF ok] p by simp
    obtain w2 where a: "finish_phase env i p cur Completed Succeeded None w1 =
        (fst (e_checkpoint env Completed (w_checkpoint w1)), w2)" "invar (w_journal w2)"
      "promotion_done env (w_journal w2) i Succeeded None (p\<lparr>phase := Completed\<rparr>)"
      "w_runtime w2 = w_runtime w1"
      using finish_phase_sound [OF env w1 v] by metis
    have st: "saga_state env (w_journal w2) i (contract p)"
      using promotion_done_saga_state [OF a(3)] by (simp add: terminal_triple_def)
    have "?V (w_runtime w) = (Inr (), w_runtime w2)"
      using call_runtime_journal(2) [OF c] Inr a(4) by simp
    then have out: "result_ok env i (contract p) (Inr (Promoted (candidate (contract p))), w2)"
      using st a(3) unfolding result_ok_def by force
    show ?thesis
    proof (cases "fst (e_checkpoint env Completed (w_checkpoint w1))")
      case (Inl e)
      then show ?thesis using a c Inr p fault_result_ok [OF Inl st]
        by (simp add: drive_phase_def step_ok_def)
    next
      case (Inr u')
      then show ?thesis using a c \<open>res = Inr u\<close> p out by (simp add: drive_phase_def step_ok_def)
    qed
  qed
qed

lemma rolled_back_step_sound:
  assumes env: "e_journal env = J" "codec_ok env"
    and w: "invar (w_journal w)" "promotion_at env (w_journal w) i cur p"
    and p: "phase p = RollbackVerified"
  shows "step_ok env i p (drive_phase env i p cur w) \<and> invar (w_journal (snd (drive_phase env i p cur w)))"
proof -
  let ?V = "verify_exact_and_canary (e_runtime env) (incumbent (contract p)) (rollback_canary (contract p))"
  obtain res w1 where c: "call_runtime ?V w = (res, w1)" by fastforce
  have w1: "invar (w_journal w1)" "promotion_at env (w_journal w1) i cur p"
    using w call_runtime_journal [OF c] by simp_all
  have ok: "is_ok (validate p)" by (rule promotion_at_valid [OF w(2)])
  then obtain f where f: "failure p = Some f" using p by (auto simp: validate_iff)
  have same: "p\<lparr>phase := RollbackVerified\<rparr> = p" using p by simp
  show ?thesis
  proof (cases res)
    case (Inl code)
    show ?thesis using unverified_sound [OF env w1, of code] c Inl p by (simp add: drive_phase_def)
  next
    case (Inr u)
    obtain w2 where a: "finish_phase env i p cur RollbackVerified Failed (Some PROMOTION_FAILED) w1 =
        (fst (e_checkpoint env RollbackVerified (w_checkpoint w1)), w2)" "invar (w_journal w2)"
      "promotion_done env (w_journal w2) i Failed (Some PROMOTION_FAILED) p"
      "w_runtime w2 = w_runtime w1"
      using finish_phase_sound [OF env w1, where p = p and ph = RollbackVerified and st = Failed]
        ok same by metis
    have st: "saga_state env (w_journal w2) i (contract p)"
      using promotion_done_saga_state [OF a(3)] p by (simp add: terminal_triple_def)
    have "?V (w_runtime w) = (Inr (), w_runtime w2)"
      using call_runtime_journal(2) [OF c] Inr a(4) by simp
    then have out: "result_ok env i (contract p)
        (Inr (RolledBack (incumbent (contract p)) (runtime_code f)), w2)"
      using st a(3) p f unfolding result_ok_def by force
    show ?thesis
    proof (cases "fst (e_checkpoint env RollbackVerified (w_checkpoint w1))")
      case (Inl e)
      then show ?thesis using a c Inr p f fault_result_ok [OF Inl st]
        by (simp add: drive_phase_def step_ok_def)
    next
      case (Inr u')
      then show ?thesis using a c \<open>res = Inr u\<close> p f out by (simp add: drive_phase_def step_ok_def)
    qed
  qed
qed

lemma drive_phase_sound:
  assumes env: "e_journal env = J" "codec_ok env"
    and w: "invar (w_journal w)" "promotion_at env (w_journal w) i cur p"
    and p: "phase p \<notin> {Completed, RollbackUnverified}"
  shows "step_ok env i p (drive_phase env i p cur w) \<and> invar (w_journal (snd (drive_phase env i p cur w)))"
  using p complete_step_sound [OF env w] rolled_back_step_sound [OF env w]
    candidate_step_sound [OF env w] rollback_step_sound [OF env w]
  by (cases "phase p") (simp_all add: drive_phase_def Let_def rollback_operations_def)

lemma drive_sound:
  assumes env: "e_journal env = J" "codec_ok env"
    and w: "invar (w_journal w)" "promotion_at env (w_journal w) i cur p"
    and p: "phase p \<notin> {Completed, RollbackUnverified}" and fuel: "10 - phase_rank (phase p) \<le> fuel"
  shows "\<exists>rw. drive fuel env i cur w = Some rw \<and> result_ok env i (contract p) rw \<and>
    invar (w_journal (snd rw))"
  using w p fuel
proof (induction fuel arbitrary: cur w p)
  case 0
  then have "10 \<le> phase_rank (phase p)" by simp
  with "0.prems"(3) show ?case by (cases "phase p") simp_all
next
  case (Suc fuel)
  have dec: "decode_payload env cur = Inr p" using Suc.prems(2) by (simp add: promotion_at_def)
  obtain r w' where dp: "drive_phase env i p cur w = (r, w')" by fastforce
  have s: "step_ok env i p (r, w')" "invar (w_journal w')"
    using drive_phase_sound [OF env Suc.prems(1-3)] dp by simp_all
  show ?case
  proof (cases r)
    case (Inl e)
    then show ?thesis using dec dp s by (simp add: step_ok_def)
  next
    case (Inr nx)
    show ?thesis
    proof (cases nx)
      case (Return out)
      then show ?thesis using dec dp s Inr by (simp add: step_ok_def)
    next
      case (Continue nj)
      then obtain p' where p': "promotion_at env (w_journal w') i nj p'" "contract p' = contract p"
        "phase_rank (phase p) < phase_rank (phase p')" "phase p' \<notin> {Completed, RollbackUnverified}"
        using s(1) Inr by (auto simp: step_ok_def)
      have "10 - phase_rank (phase p') \<le> fuel" using p'(3) Suc.prems(4) by simp
      from Suc.IH [OF s(2) p'(1,4) this] show ?thesis using dec dp Inr Continue p'(2) by simp
    qed
  qed
qed

text \<open>Resuming from any state that satisfies the recovery invariant.\<close>

lemma resume_sound:
  assumes env: "e_journal env = J" "codec_ok env"
    and w: "invar (w_journal w)" "saga_state env (w_journal w) i c"
  shows "\<exists>rw. resume_promotion_with_checkpoint env i w = Some rw \<and> result_ok env i c rw \<and>
    invar (w_journal (snd rw))"
  using w(2) unfolding saga_state_def
proof
  assume "\<exists>cur p. promotion_at env (w_journal w) i cur p \<and> contract p = c \<and>
    phase p \<notin> {Completed, RollbackUnverified}"
  then obtain cur p where at: "promotion_at env (w_journal w) i cur p" "contract p = c"
    "phase p \<notin> {Completed, RollbackUnverified}" by blast
  have "10 - phase_rank (phase p) \<le> DRIVE_FUEL" by (simp add: DRIVE_FUEL_def)
  from drive_sound [OF env w(1) at(1,3) this] at(2) at(1) show ?thesis
    by (auto simp: resume_promotion_with_checkpoint_def promotion_at_def)
next
  assume "\<exists>st ec p. promotion_done env (w_journal w) i st ec p \<and> contract p = c \<and>
    terminal_triple st ec (phase p)"
  then obtain st ec p where d: "promotion_done env (w_journal w) i st ec p" "contract p = c"
    "terminal_triple st ec (phase p)" by blast
  have "result_ok env i c (Inr (AlreadyTerminal st ec), w)"
    using d w(2) by (auto simp: result_ok_def)
  moreover have "resume_promotion_with_checkpoint env i w = Some (Inr (AlreadyTerminal st ec), w)"
    using d(1,3) by (auto simp: resume_promotion_with_checkpoint_def promotion_done_def
        terminal_triple_def terminal_outcome_def Let_def)
  ultimately show ?thesis using w(1) by simp
qed

text \<open>
  Starting: either the request is refused with the world untouched, or the job is admitted and the
  result describes it. \<open>known\<close> says that a promotion job already stored under this id satisfies
  the recovery invariant.
\<close>

lemma begun_saga_state:
  assumes env: "e_journal env = J" "codec_ok env"
    and w: "invar s" and known: "\<forall>pj. j_load J s i = Inr (Some pj) \<and> pj_kind pj = MODEL_PROMOTION_JOB_KIND
      \<longrightarrow> (\<exists>c'. saga_state env s i c')"
    and pre: "prepared c = Inr p0" "encode_payload env p0 = Inr json"
    and b: "j_begin_running J s i key json = Inr (begun, s')"
    and v: "begun_created begun \<or> is_ok (validate_begun_job env (begun_job begun) i key c)"
  shows "saga_state env s' i c" and "j_load J s' i = Inr (Some (begun_job begun))"
    and "is_ok (validate_begun_job env (begun_job begun) i key c)"
proof -
  note law = begin_law [OF w b]
  have p0: "p0 = \<lparr>schema = PROMOTION_PAYLOAD_SCHEMA, phase = Prepared, contract = c, failure = None\<rparr>"
    and vp: "is_ok (validate p0)"
    using pre(1) by (auto simp: prepared_def Let_def and_then_eq_Inr_iff is_ok_iff)
  have dec: "decode_payload env json = Inr p0"
    by (rule codec_decode [OF env(2) pre(2) vp])
  have cr: "is_ok (validate_begun_job env (begun_job begun) i key c)" if "begun_created begun"
  proof -
    have bj: "begun_job begun = \<lparr>pj_id = i, pj_kind = MODEL_PROMOTION_JOB_KIND, pj_state = Running,
        pj_idempotency_key = Some key, pj_error_code = None, pj_payload = json\<rparr>"
      using law that by blast
    show ?thesis unfolding bj using dec p0 by (simp add: validate_begun_job_def require_def)
  qed
  with v show ok: "is_ok (validate_begun_job env (begun_job begun) i key c)" by blast
  then have idk: "pj_id (begun_job begun) = i" "pj_kind (begun_job begun) = MODEL_PROMOTION_JOB_KIND"
    by (auto simp: validate_begun_job_def is_ok_iff and_then_eq_Inr_iff)
  with law show load: "j_load J s' i = Inr (Some (begun_job begun))" by simp
  obtain q where q: "decode_payload env (pj_payload (begun_job begun)) = Inr q" "contract q = c"
    using ok by (auto simp: validate_begun_job_def is_ok_iff and_then_eq_Inr_iff)
  show "saga_state env s' i c"
  proof (cases "begun_created begun")
    case True
    then have "promotion_at env s' i json p0" using law load env(1) dec by (simp add: promotion_at_def)
    from promotion_at_saga_state [OF this] p0 show ?thesis by simp
  next
    case False
    then have "s' = s" using law by blast
    with known load idk obtain c' where c': "saga_state env s' i c'" by blast
    then have "c' = c"
      using load q env(1) unfolding saga_state_def promotion_at_def promotion_done_def by auto
    with c' show ?thesis by simp
  qed
qed

lemma start_sound:
  assumes env: "e_journal env = J" "codec_ok env"
    and w: "invar (w_journal w)"
    and known: "\<forall>pj. j_load J (w_journal w) i = Inr (Some pj) \<and> pj_kind pj = MODEL_PROMOTION_JOB_KIND
      \<longrightarrow> (\<exists>c'. saga_state env (w_journal w) i c')"
  shows "\<exists>rw. start_promotion_with_checkpoint env i key c w = Some rw \<and> invar (w_journal (snd rw)) \<and>
    (result_ok env i c rw \<or> (\<exists>e. rw = (Inl e, w)))"
proof (cases "and_then (validate_token ''jobId'' i 160) (\<lambda>_.
           and_then (validate_token ''idempotencyKey'' key 200) (\<lambda>_.
           and_then (prepared c) (\<lambda>initial.
           and_then (encode_payload env initial) (\<lambda>json.
             j_begin_running (e_journal env) (w_journal w) i key json))))")
  case (Inl e)
  then show ?thesis using w by (simp add: start_promotion_with_checkpoint_def)
next
  case (Inr bs)
  then obtain begun s' p0 json where bs: "bs = (begun, s')" and pre: "prepared c = Inr p0"
    "encode_payload env p0 = Inr json" and b: "j_begin_running J (w_journal w) i key json = Inr (begun, s')"
    using env(1) by (cases bs) (auto simp: and_then_eq_Inr_iff)
  note law = begin_law [OF w b]
  let ?w1 = "w\<lparr>w_journal := s'\<rparr>"
  show ?thesis
  proof (cases "begun_created begun \<or> is_ok (validate_begun_job env (begun_job begun) i key c)")
    case False
    then have "s' = w_journal w" using law by blast
    moreover obtain e where "validate_begun_job env (begun_job begun) i key c = Inl e"
      using False by (cases "validate_begun_job env (begun_job begun) i key c") simp_all
    ultimately show ?thesis using Inr bs w by (simp add: start_promotion_with_checkpoint_def)
  next
    case True
    note adm = begun_saga_state [OF env w known pre b True]
    obtain res w2 where ck: "(if begun_created begun then call_checkpoint env Prepared ?w1
        else (Inr (), ?w1)) = (res, w2)" by fastforce
    have w2: "w_journal w2 = s'" "w_runtime w2 = w_runtime w"
      using ck by (auto simp: call_checkpoint_def split: if_splits prod.splits)
    have st: "start_promotion_with_checkpoint env i key c w = (case res of Inl e \<Rightarrow> Some (Inl e, w2)
        | Inr _ \<Rightarrow> resume_promotion_with_checkpoint env i w2)"
    proof -
      have nt: "\<not> is_terminal (pj_state (begun_job begun)) \<Longrightarrow> pj_state (begun_job begun) = Running"
        using adm(1,2) env(1) unfolding saga_state_def promotion_at_def promotion_done_def
        by (auto simp: terminal_triple_def)
      have v: "validate_begun_job env (begun_job begun) i key c = Inr ()"
        using adm(3) by (auto simp: is_ok_iff)
      have kind: "pj_kind (begun_job begun) = MODEL_PROMOTION_JOB_KIND"
        using v by (auto simp: validate_begun_job_def and_then_eq_Inr_iff)
      have "start_promotion_with_checkpoint env i key c w = (case res of Inl e \<Rightarrow> Some (Inl e, w2)
          | Inr _ \<Rightarrow> if is_terminal (pj_state (begun_job begun))
              then Some (terminal_outcome env (begun_job begun), w2)
              else drive DRIVE_FUEL env i (pj_payload (begun_job begun)) w2)"
        by (cases res) (simp_all add: start_promotion_with_checkpoint_def Inr bs v ck)
      then show ?thesis
        using adm(2) env(1) nt kind w2(1)
        by (cases res) (auto simp: resume_promotion_with_checkpoint_def)
    qed
    show ?thesis
    proof (cases res)
      case (Inl e)
      then have "fst (e_checkpoint env Prepared (w_checkpoint w)) = Inl e"
        using ck by (auto simp: call_checkpoint_def split: if_splits prod.splits)
      from fault_result_ok [OF this, of w2 i c] adm(1) w2 st Inl law show ?thesis by simp
    next
      case (Inr u)
      then show ?thesis
        using resume_sound [OF env, of w2 i c] adm(1) w2 st law by auto
    qed
  qed
qed

text \<open>Without injected faults, and with an incumbent that can always be restored, nothing errs.\<close>

lemma continue_no_fault:
  assumes env: "e_journal env = J" "codec_ok env" and nofault: "e_checkpoint env = NoPromotionFault"
    and w: "invar (w_journal w)" "promotion_at env (w_journal w) i cur p"
    and q: "is_ok (validate (q\<lparr>phase := ph\<rparr>))"
  shows "is_ok (fst (continue_with (advance_phase env i q cur ph w)))"
proof -
  obtain nj w' where "advance_phase env i q cur ph w =
       ((case fst (e_checkpoint env ph (w_checkpoint w)) of Inl e \<Rightarrow> Inl e | Inr _ \<Rightarrow> Inr nj), w')"
    by (rule advance_phase_sound [OF env w q])
  then show ?thesis using nofault by (simp add: continue_with_def NoPromotionFault_def)
qed

lemma candidate_step_no_fault:
  assumes env: "e_journal env = J" "codec_ok env" and nofault: "e_checkpoint env = NoPromotionFault"
    and w: "invar (w_journal w)" "promotion_at env (w_journal w) i cur p"
    and ph: "rollback_phase ph = rollback_phase (phase p)" and op: "op \<in> set rollback_operations"
  shows "is_ok (fst (candidate_step env i p cur f ph op w))"
proof -
  obtain res w1 where c: "call_runtime f w = (res, w1)" by fastforce
  have w1: "invar (w_journal w1)" "promotion_at env (w_journal w1) i cur p"
    using w call_runtime_journal [OF c] by simp_all
  have ok: "is_ok (validate p)" by (rule promotion_at_valid [OF w(2)])
  show ?thesis
    using c continue_no_fault [OF env nofault w1 same_side_valid [OF ok ph]]
      continue_no_fault [OF env nofault w1 rollback_payload_valid [OF ok op]]
    by (cases res) (simp_all add: candidate_step_def begin_rollback_def)
qed

lemma rollback_step_no_fault:
  assumes env: "e_journal env = J" "codec_ok env" and nofault: "e_checkpoint env = NoPromotionFault"
    and w: "invar (w_journal w)" "promotion_at env (w_journal w) i cur p"
    and ph: "rollback_phase ph = rollback_phase (phase p)" and f: "\<forall>r. is_ok (fst (f r))"
  shows "is_ok (fst (rollback_step env i p cur f ph w))"
proof -
  obtain res w1 where c: "call_runtime f w = (res, w1)" by fastforce
  have w1: "invar (w_journal w1)" "promotion_at env (w_journal w1) i cur p"
    using w call_runtime_journal [OF c] by simp_all
  have ok: "is_ok (validate p)" by (rule promotion_at_valid [OF w(2)])
  have "is_ok res" using f call_runtime_journal(2) [OF c] by (metis fst_conv)
  then show ?thesis
    using c continue_no_fault [OF env nofault w1 same_side_valid [OF ok ph]]
    by (cases res) (simp_all add: rollback_step_def)
qed

lemma finish_no_fault:
  assumes env: "e_journal env = J" "codec_ok env" and nofault: "e_checkpoint env = NoPromotionFault"
    and w: "invar (w_journal w)" "promotion_at env (w_journal w) i cur p"
    and ph: "rollback_phase ph = rollback_phase (phase p)" and st: "st = Succeeded \<or> st = Failed"
  shows "is_ok (fst (finish_phase env i p cur ph st ec w))"
proof -
  have ok: "is_ok (validate (p\<lparr>phase := ph\<rparr>))"
    by (rule same_side_valid [OF promotion_at_valid [OF w(2)] ph])
  obtain w' where "finish_phase env i p cur ph st ec w =
      (fst (e_checkpoint env ph (w_checkpoint w)), w')"
    by (rule finish_phase_sound [OF env w ok st])
  then show ?thesis using nofault by (simp add: NoPromotionFault_def)
qed

lemma verified_no_fault:
  assumes env: "e_journal env = J" "codec_ok env" and nofault: "e_checkpoint env = NoPromotionFault"
    and w: "invar (w_journal w)" "promotion_at env (w_journal w) i cur p"
    and p: "phase p = CandidateVerified \<or> phase p = RollbackVerified"
    and inc: "\<forall>r. is_ok (fst (verify_exact_and_canary (e_runtime env) (incumbent (contract p))
           (rollback_canary (contract p)) r))"
  shows "is_ok (fst (drive_phase env i p cur w))"
  using p
proof
  assume p: "phase p = CandidateVerified"
  let ?V = "verify_exact_and_canary (e_runtime env) (candidate (contract p)) (canary (contract p))"
  obtain res w1 where c: "call_runtime ?V w = (res, w1)" by fastforce
  have w1: "invar (w_journal w1)" "promotion_at env (w_journal w1) i cur p"
    using w call_runtime_journal [OF c] by simp_all
  have ok: "is_ok (validate p)" by (rule promotion_at_valid [OF w(2)])
  have op: "''final_candidate_reverification'' \<in> set rollback_operations"
    by (simp add: rollback_operations_def)
  show ?thesis
    using c p continue_no_fault [OF env nofault w1 rollback_payload_valid [OF ok op]]
      finish_no_fault [OF env nofault w1, of Completed Succeeded None]
    by (cases res) (auto simp: drive_phase_def begin_rollback_def split: prod.splits sum.splits)
next
  assume p: "phase p = RollbackVerified"
  let ?V = "verify_exact_and_canary (e_runtime env) (incumbent (contract p)) (rollback_canary (contract p))"
  obtain res w1 where c: "call_runtime ?V w = (res, w1)" by fastforce
  have w1: "invar (w_journal w1)" "promotion_at env (w_journal w1) i cur p"
    using w call_runtime_journal [OF c] by simp_all
  obtain f where f: "failure p = Some f"
    using promotion_at_valid [OF w(2)] p by (auto simp: validate_iff)
  have "is_ok res" using inc call_runtime_journal(2) [OF c] by (metis fst_conv)
  then show ?thesis
    using c p f finish_no_fault [OF env nofault w1, of RollbackVerified Failed "Some PROMOTION_FAILED"]
    by (cases res) (auto simp: drive_phase_def split: prod.splits sum.splits)
qed

lemma drive_phase_no_error:
  assumes env: "e_journal env = J" "codec_ok env" and nofault: "e_checkpoint env = NoPromotionFault"
    and w: "invar (w_journal w)" "promotion_at env (w_journal w) i cur p"
    and p: "phase p \<notin> {Completed, RollbackUnverified}"
    and inc: "\<forall>r. is_ok (fst (set_database_champion (e_runtime env) (incumbent (contract p)) r))"
      "\<forall>r. is_ok (fst (publish_champion_pointer (e_runtime env) (incumbent (contract p)) r))"
      "\<forall>r. is_ok (fst (restart_champion (e_runtime env) r))"
      "\<forall>r. is_ok (fst (verify_exact_and_canary (e_runtime env) (incumbent (contract p))
           (rollback_canary (contract p)) r))"
  shows "is_ok (fst (drive_phase env i p cur w))"
  using p verified_no_fault [OF env nofault w _ inc(4)] candidate_step_no_fault [OF env nofault w]
    rollback_step_no_fault [OF env nofault w] inc
  by (cases "phase p") (simp_all add: drive_phase_def Let_def rollback_operations_def)

lemma drive_no_error:
  assumes env: "e_journal env = J" "codec_ok env" and nofault: "e_checkpoint env = NoPromotionFault"
    and w: "invar (w_journal w)" "promotion_at env (w_journal w) i cur p"
    and p: "phase p \<notin> {Completed, RollbackUnverified}"
    and inc: "\<forall>r. is_ok (fst (set_database_champion (e_runtime env) (incumbent (contract p)) r))"
      "\<forall>r. is_ok (fst (publish_champion_pointer (e_runtime env) (incumbent (contract p)) r))"
      "\<forall>r. is_ok (fst (restart_champion (e_runtime env) r))"
      "\<forall>r. is_ok (fst (verify_exact_and_canary (e_runtime env) (incumbent (contract p))
           (rollback_canary (contract p)) r))"
    and some: "drive fuel env i cur w = Some rw"
  shows "is_ok (fst rw)"
  using w p inc some
proof (induction fuel arbitrary: cur w p)
  case (Suc fuel)
  have dec: "decode_payload env cur = Inr p" using Suc.prems(2) by (simp add: promotion_at_def)
  have ok: "is_ok (fst (drive_phase env i p cur w))"
    by (rule drive_phase_no_error [OF env nofault Suc.prems(1-7)])
  then obtain nx w' where dp: "drive_phase env i p cur w = (Inr nx, w')"
    by (cases "drive_phase env i p cur w") (auto simp: is_ok_iff)
  have s: "step_ok env i p (Inr nx, w')" "invar (w_journal w')"
    using drive_phase_sound [OF env Suc.prems(1-3)] dp by simp_all
  show ?case
  proof (cases nx)
    case (Return out)
    then show ?thesis using Suc.prems(8) dec dp by auto
  next
    case (Continue nj)
    then obtain p' where p': "promotion_at env (w_journal w') i nj p'" "contract p' = contract p"
      "phase p' \<notin> {Completed, RollbackUnverified}"
      using s(1) by (auto simp: step_ok_def)
    show ?thesis
      using Suc.IH [OF s(2) p'(1,3)] p'(2) Suc.prems(4-8) dec dp Continue by simp
  qed
qed simp

text \<open>When every candidate callback succeeds, the forward phases end in a promotion.\<close>

lemma candidate_step_advances:
  assumes env: "e_journal env = J" "codec_ok env" and nofault: "e_checkpoint env = NoPromotionFault"
    and w: "invar (w_journal w)" "promotion_at env (w_journal w) i cur p"
    and ph: "\<not> rollback_phase (phase p)" "\<not> rollback_phase ph" and f: "\<forall>r. is_ok (fst (f r))"
  obtains nj w' where "candidate_step env i p cur f ph op w = (Inr (Continue nj), w')"
    "invar (w_journal w')" "promotion_at env (w_journal w') i nj (p\<lparr>phase := ph\<rparr>)"
proof -
  obtain res w1 where c: "call_runtime f w = (res, w1)" by fastforce
  have w1: "invar (w_journal w1)" "promotion_at env (w_journal w1) i cur p"
    using w call_runtime_journal [OF c] by simp_all
  have ok: "is_ok (validate (p\<lparr>phase := ph\<rparr>))"
    using same_side_valid [OF promotion_at_valid [OF w(2)], of ph] ph by simp
  have "is_ok res" using f call_runtime_journal(2) [OF c] by (metis fst_conv)
  then obtain u where res: "res = Inr u" by (auto simp: is_ok_iff)
  obtain nj w' where "advance_phase env i p cur ph w1 =
       ((case fst (e_checkpoint env ph (w_checkpoint w1)) of Inl e \<Rightarrow> Inl e | Inr _ \<Rightarrow> Inr nj), w')"
    "invar (w_journal w')" "promotion_at env (w_journal w') i nj (p\<lparr>phase := ph\<rparr>)"
    by (rule advance_phase_sound [OF env w1 ok])
  then show thesis
    using that [of nj w'] c res nofault
    by (simp add: candidate_step_def continue_with_def NoPromotionFault_def)
qed

lemma verified_promotes:
  assumes env: "e_journal env = J" "codec_ok env" and nofault: "e_checkpoint env = NoPromotionFault"
    and w: "invar (w_journal w)" "promotion_at env (w_journal w) i cur p"
    and p: "phase p = CandidateVerified"
    and ver: "\<forall>r. is_ok (fst (verify_exact_and_canary (e_runtime env) (candidate (contract p))
           (canary (contract p)) r))"
  shows "fst (drive_phase env i p cur w) = Inr (Return (Promoted (candidate (contract p))))"
proof -
  let ?V = "verify_exact_and_canary (e_runtime env) (candidate (contract p)) (canary (contract p))"
  obtain res w1 where c: "call_runtime ?V w = (res, w1)" by fastforce
  have w1: "invar (w_journal w1)" "promotion_at env (w_journal w1) i cur p"
    using w call_runtime_journal [OF c] by simp_all
  have "is_ok res" using ver call_runtime_journal(2) [OF c] by (metis fst_conv)
  then show ?thesis
    using c p finish_no_fault [OF env nofault w1, of Completed Succeeded None]
    by (auto simp: drive_phase_def is_ok_iff split: prod.splits sum.splits)
qed

lemma drive_promotes:
  assumes env: "e_journal env = J" "codec_ok env" and nofault: "e_checkpoint env = NoPromotionFault"
    and w: "invar (w_journal w)" "promotion_at env (w_journal w) i cur p"
    and p: "\<not> rollback_phase (phase p)" "phase p \<noteq> Completed"
    and cand: "candidate_succeeds env (contract p)"
    and some: "drive fuel env i cur w = Some rw"
  shows "fst rw = Inr (Promoted (candidate (contract p)))"
  using w p cand some
proof (induction fuel arbitrary: cur w p)
  case (Suc fuel)
  have dec: "decode_payload env cur = Inr p" using Suc.prems(2) by (simp add: promotion_at_def)
  note ops = Suc.prems(5) [unfolded candidate_succeeds_def]
  note adv = candidate_step_advances [OF env nofault Suc.prems(1-3)]
  show ?case
  proof (cases "phase p = CandidateVerified")
    case True
    obtain w' where "drive_phase env i p cur w = (Inr (Return (Promoted (candidate (contract p)))), w')"
      using verified_promotes [OF env nofault Suc.prems(1,2) True] ops by (metis prod.collapse)
    then show ?thesis using Suc.prems(6) dec by auto
  next
    case False
    then have "\<exists>f ph op. drive_phase env i p cur w = candidate_step env i p cur f ph op w \<and>
        \<not> rollback_phase ph \<and> ph \<noteq> Completed \<and> (\<forall>r. is_ok (fst (f r)))"
      using Suc.prems(3,4) ops
      by (cases "phase p") (simp_all add: drive_phase_def Let_def, (intro exI conjI, rule refl, simp_all)+)
    then obtain f ph op where f: "drive_phase env i p cur w = candidate_step env i p cur f ph op w"
      "\<not> rollback_phase ph" "ph \<noteq> Completed" "\<forall>r. is_ok (fst (f r))" by blast
    obtain nj w' where n: "candidate_step env i p cur f ph op w = (Inr (Continue nj), w')"
      "invar (w_journal w')" "promotion_at env (w_journal w') i nj (p\<lparr>phase := ph\<rparr>)"
      by (rule adv [OF f(2,4)])
    show ?thesis
      using Suc.IH [OF n(2,3)] f n(1) Suc.prems(5,6) dec by simp
  qed
qed simp

end

section \<open>The database implements the journal contract\<close>

lemma map_journal_Inr_iff [simp]: "map_journal r = Inr x \<longleftrightarrow> r = Inr x"
  by (cases r) (simp_all add: map_journal_def)

lemma database_journal_sel [simp]:
  "j_load (database_journal now) t i = map_journal (get_payload_job t i)"
  "j_compare_and_swap (database_journal now) t i e n =
     map_journal (compare_and_swap_running_job_payload t now i MODEL_PROMOTION_JOB_KIND e n)"
  "j_finish (database_journal now) t i e n st ec =
     map_journal (finish_running_payload_job t now i MODEL_PROMOTION_JOB_KIND e n st ec)"
  "j_begin_running (database_journal now) t i k n =
     map_journal (begin_running_payload_job t now i MODEL_PROMOTION_JOB_KIND k n)"
  by (simp_all add: database_journal_def)

interpretation db_journal: promotion_journal "database_journal now" job_table_ok for now :: nat
proof (unfold_locales, goal_cases)
  case (1 s i pj n)
  then obtain s' where s': "compare_and_swap_running_job_payload s now i MODEL_PROMOTION_JOB_KIND
      (pj_payload pj) n = Inr s'"
    using swap_eq [OF 1(1), of now i MODEL_PROMOTION_JOB_KIND "pj_payload pj" n] by auto
  moreover have "job_table_ok s'" by (rule all2_evolves_ok [OF 1(1) swap_evolves [OF s']])
  moreover have "get_payload_job s' i = Inr (Some (pj\<lparr>pj_payload := n\<rparr>))"
    using swap_load [OF 1(1) s'] 1(2) by simp
  ultimately show ?case by simp
next
  case (2 s i pj st n ec)
  then obtain s' where s': "finish_running_payload_job s now i MODEL_PROMOTION_JOB_KIND
      (pj_payload pj) n st ec = Inr s'"
    using finish_eq [OF 2(1), of now i MODEL_PROMOTION_JOB_KIND "pj_payload pj" n st ec] by auto
  moreover have "job_table_ok s'" by (rule all2_evolves_ok [OF 2(1) finish_evolves [OF s']])
  moreover have "get_payload_job s' i =
      Inr (Some (pj\<lparr>pj_state := st, pj_error_code := ec, pj_payload := n\<rparr>))"
    using finish_load [OF 2(1) s'] 2(2) by simp
  ultimately show ?case by simp
next
  case (3 s i k n b s')
  then have b: "begin_running_payload_job s now i MODEL_PROMOTION_JOB_KIND k n = Inr (b, s')" by simp
  have "job_table_ok s'" by (rule job_step_ok [OF job_step.begin_running [OF b] 3(1)])
  then show ?case
    using begin_load [OF 3(1) b] begin_not_created [OF b] begin_created [OF b] by simp
qed

section \<open>Properties of the saga over the database\<close>

text \<open>
  Crashes. A process that resumes the job may be stopped by a fault at any checkpoint; the database
  survives, the runtime and the fault injection may then be in any state.
\<close>

inductive crashed ::
  "('s, 'j, 'r, 'c) saga_env \<Rightarrow> string \<Rightarrow> ('s, 'r, 'c) world \<Rightarrow> ('s, 'r, 'c) world \<Rightarrow> bool"
  for env :: "('s, 'j, 'r, 'c) saga_env" and i :: string and w :: "('s, 'r, 'c) world"
where
  start: "crashed env i w w"
| crash: "crashed env i w w1 \<Longrightarrow>
    resume_promotion_with_checkpoint (env\<lparr>e_checkpoint := ck\<rparr>) i w1 = Some (Inl e, w2) \<Longrightarrow>
    w_journal w3 = w_journal w2 \<Longrightarrow> crashed env i w w3"

lemma saga_state_checkpoint [simp]:
  "saga_state (env\<lparr>e_checkpoint := ck\<rparr>) s i c = saga_state env s i c"
  "codec_ok (env\<lparr>e_checkpoint := ck\<rparr>) = codec_ok env"
  "promotion_done (env\<lparr>e_checkpoint := ck\<rparr>) s i st ec p = promotion_done env s i st ec p"
  by (simp_all add: saga_state_def codec_ok_def promotion_at_def promotion_done_def decode_payload_def)

lemma result_ok_checkpoint:
  "result_ok (env\<lparr>e_checkpoint := NoPromotionFault\<rparr>) i c rw \<Longrightarrow>
   saga_state env (w_journal (snd rw)) i c \<and>
   (case fst rw of
      Inr (Promoted idn) \<Rightarrow>
        idn = candidate c \<and>
        (\<exists>p. promotion_done env (w_journal (snd rw)) i Succeeded None p \<and> phase p = Completed \<and>
           contract p = c) \<and>
        (\<exists>r0. verify_exact_and_canary (e_runtime env) (candidate c) (canary c) r0
           = (Inr (), w_runtime (snd rw)))
    | Inr (RolledBack idn code) \<Rightarrow>
        idn = incumbent c \<and>
        (\<exists>p f. promotion_done env (w_journal (snd rw)) i Failed (Some PROMOTION_FAILED) p \<and>
           phase p = RollbackVerified \<and> contract p = c \<and> failure p = Some f \<and> runtime_code f = code) \<and>
        (\<exists>r0. verify_exact_and_canary (e_runtime env) (incumbent c) (rollback_canary c) r0
           = (Inr (), w_runtime (snd rw)))
    | Inr (AlreadyTerminal st ec) \<Rightarrow>
        (\<exists>p. promotion_done env (w_journal (snd rw)) i st ec p \<and> contract p = c \<and>
           terminal_triple st ec (phase p))
    | Inl e \<Rightarrow>
        (\<exists>p code. e = rollback_unverified_error code \<and>
           promotion_done env (w_journal (snd rw)) i Failed (Some ROLLBACK_UNVERIFIED) p \<and>
           phase p = RollbackUnverified \<and> contract p = c))"
  by (auto simp: result_ok_def NoPromotionFault_def split: sum.splits promotion_outcome.splits)

lemma crashed_saga_state:
  assumes "crashed env i w w'" and "e_journal env = database_journal now" and "codec_ok env"
    and "job_table_ok (w_journal w)" and "saga_state env (w_journal w) i c"
  shows "job_table_ok (w_journal w') \<and> saga_state env (w_journal w') i c"
  using assms(1)
proof induction
  case (crash w1 ck e w2 w3)
  obtain rw where "resume_promotion_with_checkpoint (env\<lparr>e_checkpoint := ck\<rparr>) i w1 = Some rw"
    "result_ok (env\<lparr>e_checkpoint := ck\<rparr>) i c rw" "job_table_ok (w_journal (snd rw))"
    using db_journal.resume_sound [of "env\<lparr>e_checkpoint := ck\<rparr>" now w1 i c] crash.IH assms(2,3) by auto
  then show ?case using crash.hyps(2,3) by (auto simp: result_ok_def)
qed (use assms in simp)

text \<open>
  C1. Crash recovery of the promotion saga. However often a process driving the job is stopped
  by a fault at a phase boundary, whatever state the runtime is left in, one undisturbed
  \<open>resume_promotion\<close> returns; its result is a promotion that was verified live on the candidate as the
  last runtime call and is recorded as succeeded, a rollback that was verified live on the incumbent
  and is recorded as failed with PROMOTION_FAILED, an earlier recorded terminal result, or the
  ROLLBACK_UNVERIFIED error, recorded as such. The contract pinned by the job never changes.
\<close>

theorem promotion_recovers_after_crashes:
  assumes "e_journal env = database_journal now" and "codec_ok env"
    and "job_table_ok (w_journal w)" and "saga_state env (w_journal w) i c"
    and "crashed env i w w'"
  shows "\<exists>res w''. resume_promotion env i w' = Some (res, w'') \<and>
    saga_state env (w_journal w'') i c \<and>
    (case res of
       Inr (Promoted idn) \<Rightarrow>
         idn = candidate c \<and>
         (\<exists>p. promotion_done env (w_journal w'') i Succeeded None p \<and> phase p = Completed \<and>
            contract p = c) \<and>
         (\<exists>r0. verify_exact_and_canary (e_runtime env) (candidate c) (canary c) r0
            = (Inr (), w_runtime w''))
     | Inr (RolledBack idn code) \<Rightarrow>
         idn = incumbent c \<and>
         (\<exists>p f. promotion_done env (w_journal w'') i Failed (Some PROMOTION_FAILED) p \<and>
            phase p = RollbackVerified \<and> contract p = c \<and> failure p = Some f \<and> runtime_code f = code) \<and>
         (\<exists>r0. verify_exact_and_canary (e_runtime env) (incumbent c) (rollback_canary c) r0
            = (Inr (), w_runtime w''))
     | Inr (AlreadyTerminal st ec) \<Rightarrow>
         (\<exists>p. promotion_done env (w_journal w'') i st ec p \<and> contract p = c \<and>
            terminal_triple st ec (phase p))
     | Inl e \<Rightarrow>
         (\<exists>p code. e = rollback_unverified_error code \<and>
            promotion_done env (w_journal w'') i Failed (Some ROLLBACK_UNVERIFIED) p \<and>
            phase p = RollbackUnverified \<and> contract p = c))"
proof -
  have w': "job_table_ok (w_journal w')" "saga_state env (w_journal w') i c"
    using crashed_saga_state [OF assms(5,1-4)] by simp_all
  obtain rw where "resume_promotion env i w' = Some rw"
    "result_ok (env\<lparr>e_checkpoint := NoPromotionFault\<rparr>) i c rw"
    using db_journal.resume_sound [of "env\<lparr>e_checkpoint := NoPromotionFault\<rparr>" now w' i c] w' assms(1,2)
    by (auto simp: resume_promotion_def)
  with result_ok_checkpoint show ?thesis
    by (intro exI [of _ "fst rw"] exI [of _ "snd rw"]) fastforce
qed

text \<open>A runtime that accepts everything, a codec that stores the payload itself, and one contract.\<close>

definition demo_contract :: promotion_contract where
  "demo_contract =
     (let sha = (\<lambda>c. replicate 64 c);
          cand = \<lparr>model_version_id = ''model-2'', deployment_sha256 = sha (CHR ''b'')\<rparr>
      in \<lparr>incumbent = \<lparr>model_version_id = ''model-1'', deployment_sha256 = sha (CHR ''a'')\<rparr>,
          candidate = cand, scorecard_sha256 = sha (CHR ''c''), verdict_sha256 = sha (CHR ''d''),
          canary = \<lparr>suite_id = ''canary-1'', suite_sha256 = sha (CHR ''e''), expected_model = cand\<rparr>\<rparr>)"

definition demo_env ::
  "(promotion_payload job_table, promotion_payload, exact_deployment_identity, unit) saga_env"
where
  "demo_env =
     \<lparr>e_journal = database_journal 0,
      e_runtime = \<lparr>set_database_champion = (\<lambda>m r. (Inr (), m)),
        publish_champion_pointer = (\<lambda>m r. (Inr (), m)), restart_champion = (\<lambda>r. (Inr (), r)),
        verify_exact_and_canary = (\<lambda>m c r. (if r = m then Inr () else Inl ''LIVE_MISMATCH'', r))\<rparr>,
      e_checkpoint = NoPromotionFault, to_json = Inr, from_json = Inr\<rparr>"

definition demo_world :: "(promotion_payload job_table, exact_deployment_identity, unit) world" where
  "demo_world =
     \<lparr>w_journal = [new_row 0 ''promo-1'' MODEL_PROMOTION_JOB_KIND ''running'' (Some ''key-1'') None
        (Some \<lparr>schema = 1, phase = Prepared, contract = demo_contract, failure = None\<rparr>) (Some 0)],
      w_runtime = incumbent demo_contract, w_checkpoint = ()\<rparr>"

lemma demo_validate: "validate_contract demo_contract = Inr ()"
  by code_simp

lemma demo_codec: "codec_ok demo_env" "e_journal demo_env = database_journal 0"
  by (simp_all add: codec_ok_def demo_env_def)

lemma demo_table: "job_table_ok (w_journal demo_world)"
  by (simp add: demo_world_def job_table_ok_def new_row_def row_ok_def keys_of_def parse_def)

lemma demo_at: "promotion_at demo_env (w_journal demo_world) ''promo-1''
    \<lparr>schema = 1, phase = Prepared, contract = demo_contract, failure = None\<rparr>
    \<lparr>schema = 1, phase = Prepared, contract = demo_contract, failure = None\<rparr>"
  using demo_validate
  by (simp add: promotion_at_def demo_env_def demo_world_def get_payload_job_def row_by_id_def new_row_def
      read_payload_job_row_def parse_def decode_payload_def validate_def require_def
      PROMOTION_PAYLOAD_SCHEMA_def validate_failure_def)

lemma demo_saga_state: "saga_state demo_env (w_journal demo_world) ''promo-1'' demo_contract"
  using promotion_at_saga_state [OF demo_at] by simp

theorem promotion_recovers_after_crashes_witness:
  "\<exists>res w''. resume_promotion demo_env ''promo-1'' demo_world = Some (res, w'') \<and>
    saga_state demo_env (w_journal w'') ''promo-1'' demo_contract"
  using promotion_recovers_after_crashes [OF demo_codec(2,1) demo_table demo_saga_state crashed.start]
  by blast

text \<open>
  C2. A promotion whose candidate can be activated, published, restarted and verified is
  completed: from any forward phase recorded in the journal, an undisturbed resume returns the
  promotion of exactly the candidate of the contract, recorded as succeeded.
\<close>

theorem promotion_completes:
  assumes "e_journal env = database_journal now" and "codec_ok env"
    and "job_table_ok (w_journal w)" and "promotion_at env (w_journal w) i cur p"
    and "\<not> rollback_phase (phase p)" and "phase p \<noteq> Completed"
    and "candidate_succeeds env (contract p)"
  shows "\<exists>w' q. resume_promotion env i w = Some (Inr (Promoted (candidate (contract p))), w') \<and>
    promotion_done env (w_journal w') i Succeeded None q \<and> contract q = contract p"
proof -
  let ?env = "env\<lparr>e_checkpoint := NoPromotionFault\<rparr>"
  have at: "promotion_at ?env (w_journal w) i cur p"
    using assms(4) by (simp add: promotion_at_def decode_payload_def)
  have ph: "phase p \<notin> {Completed, RollbackUnverified}" using assms(5,6) by auto
  obtain rw where rw: "resume_promotion_with_checkpoint ?env i w = Some rw" "result_ok ?env i (contract p) rw"
    using db_journal.resume_sound [of ?env now w i "contract p"] assms(1-3)
      promotion_at_saga_state [OF at ph] by auto
  then have "drive DRIVE_FUEL ?env i cur w = Some rw"
    using at by (auto simp: resume_promotion_with_checkpoint_def promotion_at_def)
  then have out: "fst rw = Inr (Promoted (candidate (contract p)))"
    using db_journal.drive_promotes [of ?env now w i cur p DRIVE_FUEL rw] assms at
    by (simp add: candidate_succeeds_def)
  show ?thesis
    using rw(1) result_ok_checkpoint [OF rw(2)] out
    by (cases rw) (auto simp: resume_promotion_def)
qed

theorem promotion_completes_witness:
  "\<exists>w'. resume_promotion (demo_env\<lparr>e_runtime := (e_runtime demo_env)
        \<lparr>verify_exact_and_canary := \<lambda>m c r. (Inr (), m)\<rparr>\<rparr>) ''promo-1'' demo_world
      = Some (Inr (Promoted (candidate demo_contract)), w')"
proof -
  let ?env = "demo_env\<lparr>e_runtime := (e_runtime demo_env)\<lparr>verify_exact_and_canary := \<lambda>m c r. (Inr (), m)\<rparr>\<rparr>"
  have "promotion_at ?env (w_journal demo_world) ''promo-1''
      \<lparr>schema = 1, phase = Prepared, contract = demo_contract, failure = None\<rparr>
      \<lparr>schema = 1, phase = Prepared, contract = demo_contract, failure = None\<rparr>"
    using demo_at by (simp add: promotion_at_def decode_payload_def)
  moreover have "candidate_succeeds ?env demo_contract" by (simp add: candidate_succeeds_def demo_env_def)
  moreover have "codec_ok ?env" "e_journal ?env = database_journal 0"
    by (simp_all add: codec_ok_def demo_env_def)
  ultimately show ?thesis
    using promotion_completes [of ?env 0 demo_world "''promo-1''"] demo_table by fastforce
qed

lemma drive_phase_not_already_terminal:
  "drive_phase env i p cur w \<noteq> (Inr (Return (AlreadyTerminal st ec)), w')"
  by (cases "phase p")
    (auto simp: drive_phase_def Let_def candidate_step_def rollback_step_def continue_with_def
      return_with_def finish_rollback_unverified_def split: prod.splits sum.splits option.splits)

lemma drive_not_already_terminal:
  "drive fuel env i cur w = Some rw \<Longrightarrow> \<nexists>st ec. fst rw = Inr (AlreadyTerminal st ec)"
  by (induction fuel arbitrary: cur w)
    (auto simp: drive_phase_not_already_terminal split: sum.splits prod.splits drive_next.splits)

text \<open>
  C3. Fail-safe rollback. When the incumbent can be restored and verified, an undisturbed resume
  of a running job never ends in an error, wherever the candidate fails: the outcome is the
  promotion of the candidate or a verified rollback to the incumbent.
\<close>

theorem promotion_never_errs_when_incumbent_restorable:
  assumes "e_journal env = database_journal now" and "codec_ok env"
    and "job_table_ok (w_journal w)" and "promotion_at env (w_journal w) i cur p"
    and "phase p \<notin> {Completed, RollbackUnverified}"
    and "incumbent_restorable env (contract p)"
  shows "\<exists>out w'. resume_promotion env i w = Some (Inr out, w') \<and>
    (out = Promoted (candidate (contract p)) \<or> (\<exists>code. out = RolledBack (incumbent (contract p)) code))"
proof -
  let ?env = "env\<lparr>e_checkpoint := NoPromotionFault\<rparr>"
  have at: "promotion_at ?env (w_journal w) i cur p"
    using assms(4) by (simp add: promotion_at_def decode_payload_def)
  have fuel: "10 - phase_rank (phase p) \<le> DRIVE_FUEL" by (simp add: DRIVE_FUEL_def)
  obtain rw where rw: "drive DRIVE_FUEL ?env i cur w = Some rw" "result_ok ?env i (contract p) rw"
    using db_journal.drive_sound [of ?env now w i cur p DRIVE_FUEL] assms at fuel by auto
  have ok: "is_ok (fst rw)"
    using db_journal.drive_no_error [of ?env now w i cur p DRIVE_FUEL rw] assms at rw(1)
    by (simp add: incumbent_restorable_def)
  have "resume_promotion env i w = Some rw"
    using at rw(1) by (auto simp: resume_promotion_def resume_promotion_with_checkpoint_def promotion_at_def)
  moreover have "\<nexists>st ec. fst rw = Inr (AlreadyTerminal st ec)"
    using drive_not_already_terminal [OF rw(1)] .
  moreover obtain out w' where out: "rw = (Inr out, w')" using ok by (cases rw) (auto simp: is_ok_iff)
  ultimately show ?thesis using result_ok_checkpoint [OF rw(2)] by (cases out) auto
qed

theorem promotion_never_errs_witness:
  "\<exists>out w'. resume_promotion (demo_env\<lparr>e_runtime :=
      \<lparr>set_database_champion = (\<lambda>m r. (if m = candidate demo_contract then Inl ''DB_LOCKED'' else Inr (), r)),
        publish_champion_pointer = (\<lambda>m r. (Inr (), m)), restart_champion = (\<lambda>r. (Inr (), r)),
        verify_exact_and_canary = (\<lambda>m c r. (Inr (), r))\<rparr>\<rparr>) ''promo-1'' demo_world = Some (Inr out, w')"
proof -
  let ?env = "demo_env\<lparr>e_runtime :=
      \<lparr>set_database_champion = (\<lambda>m r. (if m = candidate demo_contract then Inl ''DB_LOCKED'' else Inr (), r)),
        publish_champion_pointer = (\<lambda>m r. (Inr (), m)), restart_champion = (\<lambda>r. (Inr (), r)),
        verify_exact_and_canary = (\<lambda>m c r. (Inr (), r))\<rparr>\<rparr>"
  have "promotion_at ?env (w_journal demo_world) ''promo-1''
      \<lparr>schema = 1, phase = Prepared, contract = demo_contract, failure = None\<rparr>
      \<lparr>schema = 1, phase = Prepared, contract = demo_contract, failure = None\<rparr>"
    using demo_at by (simp add: promotion_at_def decode_payload_def)
  moreover have "incumbent demo_contract \<noteq> candidate demo_contract" by (simp add: demo_contract_def Let_def)
  moreover have "codec_ok ?env" "e_journal ?env = database_journal 0"
    by (simp_all add: codec_ok_def demo_env_def)
  ultimately show ?thesis
    using promotion_never_errs_when_incumbent_restorable [of ?env 0 demo_world "''promo-1''"] demo_table
    by (fastforce simp: incumbent_restorable_def)
qed

text \<open>
  Starting a promotion, with any faults injected, over a table in which every promotion job
  under this id obeys the recovery invariant: the call returns; either it is refused and neither the
  database nor the runtime nor the fault injection has been touched, or the job under this id now
  pins exactly this contract and is resumable or finished (and the result is as in \<open>result_ok\<close>).
\<close>

theorem start_promotion_all_or_nothing:
  assumes "e_journal env = database_journal now" and "codec_ok env"
    and "job_table_ok (w_journal w)"
    and "\<forall>pj. get_payload_job (w_journal w) i = Inr (Some pj) \<and> pj_kind pj = MODEL_PROMOTION_JOB_KIND
      \<longrightarrow> (\<exists>c'. saga_state env (w_journal w) i c')"
  shows "\<exists>rw. start_promotion_with_checkpoint env i key c w = Some rw \<and> job_table_ok (w_journal (snd rw)) \<and>
    (result_ok env i c rw \<and> saga_state env (w_journal (snd rw)) i c \<or> (\<exists>e. rw = (Inl e, w)))"
  using db_journal.start_sound [of env now w i key c] assms by (auto simp: result_ok_def)

theorem start_promotion_all_or_nothing_witness:
  "\<exists>rw. start_promotion_with_checkpoint demo_env ''promo-2'' ''key-2'' demo_contract demo_world = Some rw \<and>
    job_table_ok (w_journal (snd rw))"
proof -
  have "get_payload_job (w_journal demo_world) ''promo-2'' = Inr None"
    by (simp add: demo_world_def get_payload_job_def row_by_id_def new_row_def)
  then show ?thesis
    using start_promotion_all_or_nothing [OF demo_codec(2,1) demo_table, of "''promo-2''" "''key-2''" demo_contract]
    by auto
qed

text \<open>
  A job id that already holds a promotion pins its contract: starting it again with another
  contract, or with another idempotency key, or over a job of another kind, is refused and nothing
  changes; no runtime callback is called.
\<close>

theorem start_promotion_pins_contract:
  assumes "e_journal env = database_journal now" and "job_table_ok (w_journal w)"
    and "get_payload_job (w_journal w) i = Inr (Some pj)"
    and "pj_kind pj \<noteq> MODEL_PROMOTION_JOB_KIND \<or> pj_idempotency_key pj \<noteq> Some key \<or>
      (\<forall>p. decode_payload env (pj_payload pj) = Inr p \<longrightarrow> contract p \<noteq> c)"
  shows "\<exists>e. start_promotion_with_checkpoint env i key c w = Some (Inl e, w)"
proof (cases "and_then (validate_token ''jobId'' i 160) (\<lambda>_.
           and_then (validate_token ''idempotencyKey'' key 200) (\<lambda>_.
           and_then (prepared c) (\<lambda>initial.
           and_then (encode_payload env initial) (\<lambda>json.
             j_begin_running (e_journal env) (w_journal w) i key json))))")
  case (Inl e)
  then show ?thesis by (simp add: start_promotion_with_checkpoint_def)
next
  case (Inr bs)
  then obtain begun s' json where bs: "bs = (begun, s')"
    and b: "begin_running_payload_job (w_journal w) now i MODEL_PROMOTION_JOB_KIND key json = Inr (begun, s')"
    using assms(1) by (cases bs) (auto simp: and_then_eq_Inr_iff)
  have s': "s' = w_journal w"
    using b by (cases rule: begin_cases) (use assms(3) in simp_all)
  have "pj_id (begun_job begun) = i \<Longrightarrow> begun_job begun = pj"
    using begin_load [OF assms(2) b] s' assms(3) by simp
  then have "\<not> is_ok (validate_begun_job env (begun_job begun) i key c)"
    using assms(4) by (auto simp: validate_begun_job_def is_ok_iff and_then_eq_Inr_iff)
  then obtain e where "validate_begun_job env (begun_job begun) i key c = Inl e"
    by (cases "validate_begun_job env (begun_job begun) i key c") simp_all
  then show ?thesis using Inr bs s' by (simp add: start_promotion_with_checkpoint_def)
qed

theorem start_promotion_pins_contract_witness:
  "\<exists>e. start_promotion_with_checkpoint demo_env ''promo-1'' ''key-9'' demo_contract demo_world
    = Some (Inl e, demo_world)"
proof -
  obtain pj where "get_payload_job (w_journal demo_world) ''promo-1'' = Inr (Some pj)"
    "pj_idempotency_key pj = Some ''key-1''"
    by (simp add: demo_world_def get_payload_job_def row_by_id_def new_row_def read_payload_job_row_def parse_def)
  then show ?thesis
    using start_promotion_pins_contract [OF demo_codec(2) demo_table, of "''promo-1''" pj "''key-9''"] by simp
qed

end
