(* ===== verification/Engine_Supervisor.thy ===== *)
theory Engine_Supervisor
  imports Prelude
begin

text \<open>
  The supervision policy of the speech engine (\<^verbatim>\<open>engine_supervisor.rs\<close>): a circuit breaker with bounded
  exponential backoff (\<open>engine_supervisor\<close>) and the driver that sequences its ticks
  (\<open>supervision_state\<close>). A \<open>Duration\<close> is its number of nanoseconds, saturating at
  \<open>DURATION_MAX\<close>; the \<open>u32\<close> counters saturate at \<open>U32_MAX\<close>.

  Shown here: the invariant of every reachable state, that giving up is absorbing until an operator
  or a healthy probe intervenes, that an outage issues at most a fixed number of restarts
  whatever the timing, that it ends in giving up after boundedly many well-spaced ticks, and the
  spacing of restarts by warm-up, backoff and cooldown.
\<close>

section \<open>Durations\<close>

definition NANOS_PER_SEC :: nat where
  "NANOS_PER_SEC = 1000000000"

definition NANOS_PER_MILLI :: nat where
  "NANOS_PER_MILLI = 1000000"

definition DURATION_MAX :: nat where
  "DURATION_MAX = U64_MAX * NANOS_PER_SEC + (NANOS_PER_SEC - 1)"

definition from_secs :: "nat \<Rightarrow> nat" where
  "from_secs s = s * NANOS_PER_SEC"

definition from_millis :: "nat \<Rightarrow> nat" where
  "from_millis ms = ms * NANOS_PER_MILLI"

text \<open>\<open>as_millis() as u64\<close>: the 128-bit count truncated to 64 bits.\<close>

definition as_millis_u64 :: "nat \<Rightarrow> nat" where
  "as_millis_u64 d = (d div NANOS_PER_MILLI) mod 2 ^ 64"

definition dur_add :: "nat \<Rightarrow> nat \<Rightarrow> nat" where
  "dur_add a b = sat_add DURATION_MAX a b"

section \<open>The policy\<close>

datatype breaker_state = Closed | Open | HalfOpen | GaveUp

record supervisor_policy =
  max_consecutive_failures :: nat
  base_backoff :: nat
  max_backoff :: nat
  open_cooldown :: nat
  max_trips :: nat

definition default_policy :: supervisor_policy where
  "default_policy =
     \<lparr>max_consecutive_failures = 3, base_backoff = from_secs 2, max_backoff = from_secs 60,
      open_cooldown = from_secs 120, max_trips = 5\<rparr>"

datatype decision = Idle | Restart | Wait nat | Cooldown nat | DecisionGaveUp

record engine_supervisor =
  policy :: supervisor_policy
  breaker :: breaker_state
  consecutive_failures :: nat
  trips :: nat
  total_restarts :: nat
  last_attempt_at :: "nat option"
  open_until :: "nat option"

definition new_supervisor :: "supervisor_policy \<Rightarrow> engine_supervisor" where
  "new_supervisor p =
     \<lparr>policy = p, breaker = Closed, consecutive_failures = 0, trips = 0, total_restarts = 0,
      last_attempt_at = None, open_until = None\<rparr>"

definition on_healthy :: "engine_supervisor \<Rightarrow> engine_supervisor" where
  "on_healthy s = s\<lparr>consecutive_failures := 0, trips := 0, breaker := Closed, open_until := None\<rparr>"

definition on_failure :: "nat \<Rightarrow> engine_supervisor \<Rightarrow> engine_supervisor" where
  "on_failure now s =
     (if breaker s = GaveUp then s
      else
        let s1 = s\<lparr>consecutive_failures := sat_add U32_MAX (consecutive_failures s) 1,
                   last_attempt_at := Some now\<rparr>;
            should_trip = (breaker s1 = HalfOpen \<or>
              max_consecutive_failures (policy s1) \<le> consecutive_failures s1)
        in if should_trip
           then
             let s2 = s1\<lparr>trips := sat_add U32_MAX (trips s1) 1\<rparr>
             in if max_trips (policy s2) \<le> trips s2
                then s2\<lparr>breaker := GaveUp, open_until := None\<rparr>
                else s2\<lparr>breaker := Open, open_until := Some (dur_add now (open_cooldown (policy s2)))\<rparr>
           else s1)"

definition on_restart_attempt :: "nat \<Rightarrow> engine_supervisor \<Rightarrow> engine_supervisor" where
  "on_restart_attempt now s =
     (let s1 = s\<lparr>total_restarts := sat_add U32_MAX (total_restarts s) 1, last_attempt_at := Some now\<rparr>
      in if breaker s1 = Open then s1\<lparr>breaker := HalfOpen\<rparr> else s1)"

definition reset :: "engine_supervisor \<Rightarrow> engine_supervisor" where
  "reset s = s\<lparr>breaker := Closed, consecutive_failures := 0, trips := 0, open_until := None,
     last_attempt_at := None\<rparr>"

definition current_backoff :: "engine_supervisor \<Rightarrow> nat" where
  "current_backoff s =
     (if consecutive_failures s = 0 then 0
      else
        let shift = min (consecutive_failures s - 1) 32;
            mult = (if shift < 64 then 2 ^ shift mod 2 ^ 64 else U64_MAX);
            base_ms = as_millis_u64 (base_backoff (policy s));
            ms = min (sat_mul U64_MAX base_ms mult) (as_millis_u64 (max_backoff (policy s)))
        in from_millis ms)"

definition decide :: "nat \<Rightarrow> engine_supervisor \<Rightarrow> decision" where
  "decide now s =
     (case breaker s of
        GaveUp \<Rightarrow> DecisionGaveUp
      | Open \<Rightarrow>
          (let until = (case open_until s of None \<Rightarrow> now | Some u \<Rightarrow> u)
           in if until \<le> now then Restart else Cooldown (until - now))
      | HalfOpen \<Rightarrow> Wait (base_backoff (policy s))
      | Closed \<Rightarrow>
          (let backoff = current_backoff s
           in case last_attempt_at s of
                Some t \<Rightarrow>
                  if now < dur_add t backoff then Wait (dur_add t backoff - now) else Restart
              | None \<Rightarrow> Restart))"

definition engine_state_label :: "breaker_state \<Rightarrow> bool \<Rightarrow> string" where
  "engine_state_label b healthy =
     (if healthy then ''ready''
      else case b of Closed \<Rightarrow> ''starting'' | Open \<Rightarrow> ''recovering'' | HalfOpen \<Rightarrow> ''recovering''
        | GaveUp \<Rightarrow> ''failed'')"

section \<open>The driver\<close>

record supervision_state =
  sup :: engine_supervisor
  warmup_until :: "nat option"
  warmup :: nat

definition new_supervision :: "supervisor_policy \<Rightarrow> nat \<Rightarrow> supervision_state" where
  "new_supervision p w = \<lparr>sup = new_supervisor p, warmup_until = None, warmup = w\<rparr>"

definition manual_start :: "nat \<Rightarrow> supervision_state \<Rightarrow> supervision_state" where
  "manual_start now v =
     v\<lparr>sup := on_restart_attempt now (reset (sup v)), warmup_until := Some (dur_add now (warmup v))\<rparr>"

definition on_start_failed :: "nat \<Rightarrow> supervision_state \<Rightarrow> supervision_state" where
  "on_start_failed now v = v\<lparr>warmup_until := None, sup := on_failure now (sup v)\<rparr>"

text \<open>The tail of \<open>tick\<close>, after the warm-up has been dealt with.\<close>

definition tick_decide :: "nat \<Rightarrow> supervision_state \<Rightarrow> decision \<times> supervision_state" where
  "tick_decide now v =
     (let d = decide now (sup v)
      in (d, if d = Restart
             then v\<lparr>sup := on_restart_attempt now (sup v), warmup_until := Some (dur_add now (warmup v))\<rparr>
             else v))"

definition tick :: "bool \<Rightarrow> nat \<Rightarrow> supervision_state \<Rightarrow> decision \<times> supervision_state" where
  "tick healthy now v =
     (if healthy then (Idle, v\<lparr>sup := on_healthy (sup v), warmup_until := None\<rparr>)
      else
        case warmup_until v of
          Some until \<Rightarrow>
            if now < until then (Wait (until - now), v)
            else tick_decide now (v\<lparr>sup := on_failure now (sup v), warmup_until := None\<rparr>)
        | None \<Rightarrow> tick_decide now v)"

section \<open>Events and reachable states\<close>

text \<open>
  The calls the live loop makes: a tick with a health sample, the report that the start it asked
  for failed at once, and an operator's start.
\<close>

datatype event = Tick bool nat | StartFailed nat | ManualStart nat

fun react :: "event \<Rightarrow> supervision_state \<Rightarrow> decision option \<times> supervision_state" where
  "react (Tick healthy now) v = (case tick healthy now v of (d, v') \<Rightarrow> (Some d, v'))"
| "react (StartFailed now) v = (None, on_start_failed now v)"
| "react (ManualStart now) v = (None, manual_start now v)"

inductive reachable :: "supervisor_policy \<Rightarrow> nat \<Rightarrow> supervision_state \<Rightarrow> bool"
  for p :: supervisor_policy and w :: nat
where
  init: "reachable p w (new_supervision p w)"
| react: "reachable p w v \<Longrightarrow> reachable p w (snd (react e v))"

text \<open>Policies whose counters fit the \<open>u32\<close> fields.\<close>

definition policy_ok :: "supervisor_policy \<Rightarrow> bool" where
  "policy_ok p \<longleftrightarrow> max_consecutive_failures p \<le> U32_MAX \<and> max_trips p \<le> U32_MAX"

text \<open>The policy's invariant, and the driver's.\<close>

definition supervisor_ok :: "engine_supervisor \<Rightarrow> bool" where
  "supervisor_ok s \<longleftrightarrow>
     consecutive_failures s \<le> U32_MAX \<and> trips s \<le> U32_MAX \<and> total_restarts s \<le> U32_MAX \<and>
     (case breaker s of
        Closed \<Rightarrow> trips s = 0 \<and> open_until s = None \<and>
          (consecutive_failures s = 0 \<or> consecutive_failures s < max_consecutive_failures (policy s))
      | Open \<Rightarrow> 0 < trips s \<and> trips s < max_trips (policy s) \<and> open_until s \<noteq> None \<and>
          max_consecutive_failures (policy s) \<le> consecutive_failures s
      | HalfOpen \<Rightarrow> 0 < trips s \<and> trips s < max_trips (policy s) \<and>
          max_consecutive_failures (policy s) \<le> consecutive_failures s
      | GaveUp \<Rightarrow> 0 < trips s \<and> max_trips (policy s) \<le> trips s \<and> open_until s = None)"

definition supervision_ok :: "supervision_state \<Rightarrow> bool" where
  "supervision_ok v \<longleftrightarrow> supervisor_ok (sup v) \<and> policy_ok (policy (sup v)) \<and>
     (breaker (sup v) = HalfOpen \<longrightarrow> warmup_until v \<noteq> None) \<and>
     (warmup_until v \<noteq> None \<longrightarrow> breaker (sup v) = Closed \<or> breaker (sup v) = HalfOpen)"

text \<open>How many more failures the policy tolerates before it gives up.\<close>

definition failures_left :: "engine_supervisor \<Rightarrow> nat" where
  "failures_left s =
     (case breaker s of
        GaveUp \<Rightarrow> 0
      | Closed \<Rightarrow> max 1 (max_consecutive_failures (policy s)) - consecutive_failures s
                 + (max 1 (max_trips (policy s)) - 1)
      | _ \<Rightarrow> max_trips (policy s) - trips s)"

definition restarts_left :: "supervision_state \<Rightarrow> nat" where
  "restarts_left v = failures_left (sup v) - (if warmup_until v = None then 0 else 1)"

fun outage_event :: "event \<Rightarrow> bool" where
  "outage_event (Tick healthy _) = (\<not> healthy)"
| "outage_event (StartFailed _) = True"
| "outage_event (ManualStart _) = False"

section \<open>The policy's steps\<close>

lemmas supervisor_defs = on_healthy_def on_failure_def on_restart_attempt_def reset_def

lemma policy_frame [simp]:
  "policy (on_healthy s) = policy s" "policy (on_failure now s) = policy s"
  "policy (on_restart_attempt now s) = policy s" "policy (reset s) = policy s"
  by (simp_all add: supervisor_defs Let_def)

lemma supervisor_ok_new: "supervisor_ok (new_supervisor p)"
  by (simp add: supervisor_ok_def new_supervisor_def)

lemma supervisor_ok_healthy: "supervisor_ok s \<Longrightarrow> supervisor_ok (on_healthy s)"
  by (auto simp: supervisor_ok_def on_healthy_def)

lemma supervisor_ok_reset: "supervisor_ok s \<Longrightarrow> supervisor_ok (reset s)"
  by (auto simp: supervisor_ok_def reset_def)

lemma supervisor_ok_restart: "supervisor_ok s \<Longrightarrow> supervisor_ok (on_restart_attempt now s)"
  by (auto simp: supervisor_ok_def on_restart_attempt_def Let_def split: breaker_state.splits)

lemma supervisor_ok_failure:
  assumes "supervisor_ok s" and "policy_ok (policy s)"
  shows "supervisor_ok (on_failure now s)"
  using assms
  by (auto simp: supervisor_ok_def policy_ok_def on_failure_def Let_def sat_add_def U32_MAX_def
      split: breaker_state.splits)

lemma failure_breaker:
  "breaker (on_failure now s) \<noteq> HalfOpen"
  by (auto simp: on_failure_def Let_def)

lemma restart_breaker:
  "breaker (on_restart_attempt now s) = (if breaker s = Open then HalfOpen else breaker s)"
  by (simp add: on_restart_attempt_def Let_def)

lemma failures_left_zero:
  "supervisor_ok s \<Longrightarrow> failures_left s = 0 \<longleftrightarrow> breaker s = GaveUp"
  by (auto simp: supervisor_ok_def failures_left_def split: breaker_state.splits)

lemma failures_left_failure:
  assumes "supervisor_ok s" and "policy_ok (policy s)"
  shows "failures_left (on_failure now s) \<le> failures_left s - 1"
  using assms
  by (auto simp: supervisor_ok_def policy_ok_def failures_left_def on_failure_def Let_def sat_add_def
      U32_MAX_def split: breaker_state.splits)

lemma failures_left_restart [simp]: "failures_left (on_restart_attempt now s) = failures_left s"
  by (auto simp: failures_left_def on_restart_attempt_def Let_def split: breaker_state.splits)

lemma decide_restart:
  "decide now s = Restart \<Longrightarrow> breaker s = Closed \<or> breaker s = Open"
  by (auto simp: decide_def split: breaker_state.splits)

section \<open>The driver's steps\<close>

lemma supervision_ok_tick_decide:
  assumes "supervision_ok v" and "warmup_until v = None"
  shows "supervision_ok (snd (tick_decide now v))"
  using assms decide_restart [of now "sup v"]
  by (auto simp: supervision_ok_def tick_decide_def Let_def supervisor_ok_restart restart_breaker)

lemma supervision_ok_failure:
  assumes "supervision_ok v"
  shows "supervision_ok (v\<lparr>sup := on_failure now (sup v), warmup_until := None\<rparr>)"
  using assms failure_breaker [of now "sup v"] by (simp add: supervision_ok_def supervisor_ok_failure)

lemma on_start_failed_alt: "on_start_failed now v = v\<lparr>sup := on_failure now (sup v), warmup_until := None\<rparr>"
  by (simp add: on_start_failed_def)

lemma supervision_ok_tick:
  assumes "supervision_ok v"
  shows "supervision_ok (snd (tick healthy now v))"
proof (cases healthy)
  case True
  then show ?thesis
    using assms by (simp add: tick_def supervision_ok_def supervisor_ok_healthy) (simp add: on_healthy_def)
next
  case False
  then show ?thesis
    using assms supervision_ok_tick_decide [OF supervision_ok_failure [OF assms, of now], of now]
      supervision_ok_tick_decide [OF assms, of now]
    by (simp add: tick_def split: option.splits)
qed

lemma supervision_ok_react: "supervision_ok v \<Longrightarrow> supervision_ok (snd (react e v))"
proof (cases e)
  case (Tick healthy now)
  then show "supervision_ok v \<Longrightarrow> ?thesis"
    using supervision_ok_tick [of v healthy now] by (simp add: case_prod_beta)
next
  case (StartFailed now)
  then show "supervision_ok v \<Longrightarrow> ?thesis"
    using supervision_ok_failure [of v now] by (simp add: on_start_failed_alt)
next
  case (ManualStart now)
  then show "supervision_ok v \<Longrightarrow> ?thesis"
    by (simp add: manual_start_def supervision_ok_def supervisor_ok_restart supervisor_ok_reset restart_breaker)
      (simp add: reset_def)
qed

lemma reachable_ok:
  assumes "reachable p w v" and "policy_ok p"
  shows "supervision_ok v"
  using assms(1)
proof induction
  case init
  then show ?case
    using assms(2) by (simp add: new_supervision_def supervision_ok_def supervisor_ok_new)
      (simp add: new_supervisor_def)
qed (rule supervision_ok_react)

lemma react_frame: "warmup (snd (react e v)) = warmup v \<and> policy (sup (snd (react e v))) = policy (sup v)"
  by (cases e) (auto simp: tick_def tick_decide_def on_start_failed_def manual_start_def Let_def
      split: option.splits)

lemma reachable_frame: "reachable p w v \<Longrightarrow> warmup v = w \<and> policy (sup v) = p"
proof (induction rule: reachable.induct)
  case init
  then show ?case by (simp add: new_supervision_def new_supervisor_def)
qed (simp add: react_frame)

section \<open>Outages\<close>

lemma tick_decide_cases:
  obtains (restart) "decide now (sup v) = Restart"
      "tick_decide now v = (Restart, v\<lparr>sup := on_restart_attempt now (sup v),
         warmup_until := Some (dur_add now (warmup v))\<rparr>)"
  | (hold) "decide now (sup v) \<noteq> Restart" "tick_decide now v = (decide now (sup v), v)"
  by (cases "decide now (sup v) = Restart") (simp_all add: tick_decide_def)

lemma tick_decide_charge:
  assumes "supervision_ok v" and "warmup_until v = None"
  shows "(if fst (tick_decide now v) = Restart then 1 else 0) + restarts_left (snd (tick_decide now v))
    \<le> restarts_left v"
proof (cases rule: tick_decide_cases [of now v])
  case restart
  then have "breaker (sup v) \<noteq> GaveUp" using decide_restart [of now "sup v"] by auto
  then have "0 < failures_left (sup v)"
    using assms(1) failures_left_zero [of "sup v"] by (simp add: supervision_ok_def)
  with restart assms(2) show ?thesis by (simp add: restarts_left_def)
qed (use assms in \<open>simp add: restarts_left_def\<close>)

lemma failure_charge:
  assumes "supervision_ok v"
  shows "restarts_left (v\<lparr>sup := on_failure now (sup v), warmup_until := None\<rparr>) \<le> restarts_left v"
  using assms failures_left_failure [of "sup v" now]
  by (auto simp: restarts_left_def supervision_ok_def)

lemma outage_charge:
  assumes "supervision_ok v" and "outage_event e"
  shows "(if fst (react e v) = Some Restart then 1 else 0) + restarts_left (snd (react e v))
    \<le> restarts_left v"
proof (cases e)
  case (Tick healthy now)
  let ?f = "v\<lparr>sup := on_failure now (sup v), warmup_until := None\<rparr>"
  show ?thesis
  proof (cases "warmup_until v")
    case None
    then show ?thesis
      using tick_decide_charge [OF assms(1) None, of now] Tick assms(2)
      by (simp add: tick_def case_prod_beta)
  next
    case (Some until)
    then show ?thesis
      using tick_decide_charge [OF supervision_ok_failure [OF assms(1)], of now now]
        failure_charge [OF assms(1), of now] Tick assms(2)
      by (auto simp: tick_def case_prod_beta split: if_splits)
  qed
qed (use assms failure_charge [OF assms(1)] in \<open>simp_all add: on_start_failed_alt\<close>)

interpretation outage: budgeted_machine react supervision_ok outage_event
    "\<lambda>d. if d = Some Restart then 1 else 0" restarts_left
  by unfold_locales (simp_all add: supervision_ok_react outage_charge del: react.simps)

section \<open>Progress of an outage\<close>

text \<open>
  Every deadline that is set has passed once \<open>gap\<close> nanoseconds have gone by since \<open>t\<close>; \<open>gap\<close> covers
  the warm-up, the longest backoff and the cooldown.
\<close>

definition gap_ok :: "nat \<Rightarrow> supervision_state \<Rightarrow> bool" where
  "gap_ok gap v \<longleftrightarrow>
     warmup v \<le> gap \<and> open_cooldown (policy (sup v)) \<le> gap \<and> max_backoff (policy (sup v)) \<le> gap"

definition due_after :: "nat \<Rightarrow> nat \<Rightarrow> supervision_state \<Rightarrow> bool" where
  "due_after t gap v \<longleftrightarrow>
     (\<forall>u. warmup_until v = Some u \<longrightarrow> u \<le> t + gap) \<and>
     (\<forall>u. open_until (sup v) = Some u \<longrightarrow> u \<le> t + gap) \<and>
     (\<forall>a. last_attempt_at (sup v) = Some a \<longrightarrow> a \<le> t)"

fun spaced :: "nat \<Rightarrow> nat \<Rightarrow> nat list \<Rightarrow> bool" where
  "spaced gap t [] = True"
| "spaced gap t (n # ns) = (t + gap \<le> n \<and> spaced gap n ns)"

definition progress :: "supervision_state \<Rightarrow> nat" where
  "progress v = 2 * failures_left (sup v) - (if warmup_until v = None then 0 else 1)"

lemma current_backoff_le: "current_backoff s \<le> max_backoff (policy s)"
proof -
  have "as_millis_u64 d * NANOS_PER_MILLI \<le> d" for d
  proof -
    have "as_millis_u64 d \<le> d div NANOS_PER_MILLI" by (simp add: as_millis_u64_def)
    then have "as_millis_u64 d * NANOS_PER_MILLI \<le> d div NANOS_PER_MILLI * NANOS_PER_MILLI"
      by (rule mult_le_mono1)
    also have "\<dots> \<le> d" by simp
    finally show ?thesis .
  qed
  then show ?thesis
    by (auto simp: current_backoff_def Let_def from_millis_def min_def intro: order_trans mult_le_mono1)
qed

lemma dur_add_le: "dur_add a b \<le> a + b"
  by (simp add: dur_add_def sat_add_def)

lemma due_failure:
  assumes "open_cooldown (policy s) \<le> gap" and "open_until (on_failure now s) = Some u"
    and "\<forall>u. open_until s = Some u \<longrightarrow> u \<le> now + gap"
  shows "u \<le> now + gap"
  using assms dur_add_le [of now "open_cooldown (policy s)"]
  by (auto simp: on_failure_def Let_def split: if_splits)

lemma last_attempt_failure:
  "last_attempt_at (on_failure now s) = (if breaker s = GaveUp then last_attempt_at s else Some now)"
  by (simp add: on_failure_def Let_def)

lemma last_attempt_restart: "last_attempt_at (on_restart_attempt now s) = Some now"
  "open_until (on_restart_attempt now s) = open_until s"
  by (simp_all add: on_restart_attempt_def Let_def)

lemma due_after_later: "due_after t gap v \<Longrightarrow> t \<le> now \<Longrightarrow> due_after now gap v"
  by (fastforce simp: due_after_def)

lemma due_after_failure:
  assumes "due_after t gap v" and "gap_ok gap v" and "t \<le> now"
  shows "due_after now gap (v\<lparr>sup := on_failure now (sup v), warmup_until := None\<rparr>)"
  using due_after_later [OF assms(1,3)] assms(2) due_failure [of "sup v" gap now]
  by (auto simp: due_after_def gap_ok_def last_attempt_failure)

lemma due_after_tick_decide:
  assumes "due_after t gap v" and "gap_ok gap v" and "t \<le> now"
  shows "due_after now gap (snd (tick_decide now v))"
proof (cases rule: tick_decide_cases [of now v])
  case restart
  then show ?thesis
    using due_after_later [OF assms(1,3)] assms(2) dur_add_le [of now "warmup v"]
    by (auto simp: due_after_def gap_ok_def last_attempt_restart)
qed (use due_after_later [OF assms(1,3)] in simp)

lemma due_decides_restart:
  assumes "due_after t gap v" and "gap_ok gap v" and "t + gap \<le> now" and "supervision_ok v"
    and "warmup_until v = None" and "breaker (sup v) \<noteq> GaveUp"
  shows "decide now (sup v) = Restart"
proof -
  have "dur_add a (current_backoff (sup v)) \<le> now" if "last_attempt_at (sup v) = Some a" for a
    using dur_add_le [of a "current_backoff (sup v)"] current_backoff_le [of "sup v"] assms(1-3) that
    by (fastforce simp: due_after_def gap_ok_def)
  moreover have "\<not> now < dur_add a (current_backoff (sup v))" if "last_attempt_at (sup v) = Some a" for a
    using calculation [OF that] by simp
  moreover have "u \<le> now" if "open_until (sup v) = Some u" for u
    using assms(1,3) that by (fastforce simp: due_after_def)
  ultimately show ?thesis
    using assms(4-6)
    by (cases "breaker (sup v)") (auto simp: decide_def Let_def supervision_ok_def split: option.splits)
qed

lemma tick_decide_sup: "failures_left (sup (snd (tick_decide now v))) = failures_left (sup v)"
  by (cases rule: tick_decide_cases [of now v]) simp_all

text \<open>A tick after every deadline makes progress, until the policy gives up.\<close>

lemma spaced_tick_progress:
  assumes "due_after t gap v" and "gap_ok gap v" and "t + gap \<le> now" and "supervision_ok v"
    and "breaker (sup v) \<noteq> GaveUp"
  shows "progress (snd (tick False now v)) < progress v"
proof -
  have F: "0 < failures_left (sup v)"
    using assms(4,5) failures_left_zero [of "sup v"] by (simp add: supervision_ok_def)
  show ?thesis
  proof (cases "warmup_until v")
    case None
    have "tick_decide now v = (Restart, v\<lparr>sup := on_restart_attempt now (sup v),
        warmup_until := Some (dur_add now (warmup v))\<rparr>)"
      using due_decides_restart [OF assms(1-4) None assms(5)] by (simp add: tick_decide_def)
    with None F show ?thesis by (simp add: tick_def progress_def)
  next
    case (Some u)
    let ?f = "v\<lparr>sup := on_failure now (sup v), warmup_until := None\<rparr>"
    have "u \<le> now" using assms(1,3) Some by (fastforce simp: due_after_def)
    then have "tick False now v = tick_decide now ?f" using Some by (simp add: tick_def)
    moreover have "failures_left (sup ?f) \<le> failures_left (sup v) - 1"
      using assms(4) failures_left_failure by (simp add: supervision_ok_def)
    ultimately show ?thesis
      using F Some tick_decide_sup [of now ?f] by (auto simp: progress_def)
  qed
qed

lemma due_after_tick:
  assumes "due_after t gap v" and "gap_ok gap v" and "t \<le> now"
  shows "due_after now gap (snd (tick False now v))"
proof -
  let ?f = "v\<lparr>sup := on_failure now (sup v), warmup_until := None\<rparr>"
  have "gap_ok gap ?f" using assms(2) by (simp add: gap_ok_def)
  then have "due_after now gap (snd (tick_decide now ?f))"
    using due_after_tick_decide [OF due_after_failure [OF assms] _ order_refl] by blast
  then show ?thesis
    using due_after_tick_decide [OF assms] due_after_later [OF assms(1,3)]
    by (auto simp: tick_def split: option.splits)
qed

lemma gave_up_tick:
  "supervision_ok v \<Longrightarrow> breaker (sup v) = GaveUp \<Longrightarrow> tick False now v = (DecisionGaveUp, v)"
  by (auto simp: tick_def tick_decide_def decide_def supervision_ok_def split: option.splits)

lemma spaced_ticks_give_up:
  assumes "supervision_ok v" and "due_after t gap v" and "gap_ok gap v" and "spaced gap t ns"
    and "progress v \<le> length ns"
  shows "breaker (sup (snd (run_steps (tick False) ns v))) = GaveUp"
  using assms
proof (induction ns arbitrary: t v)
  case Nil
  then have "failures_left (sup v) = 0 \<or> 2 * failures_left (sup v) \<le> 1"
    by (auto simp: progress_def split: if_splits)
  then have "failures_left (sup v) = 0" by auto
  then show ?case using Nil.prems(1) failures_left_zero by (simp add: supervision_ok_def)
next
  case (Cons n ns)
  let ?v = "snd (tick False n v)"
  have ok: "supervision_ok ?v" by (rule supervision_ok_tick [OF Cons.prems(1)])
  have due: "due_after n gap ?v" using due_after_tick [OF Cons.prems(2,3)] Cons.prems(4) by simp
  have gap: "gap_ok gap ?v"
    using Cons.prems(3) react_frame [of "Tick False n" v] by (simp add: gap_ok_def case_prod_beta)
  have "progress ?v \<le> length ns"
  proof (cases "breaker (sup v) = GaveUp")
    case True
    then show ?thesis using gave_up_tick [OF Cons.prems(1)] by (simp add: progress_def failures_left_def)
  next
    case False
    then show ?thesis
      using spaced_tick_progress [OF Cons.prems(2,3) _ Cons.prems(1), of n] Cons.prems(4,5) by simp
  qed
  then show ?case using Cons.IH [OF ok due gap] Cons.prems(4) by (simp del: run_steps.simps(2))
qed

section \<open>Properties\<close>

text \<open>
  C26. Invariant of the supervision driver: in every state reachable by ticks, start failures and
  manual starts at any times, the counters fit their machine types; a closed breaker has no trips and
  fewer consecutive failures than the cap; an open or half-open breaker has tripped fewer than
  \<open>max_trips\<close> times and an open one has a cooldown deadline; giving up happens only with the
  trips used up; and a half-open probe is always covered by a warm-up window, so its outcome is
  judged.
\<close>

theorem supervision_invariant:
  assumes "reachable p w v" and "policy_ok p"
  shows "supervision_ok v \<and> policy (sup v) = p \<and> warmup v = w"
  using reachable_ok [OF assms] reachable_frame [OF assms(1)] by simp

lemma reachable_run:
  "reachable p w v \<Longrightarrow> reachable p w (snd (run_steps react es v))"
  by (induction es arbitrary: v) (simp_all del: run_steps.simps(2) react.simps add: reachable.react)

theorem supervision_invariant_witness:
  "supervision_ok (snd (run_steps react [Tick False 0, StartFailed 1, Tick False 5]
     (new_supervision default_policy 10)))"
proof -
  have "policy_ok default_policy" by (simp add: policy_ok_def default_policy_def U32_MAX_def)
  then show ?thesis
    using supervision_invariant [OF reachable_run [OF reachable.init]] by blast
qed

text \<open>
  C27. An outage cannot hammer the server: whatever the timing of the unhealthy ticks and of the
  reports of failed starts, until the next healthy probe or manual start the supervisor asks for at
  most max_consecutive_failures + max_trips - 1 restarts (each cap counted as at least one).
\<close>

theorem outage_restarts_bounded:
  assumes "reachable p w v" and "policy_ok p" and "list_all outage_event es"
  shows "length (filter (\<lambda>d. d = Some Restart) (fst (run_steps react es v)))
    \<le> max 1 (max_consecutive_failures p) + max 1 (max_trips p) - 1"
proof -
  have ok: "supervision_ok v" "policy (sup v) = p"
    using reachable_ok [OF assms(1,2)] reachable_frame [OF assms(1)] by simp_all
  have "length (filter (\<lambda>d. d = Some Restart) (fst (run_steps react es v))) \<le> restarts_left v"
    by (rule outage.run_count [OF ok(1) assms(3)]) simp
  also have "\<dots> \<le> failures_left (sup v)" by (simp add: restarts_left_def)
  also have "\<dots> \<le> max 1 (max_consecutive_failures p) + max 1 (max_trips p) - 1"
    using ok by (auto simp: failures_left_def supervision_ok_def supervisor_ok_def split: breaker_state.splits)
  finally show ?thesis .
qed

theorem outage_restarts_bounded_witness:
  "length (filter (\<lambda>d. d = Some Restart)
     (fst (run_steps react (concat (replicate 20 [Tick False 7, StartFailed 7])) (new_supervision default_policy 10))))
   \<le> 7"
proof -
  have "policy_ok default_policy" by (simp add: policy_ok_def default_policy_def U32_MAX_def)
  moreover have "list_all outage_event (concat (replicate 20 [Tick False 7, StartFailed 7]))"
    by (simp add: list_all_iff)
  moreover have "max 1 (max_consecutive_failures default_policy) + max 1 (max_trips default_policy) - 1 = 7"
    by (simp add: default_policy_def)
  ultimately show ?thesis
    using outage_restarts_bounded [OF reachable.init] by metis
qed

text \<open>
  C28. An outage ends: if the probe stays unhealthy and the ticks are at least \<open>gap\<close> apart, where
  \<open>gap\<close> covers the warm-up, the maximal backoff and the cooldown, then after
  2 * (max_consecutive_failures + max_trips - 1) ticks the breaker has given up; no backoff, cooldown
  or half-open wait blocks the machine for ever.
\<close>

theorem outage_gives_up:
  assumes "reachable p w v" and "policy_ok p" and "due_after t gap v"
    and "w \<le> gap" and "open_cooldown p \<le> gap" and "max_backoff p \<le> gap"
    and "spaced gap t ns"
    and "2 * (max 1 (max_consecutive_failures p) + max 1 (max_trips p) - 1) \<le> length ns"
  shows "breaker (sup (snd (run_steps (tick False) ns v))) = GaveUp"
proof -
  have ok: "supervision_ok v" "policy (sup v) = p" "warmup v = w"
    using reachable_ok [OF assms(1,2)] reachable_frame [OF assms(1)] by simp_all
  have "failures_left (sup v) \<le> max 1 (max_consecutive_failures p) + max 1 (max_trips p) - 1"
    using ok by (auto simp: failures_left_def supervision_ok_def supervisor_ok_def split: breaker_state.splits)
  then have "progress v \<le> length ns" using assms(8) by (simp add: progress_def)
  then show ?thesis
    using spaced_ticks_give_up [OF ok(1) assms(3) _ assms(7)] ok(2,3) assms(4-6) by (simp add: gap_ok_def)
qed

theorem outage_gives_up_witness:
  "breaker (sup (snd (run_steps (tick False) (map (\<lambda>k. from_secs 120 * (k + 1)) [0..<14])
     (new_supervision default_policy (from_secs 90))))) = GaveUp"
proof (rule outage_gives_up [OF reachable.init])
  show "policy_ok default_policy" by (simp add: policy_ok_def default_policy_def U32_MAX_def)
  show "due_after 0 (from_secs 120) (new_supervision default_policy (from_secs 90))"
    by (simp add: due_after_def new_supervision_def new_supervisor_def)
  show "spaced (from_secs 120) 0 (map (\<lambda>k. from_secs 120 * (k + 1)) [0..<14])"
    by (simp add: upt_conv_Cons from_secs_def NANOS_PER_SEC_def)
qed (simp_all add: default_policy_def from_secs_def NANOS_PER_SEC_def)

text \<open>
  Giving up is absorbing: from a reachable state that gave up, no sequence of unhealthy ticks
  and failure reports changes the state or yields anything but the give-up decision, and the label
  shown is \<^verbatim>\<open>failed\<close>; only a healthy probe or a manual start resumes supervision.
\<close>

theorem gave_up_absorbing:
  assumes "reachable p w v" and "policy_ok p" and "breaker (sup v) = GaveUp"
    and "list_all outage_event es"
  shows "snd (run_steps react es v) = v \<and>
    set (fst (run_steps react es v)) \<subseteq> {None, Some DecisionGaveUp} \<and>
    engine_state_label (breaker (sup v)) False = ''failed''"
proof -
  have ok: "supervision_ok v" by (rule reachable_ok [OF assms(1,2)])
  have "react e v = (None, v) \<or> react e v = (Some DecisionGaveUp, v)" if "outage_event e" for e
    using that gave_up_tick [OF ok assms(3)] ok assms(3)
    by (cases e) (auto simp: on_start_failed_def on_failure_def supervision_ok_def)
  then have step: "snd (react e v) = v \<and> fst (react e v) \<in> {None, Some DecisionGaveUp}"
    if "outage_event e" for e using that by fastforce
  have "snd (run_steps react es v) = v \<and> set (fst (run_steps react es v)) \<subseteq> {None, Some DecisionGaveUp}"
    using assms(4)
  proof (induction es)
    case (Cons e es)
    then show ?case using step [of e] by (simp del: react.simps run_steps.simps(2))
  qed simp
  then show ?thesis using assms(3) by (simp add: engine_state_label_def)
qed

theorem gave_up_absorbing_witness:
  "let p = default_policy\<lparr>max_trips := 1, max_consecutive_failures := 1\<rparr>;
       v = snd (react (StartFailed 3) (new_supervision p 10))
   in snd (run_steps react [Tick False 4, StartFailed 5, Tick False 1000] v) = v"
proof -
  let ?p = "default_policy\<lparr>max_trips := 1, max_consecutive_failures := 1\<rparr>"
  let ?v = "snd (react (StartFailed 3) (new_supervision ?p 10))"
  have "policy_ok ?p" by (simp add: policy_ok_def default_policy_def U32_MAX_def)
  moreover have "breaker (sup ?v) = GaveUp"
    by (simp add: on_start_failed_def on_failure_def new_supervision_def new_supervisor_def
        default_policy_def sat_add_def U32_MAX_def)
  moreover have "reachable ?p 10 ?v" by (intro reachable.react reachable.init)
  ultimately show ?thesis
    using gave_up_absorbing [of ?p 10 ?v "[Tick False 4, StartFailed 5, Tick False 1000]"]
    unfolding Let_def by (simp del: run_steps.simps react.simps)
qed

text \<open>
  The backoff is the documented one and its machine arithmetic is harmless: for policies whose
  durations fit 64 bits of milliseconds it is base * 2^(failures-1) with the exponent capped at 32,
  in milliseconds and capped at the maximal backoff; it never exceeds \<open>max_backoff\<close> and never
  decreases as the failures accumulate.
\<close>

theorem backoff_exponential:
  assumes "base_backoff p div NANOS_PER_MILLI < 2 ^ 64" and "max_backoff p div NANOS_PER_MILLI < 2 ^ 64"
    and "m \<le> n"
  shows "current_backoff (s\<lparr>policy := p, consecutive_failures := n\<rparr>) =
      (if n = 0 then 0
       else min (base_backoff p div NANOS_PER_MILLI * 2 ^ min (n - 1) 32)
                (max_backoff p div NANOS_PER_MILLI) * NANOS_PER_MILLI) \<and>
    current_backoff (s\<lparr>policy := p, consecutive_failures := n\<rparr>) \<le> max_backoff p \<and>
    current_backoff (s\<lparr>policy := p, consecutive_failures := m\<rparr>) \<le>
      current_backoff (s\<lparr>policy := p, consecutive_failures := n\<rparr>)"
proof -
  have eq: "current_backoff (s\<lparr>policy := p, consecutive_failures := k\<rparr>) =
      (if k = 0 then 0
       else min (base_backoff p div NANOS_PER_MILLI * 2 ^ min (k - 1) 32)
                (max_backoff p div NANOS_PER_MILLI) * NANOS_PER_MILLI)" for k
  proof -
    have "(2::nat) ^ min (k - 1) 32 \<le> 2 ^ 32" by (rule power_increasing) simp_all
    then have "(2::nat) ^ min (k - 1) 32 mod 2 ^ 64 = 2 ^ min (k - 1) 32" by simp
    then show ?thesis
      using assms(1,2)
      by (auto simp: current_backoff_def Let_def as_millis_u64_def sat_mul_def from_millis_def U64_MAX_def min_def)
  qed
  have "(2::nat) ^ min (m - 1) 32 \<le> 2 ^ min (n - 1) 32"
    using assms(3) by (intro power_increasing) auto
  then have "base_backoff p div NANOS_PER_MILLI * 2 ^ min (m - 1) 32
      \<le> base_backoff p div NANOS_PER_MILLI * 2 ^ min (n - 1) 32"
    by (rule mult_le_mono2)
  then have "current_backoff (s\<lparr>policy := p, consecutive_failures := m\<rparr>) \<le>
      current_backoff (s\<lparr>policy := p, consecutive_failures := n\<rparr>)"
    using assms(3) unfolding eq by (simp add: min_le_iff_disj)
  then show ?thesis
    using eq [of n] current_backoff_le [of "s\<lparr>policy := p, consecutive_failures := n\<rparr>"] by simp
qed

theorem backoff_exponential_witness:
  "current_backoff ((new_supervisor default_policy)\<lparr>policy := default_policy, consecutive_failures := 3\<rparr>)
    = from_secs 8"
  using backoff_exponential [of default_policy 1 3 "new_supervisor default_policy"]
  by (simp add: default_policy_def from_secs_def NANOS_PER_SEC_def NANOS_PER_MILLI_def)

text \<open>
  Restarts are spaced. After a tick asks for a restart at time \<open>t\<close>, unhealthy ticks before the
  end of its warm-up only wait for the remaining time and change nothing; while the breaker is open,
  unhealthy ticks before the cooldown deadline only cool down; and a failure reported in the closed
  state delays the next restart by the backoff.
\<close>

theorem restart_spacing:
  assumes "reachable p w v" and "policy_ok p"
  shows "(fst (tick False t v) = Restart \<longrightarrow> now < dur_add t w \<longrightarrow>
      tick False now (snd (tick False t v)) = (Wait (dur_add t w - now), snd (tick False t v))) \<and>
    (breaker (sup v) = Open \<longrightarrow> (\<exists>u. open_until (sup v) = Some u \<and>
      (now < u \<longrightarrow> tick False now v = (Cooldown (u - now), v)))) \<and>
    (breaker (sup (on_start_failed t v)) = Closed \<longrightarrow>
      now < dur_add t (current_backoff (sup (on_start_failed t v))) \<longrightarrow>
      tick False now (on_start_failed t v) =
        (Wait (dur_add t (current_backoff (sup (on_start_failed t v))) - now), on_start_failed t v))"
proof (intro conjI impI)
  have ok: "supervision_ok v" "warmup v = w"
    using reachable_ok [OF assms] reachable_frame [OF assms(1)] by simp_all
  have td: "warmup_until (snd (tick_decide t u)) = Some (dur_add t (warmup u))"
    if "fst (tick_decide t u) = Restart" for u
    by (cases rule: tick_decide_cases [of t u]) (use that in simp_all)
  assume r: "fst (tick False t v) = Restart" and n: "now < dur_add t w"
  have "warmup_until (snd (tick False t v)) = Some (dur_add t w)"
    using r td ok(2) by (auto simp: tick_def split: option.splits if_splits)
  then show "tick False now (snd (tick False t v)) = (Wait (dur_add t w - now), snd (tick False t v))"
    using n by (simp add: tick_def [of False now])
next
  assume "breaker (sup v) = Open"
  moreover have "supervision_ok v" by (rule reachable_ok [OF assms])
  ultimately show "\<exists>u. open_until (sup v) = Some u \<and>
      (now < u \<longrightarrow> tick False now v = (Cooldown (u - now), v))"
    by (auto simp: supervision_ok_def supervisor_ok_def tick_def tick_decide_def decide_def split: option.splits)
next
  let ?v = "on_start_failed t v"
  assume c: "breaker (sup ?v) = Closed" and n: "now < dur_add t (current_backoff (sup ?v))"
  have "last_attempt_at (sup ?v) = Some t" "warmup_until ?v = None"
    using c by (auto simp: on_start_failed_alt last_attempt_failure) (simp add: on_failure_def)
  then show "tick False now ?v = (Wait (dur_add t (current_backoff (sup ?v)) - now), ?v)"
    using c n by (simp add: tick_def tick_decide_def decide_def)
qed

theorem restart_spacing_witness:
  "tick False 5 (snd (tick False 0 (new_supervision default_policy 10)))
    = (Wait 5, snd (tick False 0 (new_supervision default_policy 10)))"
proof -
  have "policy_ok default_policy" by (simp add: policy_ok_def default_policy_def U32_MAX_def)
  moreover have "fst (tick False 0 (new_supervision default_policy 10)) = Restart"
    by (simp add: tick_def tick_decide_def decide_def new_supervision_def new_supervisor_def)
  ultimately show ?thesis
    using restart_spacing [OF reachable.init, of default_policy 0 10 5]
    by (simp add: dur_add_def sat_add_def DURATION_MAX_def U64_MAX_def NANOS_PER_SEC_def)
qed

end
