(* ===== verification/Normalizer.thy ===== *)
theory Normalizer
  imports Prelude
begin

text \<open>
  The Sorani text normalizer (\<^verbatim>\<open>normalizer.rs\<close>). Text is a list of Unicode scalar values, written in
  hexadecimal. The Unicode tables the code takes from its libraries are fields of \<open>unicode_tables\<close>: canonical
  composition (crate unicode-normalization), the alphabetic property and lower-casing, and the
  decimal digits matched by the regular expression \<^verbatim>\<open>\d\<close>. The fixed regular expressions of the code
  are written out as matchers at the start of a text (\<open>regex_replace\<close> scans from left to right and takes
  the leftmost match, as \<open>replace_all\<close> does).

  Shown here: the output is a sequence of words separated by single spaces without any of the
  folded code points, and the number verbalizer can be read back.
\<close>

section \<open>Unicode tables and regular expressions\<close>

record unicode_tables =
  nfc :: "utext \<Rightarrow> utext"
  is_alphabetic :: "uchar \<Rightarrow> bool"
  is_decimal :: "uchar \<Rightarrow> bool"
  to_lowercase :: "utext \<Rightarrow> utext"

text \<open>Replacing every character of a class by a fixed text.\<close>

definition replace_class :: "(uchar \<Rightarrow> bool) \<Rightarrow> utext \<Rightarrow> utext \<Rightarrow> utext" where
  "replace_class P r s = concat (map (\<lambda>c. if P c then r else [c]) s)"

definition ARABIC_KAF :: "uchar \<Rightarrow> bool" where
  "ARABIC_KAF c \<longleftrightarrow> c \<in> {0x0643, 0x06AA, 0x06AC}"

definition ARABIC_YAH :: "uchar \<Rightarrow> bool" where
  "ARABIC_YAH c \<longleftrightarrow> c \<in> {0x064A, 0x06D2}"

definition ZERO_WIDTH_FORMAT :: "uchar \<Rightarrow> bool" where
  "ZERO_WIDTH_FORMAT c \<longleftrightarrow>
     c = 0x061C \<or> c = 0x200B \<or> c = 0x200D \<or> (0x202A \<le> c \<and> c \<le> 0x202E) \<or>
     (0x2060 \<le> c \<and> c \<le> 0x2064) \<or> (0x2066 \<le> c \<and> c \<le> 0x2069) \<or> c = 0xFEFF"

definition ARABIC_HAMZA :: "uchar \<Rightarrow> bool" where
  "ARABIC_HAMZA c \<longleftrightarrow> c \<in> {0x0623, 0x0625}"

definition ARABIC_DIACTIRICS :: "uchar \<Rightarrow> bool" where
  "ARABIC_DIACTIRICS c \<longleftrightarrow> (0x064B \<le> c \<and> c \<le> 0x065F) \<or> c = 0x0670"

text \<open>MULTI_SPACE: every run of whitespace becomes one space.\<close>

fun collapse_spaces :: "utext \<Rightarrow> utext" where
  "collapse_spaces [] = []"
| "collapse_spaces [c] = (if is_whitespace c then [32] else [c])"
| "collapse_spaces (c # d # s) =
     (if is_whitespace c
      then (if is_whitespace d then collapse_spaces (d # s) else 32 # collapse_spaces (d # s))
      else c # collapse_spaces (d # s))"

text \<open>
  \<open>Regex::replace_all\<close> with a closure: \<open>m\<close> gives the length of the match at the start of a text.
\<close>

function regex_replace :: "(utext \<Rightarrow> nat option) \<Rightarrow> (utext \<Rightarrow> utext) \<Rightarrow> utext \<Rightarrow> utext" where
  "regex_replace m f [] = []"
| "regex_replace m f (c # s) =
     (case m (c # s) of
        Some (Suc n) \<Rightarrow> f (take (Suc n) (c # s)) @ regex_replace m f (drop (Suc n) (c # s))
      | _ \<Rightarrow> c # regex_replace m f s)"
  by pat_completeness auto
termination by (relation "measure (\<lambda>(_, _, s). length s)") auto

section \<open>Configuration\<close>

record normalization_config =
  normalize_numbers :: bool
  verbalize_numbers :: bool
  normalize_hamza :: bool
  remove_diacritics :: bool

definition default_config :: normalization_config where
  "default_config = \<lparr>normalize_numbers = True, verbalize_numbers = True, normalize_hamza = True,
     remove_diacritics = False\<rparr>"

definition char_only :: normalization_config where
  "char_only = \<lparr>normalize_numbers = False, verbalize_numbers = False, normalize_hamza = True,
     remove_diacritics = False\<rparr>"

section \<open>Heh\<close>

definition is_arabic_combining_mark :: "uchar \<Rightarrow> bool" where
  "is_arabic_combining_mark c \<longleftrightarrow> (0x064B \<le> c \<and> c \<le> 0x065F) \<or> c = 0x0670"

text \<open>The base character at or after a position, given the text from that position on.\<close>

definition next_base_char :: "utext \<Rightarrow> uchar option" where
  "next_base_char s = find (\<lambda>c. \<not> is_arabic_combining_mark c) s"

definition heh_is_final :: "unicode_tables \<Rightarrow> utext \<Rightarrow> bool" where
  "heh_is_final u s = (case next_base_char s of None \<Rightarrow> True | Some c \<Rightarrow> \<not> is_alphabetic u c)"

fun normalize_heh_contextual :: "unicode_tables \<Rightarrow> utext \<Rightarrow> utext" where
  "normalize_heh_contextual u [] = []"
| "normalize_heh_contextual u (c # s) =
     (if c = 0x0647 then (if heh_is_final u s then 0x06D5 else 0x06BE)
      else if c = 0x0629 then 0x06D5
      else c) # normalize_heh_contextual u s"

function protect_word_final_heh_tatweel :: "unicode_tables \<Rightarrow> utext \<Rightarrow> utext" where
  "protect_word_final_heh_tatweel u [] = []"
| "protect_word_final_heh_tatweel u (c # s) =
     (let rest = dropWhile (\<lambda>d. d = 0x0640) s
      in if c = 0x0647 \<and> length rest < length s \<and> heh_is_final u rest
         then 0x06BE # protect_word_final_heh_tatweel u rest
         else c # protect_word_final_heh_tatweel u s)"
  by pat_completeness auto
termination by (relation "measure (\<lambda>(_, s). length s)") auto

text \<open>Step 3.5: heh followed by ZWNJ is the vowel.\<close>

fun fold_heh_zwnj :: "utext \<Rightarrow> utext" where
  "fold_heh_zwnj (c # d # s) =
     (if c = 0x0647 \<and> d = 0x200C then 0x06D5 # fold_heh_zwnj s else c # fold_heh_zwnj (d # s))"
| "fold_heh_zwnj s = s"

section \<open>Numbers\<close>

definition units :: "utext list" where
  "units = [[], [0x06CC, 0x06D5, 0x06A9], [0x062F, 0x0648, 0x0648], [0x0633, 0x06CE],
     [0x0686, 0x0648, 0x0627, 0x0631], [0x067E, 0x06CE, 0x0646, 0x062C], [0x0634, 0x06D5, 0x0634],
     [0x062D, 0x06D5, 0x0648, 0x062A], [0x06BE, 0x06D5, 0x0634, 0x062A], [0x0646, 0x06C6]]"

definition tens :: "utext list" where
  "tens = [[], [], [0x0628, 0x06CC, 0x0633, 0x062A], [0x0633, 0x06CC], [0x0686, 0x0644],
     [0x067E, 0x06D5, 0x0646, 0x062C, 0x0627], [0x0634, 0x06D5, 0x0633, 0x062A],
     [0x062D, 0x06D5, 0x0641, 0x062A, 0x0627], [0x06BE, 0x06D5, 0x0634, 0x062A, 0x0627],
     [0x0646, 0x06D5, 0x0648, 0x06D5, 0x062F]]"

definition hundreds :: "utext list" where
  "hundreds = [[], [0x0633, 0x06D5, 0x062F], [0x062F, 0x0648, 0x0648, 0x0633, 0x06D5, 0x062F],
     [0x0633, 0x06CE, 0x0633, 0x06D5, 0x062F], [0x0686, 0x0648, 0x0627, 0x0631, 0x0633, 0x06D5, 0x062F],
     [0x067E, 0x06CE, 0x0646, 0x062C, 0x0633, 0x06D5, 0x062F], [0x0634, 0x06D5, 0x0634, 0x0633, 0x06D5, 0x062F],
     [0x062D, 0x06D5, 0x0648, 0x062A, 0x0633, 0x06D5, 0x062F],
     [0x06BE, 0x06D5, 0x0634, 0x062A, 0x0633, 0x06D5, 0x062F], [0x0646, 0x06C6, 0x0633, 0x06D5, 0x062F]]"

definition teens :: "nat \<Rightarrow> utext" where
  "teens x =
     (if x = 10 then [0x062F, 0x06D5]
      else if x = 11 then [0x06CC, 0x0627, 0x0632, 0x062F, 0x06D5]
      else if x = 12 then [0x062F, 0x0648, 0x0627, 0x0646, 0x0632, 0x062F, 0x06D5]
      else if x = 13 then [0x0633, 0x06CC, 0x0627, 0x0646, 0x0632, 0x062F, 0x06D5]
      else if x = 14 then [0x0686, 0x0648, 0x0627, 0x0631, 0x062F, 0x06D5]
      else if x = 15 then [0x067E, 0x0627, 0x0632, 0x062F, 0x06D5]
      else if x = 16 then [0x0634, 0x0627, 0x0632, 0x062F, 0x06D5]
      else if x = 17 then [0x062D, 0x06D5, 0x06A4, 0x062F, 0x06D5]
      else if x = 18 then [0x06BE, 0x06D5, 0x0698, 0x062F, 0x06D5]
      else if x = 19 then [0x0646, 0x06C6, 0x0632, 0x062F, 0x06D5]
      else [])"

definition SIFR :: utext where "SIFR = [0x0633, 0x0641, 0x0631]"
definition HEZAR :: utext where "HEZAR = [0x06BE, 0x06D5, 0x0632, 0x0627, 0x0631]"
definition MILYON :: utext where "MILYON = [0x0645, 0x0644, 0x06CC, 0x06C6, 0x0646]"
definition MILYAR :: utext where "MILYAR = [0x0645, 0x0644, 0x06CC, 0x0627, 0x0631]"
definition WAW :: utext where "WAW = [0x0648]"

text \<open>The parts below one thousand.\<close>

definition small_parts :: "nat \<Rightarrow> utext list" where
  "small_parts n =
     (if 100 \<le> n then [hundreds ! (n div 100)] else []) @
     (let r = (if 100 \<le> n then n mod 100 else n)
      in if 20 \<le> r then tens ! (r div 10) # (if 0 < r mod 10 then [units ! (r mod 10)] else [])
         else if 10 \<le> r then [teens r]
         else if 0 < r then [units ! r] else [])"

function num_to_kurdish :: "nat \<Rightarrow> utext" where
  "num_to_kurdish n =
     (if n = 0 then SIFR
      else
        let b = n div 1000000000; n1 = (if 1000000000 \<le> n then n mod 1000000000 else n);
            mi = n1 div 1000000; n2 = (if 1000000 \<le> n1 then n1 mod 1000000 else n1);
            t = n2 div 1000; n3 = (if 1000 \<le> n2 then n2 mod 1000 else n2);
            parts =
              (if 1000000000 \<le> n then [num_to_kurdish b @ [32] @ MILYAR] else []) @
              (if 1000000 \<le> n1 then [num_to_kurdish mi @ [32] @ MILYON] else []) @
              (if 1000 \<le> n2 then [if t = 1 then HEZAR else num_to_kurdish t @ [32] @ HEZAR] else []) @
              small_parts n3
        in join ([32] @ WAW @ [32]) (filter (\<lambda>s. s \<noteq> []) parts))"
  by pat_completeness auto
termination
proof (relation "measure id", goal_cases)
  case 1
  show ?case by simp
next
  case (2 n b)
  then show ?case by auto
next
  case (3 n b n1 mi n2 t n3)
  then have "n1 \<le> n" and "mi < n1" by simp_all
  then show ?case by simp
next
  case (4 n b n1 mi n2 t n3)
  then have "n2 \<le> n1" and "n1 \<le> n" and "t < n2" by simp_all
  then show ?case by simp
qed

declare num_to_kurdish.simps [simp del]

definition is_ascii_digit_char :: "uchar \<Rightarrow> bool" where
  "is_ascii_digit_char c \<longleftrightarrow> 48 \<le> c \<and> c \<le> 57"

text \<open>\<open>parse::<u64>\<close> of a non-empty string of ASCII digits: an error when the value does not fit.\<close>

definition digits_value :: "utext \<Rightarrow> nat" where
  "digits_value s = foldl (\<lambda>v c. 10 * v + (c - 48)) 0 s"

definition parse_u64 :: "utext \<Rightarrow> nat option" where
  "parse_u64 s = (if digits_value s \<le> U64_MAX then Some (digits_value s) else None)"

definition digits_individually :: "utext \<Rightarrow> utext" where
  "digits_individually s =
     join [32] (map (\<lambda>c. num_to_kurdish (c - 48)) (filter is_ascii_digit_char s))"

definition verbalize_number_token :: "utext \<Rightarrow> utext" where
  "verbalize_number_token token =
     (let int_part_raw = takeWhile (\<lambda>c. c \<noteq> 46) token;
          frac_part = (case dropWhile (\<lambda>c. c \<noteq> 46) token of [] \<Rightarrow> None | _ # f \<Rightarrow> Some f);
          int_digits = filter is_ascii_digit_char int_part_raw
      in if int_digits = [] then token
         else
           let leading_zero = (1 < length int_digits \<and> hd int_digits = 48);
               out =
                 (if leading_zero then digits_individually int_digits
                  else case parse_u64 int_digits of
                         Some num \<Rightarrow> num_to_kurdish num
                       | None \<Rightarrow> digits_individually int_digits)
           in case frac_part of
                None \<Rightarrow> out
              | Some frac \<Rightarrow>
                  (let frac_digits = filter is_ascii_digit_char frac
                   in if frac_digits = [] then out
                      else out @ [32, 0x062E, 0x0627, 0x06B5, 32] @ digits_individually frac_digits))"

text \<open>The number patterns: groups of three digits after a comma, and an optional decimal part.\<close>

definition is_comma :: "uchar \<Rightarrow> bool" where
  "is_comma c \<longleftrightarrow> c = 0x060C \<or> c = 44"

fun comma_groups :: "unicode_tables \<Rightarrow> utext \<Rightarrow> nat" where
  "comma_groups u (c # d1 # d2 # d3 # s) =
     (if is_comma c \<and> is_decimal u d1 \<and> is_decimal u d2 \<and> is_decimal u d3
      then Suc (comma_groups u s) else 0)"
| "comma_groups u _ = 0"

definition leading_digits :: "unicode_tables \<Rightarrow> utext \<Rightarrow> nat" where
  "leading_digits u s = length (takeWhile (is_decimal u) s)"

text \<open>The grouped number at the start: three, two or one digits, tried in that order, then the groups.\<close>

definition match_grouped :: "unicode_tables \<Rightarrow> utext \<Rightarrow> nat option" where
  "match_grouped u s =
     (case find (\<lambda>k. k \<le> leading_digits u s \<and> 0 < comma_groups u (drop k s)) [3, 2, 1] of
        None \<Rightarrow> None
      | Some k \<Rightarrow> Some (k + 4 * comma_groups u (drop k s)))"

definition match_fraction :: "unicode_tables \<Rightarrow> utext \<Rightarrow> nat" where
  "match_fraction u s =
     (case s of [] \<Rightarrow> 0
      | c # r \<Rightarrow> if c = 46 \<and> 0 < leading_digits u r then Suc (leading_digits u r) else 0)"

definition match_number :: "unicode_tables \<Rightarrow> utext \<Rightarrow> nat option" where
  "match_number u s =
     (case match_grouped u s of
        Some n \<Rightarrow> Some (n + match_fraction u (drop n s))
      | None \<Rightarrow>
          (let n = leading_digits u s
           in if n = 0 then None else Some (n + match_fraction u (drop n s))))"

definition PERSIAN_DIGITS :: utext where
  "PERSIAN_DIGITS = [0x06F0, 0x06F1, 0x06F2, 0x06F3, 0x06F4, 0x06F5, 0x06F6, 0x06F7, 0x06F8, 0x06F9]"

definition ARABIC_DIGITS :: utext where
  "ARABIC_DIGITS = [0x0660, 0x0661, 0x0662, 0x0663, 0x0664, 0x0665, 0x0666, 0x0667, 0x0668, 0x0669]"

definition LATIN_DIGITS :: utext where
  "LATIN_DIGITS = [48, 49, 50, 51, 52, 53, 54, 55, 56, 57]"

definition replace_digits :: "utext \<Rightarrow> utext \<Rightarrow> utext" where
  "replace_digits from s =
     foldl (\<lambda>r (p, l). replace_class (\<lambda>c. c = p) [l] r) s (zip from LATIN_DIGITS)"

definition normalize_digits :: "unicode_tables \<Rightarrow> bool \<Rightarrow> utext \<Rightarrow> utext" where
  "normalize_digits u verbalize s =
     (let r1 = replace_digits ARABIC_DIGITS (replace_digits PERSIAN_DIGITS s);
          r2 = replace_class (\<lambda>c. c = 0x066C) [0x060C] (replace_class (\<lambda>c. c = 0x066B) [46] r1);
          r3 = regex_replace (match_grouped u) (filter (\<lambda>c. c \<noteq> 0x060C \<and> c \<noteq> 44)) r2
      in if \<not> verbalize then r3
         else regex_replace (match_number u) (\<lambda>m. [32] @ verbalize_number_token m @ [32]) r3)"

section \<open>The normalizer\<close>

text \<open>Steps 1 to 4b: the unconditional foldings after the first composition.\<close>

definition fold_letters :: "unicode_tables \<Rightarrow> utext \<Rightarrow> utext" where
  "fold_letters u s0 =
     (let s1 = replace_class (\<lambda>c. c = 44) [0x060C] s0;
          s2 = replace_class (\<lambda>c. c = 63) [0x061F] s1;
          s3 = replace_class (\<lambda>c. c = 59) [0x061B] s2;
          s4 = replace_class ARABIC_KAF [0x06A9] s3;
          s5 = replace_class (\<lambda>c. c = 0x06D0) [0x06CE] s4;
          s6 = replace_class ARABIC_YAH [0x06CC] s5;
          s7 = replace_class (\<lambda>c. c = 0x0649) [0x06CC] s6;
          s8 = protect_word_final_heh_tatweel u s7;
          s9 = replace_class (\<lambda>c. c = 0x0640) [] s8;
          s10 = fold_heh_zwnj s9;
          s11 = replace_class (\<lambda>c. c = 0x200C) [32] s10
      in replace_class ZERO_WIDTH_FORMAT [] s11)"

definition normalize :: "unicode_tables \<Rightarrow> normalization_config \<Rightarrow> utext \<Rightarrow> utext" where
  "normalize u cfg s =
     (if s = [] then []
      else
        let s1 = fold_letters u (nfc u s);
            s2 = normalize_heh_contextual u s1;
            s3 = (if normalize_hamza cfg then replace_class ARABIC_HAMZA [0x0627] s2 else s2);
            s4 = (if remove_diacritics cfg then replace_class ARABIC_DIACTIRICS [] s3 else s3);
            s5 = (if normalize_numbers cfg then normalize_digits u (verbalize_numbers cfg) s4 else s4);
            s6 = collapse_spaces s5
        in trim (nfc u s6))"

definition canonical_training_text :: "unicode_tables \<Rightarrow> utext \<Rightarrow> utext" where
  "canonical_training_text u s = normalize u char_only s"

definition learning_text_key :: "unicode_tables \<Rightarrow> utext \<Rightarrow> utext" where
  "learning_text_key u s = join [32] (split_whitespace (to_lowercase u s))"

section \<open>Reading number words\<close>

text \<open>
  The meaning of a sequence of number words, read from left to right: the value of the finished
  scales and the value of the words since the last scale word.
\<close>

definition word_values :: "(utext \<times> nat) list" where
  "word_values =
     map (\<lambda>k. (units ! k, k)) [1..<10] @ map (\<lambda>k. (teens k, k)) [10..<20] @
     map (\<lambda>k. (tens ! k, 10 * k)) [2..<10] @ map (\<lambda>k. (hundreds ! k, 100 * k)) [1..<10]"

definition read_word :: "nat \<times> nat \<Rightarrow> utext \<Rightarrow> nat \<times> nat" where
  "read_word s w =
     (case s of (done, cur) \<Rightarrow>
        if w = WAW then (done, cur)
        else if w = MILYAR then ((done + cur) * 1000000000, 0)
        else if w = MILYON then (done + cur * 1000000, 0)
        else if w = HEZAR then (done + max 1 cur * 1000, 0)
        else case map_of word_values w of Some v \<Rightarrow> (done, cur + v) | None \<Rightarrow> (done, cur))"

definition read_text :: "nat \<times> nat \<Rightarrow> utext \<Rightarrow> nat \<times> nat" where
  "read_text s t = foldl read_word s (split_whitespace t)"

definition read_number :: "utext \<Rightarrow> nat" where
  "read_number t = (case read_text (0, 0) t of (done, cur) \<Rightarrow> done + cur)"

lemmas scale_defs = SIFR_def WAW_def HEZAR_def MILYON_def MILYAR_def

lemma nat_less_Suc_cases: "k < Suc n \<longleftrightarrow> k = n \<or> k < n" for n :: nat
  by auto

lemma word_values_eq:
  "word_values = [([0x06CC, 0x06D5, 0x06A9], 1), ([0x062F, 0x0648, 0x0648], 2), ([0x0633, 0x06CE], 3),
     ([0x0686, 0x0648, 0x0627, 0x0631], 4), ([0x067E, 0x06CE, 0x0646, 0x062C], 5), ([0x0634, 0x06D5, 0x0634], 6),
     ([0x062D, 0x06D5, 0x0648, 0x062A], 7), ([0x06BE, 0x06D5, 0x0634, 0x062A], 8), ([0x0646, 0x06C6], 9)] @
     map (\<lambda>k. (teens k, k)) [10, 11, 12, 13, 14, 15, 16, 17, 18, 19] @
     map (\<lambda>k. (tens ! k, 10 * k)) [2, 3, 4, 5, 6, 7, 8, 9] @
     map (\<lambda>k. (hundreds ! k, 100 * k)) [1, 2, 3, 4, 5, 6, 7, 8, 9]"
  by (simp add: word_values_def upt_conv_Cons units_def eval_nat_numeral)

lemmas number_tables = units_def tens_def hundreds_def teens_def

lemma read_one: "is_word w \<Longrightarrow> read_text s w = read_word s w"
  using split_whitespace_join [of "[w]"] by (simp add: read_text_def)

lemma read_space: "read_text s (a @ 32 # b) = read_text (read_text s a) b"
  by (simp add: read_text_def split_whitespace_append_space)

lemma read_and: "read_text s (a @ [32] @ WAW @ [32] @ b) = read_text (read_text s a) b"
proof -
  have "is_word WAW" by (simp add: is_word_def is_whitespace_def WAW_def)
  then have "read_text x (WAW @ 32 # b) = read_text x b" for x
    using read_space [of x WAW b] by (simp add: read_one read_word_def split: prod.splits)
  then show ?thesis using read_space [of s a "WAW @ 32 # b"] by simp
qed

lemma read_join: "read_text s (join ([32] @ WAW @ [32]) ps) = foldl read_text s ps"
proof (induction ps arbitrary: s rule: induct_list012)
  case (3 p q ps)
  then show ?case using read_and [of s p "join ([32] @ WAW @ [32]) (q # ps)"] by simp
qed (simp_all add: read_text_def split_whitespace_def)

text \<open>Every table word is a word and adds its value.\<close>

lemma table_word:
  assumes "w \<in> fst ` set word_values"
  shows "is_word w \<and> w \<noteq> [] \<and> w \<notin> {WAW, MILYAR, MILYON, HEZAR}"
  using assms by (auto simp: word_values_eq number_tables scale_defs is_word_def is_whitespace_def)

lemma distinct_words: "distinct (map fst word_values)"
  by (simp add: word_values_eq number_tables)

lemma read_table_word:
  assumes "(w, v) \<in> set word_values"
  shows "read_text (d, c) w = (d, c + v)" and "w \<noteq> []"
proof -
  have "w \<in> fst ` set word_values" using assms by force
  note tw = table_word [OF this]
  have "map_of word_values w = Some v"
    using assms distinct_words by (simp add: map_of_is_SomeI)
  with tw show "read_text (d, c) w = (d, c + v)" and "w \<noteq> []"
    by (simp_all add: read_one read_word_def)
qed

lemma units_member: "0 < k \<Longrightarrow> k < 10 \<Longrightarrow> (units ! k, k) \<in> set word_values"
  unfolding word_values_def set_append set_map set_upt by (rule UnI1, rule image_eqI [of _ _ k]) simp_all

lemma teens_member: "10 \<le> k \<Longrightarrow> k < 20 \<Longrightarrow> (teens k, k) \<in> set word_values"
  unfolding word_values_def set_append set_map set_upt by (rule UnI2, rule UnI1, rule image_eqI [of _ _ k]) simp_all

lemma tens_member: "2 \<le> k \<Longrightarrow> k < 10 \<Longrightarrow> (tens ! k, 10 * k) \<in> set word_values"
  unfolding word_values_def set_append set_map set_upt
  by (rule UnI2, rule UnI2, rule UnI1, rule image_eqI [of _ _ k]) simp_all

lemma hundreds_member: "0 < k \<Longrightarrow> k < 10 \<Longrightarrow> (hundreds ! k, 100 * k) \<in> set word_values"
  unfolding word_values_def set_append set_map set_upt
  by (rule UnI2, rule UnI2, rule UnI2, rule image_eqI [of _ _ k]) simp_all

lemmas table_member = units_member teens_member tens_member hundreds_member

definition part_reads :: "nat \<Rightarrow> utext list \<Rightarrow> bool" where
  "part_reads v ps \<longleftrightarrow> set ps \<subseteq> fst ` set word_values \<and> (\<forall>d c. foldl read_text (d, c) ps = (d, c + v))"

lemma part_reads_word: "(w, v) \<in> set word_values \<Longrightarrow> part_reads v [w]"
  by (force simp: part_reads_def read_table_word)

lemma part_reads_append: "part_reads v ps \<Longrightarrow> part_reads w qs \<Longrightarrow> part_reads (v + w) (ps @ qs)"
  by (auto simp: part_reads_def add.assoc)

lemma part_reads_Nil: "part_reads 0 []"
  by (simp add: part_reads_def)

lemma part_reads_below_100:
  assumes "r < 100"
  shows "part_reads r (if 20 \<le> r then tens ! (r div 10) # (if 0 < r mod 10 then [units ! (r mod 10)] else [])
         else if 10 \<le> r then [teens r] else if 0 < r then [units ! r] else [])"
proof (cases "20 \<le> r")
  case True
  have "part_reads (10 * (r div 10)) [tens ! (r div 10)]"
    using True assms by (intro part_reads_word table_member) auto
  moreover have "part_reads (r mod 10) (if 0 < r mod 10 then [units ! (r mod 10)] else [])"
    by (auto intro!: part_reads_word table_member part_reads_Nil)
  ultimately have "part_reads (10 * (r div 10) + r mod 10)
      ([tens ! (r div 10)] @ (if 0 < r mod 10 then [units ! (r mod 10)] else []))"
    by (rule part_reads_append)
  with True show ?thesis by simp
next
  case False
  then show ?thesis by (auto intro!: part_reads_word table_member part_reads_Nil)
qed

lemma part_reads_small:
  assumes "n < 1000"
  shows "part_reads n (small_parts n)"
proof (cases "100 \<le> n")
  case True
  have "part_reads (100 * (n div 100)) [hundreds ! (n div 100)]"
    using True assms by (intro part_reads_word table_member) auto
  from part_reads_append [OF this part_reads_below_100 [of "n mod 100"]] True
  show ?thesis by (simp add: small_parts_def Let_def)
next
  case False
  then show ?thesis using part_reads_below_100 [of n] by (simp add: small_parts_def Let_def)
qed

lemma filter_parts: "part_reads n ps \<Longrightarrow> filter (\<lambda>s. s \<noteq> []) ps = ps"
  unfolding part_reads_def filter_id_conv using table_word by blast

text \<open>The parts of a number by scale.\<close>

definition milyar_part :: "nat \<Rightarrow> utext list" where
  "milyar_part n = (if 1000000000 \<le> n then [num_to_kurdish (n div 1000000000) @ [32] @ MILYAR] else [])"

definition milyon_part :: "nat \<Rightarrow> utext list" where
  "milyon_part n = (if 1000000 \<le> n then [num_to_kurdish (n div 1000000) @ [32] @ MILYON] else [])"

definition hezar_part :: "nat \<Rightarrow> utext list" where
  "hezar_part n = (if 1000 \<le> n then [if n div 1000 = 1 then HEZAR
     else num_to_kurdish (n div 1000) @ [32] @ HEZAR] else [])"

definition number_parts :: "nat \<Rightarrow> utext list" where
  "number_parts n = milyar_part n @ milyon_part (n mod 1000000000) @
     hezar_part (n mod 1000000000 mod 1000000) @ small_parts (n mod 1000000000 mod 1000000 mod 1000)"

lemma number_parts_filter: "filter (\<lambda>s. s \<noteq> []) (number_parts n) = number_parts n"
  using filter_parts [OF part_reads_small [of "n mod 1000000000 mod 1000000 mod 1000"]]
  by (simp add: number_parts_def milyar_part_def milyon_part_def hezar_part_def scale_defs)

lemma num_to_kurdish_unfold:
  assumes "n \<noteq> 0"
  shows "num_to_kurdish n = join ([32] @ WAW @ [32]) (number_parts n)"
proof -
  have e: "(if k \<le> m then m mod k else m) = m mod k" for k m :: nat by simp
  have "num_to_kurdish n = join ([32] @ WAW @ [32]) (filter (\<lambda>s. s \<noteq> []) (number_parts n))"
    unfolding number_parts_def milyar_part_def milyon_part_def hezar_part_def
    by (subst num_to_kurdish.simps) (simp only: assms e Let_def if_False append_assoc)
  then show ?thesis by (simp only: number_parts_filter)
qed

lemma read_small:
  assumes "0 < n" and "n < 1000"
  shows "read_text (d, 0) (num_to_kurdish n) = (d, n)"
proof -
  have "num_to_kurdish n = join ([32] @ WAW @ [32]) (small_parts n)"
    using assms filter_parts [OF part_reads_small [OF assms(2)]]
    by (subst num_to_kurdish.simps) simp
  then show ?thesis
    using part_reads_small [OF assms(2)] read_join by (simp add: part_reads_def)
qed

lemma scale_words: "is_word MILYAR" "is_word MILYON" "is_word HEZAR"
  by (simp_all add: is_word_def is_whitespace_def scale_defs)

lemma read_scaled:
  "read_text (d, c) (a @ 32 # MILYAR) = (case read_text (d, c) a of (x, y) \<Rightarrow> ((x + y) * 1000000000, 0))"
  "read_text (d, c) (a @ 32 # MILYON) = (case read_text (d, c) a of (x, y) \<Rightarrow> (x + y * 1000000, 0))"
  "read_text (d, c) (a @ 32 # HEZAR) = (case read_text (d, c) a of (x, y) \<Rightarrow> (x + max 1 y * 1000, 0))"
  "read_text (d, c) HEZAR = (d + max 1 c * 1000, 0)"
  using read_space [of "(d, c)" a] scale_words
  by (simp_all add: read_one read_word_def scale_defs split: prod.splits)

lemma read_parts:
  "read_number (num_to_kurdish (n div 1000000000)) = n div 1000000000 \<Longrightarrow>
     foldl read_text (0, 0) (milyar_part n) = (n div 1000000000 * 1000000000, 0)"
  "n < 1000000000 \<Longrightarrow> foldl read_text (d, 0) (milyon_part n) = (d + n div 1000000 * 1000000, 0)"
  "n < 1000000 \<Longrightarrow> foldl read_text (d, 0) (hezar_part n) = (d + n div 1000 * 1000, 0)"
proof -
  show "read_number (num_to_kurdish (n div 1000000000)) = n div 1000000000 \<Longrightarrow>
     foldl read_text (0, 0) (milyar_part n) = (n div 1000000000 * 1000000000, 0)"
    by (auto simp: milyar_part_def read_scaled read_number_def split: prod.splits)
  show "foldl read_text (d, 0) (milyon_part n) = (d + n div 1000000 * 1000000, 0)" if "n < 1000000000"
  proof -
    have "n div 1000000 < 1000" using that by (simp add: less_mult_imp_div_less)
    then show ?thesis by (simp add: milyon_part_def read_scaled read_small)
  qed
  show "foldl read_text (d, 0) (hezar_part n) = (d + n div 1000 * 1000, 0)" if "n < 1000000"
  proof -
    have "n div 1000 < 1000" using that by (simp add: less_mult_imp_div_less)
    then show ?thesis by (auto simp: hezar_part_def read_scaled read_small max_def)
  qed
qed

text \<open>
  C30. Verbalised numbers can be read back: reading the words that \<open>num_to_kurdish\<close> writes for any
  number gives the number, so no two numbers share a reading and no digit is lost.
\<close>

theorem num_to_kurdish_roundtrip: "read_number (num_to_kurdish n) = n"
proof (induction n rule: less_induct)
  case (less n)
  show ?case
  proof (cases "n = 0")
    case True
    have "is_word SIFR" by (simp add: is_word_def is_whitespace_def SIFR_def)
    moreover have "map_of word_values SIFR = None"
      by (auto simp: map_of_eq_None_iff word_values_eq number_tables SIFR_def)
    moreover have "SIFR \<notin> {WAW, MILYAR, MILYON, HEZAR}" by (simp add: scale_defs)
    ultimately show ?thesis
      using True by (subst num_to_kurdish.simps) (simp add: read_number_def read_one read_word_def)
  next
    case False
    let ?n1 = "n mod 1000000000" and ?n2 = "n mod 1000000000 mod 1000000"
    have "read_number (num_to_kurdish (n div 1000000000)) = n div 1000000000"
      using less.IH [of "n div 1000000000"] False by simp
    moreover have "part_reads (?n2 mod 1000) (small_parts (?n2 mod 1000))" by (rule part_reads_small) simp
    ultimately have "read_text (0, 0) (num_to_kurdish n) =
        (n div 1000000000 * 1000000000 + ?n1 div 1000000 * 1000000 + ?n2 div 1000 * 1000, ?n2 mod 1000)"
      unfolding num_to_kurdish_unfold [OF False] read_join number_parts_def
      by (simp add: read_parts part_reads_def)
    then show ?thesis by (simp add: read_number_def)
  qed
qed

section \<open>Code points of the output\<close>

text \<open>The code points the normalizer folds away.\<close>

definition folded :: "uchar \<Rightarrow> bool" where
  "folded c \<longleftrightarrow> ARABIC_KAF c \<or> ARABIC_YAH c \<or> ZERO_WIDTH_FORMAT c \<or>
     c \<in> {0x06D0, 0x0649, 0x0640, 0x200C, 0x0647, 0x0629}"

text \<open>
  What is used of canonical composition: it introduces no folded code point and no whitespace, a space
  is a boundary that composes with nothing, and no text vanishes.
\<close>

definition nfc_ok :: "unicode_tables \<Rightarrow> bool" where
  "nfc_ok u \<longleftrightarrow>
     (\<forall>s c. c \<in> set (nfc u s) \<longrightarrow> folded c \<longrightarrow> c \<in> set s) \<and>
     (\<forall>s c. c \<in> set (nfc u s) \<longrightarrow> is_whitespace c \<longrightarrow> (\<exists>d \<in> set s. is_whitespace d)) \<and>
     (\<forall>s t. nfc u (s @ 32 # t) = nfc u s @ 32 # nfc u t) \<and>
     (\<forall>s. nfc u s = [] \<longleftrightarrow> s = [])"

lemmas folded_defs = folded_def ARABIC_KAF_def ARABIC_YAH_def ZERO_WIDTH_FORMAT_def

lemma not_folded [simp]:
  "\<not> folded 32" "\<not> folded 46" "\<not> folded 0x060C" "\<not> folded 0x062E" "\<not> folded 0x0627"
  "\<not> folded 0x06B5" "\<not> folded 0x06D5" "\<not> folded 0x06BE"
  by (simp_all add: folded_defs)

lemma set_replace_class:
  "c \<in> set (replace_class P r s) \<longleftrightarrow> c \<in> set s \<and> \<not> P c \<or> c \<in> set r \<and> (\<exists>d \<in> set s. P d)"
  by (auto simp: replace_class_def)

lemma set_protect: "c \<in> set (protect_word_final_heh_tatweel u s) \<Longrightarrow> c \<in> set s \<or> c = 0x06BE"
  by (induction u s rule: protect_word_final_heh_tatweel.induct)
    (auto simp: Let_def split: if_splits dest: set_dropWhileD)

lemma set_fold_heh: "c \<in> set (fold_heh_zwnj s) \<Longrightarrow> c \<in> set s \<or> c = 0x06D5"
  by (induction s rule: fold_heh_zwnj.induct) (auto split: if_splits)

lemma set_heh_contextual:
  "c \<in> set (normalize_heh_contextual u s) \<Longrightarrow>
     (c \<in> set s \<and> c \<noteq> 0x0647 \<and> c \<noteq> 0x0629) \<or> c = 0x06D5 \<or> c = 0x06BE"
  by (induction u s rule: normalize_heh_contextual.induct) (auto split: if_splits)

lemma set_collapse: "c \<in> set (collapse_spaces s) \<Longrightarrow> c \<in> set s \<or> c = 32"
  by (induction s rule: collapse_spaces.induct) (auto split: if_splits)

lemma set_regex_replace:
  assumes "\<And>w c. c \<in> set (f w) \<Longrightarrow> c \<in> set w \<or> Q c" and "c \<in> set (regex_replace m f s)"
  shows "c \<in> set s \<or> Q c"
  using assms(2)
proof (induction s rule: length_induct)
  case (1 s)
  show ?case
  proof (cases s)
    case (Cons d r)
    show ?thesis
    proof (cases "\<exists>n. m (d # r) = Some (Suc n)")
      case True
      then obtain n where n: "m (d # r) = Some (Suc n)" by blast
      then have "c \<in> set (f (d # take n r)) \<or> c \<in> set (regex_replace m f (drop n r))"
        using "1.prems" Cons by simp
      then show ?thesis
      proof
        assume "c \<in> set (f (d # take n r))"
        then show ?thesis using assms(1) [of c "d # take n r"] Cons by (auto dest: in_set_takeD)
      next
        assume "c \<in> set (regex_replace m f (drop n r))"
        moreover have "length (drop n r) < length s" using Cons by simp
        ultimately have "c \<in> set (drop n r) \<or> Q c" using "1.IH" by blast
        then show ?thesis using Cons by (auto dest: in_set_dropD)
      qed
    next
      case False
      then have "regex_replace m f s = d # regex_replace m f r"
        using Cons by (simp split: option.splits nat.splits)
      then show ?thesis using "1.prems" "1.IH" Cons by auto
    qed
  qed (use "1.prems" in simp)
qed

lemma set_join: "c \<in> set (join sep ps) \<Longrightarrow> c \<in> set sep \<or> (\<exists>p \<in> set ps. c \<in> set p)"
  by (induction sep ps rule: join.induct) auto

lemma fold_letters_clean:
  assumes "c \<in> set (fold_letters u s)"
  shows "\<not> folded c \<or> c = 0x0647 \<or> c = 0x0629"
proof -
  have "\<not> ZERO_WIDTH_FORMAT c" using assms by (simp add: fold_letters_def Let_def set_replace_class)
  moreover have "c \<noteq> 0x200C"
    using assms by (auto simp: fold_letters_def Let_def set_replace_class)
  ultimately show ?thesis
    using assms
    by (auto simp: fold_letters_def Let_def set_replace_class folded_def ARABIC_KAF_def ARABIC_YAH_def
        dest!: set_fold_heh set_protect)
qed

lemma table_letters: "c \<in> set w \<Longrightarrow> w \<in> fst ` set word_values \<Longrightarrow> \<not> folded c"
  by (auto simp: word_values_eq number_tables folded_defs)

lemma small_parts_letters:
  "n < 1000 \<Longrightarrow> p \<in> set (small_parts n) \<Longrightarrow> c \<in> set p \<Longrightarrow> \<not> folded c"
  using part_reads_small [of n] table_letters [of c p] by (auto simp: part_reads_def)

lemma number_parts_letters:
  assumes IH: "\<And>m. m < n \<Longrightarrow> c \<in> set (num_to_kurdish m) \<Longrightarrow> \<not> folded c"
    and p: "p \<in> set (number_parts n)" "c \<in> set p" and n: "n \<noteq> 0"
  shows "\<not> folded c"
proof -
  have rec: "\<not> folded c" if "c \<in> set (num_to_kurdish (a div k))" "a \<le> n" "1 < k" for a k
    using IH [OF _ that(1)] that(2,3) n
    by (metis div_le_dividend div_less_dividend le_neq_implies_less le_trans not_gr_zero order_le_less_trans)
  have scales: "c \<in> set (32 # MILYAR) \<or> c \<in> set (32 # MILYON) \<or> c \<in> set (32 # HEZAR) \<Longrightarrow> \<not> folded c"
    by (auto simp: scale_defs folded_defs)
  have le: "n mod 1000000000 \<le> n" "n mod 1000000000 mod 1000000 \<le> n"
    by (simp_all add: le_trans [OF mod_less_eq_dividend])
  have "p \<in> set (milyar_part n) \<Longrightarrow> \<not> folded c"
    using rec [of n 1000000000] p(2) scales by (auto simp: milyar_part_def split: if_splits)
  moreover have "p \<in> set (milyon_part (n mod 1000000000)) \<Longrightarrow> \<not> folded c"
    using rec [OF _ le(1), of 1000000] p(2) scales by (auto simp: milyon_part_def split: if_splits)
  moreover have "p \<in> set (hezar_part (n mod 1000000000 mod 1000000)) \<Longrightarrow> \<not> folded c"
    using rec [OF _ le(2), of 1000] p(2) scales by (auto simp: hezar_part_def split: if_splits)
  ultimately show ?thesis
    using p small_parts_letters [of "n mod 1000000000 mod 1000000 mod 1000" p c]
    unfolding number_parts_def set_append by (auto simp only: Un_iff mod_less_divisor zero_less_numeral)
qed

lemma num_to_kurdish_letters: "c \<in> set (num_to_kurdish n) \<Longrightarrow> \<not> folded c"
proof (induction n rule: less_induct)
  case (less n)
  show ?case
  proof (cases "n = 0")
    case True
    then show ?thesis
      using less.prems by (subst (asm) num_to_kurdish.simps) (auto simp: SIFR_def folded_defs)
  next
    case False
    have "c \<in> set ([32] @ WAW @ [32]) \<or> (\<exists>p \<in> set (number_parts n). c \<in> set p)"
      using less.prems by (intro set_join) (simp only: num_to_kurdish_unfold [OF False])
    moreover have "c \<in> set ([32] @ WAW @ [32]) \<Longrightarrow> \<not> folded c" by (auto simp: WAW_def folded_defs)
    moreover have "\<not> folded c" if "p \<in> set (number_parts n)" "c \<in> set p" for p
      by (rule number_parts_letters [OF _ that False]) (rule less.IH)
    ultimately show ?thesis by blast
  qed
qed

lemma digits_individually_letters: "c \<in> set (digits_individually s) \<Longrightarrow> \<not> folded c"
  by (auto simp: digits_individually_def dest!: set_join dest: num_to_kurdish_letters)

lemma verbalize_letters:
  assumes "c \<in> set (verbalize_number_token m)"
  shows "c \<in> set m \<or> \<not> folded c"
proof -
  define i where "i = filter is_ascii_digit_char (takeWhile (\<lambda>c. c \<noteq> 46) m)"
  define out where "out = (if 1 < length i \<and> hd i = 48 then digits_individually i
     else case parse_u64 i of Some num \<Rightarrow> num_to_kurdish num | None \<Rightarrow> digits_individually i)"
  have out: "c \<in> set out \<Longrightarrow> \<not> folded c"
    by (auto simp: out_def split: if_splits option.splits
        dest: num_to_kurdish_letters digits_individually_letters)
  have "verbalize_number_token m = m \<or> verbalize_number_token m = out \<or>
      (\<exists>fr. verbalize_number_token m = out @ [32, 0x062E, 0x0627, 0x06B5, 32] @ digits_individually fr)"
    unfolding verbalize_number_token_def Let_def i_def [symmetric] out_def [symmetric]
    by (auto split: option.splits)
  then show ?thesis using assms out digits_individually_letters by fastforce
qed

lemma replace_digits_letters: "c \<in> set (replace_digits ds s) \<Longrightarrow> c \<in> set s \<or> \<not> folded c"
proof -
  have "c \<in> set (foldl (\<lambda>r (p, l). replace_class (\<lambda>c. c = p) [l] r) s ps) \<Longrightarrow>
      c \<in> set s \<or> c \<in> snd ` set ps" for ps
    by (induction ps arbitrary: s) (force simp: set_replace_class)+
  moreover have "c \<in> snd ` set (zip ds LATIN_DIGITS) \<Longrightarrow> c \<in> set LATIN_DIGITS"
    by (auto dest: set_zip_rightD)
  moreover have "c \<in> set LATIN_DIGITS \<Longrightarrow> \<not> folded c" by (auto simp: LATIN_DIGITS_def folded_defs)
  ultimately show "c \<in> set (replace_digits ds s) \<Longrightarrow> c \<in> set s \<or> \<not> folded c"
    unfolding replace_digits_def by blast
qed

lemma normalize_digits_letters: "c \<in> set (normalize_digits u v s) \<Longrightarrow> c \<in> set s \<or> \<not> folded c"
proof -
  define r1 where "r1 = replace_digits ARABIC_DIGITS (replace_digits PERSIAN_DIGITS s)"
  define r2 where "r2 = replace_class (\<lambda>c. c = 0x066C) [0x060C] (replace_class (\<lambda>c. c = 0x066B) [46] r1)"
  define r3 where "r3 = regex_replace (match_grouped u) (filter (\<lambda>c. c \<noteq> 0x060C \<and> c \<noteq> 44)) r2"
  have r1: "c \<in> set r1 \<Longrightarrow> c \<in> set s \<or> \<not> folded c"
    unfolding r1_def by (blast dest: replace_digits_letters)
  have r2: "c \<in> set r2 \<Longrightarrow> c \<in> set r1 \<or> \<not> folded c"
    unfolding r2_def by (auto simp: set_replace_class)
  have r3: "c \<in> set r3 \<Longrightarrow> c \<in> set r2 \<or> \<not> folded c"
    unfolding r3_def by (rule set_regex_replace [where Q = "\<lambda>c. \<not> folded c"]) auto
  have "c \<in> set (regex_replace (match_number u) (\<lambda>m. [32] @ verbalize_number_token m @ [32]) r3) \<Longrightarrow>
      c \<in> set r3 \<or> \<not> folded c"
    by (rule set_regex_replace [where Q = "\<lambda>c. \<not> folded c"])
      (auto dest: verbalize_letters)
  then show "c \<in> set (normalize_digits u v s) \<Longrightarrow> c \<in> set s \<or> \<not> folded c"
    using r1 r2 r3 by (auto simp: normalize_digits_def Let_def r1_def r2_def r3_def split: if_splits)
qed

section \<open>Shape of the output\<close>

lemma join_Cons: "ws \<noteq> [] \<Longrightarrow> join sep (w # ws) = w @ sep @ join sep ws"
  by (cases ws) simp_all

lemma join_head: "join sep ((c # w) # ws) = c # join sep (w # ws)"
  by (cases ws) simp_all

lemma collapse_spaces_words:
  "collapse_spaces s =
     (if s \<noteq> [] \<and> is_whitespace (hd s) then [32] else []) @ join [32] (split_whitespace s) @
     (if split_whitespace s \<noteq> [] \<and> is_whitespace (last s) then [32] else [])"
proof (induction s rule: collapse_spaces.induct)
  case 1
  show ?case by (simp add: split_whitespace_def)
next
  case (2 c)
  then show ?case by (simp add: split_whitespace_def)
next
  case (3 c d s)
  show ?case
  proof (cases "is_whitespace c")
    case True
    then show ?thesis using 3 by (simp add: split_whitespace_Cons)
  next
    case c: False
    show ?thesis
    proof (cases "is_whitespace d")
      case True
      have "split_whitespace (d # s) = [] \<Longrightarrow> is_whitespace (last (d # s))"
        using split_whitespace_Nil_iff [of "d # s"] by (auto simp: list_all_iff)
      then show ?thesis
        using 3(3) [OF c] c True by (cases "split_whitespace (d # s) = []") (simp_all add: split_whitespace_Cons(2) join_Cons)
    next
      case False
      obtain w ws where "split_whitespace (d # s) = w # ws" "split_whitespace (c # d # s) = (c # w) # ws"
        using split_whitespace_extend [OF c False] .
      then show ?thesis using 3(3) [OF c] c False by (simp add: join_head)
    qed
  qed
qed

lemma trim_spaced_words:
  assumes "\<forall>w \<in> set ws. is_word w" and "ws \<noteq> []"
  shows "trim ((if a then [32] else []) @ join [32] ws @ (if b then [32] else [])) = join [32] ws"
proof -
  obtain w ws' where ws: "ws = w # ws'" using assms(2) by (cases ws) simp_all
  have ne: "join [32] ws \<noteq> []" and hd: "\<not> is_whitespace (hd (join [32] ws))"
    using assms(1) ws by (cases ws'; cases w; auto simp: is_word_def)+
  have last: "\<not> is_whitespace (last (join [32] ws))" if "\<forall>w \<in> set ws. is_word w" "ws \<noteq> []" for ws
    using that
  proof (induction ws)
    case (Cons v vs)
    have "join [32] vs \<noteq> []" if "vs \<noteq> []"
      using Cons.prems(1) that by (cases vs; cases "tl vs"; auto simp: is_word_def)
    then show ?case
      using Cons by (cases "vs = []") (auto simp: join_Cons is_word_def list_all_iff)
  qed simp
  have "dropWhile is_whitespace (join [32] ws @ r) = join [32] ws @ r" for r
    using ne hd by (cases "join [32] ws") simp_all
  moreover have "dropWhile is_whitespace (rev (join [32] ws)) = rev (join [32] ws)"
    using ne last [OF assms] by (cases "join [32] ws" rule: rev_cases) simp_all
  ultimately show ?thesis by (simp add: trim_def trim_start_def trim_end_def)
qed

lemma nfc_join:
  assumes "nfc_ok u"
  shows "nfc u (join [32] ws) = join [32] (map (nfc u) ws)"
proof (induction ws rule: induct_list012)
  case (3 v w ws)
  then show ?case using assms by (simp add: nfc_ok_def)
qed (use assms in \<open>simp_all add: nfc_ok_def\<close>)

lemma nfc_word: "nfc_ok u \<Longrightarrow> is_word w \<Longrightarrow> is_word (nfc u w)"
  unfolding nfc_ok_def is_word_def list_all_iff by (metis (no_types, lifting))

lemma trim_nfc_collapse:
  assumes "nfc_ok u"
  shows "trim (nfc u (collapse_spaces s)) = join [32] (map (nfc u) (split_whitespace s))"
proof (cases "split_whitespace s = []")
  case True
  have "nfc u [] = []" "nfc u [32] = [32]"
    using assms unfolding nfc_ok_def by (simp, metis append_Nil)
  then show ?thesis
    using True by (subst collapse_spaces_words) (simp add: trim_def trim_start_def trim_end_def)
next
  case False
  let ?a = "s \<noteq> [] \<and> is_whitespace (hd s)" and ?b = "is_whitespace (last s)"
  let ?ws = "split_whitespace s"
  have space: "nfc u (32 # r) = 32 # nfc u r" "nfc u (r @ [32]) = nfc u r @ [32]" for r
    using assms unfolding nfc_ok_def by (metis append_Nil, metis)
  have "nfc u (collapse_spaces s) = (if ?a then [32] else []) @ join [32] (map (nfc u) ?ws) @
      (if ?b then [32] else [])"
    using False by (subst collapse_spaces_words) (simp add: space nfc_join [OF assms, symmetric])
  moreover have "\<forall>w \<in> set (map (nfc u) ?ws). is_word w"
    using nfc_word [OF assms] split_whitespace_words by auto
  ultimately show ?thesis using trim_spaced_words [of "map (nfc u) ?ws" ?a ?b] False by simp
qed

text \<open>
  C29. The output of the normalizer, for every configuration and input: it is a sequence of words
  separated by single spaces, with no leading or trailing space, in canonical composition, and contains
  none of the folded code points (Arabic kaf and yeh variants, alef maksura, tatweel, zero-width
  joiners and non-joiners, bidi controls, Arabic heh, teh marbuta).
\<close>

theorem normalize_output:
  assumes "nfc_ok u"
  shows "normalize u cfg s = join [32] (split_whitespace (normalize u cfg s)) \<and>
    (\<forall>c \<in> set (normalize u cfg s). \<not> folded c \<and> (is_whitespace c \<longrightarrow> c = 32))"
proof (cases "s = []")
  case True
  then show ?thesis by (simp add: normalize_def split_whitespace_def)
next
  case False
  define s1 where "s1 = normalize_heh_contextual u (fold_letters u (nfc u s))"
  define s3 where "s3 = (if normalize_hamza cfg then replace_class ARABIC_HAMZA [0x0627] s1 else s1)"
  define s4 where "s4 = (if remove_diacritics cfg then replace_class ARABIC_DIACTIRICS [] s3 else s3)"
  define s5 where "s5 = (if normalize_numbers cfg then normalize_digits u (verbalize_numbers cfg) s4 else s4)"
  have out: "normalize u cfg s = join [32] (map (nfc u) (split_whitespace s5))"
    using False trim_nfc_collapse [OF assms]
    by (simp add: normalize_def Let_def s1_def s3_def s4_def s5_def)
  have words: "\<forall>w \<in> set (map (nfc u) (split_whitespace s5)). is_word w"
    using nfc_word [OF assms] split_whitespace_words by auto
  have "\<not> folded c" if "c \<in> set s1" for c
    using that fold_letters_clean [of c u "nfc u s"] by (auto simp: s1_def dest!: set_heh_contextual)
  then have "\<not> folded c" if "c \<in> set s4" for c
    using that by (auto simp: s3_def s4_def set_replace_class split: if_splits)
  then have s5: "\<not> folded c" if "c \<in> set s5" for c
    using that by (auto simp: s5_def split: if_splits dest!: normalize_digits_letters)
  have split: "c \<in> set s5" if "w \<in> set (split_whitespace s5)" "c \<in> set w" for w c
    using that split_whitespace_subset by blast
  have "\<not> folded c \<and> (is_whitespace c \<longrightarrow> c = 32)" if "c \<in> set (normalize u cfg s)" for c
  proof -
    from that consider "c = 32" | w where "w \<in> set (split_whitespace s5)" "c \<in> set (nfc u w)"
      unfolding out by (auto dest!: set_join)
    then show ?thesis
    proof cases
      case (2 w)
      then have "\<not> is_whitespace c" using words by (auto simp: is_word_def list_all_iff)
      moreover have "folded c \<Longrightarrow> c \<in> set w" using assms 2(2) by (auto simp: nfc_ok_def)
      ultimately show ?thesis using s5 split [OF 2(1)] by blast
    qed simp
  qed
  then show ?thesis using split_whitespace_join [OF words] out by simp
qed

lemmas normalize_defs = fold_letters_def replace_class_def ARABIC_KAF_def ARABIC_YAH_def
  ZERO_WIDTH_FORMAT_def ARABIC_HAMZA_def trim_def trim_start_def trim_end_def is_whitespace_def

theorem normalize_output_witness:
  "let u = \<lparr>nfc = (\<lambda>s. s), is_alphabetic = (\<lambda>c. 0x0620 \<le> c), is_decimal = (\<lambda>c. 48 \<le> c \<and> c \<le> 57),
            to_lowercase = (\<lambda>s. s)\<rparr>
   in normalize u char_only [0x0643, 0x0640, 32, 32, 0x064A, 0x0647] = [0x06A9, 32, 0x06CC, 0x06D5] \<and>
      normalize u char_only [0x0643, 0x0640, 32, 32, 0x064A, 0x0647] =
        join [32] (split_whitespace (normalize u char_only [0x0643, 0x0640, 32, 32, 0x064A, 0x0647]))"
proof -
  let ?u = "\<lparr>nfc = (\<lambda>s. s), is_alphabetic = (\<lambda>c. 0x0620 \<le> c), is_decimal = (\<lambda>c. 48 \<le> c \<and> c \<le> 57),
            to_lowercase = (\<lambda>s. s)\<rparr> :: unicode_tables"
  have "nfc_ok ?u" by (auto simp: nfc_ok_def)
  moreover have "normalize ?u char_only [0x0643, 0x0640, 32, 32, 0x064A, 0x0647]
      = [0x06A9, 32, 0x06CC, 0x06D5]"
    by (simp add: normalize_def char_only_def normalize_defs heh_is_final_def next_base_char_def)
  ultimately show ?thesis
    using normalize_output [of ?u char_only "[0x0643, 0x0640, 32, 32, 0x064A, 0x0647]"] by (simp add: Let_def)
qed

text \<open>
  Normalization is not idempotent, although the final composition step is there to make it so:
  for alef, tatweel, combining hamza, the composition of the first pass is blocked by the tatweel
  and the hamza folding has already run when the last step composes alef and hamza, so the result is
  alef with hamza, which a second pass folds to a bare alef. The hypotheses are the values of canonical
  composition on these four texts.
\<close>

theorem normalize_not_idempotent:
  assumes "nfc u [0x0627, 0x0640, 0x0654] = [0x0627, 0x0640, 0x0654]"
    and "nfc u [0x0627, 0x0654] = [0x0623]" and "nfc u [0x0623] = [0x0623]" and "nfc u [0x0627] = [0x0627]"
  shows "canonical_training_text u [0x0627, 0x0640, 0x0654] = [0x0623] \<and>
    canonical_training_text u (canonical_training_text u [0x0627, 0x0640, 0x0654]) = [0x0627]"
  using assms
  by (simp add: canonical_training_text_def normalize_def char_only_def normalize_defs)

theorem normalize_not_idempotent_witness:
  "let u = \<lparr>nfc = (\<lambda>s. if s = [0x0627, 0x0654] then [0x0623] else s), is_alphabetic = (\<lambda>c. True),
            is_decimal = (\<lambda>c. False), to_lowercase = (\<lambda>s. s)\<rparr>
   in canonical_training_text u (canonical_training_text u [0x0627, 0x0640, 0x0654]) \<noteq>
      canonical_training_text u [0x0627, 0x0640, 0x0654]"
  using normalize_not_idempotent [of "\<lparr>nfc = (\<lambda>s. if s = [0x0627, 0x0654] then [0x0623] else s),
     is_alphabetic = (\<lambda>c. True), is_decimal = (\<lambda>c. False), to_lowercase = (\<lambda>s. s)\<rparr>"]
  by (auto simp: Let_def)

end
