(* ===== verification/Edit_Distance.thy ===== *)
theory Edit_Distance
  imports Normalizer Complex_Main
begin

text \<open>
  Word and character error rates (\<^verbatim>\<open>wer.rs\<close>): the two-row Levenshtein distance, the full table with
  backtracking that classifies the errors, and the rates. Arrays are lists updated by index, in the
  order of the source's loops; the two rows are swapped as the source swaps them. A counter that would go
  below zero is \<open>None\<close>. Rates are exact rationals (the source rounds to f64).

  Shown here: both tables compute the recursively specified distance, which is the least number of
  errors of any alignment; the breakdown is an alignment that reaches it; it is a distance.
\<close>

section \<open>Metrics\<close>

definition tokenize_words :: "utext \<Rightarrow> utext list" where
  "tokenize_words s = filter (\<lambda>w. w \<noteq> []) (split_whitespace s)"

definition tokenize_chars :: "utext \<Rightarrow> utext" where
  "tokenize_chars s = s"

definition METRICS_NORMALIZER :: normalization_config where
  "METRICS_NORMALIZER = \<lparr>normalize_numbers = True, verbalize_numbers = False, normalize_hamza = True,
     remove_diacritics = True\<rparr>"

definition normalize_for_metrics :: "unicode_tables \<Rightarrow> utext \<Rightarrow> utext" where
  "normalize_for_metrics u s =
     join [32] (split_whitespace (to_lowercase u (nfc u (normalize u METRICS_NORMALIZER s))))"

definition lev_cost :: "'a list \<Rightarrow> 'a list \<Rightarrow> nat \<Rightarrow> nat \<Rightarrow> nat" where
  "lev_cost a b i j = (if a ! (i - 1) = b ! (j - 1) then 0 else 1)"

text \<open>One row: \<open>curr[0] = i\<close>, then the columns from left to right.\<close>

definition lev_row :: "'a list \<Rightarrow> 'a list \<Rightarrow> nat \<Rightarrow> nat list \<Rightarrow> nat list \<Rightarrow> nat list" where
  "lev_row a b i prev cur =
     foldl (\<lambda>c j. c[j := min (min (prev ! j + 1) (c ! (j - 1) + 1)) (prev ! (j - 1) + lev_cost a b i j)])
       (cur[0 := i]) [1..<Suc (length b)]"

definition levenshtein :: "'a list \<Rightarrow> 'a list \<Rightarrow> nat" where
  "levenshtein a b =
     (let n = length a; m = length b
      in if n = 0 then m
         else if m = 0 then n
         else fst (foldl (\<lambda>(prev, cur) i. (lev_row a b i prev cur, prev))
                ([0..<Suc m], replicate (Suc m) 0) [1..<Suc n]) ! m)"

record edit_distance_result =
  distance :: nat
  ref_len :: nat

definition word_edit_distance :: "unicode_tables \<Rightarrow> utext \<Rightarrow> utext \<Rightarrow> edit_distance_result" where
  "word_edit_distance u reference hypothesis =
     (let ref_words = tokenize_words (normalize_for_metrics u reference);
          hyp_words = tokenize_words (normalize_for_metrics u hypothesis)
      in if ref_words = [] then \<lparr>distance = length hyp_words, ref_len = 0\<rparr>
         else \<lparr>distance = levenshtein ref_words hyp_words, ref_len = length ref_words\<rparr>)"

definition char_edit_distance :: "unicode_tables \<Rightarrow> utext \<Rightarrow> utext \<Rightarrow> edit_distance_result" where
  "char_edit_distance u reference hypothesis =
     (let ref_chars = tokenize_chars (normalize_for_metrics u reference);
          hyp_chars = tokenize_chars (normalize_for_metrics u hypothesis)
      in if ref_chars = [] then \<lparr>distance = length hyp_chars, ref_len = 0\<rparr>
         else \<lparr>distance = levenshtein ref_chars hyp_chars, ref_len = length ref_chars\<rparr>)"

definition display_rate :: "edit_distance_result \<Rightarrow> rat" where
  "display_rate res =
     (if ref_len res = 0 then (if distance res = 0 then 0 else 1)
      else min (of_nat (distance res) / of_nat (ref_len res)) 1)"

definition compute_wer :: "unicode_tables \<Rightarrow> utext \<Rightarrow> utext \<Rightarrow> rat" where
  "compute_wer u reference hypothesis = display_rate (word_edit_distance u reference hypothesis)"

definition compute_cer :: "unicode_tables \<Rightarrow> utext \<Rightarrow> utext \<Rightarrow> rat" where
  "compute_cer u reference hypothesis = display_rate (char_edit_distance u reference hypothesis)"

section \<open>Error breakdown\<close>

record error_breakdown =
  substitutions :: nat
  deletions :: nat
  insertions :: nat
  eb_ref_len :: nat

definition eb_total :: "error_breakdown \<Rightarrow> nat" where
  "eb_total e = substitutions e + deletions e + insertions e"

definition eb_rate :: "error_breakdown \<Rightarrow> rat" where
  "eb_rate e =
     (if eb_ref_len e = 0 then (if eb_total e = 0 then 0 else 1)
      else of_nat (eb_total e) / of_nat (eb_ref_len e))"

definition dp_init :: "nat \<Rightarrow> nat \<Rightarrow> nat list list" where
  "dp_init n m =
     (let dp0 = replicate (Suc n) (replicate (Suc m) 0);
          dp1 = map (\<lambda>(i, row). row[0 := i]) (enumerate 0 dp0)
      in dp1[0 := map fst (enumerate 0 (dp1 ! 0))])"

definition dp_cell :: "'a list \<Rightarrow> 'a list \<Rightarrow> nat list list \<Rightarrow> nat \<Rightarrow> nat \<Rightarrow> nat" where
  "dp_cell a b dp i j =
     min (min (dp ! (i - 1) ! j + 1) (dp ! i ! (j - 1) + 1)) (dp ! (i - 1) ! (j - 1) + lev_cost a b i j)"

definition dp_table :: "'a list \<Rightarrow> 'a list \<Rightarrow> nat list list" where
  "dp_table a b =
     fill_table (dp_cell a b) (length a) (length b) (dp_init (length a) (length b))"

text \<open>The backtracking loop; \<open>None\<close> is the subtraction underflow of its last branch.\<close>

function backtrack ::
  "'a list \<Rightarrow> 'a list \<Rightarrow> nat list list \<Rightarrow> nat \<Rightarrow> nat \<Rightarrow> nat \<Rightarrow> nat \<Rightarrow> nat \<Rightarrow> (nat \<times> nat \<times> nat) option"
where
  "backtrack a b dp i j subs dels ins =
     (if \<not> (0 < i \<or> 0 < j) then Some (subs, dels, ins)
      else if 0 < i \<and> 0 < j \<and> a ! (i - 1) = b ! (j - 1) \<and> dp ! i ! j = dp ! (i - 1) ! (j - 1)
      then backtrack a b dp (i - 1) (j - 1) subs dels ins
      else if 0 < i \<and> 0 < j \<and> dp ! i ! j = dp ! (i - 1) ! (j - 1) + 1
      then backtrack a b dp (i - 1) (j - 1) (subs + 1) dels ins
      else if 0 < i \<and> dp ! i ! j = dp ! (i - 1) ! j + 1
      then backtrack a b dp (i - 1) j subs (dels + 1) ins
      else if j = 0 then None
      else backtrack a b dp i (j - 1) subs dels (ins + 1))"
  by pat_completeness auto
termination by (relation "measure (\<lambda>(_, _, _, i, j, _). i + j)") auto

declare backtrack.simps [simp del]

definition levenshtein_breakdown :: "'a list \<Rightarrow> 'a list \<Rightarrow> (nat \<times> nat \<times> nat) option" where
  "levenshtein_breakdown a b = backtrack a b (dp_table a b) (length a) (length b) 0 0 0"

definition word_error_breakdown :: "unicode_tables \<Rightarrow> utext \<Rightarrow> utext \<Rightarrow> error_breakdown option" where
  "word_error_breakdown u reference hypothesis =
     (let ref_words = tokenize_words (normalize_for_metrics u reference);
          hyp_words = tokenize_words (normalize_for_metrics u hypothesis)
      in map_option (\<lambda>(s, d, i). \<lparr>substitutions = s, deletions = d, insertions = i,
           eb_ref_len = length ref_words\<rparr>) (levenshtein_breakdown ref_words hyp_words))"

section \<open>Specification\<close>

text \<open>The recurrence, on prefixes of length \<open>i\<close> and \<open>j\<close>.\<close>

fun ed :: "'a list \<Rightarrow> 'a list \<Rightarrow> nat \<Rightarrow> nat \<Rightarrow> nat" where
  "ed a b 0 j = j"
| "ed a b (Suc i) 0 = Suc i"
| "ed a b (Suc i) (Suc j) =
     min (min (ed a b i (Suc j) + 1) (ed a b (Suc i) j + 1)) (ed a b i j + (if a ! i = b ! j then 0 else 1))"

text \<open>
  An alignment of a reference with a hypothesis, with its numbers of substitutions, deletions
  (reference tokens missing from the hypothesis) and insertions (spurious hypothesis tokens).
\<close>

inductive aligns :: "'a list \<Rightarrow> 'a list \<Rightarrow> nat \<Rightarrow> nat \<Rightarrow> nat \<Rightarrow> bool" where
  empty: "aligns [] [] 0 0 0"
| keep: "aligns a b s d i \<Longrightarrow> aligns (a @ [x]) (b @ [x]) s d i"
| substitute: "aligns a b s d i \<Longrightarrow> aligns (a @ [x]) (b @ [y]) (Suc s) d i"
| delete: "aligns a b s d i \<Longrightarrow> aligns (a @ [x]) b s (Suc d) i"
| insert: "aligns a b s d i \<Longrightarrow> aligns a (b @ [y]) s d (Suc i)"

section \<open>The tables compute the recurrence\<close>

lemma ed_0: "ed a b i 0 = i"
  by (cases i) simp_all

lemma ed_step:
  "0 < i \<Longrightarrow> 0 < j \<Longrightarrow> ed a b i j =
     min (min (ed a b (i - 1) j + 1) (ed a b i (j - 1) + 1)) (ed a b (i - 1) (j - 1) + lev_cost a b i j)"
  by (cases i; cases j) (simp_all add: lev_cost_def)

lemma lev_row_ed:
  assumes "length prev = Suc (length b)" and "length cur = Suc (length b)"
    and "\<forall>j \<le> length b. prev ! j = ed a b (i - 1) j" and "0 < i"
  shows "length (lev_row a b i prev cur) = Suc (length b) \<and>
    (\<forall>j \<le> length b. lev_row a b i prev cur ! j = ed a b i j)"
proof -
  let ?P = "\<lambda>k c. length c = Suc (length b) \<and> (\<forall>j < k. c ! j = ed a b i j)"
  have "?P (Suc (length b)) (lev_row a b i prev cur)"
    unfolding lev_row_def
  proof (rule foldl_upt_invariant [where P = ?P], goal_cases)
    case 1
    then show ?case using assms(2) by (simp add: ed_0)
  next
    case (2 k c)
    then have "min (min (prev ! k + 1) (c ! (k - 1) + 1)) (prev ! (k - 1) + lev_cost a b i k) = ed a b i k"
      using assms(3,4) ed_step [of i k a b] by simp
    with 2 show ?case by (auto simp: nth_list_update less_Suc_eq)
  qed simp
  then show ?thesis by (simp add: less_Suc_eq_le)
qed

lemma levenshtein_ed: "levenshtein a b = ed a b (length a) (length b)"
proof (cases "length a = 0 \<or> length b = 0")
  case True
  then show ?thesis by (auto simp: levenshtein_def Let_def ed_0)
next
  case False
  let ?f = "\<lambda>(prev, cur) i. (lev_row a b i prev cur, prev)"
  let ?P = "\<lambda>n pc. length (fst pc) = Suc (length b) \<and> length (snd pc) = Suc (length b) \<and>
      (\<forall>j \<le> length b. fst pc ! j = ed a b (n - 1) j)"
  have "?P (Suc (length a)) (foldl ?f ([0..<Suc (length b)], replicate (Suc (length b)) 0) [1..<Suc (length a)])"
  proof (rule foldl_upt_invariant [where P = ?P], goal_cases)
    case 1
    show ?case by (simp del: upt_Suc)
  next
    case (2 n pc)
    then show ?case using lev_row_ed [of "fst pc" b "snd pc" a n] by (simp add: case_prod_beta)
  qed simp
  then show ?thesis using False by (simp add: levenshtein_def Let_def del: upt_Suc replicate.simps)
qed

lemma dp_init_ed:
  "length (dp_init n m) = Suc n" "\<forall>i \<le> n. length (dp_init n m ! i) = Suc m"
  "\<forall>i \<le> n. dp_init n m ! i ! 0 = ed a b i 0" "\<forall>j \<le> m. dp_init n m ! 0 ! j = ed a b 0 j"
  by (auto simp: dp_init_def Let_def nth_enumerate_eq nth_list_update ed_0 simp del: replicate.simps upt_Suc)

interpretation lev: dynamic_program "dp_cell a b" "ed a b" "length a" "length b"
    "dp_init (length a) (length b)" for a b :: "'a list"
proof (unfold_locales, goal_cases)
  case (5 i j dp)
  then show ?case using ed_step [of i j a b] by (simp add: dp_cell_def)
qed (simp_all add: dp_init_ed(1,2) dp_init_ed(3,4) [where a = a and b = b, rule_format])

lemma dp_table_ed: "i \<le> length a \<Longrightarrow> j \<le> length b \<Longrightarrow> dp_table a b ! i ! j = ed a b i j"
  unfolding dp_table_def by (rule lev.fill_entry)

section \<open>Alignments\<close>

lemma ed_append: "i \<le> length a \<Longrightarrow> j \<le> length b \<Longrightarrow> ed (a @ x) (b @ y) i j = ed a b i j"
  by (induction a b i j rule: ed.induct) (simp_all add: nth_append)

lemma aligns_ed: "aligns a b s d i \<Longrightarrow> ed a b (length a) (length b) \<le> s + d + i"
proof (induction rule: aligns.induct)
  case (keep a b s d i x)
  then show ?case using ed_append [of "length a" a "length b" b "[x]" "[x]"] by (simp add: min_le_iff_disj)
next
  case (substitute a b s d i x y)
  then show ?case using ed_append [of "length a" a "length b" b "[x]" "[y]"] by (auto simp: min_le_iff_disj)
next
  case (delete a b s d i x)
  have "ed (a @ [x]) b (Suc (length a)) (length b) \<le> ed (a @ [x]) b (length a) (length b) + 1"
    by (cases "length b") (simp_all add: ed_0)
  then show ?case using delete ed_append [of "length a" a "length b" b "[x]" "[]"] by simp
next
  case (insert a b s d i y)
  have "ed a (b @ [y]) (length a) (Suc (length b)) \<le> ed a (b @ [y]) (length a) (length b) + 1"
    by (cases "length a") simp_all
  then show ?case using insert ed_append [of "length a" a "length b" b "[]" "[y]"] by simp
qed simp

lemma take_prev: "0 < i \<Longrightarrow> i \<le> length a \<Longrightarrow> take i a = take (i - 1) a @ [a ! (i - 1)]"
  by (cases i) (simp_all add: take_Suc_conv_app_nth)

lemma ed_cases:
  assumes "0 < i" and "0 < j"
  shows "ed a b i j = ed a b (i - 1) (j - 1) \<and> a ! (i - 1) = b ! (j - 1) \<or>
    ed a b i j = ed a b (i - 1) (j - 1) + 1 \<or> ed a b i j = ed a b (i - 1) j + 1 \<or>
    ed a b i j = ed a b i (j - 1) + 1"
  using ed_step [OF assms, of a b] by (auto simp: min_def lev_cost_def split: if_splits)

text \<open>Which branch of the loop is taken, by the distances around a cell.\<close>

lemma backtrack_branch:
  obtains (stop) "i = 0" "j = 0"
  | (match) "0 < i" "0 < j" "a ! (i - 1) = b ! (j - 1)" "ed a b i j = ed a b (i - 1) (j - 1)"
  | (subst) "0 < i" "0 < j" "\<not> (a ! (i - 1) = b ! (j - 1) \<and> ed a b i j = ed a b (i - 1) (j - 1))"
      "ed a b i j = ed a b (i - 1) (j - 1) + 1"
  | (del) "0 < i" "0 < j \<longrightarrow> \<not> (a ! (i - 1) = b ! (j - 1) \<and> ed a b i j = ed a b (i - 1) (j - 1)) \<and>
      ed a b i j \<noteq> ed a b (i - 1) (j - 1) + 1" "ed a b i j = ed a b (i - 1) j + 1"
  | (ins) "0 < j" "0 < i \<longrightarrow> \<not> (a ! (i - 1) = b ! (j - 1) \<and> ed a b i j = ed a b (i - 1) (j - 1)) \<and>
      ed a b i j \<noteq> ed a b (i - 1) (j - 1) + 1 \<and> ed a b i j \<noteq> ed a b (i - 1) j + 1"
      "ed a b i j = ed a b i (j - 1) + 1"
proof (cases "0 < i \<and> 0 < j")
  case True
  let ?m = "a ! (i - 1) = b ! (j - 1) \<and> ed a b i j = ed a b (i - 1) (j - 1)"
  consider "?m" | "\<not> ?m" "ed a b i j = ed a b (i - 1) (j - 1) + 1"
    | "\<not> ?m" "ed a b i j \<noteq> ed a b (i - 1) (j - 1) + 1" "ed a b i j = ed a b (i - 1) j + 1"
    | "\<not> ?m" "ed a b i j \<noteq> ed a b (i - 1) (j - 1) + 1" "ed a b i j \<noteq> ed a b (i - 1) j + 1"
      "ed a b i j = ed a b i (j - 1) + 1"
    using ed_cases [of i j a b] True by blast
  then show thesis by cases (use True that in blast)+
next
  case False
  then consider "i = 0" "j = 0" | "i = 0" "0 < j" | "0 < i" "j = 0" by blast
  then show thesis by cases (use that in \<open>auto simp: ed_0\<close>)
qed

text \<open>The backtracking loop ends with an alignment whose errors are the distance.\<close>

lemma backtrack_aligns:
  assumes "i \<le> length a" and "j \<le> length b"
  shows "\<exists>s' d' n'. backtrack a b (dp_table a b) i j s d n = Some (s + s', d + d', n + n') \<and>
    aligns (take i a) (take j b) s' d' n' \<and> s' + d' + n' = ed a b i j"
  using assms
proof (induction "i + j" arbitrary: i j s d n rule: less_induct)
  case less
  note dp = dp_table_ed [OF less.prems] dp_table_ed [of "i - 1" a j b] dp_table_ed [of "i - 1" a "j - 1" b]
  have IH: "\<exists>s' d' n'. backtrack a b (dp_table a b) i' j' s d n = Some (s + s', d + d', n + n') \<and>
      aligns (take i' a) (take j' b) s' d' n' \<and> s' + d' + n' = ed a b i' j'"
    if "i' + j' < i + j" "i' \<le> i" "j' \<le> j" for i' j' s d n
    using less.hyps [OF that(1)] less.prems that by simp
  show ?case
  proof (cases rule: backtrack_branch [where i = i and j = j and a = a and b = b])
    case stop
    then show ?thesis by (auto simp: backtrack.simps [of a b _ 0 0] intro: aligns.empty)
  next
    case match
    have "backtrack a b (dp_table a b) i j s d n = backtrack a b (dp_table a b) (i - 1) (j - 1) s d n"
      using match dp less.prems by (subst backtrack.simps) simp
    moreover obtain s' d' n' where "backtrack a b (dp_table a b) (i - 1) (j - 1) s d n
        = Some (s + s', d + d', n + n')"
      "aligns (take (i - 1) a) (take (j - 1) b) s' d' n'" "s' + d' + n' = ed a b (i - 1) (j - 1)"
      using IH [of "i - 1" "j - 1" s d n] match(1,2) by auto
    ultimately show ?thesis
      using match aligns.keep [of "take (i - 1) a" "take (j - 1) b" s' d' n' "a ! (i - 1)"]
        take_prev [of i a] take_prev [of j b] less.prems by metis
  next
    case subst
    have "backtrack a b (dp_table a b) i j s d n = backtrack a b (dp_table a b) (i - 1) (j - 1) (s + 1) d n"
      using subst dp less.prems by (subst backtrack.simps) auto
    moreover obtain s' d' n' where "backtrack a b (dp_table a b) (i - 1) (j - 1) (s + 1) d n
        = Some (s + Suc s', d + d', n + n')"
      "aligns (take (i - 1) a) (take (j - 1) b) s' d' n'" "Suc s' + d' + n' = ed a b (i - 1) (j - 1) + 1"
      using IH [of "i - 1" "j - 1" "s + 1" d n] subst(1,2) by auto
    ultimately show ?thesis
      using subst(1,2,4) take_prev [of i a] take_prev [of j b] less.prems
        aligns.substitute [of "take (i - 1) a" "take (j - 1) b" s' d' n' "a ! (i - 1)" "b ! (j - 1)"] by metis
  next
    case del
    have "backtrack a b (dp_table a b) i j s d n = backtrack a b (dp_table a b) (i - 1) j s (d + 1) n"
      using del dp less.prems by (subst backtrack.simps) auto
    moreover obtain s' d' n' where "backtrack a b (dp_table a b) (i - 1) j s (d + 1) n
        = Some (s + s', d + Suc d', n + n')"
      "aligns (take (i - 1) a) (take j b) s' d' n'" "s' + Suc d' + n' = ed a b (i - 1) j + 1"
      using IH [of "i - 1" j s "d + 1" n] del(1) by auto
    ultimately show ?thesis
      using del(1,3) take_prev [of i a] less.prems
        aligns.delete [of "take (i - 1) a" "take j b" s' d' n' "a ! (i - 1)"] by metis
  next
    case ins
    have "backtrack a b (dp_table a b) i j s d n = backtrack a b (dp_table a b) i (j - 1) s d (n + 1)"
      using ins dp less.prems by (subst backtrack.simps) auto
    moreover obtain s' d' n' where "backtrack a b (dp_table a b) i (j - 1) s d (n + 1)
        = Some (s + s', d + d', n + Suc n')"
      "aligns (take i a) (take (j - 1) b) s' d' n'" "s' + d' + Suc n' = ed a b i (j - 1) + 1"
      using IH [of i "j - 1" s d "n + 1"] ins(1) by auto
    ultimately show ?thesis
      using ins(1,3) take_prev [of j b] less.prems
        aligns.insert [of "take i a" "take (j - 1) b" s' d' n' "b ! (j - 1)"] by metis
  qed
qed

section \<open>Properties\<close>

text \<open>
  C31. The two-row Levenshtein routine returns the least number of errors: some alignment of the
  reference with the hypothesis has exactly that many substitutions, deletions and insertions in all,
  and no alignment has fewer.
\<close>

theorem levenshtein_minimal:
  "(\<exists>s d i. aligns a b s d i \<and> s + d + i = levenshtein a b) \<and>
   (\<forall>s d i. aligns a b s d i \<longrightarrow> levenshtein a b \<le> s + d + i)"
proof -
  obtain s d i where "aligns a b s d i" "s + d + i = ed a b (length a) (length b)"
    using backtrack_aligns [of "length a" a "length b" b 0 0 0] by auto
  then show ?thesis using aligns_ed [of a b] by (auto simp: levenshtein_ed)
qed

theorem levenshtein_minimal_witness:
  "levenshtein [1, 2, 3 :: nat] [1, 3] \<le> 0 + 1 + 0"
proof -
  have "aligns ([1, 2] @ [3 :: nat]) ([1] @ [3]) 0 (Suc 0) 0"
    using aligns.keep [OF aligns.delete [OF aligns.keep [OF aligns.empty, of 1], of "2 :: nat"], of 3] by simp
  then have "aligns [1, 2, 3 :: nat] [1, 3] 0 (Suc 0) 0" by simp
  then show ?thesis using levenshtein_minimal [of "[1, 2, 3 :: nat]" "[1, 3]"] by (metis One_nat_def)
qed

text \<open>
  The breakdown never underflows and is exact: backtracking through the full table returns the
  counts of an actual alignment of the two token lists, and substitutions + deletions + insertions
  is the edit distance that the two-row routine computes.
\<close>

theorem breakdown_exact:
  "\<exists>s d i. levenshtein_breakdown a b = Some (s, d, i) \<and> aligns a b s d i \<and> s + d + i = levenshtein a b"
  using backtrack_aligns [of "length a" a "length b" b 0 0 0]
  by (auto simp: levenshtein_breakdown_def levenshtein_ed)

lemma ed_swap: "ed a b i j = ed b a j i"
  by (induction a b i j rule: ed.induct) (auto simp: ed_0)

lemma ed_bounds: "i - j \<le> ed a b i j \<and> ed a b i j \<le> max i j"
  by (induction a b i j rule: ed.induct) (auto simp: min_def max_def split: if_splits)

lemma aligns_zero: "aligns a b s d i \<Longrightarrow> s + d + i = 0 \<Longrightarrow> a = b"
  by (induction rule: aligns.induct) auto

lemma aligns_refl: "aligns a a 0 0 0"
  by (induction a rule: rev_induct) (auto intro: aligns.intros)

lemma levenshtein_zero: "levenshtein a b = 0 \<longleftrightarrow> a = b"
proof -
  obtain s d i where al: "aligns a b s d i" "s + d + i = ed a b (length a) (length b)"
    using backtrack_aligns [of "length a" a "length b" b 0 0 0] by auto
  have "a = b" if "levenshtein a b = 0"
    by (rule aligns_zero [OF al(1)]) (use that al(2) in \<open>simp add: levenshtein_ed\<close>)
  moreover have "levenshtein a a = 0" using aligns_ed [OF aligns_refl, of a] by (simp add: levenshtein_ed)
  ultimately show ?thesis by blast
qed

text \<open>
  The edit distance is zero exactly on equal token lists, is symmetric, is at least the
  difference of the lengths and at most the longer length.
\<close>

theorem levenshtein_distance:
  "(levenshtein a b = 0 \<longleftrightarrow> a = b) \<and> levenshtein a b = levenshtein b a \<and>
   length a - length b \<le> levenshtein a b \<and> length b - length a \<le> levenshtein a b \<and>
   levenshtein a b \<le> max (length a) (length b)"
proof -
  have sym: "levenshtein a b = levenshtein b a" unfolding levenshtein_ed by (rule ed_swap)
  have "length b - length a \<le> levenshtein b a"
    using ed_bounds [of "length b" "length a" b a] by (simp add: levenshtein_ed)
  then have low: "length b - length a \<le> levenshtein a b" by (simp only: sym)
  have "length a - length b \<le> levenshtein a b" "levenshtein a b \<le> max (length a) (length b)"
    using ed_bounds [of "length a" "length b" a b] by (simp_all add: levenshtein_ed)
  with levenshtein_zero [of a b] sym low show ?thesis by blast
qed

text \<open>
  Error rates: word and character error rates lie between 0 and 1; the word error rate is 0
  exactly when the normalized word lists agree; and the breakdown is always available, and the
  displayed word error rate is its honest rate capped at 1.
\<close>

theorem error_rates:
  "0 \<le> compute_wer u r h \<and> compute_wer u r h \<le> 1 \<and> 0 \<le> compute_cer u r h \<and> compute_cer u r h \<le> 1 \<and>
   (compute_wer u r h = 0 \<longleftrightarrow>
      tokenize_words (normalize_for_metrics u r) = tokenize_words (normalize_for_metrics u h)) \<and>
   (\<exists>e. word_error_breakdown u r h = Some e \<and> compute_wer u r h = min (eb_rate e) 1)"
proof -
  define a where "a = tokenize_words (normalize_for_metrics u r)"
  define b where "b = tokenize_words (normalize_for_metrics u h)"
  have range: "0 \<le> display_rate x \<and> display_rate x \<le> 1" for x
    by (simp add: display_rate_def)
  have wed: "word_edit_distance u r h = \<lparr>distance = levenshtein a b, ref_len = length a\<rparr>"
    by (simp add: word_edit_distance_def Let_def levenshtein_def flip: a_def b_def)
  obtain s d i where bd: "levenshtein_breakdown a b = Some (s, d, i)" "s + d + i = levenshtein a b"
    using backtrack_aligns [of "length a" a "length b" b 0 0 0]
    by (auto simp: levenshtein_breakdown_def levenshtein_ed)
  let ?e = "\<lparr>substitutions = s, deletions = d, insertions = i, eb_ref_len = length a\<rparr>"
  have e: "word_error_breakdown u r h = Some ?e"
    using bd(1) by (simp add: word_error_breakdown_def Let_def flip: a_def b_def)
  have zero: "levenshtein a b = 0 \<longleftrightarrow> a = b" by (rule levenshtein_zero)
  have "compute_wer u r h = 0 \<longleftrightarrow> levenshtein a b = 0"
    by (auto simp: compute_wer_def wed display_rate_def min_def)
  moreover have "compute_wer u r h = min (eb_rate ?e) 1"
    using bd(2) by (simp add: compute_wer_def wed display_rate_def eb_rate_def eb_total_def)
  moreover have "0 \<le> compute_wer u r h" "compute_wer u r h \<le> 1"
    "0 \<le> compute_cer u r h" "compute_cer u r h \<le> 1"
    using range by (simp_all add: compute_wer_def compute_cer_def)
  ultimately show ?thesis
    using e zero unfolding a_def b_def by (intro conjI exI [of _ ?e]) (simp_all only: a_def b_def)
qed

end
