(* ===== verification/Word_Diff.thy ===== *)
theory Word_Diff
  imports Prelude Complex_Main "HOL-Library.Sublist"
begin

text \<open>
  The word diff between raw and annotated transcripts (\<^verbatim>\<open>diff/mod.rs\<close>): a longest common
  subsequence by dynamic programming and a merge that emits equal, replaced, deleted and inserted words.
  The merge walks the two word lists by index in the source; here each index is the list from that
  position on. The similarity is an exact rational (the source rounds to f64).

  Shown here: the changes reproduce both word lists, the unchanged words are a longest common
  subsequence as long as the table fits its memory guard, and the similarity is 100 exactly on equal
  word lists.
\<close>

section \<open>Data\<close>

datatype diff_op = Equal | Insert | Delete | Replace

record diff_change =
  op :: diff_op
  change_value :: utext

record diff_stats =
  added_words :: nat
  removed_words :: nat
  changed_words :: nat
  unchanged_words :: nat
  similarity :: rat

record text_diff =
  raw :: utext
  annotated :: utext
  changes :: "diff_change list"
  stats :: diff_stats

section \<open>The longest common subsequence\<close>

definition MAX_CELLS :: nat where
  "MAX_CELLS = 12500000"

definition USIZE_MAX :: nat where
  "USIZE_MAX = U64_MAX"

definition lcs_cell :: "'a list \<Rightarrow> 'a list \<Rightarrow> nat list list \<Rightarrow> nat \<Rightarrow> nat \<Rightarrow> nat" where
  "lcs_cell a b dp i j =
     (if a ! (i - 1) = b ! (j - 1) then dp ! (i - 1) ! (j - 1) + 1
      else max (dp ! (i - 1) ! j) (dp ! i ! (j - 1)))"

definition build_lcs_table :: "'a list \<Rightarrow> 'a list \<Rightarrow> nat list list" where
  "build_lcs_table a b =
     (let m = length a; n = length b; dp = replicate (m + 1) (replicate (n + 1) 0)
      in if MAX_CELLS < sat_mul USIZE_MAX m n then dp else fill_table (lcs_cell a b) m n dp)"

text \<open>The backward walk, with the words pushed so far; the source reverses them at the end.\<close>

function lcs_walk :: "'a list \<Rightarrow> 'a list \<Rightarrow> nat list list \<Rightarrow> nat \<Rightarrow> nat \<Rightarrow> 'a list \<Rightarrow> 'a list" where
  "lcs_walk a b dp i j result =
     (if 0 < i \<and> 0 < j
      then if a ! (i - 1) = b ! (j - 1) then lcs_walk a b dp (i - 1) (j - 1) (result @ [a ! (i - 1)])
           else if dp ! i ! (j - 1) < dp ! (i - 1) ! j then lcs_walk a b dp (i - 1) j result
           else lcs_walk a b dp i (j - 1) result
      else result)"
  by pat_completeness auto
termination by (relation "measure (\<lambda>(_, _, _, i, j, _). i + j)") auto

declare lcs_walk.simps [simp del]

definition extract_lcs :: "'a list \<Rightarrow> 'a list \<Rightarrow> nat list list \<Rightarrow> 'a list" where
  "extract_lcs a b dp = rev (lcs_walk a b dp (length a) (length b) [])"

section \<open>The merge\<close>

definition ARROW :: utext where
  "ARROW = [32, 0x2192, 32]"

function diff_loop :: "utext list \<Rightarrow> utext list \<Rightarrow> utext list \<Rightarrow> diff_change list" where
  "diff_loop raws anns lcs =
     (if raws = [] \<and> anns = [] then []
      else
        let raw_is_lcs = (raws \<noteq> [] \<and> lcs \<noteq> [] \<and> hd raws = hd lcs);
            ann_is_lcs = (anns \<noteq> [] \<and> lcs \<noteq> [] \<and> hd anns = hd lcs)
        in if raw_is_lcs \<and> ann_is_lcs
           then \<lparr>op = Equal, change_value = hd lcs\<rparr> # diff_loop (tl raws) (tl anns) (tl lcs)
           else if raws \<noteq> [] \<and> anns \<noteq> [] \<and> \<not> raw_is_lcs \<and> \<not> ann_is_lcs
           then \<lparr>op = Replace, change_value = hd raws @ ARROW @ hd anns\<rparr> # diff_loop (tl raws) (tl anns) lcs
           else if raws \<noteq> [] \<and> \<not> raw_is_lcs
           then \<lparr>op = Delete, change_value = hd raws\<rparr> # diff_loop (tl raws) anns lcs
           else if anns \<noteq> []
           then \<lparr>op = Insert, change_value = hd anns\<rparr> # diff_loop raws (tl anns) lcs
           else \<lparr>op = Delete, change_value = hd raws\<rparr> # diff_loop (tl raws) anns lcs)"
  by pat_completeness auto
termination
  by (relation "measure (\<lambda>(raws, anns, _). length raws + length anns)")
    (auto simp: neq_Nil_conv)

declare diff_loop.simps [simp del]

definition count_op :: "diff_op \<Rightarrow> diff_change list \<Rightarrow> nat" where
  "count_op x cs = length (filter (\<lambda>c. op c = x) cs)"

definition stats_of :: "diff_change list \<Rightarrow> diff_stats" where
  "stats_of cs =
     (let added = count_op Insert cs; removed = count_op Delete cs; changed = count_op Replace cs;
          unchanged = count_op Equal cs; tot = added + removed + changed + unchanged
      in \<lparr>added_words = added, removed_words = removed, changed_words = changed,
          unchanged_words = unchanged,
          similarity = (if tot = 0 then 100 else of_nat unchanged / of_nat tot * 100)\<rparr>)"

definition MAX_WORDS :: nat where
  "MAX_WORDS = 10000"

definition compute_diff :: "utext \<Rightarrow> utext \<Rightarrow> text_diff" where
  "compute_diff r a =
     (let raw_words = split_whitespace r; ann_words = split_whitespace a
      in if MAX_WORDS < length raw_words \<or> MAX_WORDS < length ann_words
         then \<lparr>raw = r, annotated = a, changes = [],
           stats = \<lparr>added_words = 0, removed_words = 0, changed_words = 0, unchanged_words = 0,
             similarity = 100\<rparr>\<rparr>
         else
           let lcs_table = build_lcs_table raw_words ann_words;
               lcs = extract_lcs raw_words ann_words lcs_table;
               cs = diff_loop raw_words ann_words lcs
           in \<lparr>raw = r, annotated = a, changes = cs, stats = stats_of cs\<rparr>)"

section \<open>Reading a diff\<close>

text \<open>The words of either side that a change stands for; a replacement shows both around the arrow.\<close>

fun raw_side :: "diff_change \<Rightarrow> utext list" where
  "raw_side c = (case op c of Equal \<Rightarrow> [change_value c] | Delete \<Rightarrow> [change_value c] | Insert \<Rightarrow> []
     | Replace \<Rightarrow> [takeWhile (\<lambda>x. \<not> is_whitespace x) (change_value c)])"

fun ann_side :: "diff_change \<Rightarrow> utext list" where
  "ann_side c = (case op c of Equal \<Rightarrow> [change_value c] | Delete \<Rightarrow> [] | Insert \<Rightarrow> [change_value c]
     | Replace \<Rightarrow> [drop 3 (dropWhile (\<lambda>x. \<not> is_whitespace x) (change_value c))])"

lemma replace_sides:
  assumes "is_word r"
  shows "takeWhile (\<lambda>x. \<not> is_whitespace x) (r @ ARROW @ a) = r"
    "drop 3 (dropWhile (\<lambda>x. \<not> is_whitespace x) (r @ ARROW @ a)) = a"
  using assms
  by (simp_all add: is_word_def list_all_iff ARROW_def takeWhile_append dropWhile_append numeral_3_eq_3)

lemma diff_loop_cases:
  obtains (finish) "raws = []" "anns = []" "diff_loop raws anns lcs = []"
  | (equal) w rs as ls where "raws = w # rs" "anns = w # as" "lcs = w # ls"
      "diff_loop raws anns lcs = \<lparr>op = Equal, change_value = w\<rparr> # diff_loop rs as ls"
  | (replace) r rs a as where "raws = r # rs" "anns = a # as" "lcs = [] \<or> r \<noteq> hd lcs \<and> a \<noteq> hd lcs"
      "diff_loop raws anns lcs = \<lparr>op = Replace, change_value = r @ ARROW @ a\<rparr> # diff_loop rs as lcs"
  | (delete) r rs where "raws = r # rs" "lcs = [] \<or> r \<noteq> hd lcs \<or> anns = []"
      "diff_loop raws anns lcs = \<lparr>op = Delete, change_value = r\<rparr> # diff_loop rs anns lcs"
  | (insert) a as where "anns = a # as" "lcs = [] \<or> a \<noteq> hd lcs \<or> raws = []"
      "diff_loop raws anns lcs = \<lparr>op = Insert, change_value = a\<rparr> # diff_loop raws as lcs"
proof (cases raws)
  case Nil
  then show thesis using that(1,5) diff_loop.simps [of raws anns lcs] by (cases anns) simp_all
next
  case raws: (Cons r rs)
  show thesis
  proof (cases anns)
    case Nil
    then show thesis using that(4) [of r rs] raws diff_loop.simps [of raws anns lcs] by simp
  next
    case anns: (Cons a as)
    consider "lcs \<noteq> []" "r = hd lcs" "a = hd lcs" | "lcs = [] \<or> r \<noteq> hd lcs \<and> a \<noteq> hd lcs"
      | "lcs \<noteq> []" "r \<noteq> hd lcs" "a = hd lcs" | "lcs \<noteq> []" "r = hd lcs" "a \<noteq> hd lcs"
      by blast
    then show thesis
    proof cases
      case 1
      then show thesis
        using that(2) [of "hd lcs" rs as "tl lcs"] raws anns diff_loop.simps [of raws anns lcs] by simp
    next
      case 2
      then show thesis
        using that(3) [of r rs a as] raws anns diff_loop.simps [of raws anns lcs] by auto
    next
      case 3
      then show thesis using that(4) [of r rs] raws anns diff_loop.simps [of raws anns lcs] by simp
    next
      case 4
      then show thesis using that(5) [of a as] raws anns diff_loop.simps [of raws anns lcs] by simp
    qed
  qed
qed

lemma diff_loop_sides:
  assumes "\<forall>w \<in> set raws. is_word w"
  shows "concat (map raw_side (diff_loop raws anns lcs)) = raws \<and>
    concat (map ann_side (diff_loop raws anns lcs)) = anns"
  using assms
proof (induction "length raws + length anns" arbitrary: raws anns lcs rule: less_induct)
  case less
  show ?case
    by (cases rule: diff_loop_cases [where raws = raws and anns = anns and lcs = lcs])
      (use less in \<open>simp_all add: replace_sides\<close>)
qed

lemma subseq_tail: "subseq lcs (x # xs) \<Longrightarrow> lcs = [] \<or> x \<noteq> hd lcs \<Longrightarrow> subseq lcs xs"
  by (cases lcs) auto

lemma diff_loop_equal:
  assumes "subseq lcs raws" and "subseq lcs anns"
  shows "count_op Equal (diff_loop raws anns lcs) = length lcs"
  using assms
proof (induction "length raws + length anns" arbitrary: raws anns lcs rule: less_induct)
  case less
  show ?case
  proof (cases rule: diff_loop_cases [where raws = raws and anns = anns and lcs = lcs])
    case finish
    then show ?thesis using less.prems by (simp add: count_op_def)
  next
    case (equal w rs as ls)
    then have "count_op Equal (diff_loop rs as ls) = length ls"
      using less.prems by (intro less.hyps) simp_all
    then show ?thesis using equal by (simp add: count_op_def)
  next
    case (replace r rs a as)
    then have "count_op Equal (diff_loop rs as lcs) = length lcs"
      using less.prems by (intro less.hyps) (auto dest: subseq_tail)
    then show ?thesis using replace by (simp add: count_op_def)
  next
    case (delete r rs)
    then have "count_op Equal (diff_loop rs anns lcs) = length lcs"
      using less.prems by (intro less.hyps) (auto dest: subseq_tail)
    then show ?thesis using delete by (simp add: count_op_def)
  next
    case (insert a as)
    then have "count_op Equal (diff_loop raws as lcs) = length lcs"
      using less.prems by (intro less.hyps) (auto dest: subseq_tail)
    then show ?thesis using insert by (simp add: count_op_def)
  qed
qed

section \<open>The table and the walk\<close>

text \<open>The length of a longest common subsequence of two prefixes, by the recurrence.\<close>

fun lc :: "'a list \<Rightarrow> 'a list \<Rightarrow> nat \<Rightarrow> nat \<Rightarrow> nat" where
  "lc a b 0 j = 0"
| "lc a b (Suc i) 0 = 0"
| "lc a b (Suc i) (Suc j) =
     (if a ! i = b ! j then lc a b i j + 1 else max (lc a b i (Suc j)) (lc a b (Suc i) j))"

lemma lc_0: "lc a b i 0 = 0"
  by (cases i) simp_all

interpretation lcs: dynamic_program "lcs_cell a b" "lc a b" "length a" "length b"
    "replicate (length a + 1) (replicate (length b + 1) 0)" for a b :: "'a list"
proof (unfold_locales, goal_cases)
  case (5 i j dp)
  then show ?case by (cases i; cases j) (simp_all add: lcs_cell_def)
qed (simp_all add: lc_0 del: replicate.simps)

lemma subseq_snoc_cases:
  "subseq xs (as @ [x]) \<Longrightarrow> subseq xs as \<or> (\<exists>ys. xs = ys @ [x] \<and> subseq ys as)"
proof (induction as arbitrary: xs)
  case Nil
  then show ?case by (cases xs) (auto split: if_splits dest: list_emb_Nil2)
next
  case (Cons a as)
  show ?case
  proof (cases xs)
    case (Cons y ys)
    with Cons.prems Cons.IH show ?thesis
      by (auto split: if_splits) (metis append_Cons subseq_Cons2 subseq_Cons')+
  qed simp
qed

lemma subseq_take_Suc:
  assumes "i < length a" and "subseq xs (take (Suc i) a)"
  shows "subseq xs (take i a) \<or> (\<exists>ys. xs = ys @ [a ! i] \<and> subseq ys (take i a))"
  using assms subseq_snoc_cases by (metis take_Suc_conv_app_nth)

lemma lc_bound:
  assumes "i \<le> length a" and "j \<le> length b" and "subseq xs (take i a)" and "subseq xs (take j b)"
  shows "length xs \<le> lc a b i j"
  using assms
proof (induction a b i j arbitrary: xs rule: lc.induct)
  case (3 a b i j)
  have i: "i < length a" and j: "j < length b" using "3.prems"(1,2) by simp_all
  note ia = subseq_take_Suc [OF i "3.prems"(3)] and jb = subseq_take_Suc [OF j "3.prems"(4)]
  show ?case
  proof (cases "a ! i = b ! j")
    case True
    have pre: "subseq ys xs" if "xs = ys @ [x]" for ys x using that by (simp add: subseq_rev_drop_many)
    have "\<exists>ys. length xs \<le> Suc (length ys) \<and> subseq ys (take i a) \<and> subseq ys (take j b)"
      using ia
    proof
      assume A: "subseq xs (take i a)"
      from jb show ?thesis
      proof
        assume "subseq xs (take j b)"
        with A show ?thesis by (intro exI [of _ xs]) simp
      next
        assume "\<exists>ys. xs = ys @ [b ! j] \<and> subseq ys (take j b)"
        with A show ?thesis using pre subseq_order.trans by fastforce
      qed
    next
      assume "\<exists>ys. xs = ys @ [a ! i] \<and> subseq ys (take i a)"
      then obtain ys where "xs = ys @ [a ! i]" "subseq ys (take i a)" by blast
      moreover have "subseq ys (take j b)"
        using jb calculation(1) pre [OF calculation(1)] by (auto intro: subseq_order.trans)
      ultimately show ?thesis by (intro exI [of _ ys]) simp
    qed
    then show ?thesis using "3.IH"(1) [OF True] "3.prems" True by fastforce
  next
    case False
    then consider "subseq xs (take i a)" | "subseq xs (take j b)"
      using ia jb by (metis append1_eq_conv)
    then show ?thesis
    proof cases
      case 1
      then show ?thesis using "3.IH"(2) [OF False, of xs] "3.prems" False by simp
    next
      case 2
      then show ?thesis using "3.IH"(3) [OF False, of xs] "3.prems" False by simp
    qed
  qed
qed simp_all

lemma lcs_walk_acc: "lcs_walk a b dp i j res = res @ lcs_walk a b dp i j []"
proof (induction "i + j" arbitrary: i j res rule: less_induct)
  case less
  have IH: "i' + j' < i + j \<Longrightarrow> lcs_walk a b dp i' j' (res @ r) = res @ lcs_walk a b dp i' j' r" for i' j' r
    using less.hyps [of i' j' "res @ r"] less.hyps [of i' j' r] by simp
  show ?case
    using IH [of "i - 1" "j - 1" "[a ! (i - 1)]"] IH [of "i - 1" j "[]"] IH [of i "j - 1" "[]"]
    by (subst (1 2) lcs_walk.simps) auto
qed

text \<open>One step of the walk, seen from the start of the prefixes.\<close>

lemma lcs_walk_cases:
  obtains (stop) "i = 0 \<or> j = 0" "lcs_walk a b dp i j [] = []"
  | (match) i' j' where "i = Suc i'" "j = Suc j'" "a ! i' = b ! j'"
      "lcs_walk a b dp i j [] = a ! i' # lcs_walk a b dp i' j' []"
  | (left) i' j' where "i = Suc i'" "j = Suc j'" "a ! i' \<noteq> b ! j'" "dp ! i ! j' < dp ! i' ! j"
      "lcs_walk a b dp i j [] = lcs_walk a b dp i' j []"
  | (right) i' j' where "i = Suc i'" "j = Suc j'" "a ! i' \<noteq> b ! j'" "\<not> dp ! i ! j' < dp ! i' ! j"
      "lcs_walk a b dp i j [] = lcs_walk a b dp i j' []"
proof (cases "0 < i \<and> 0 < j")
  case True
  then obtain i' j' where ij: "i = Suc i'" "j = Suc j'" by (auto simp: gr0_conv_Suc)
  have unfold: "lcs_walk a b dp (Suc i') (Suc j') [] =
      (if a ! i' = b ! j' then a ! i' # lcs_walk a b dp i' j' []
       else if dp ! Suc i' ! j' < dp ! i' ! Suc j' then lcs_walk a b dp i' (Suc j') []
       else lcs_walk a b dp (Suc i') j' [])"
    using lcs_walk_acc [of a b dp i' j' "[a ! i']"] by (subst lcs_walk.simps) auto
  show thesis using that(2-4) [OF ij] unfold ij by (auto split: if_splits)
next
  case False
  then show thesis using that(1) lcs_walk.simps [of a b dp i j "[]"] by auto
qed

lemma subseq_prefix_snoc: "subseq xs (xs @ [x])"
  by (metis append_Nil2 list_emb_append_mono subseq_order.refl list_emb_Nil)

lemma subseq_take_snoc:
  "subseq xs (take k c) \<Longrightarrow> k < length c \<Longrightarrow> subseq xs (take (Suc k) c)"
  "subseq xs (take k c) \<Longrightarrow> k < length c \<Longrightarrow> subseq (xs @ [c ! k]) (take (Suc k) c)"
  by (simp_all add: take_Suc_conv_app_nth list_emb_append_mono subseq_order.trans [OF _ subseq_prefix_snoc])

lemma lcs_walk_common:
  assumes "i \<le> length a" and "j \<le> length b"
  shows "subseq (rev (lcs_walk a b dp i j [])) (take i a) \<and> subseq (rev (lcs_walk a b dp i j [])) (take j b)"
  using assms
proof (induction "i + j" arbitrary: i j rule: less_induct)
  case less
  show ?case
  proof (cases rule: lcs_walk_cases [where i = i and j = j and a = a and b = b and dp = dp])
    case (match i' j')
    have "rev (lcs_walk a b dp i j []) = rev (lcs_walk a b dp i' j' []) @ [a ! i']"
      "rev (lcs_walk a b dp i j []) = rev (lcs_walk a b dp i' j' []) @ [b ! j']"
      using match by simp_all
    then show ?thesis
      using match(1,2) less.hyps [of i' j'] less.prems subseq_take_snoc(2) [of _ i' a] subseq_take_snoc(2) [of _ j' b] by fastforce
  next
    case (left i' j')
    then show ?thesis using less.hyps [of i' j] less.prems by (simp add: Suc_le_eq subseq_take_snoc(1))
  next
    case (right i' j')
    then show ?thesis using less.hyps [of i j'] less.prems by (simp add: Suc_le_eq subseq_take_snoc(1))
  qed simp
qed

lemma lcs_walk_length:
  assumes "i \<le> length a" and "j \<le> length b"
    and "\<forall>r q. r \<le> length a \<longrightarrow> q \<le> length b \<longrightarrow> dp ! r ! q = lc a b r q"
  shows "length (lcs_walk a b dp i j []) = lc a b i j"
  using assms(1,2)
proof (induction "i + j" arbitrary: i j rule: less_induct)
  case less
  show ?case
  proof (cases rule: lcs_walk_cases [where i = i and j = j and a = a and b = b and dp = dp])
    case stop
    then show ?thesis by (auto simp: lc_0)
  next
    case (match i' j')
    then show ?thesis using less.hyps [of i' j'] less.prems by simp
  next
    case (left i' j')
    then show ?thesis using less.hyps [of i' j] less.prems assms(3) by simp
  next
    case (right i' j')
    then show ?thesis using less.hyps [of i j'] less.prems assms(3) by simp
  qed
qed

lemma lcs_walk_same: "i \<le> length a \<Longrightarrow> lcs_walk a a dp i i [] = rev (take i a)"
proof (induction i)
  case (Suc i)
  then show ?case
    using lcs_walk_acc [of a a dp i i "[a ! i]"]
    by (subst lcs_walk.simps) (simp add: take_Suc_conv_app_nth)
qed (subst lcs_walk.simps, simp)

lemma diff_loop_same: "diff_loop ws ws ws = map (\<lambda>w. \<lparr>op = Equal, change_value = w\<rparr>) ws"
proof (induction ws)
  case (Cons w ws)
  then show ?case by (subst diff_loop.simps) simp
qed (subst diff_loop.simps, simp)

section \<open>Properties\<close>



lemma extract_lcs_common:
  "subseq (extract_lcs a b dp) a \<and> subseq (extract_lcs a b dp) b"
  using lcs_walk_common [of "length a" a "length b" b dp] by (simp add: extract_lcs_def)

lemma extract_lcs_longest:
  assumes "length a * length b \<le> MAX_CELLS"
  shows "length (extract_lcs a b (build_lcs_table a b)) = lc a b (length a) (length b)"
proof -
  have "\<not> MAX_CELLS < sat_mul USIZE_MAX (length a) (length b)"
    using assms by (simp add: sat_mul_def)
  then have "\<forall>i j. i \<le> length a \<longrightarrow> j \<le> length b \<longrightarrow> build_lcs_table a b ! i ! j = lc a b i j"
    using lcs.fill_entry [of _ a _ b] by (simp add: build_lcs_table_def Let_def)
  then show ?thesis using lcs_walk_length [of "length a" a "length b" b] by (simp add: extract_lcs_def)
qed

text \<open>
  The unchanged words are as many as possible: within the word limit and the memory guard of
  the table, no common subsequence of the two word lists is longer than the number of words that the
  diff reports as unchanged.
\<close>

theorem diff_unchanged_maximal:
  assumes "length (split_whitespace r) \<le> MAX_WORDS" and "length (split_whitespace a) \<le> MAX_WORDS"
    and "length (split_whitespace r) * length (split_whitespace a) \<le> MAX_CELLS"
    and "subseq xs (split_whitespace r)" and "subseq xs (split_whitespace a)"
  shows "length xs \<le> unchanged_words (stats (compute_diff r a))"
proof -
  let ?r = "split_whitespace r" and ?a = "split_whitespace a"
  let ?l = "extract_lcs ?r ?a (build_lcs_table ?r ?a)"
  have "unchanged_words (stats (compute_diff r a)) = count_op Equal (diff_loop ?r ?a ?l)"
    using assms(1,2) by (simp add: compute_diff_def stats_of_def Let_def)
  also have "\<dots> = length ?l" using diff_loop_equal extract_lcs_common by blast
  also have "\<dots> = lc ?r ?a (length ?r) (length ?a)" by (rule extract_lcs_longest [OF assms(3)])
  finally show ?thesis using lc_bound [of "length ?r" ?r "length ?a" ?a xs] assms(4,5) by simp
qed

theorem diff_unchanged_maximal_witness:
  "2 \<le> unchanged_words (stats (compute_diff [97, 32, 99] [97, 32, 98, 32, 99]))"
proof -
  have w: "split_whitespace [97, 32, 99] = [[97], [99]]" "split_whitespace [97, 32, 98, 32, 99] = [[97], [98], [99]]"
    by (simp_all add: split_whitespace_def is_whitespace_def)
  have "length [[97], [99 :: nat]] \<le> unchanged_words (stats (compute_diff [97, 32, 99] [97, 32, 98, 32, 99]))"
    by (rule diff_unchanged_maximal) (simp_all add: w MAX_WORDS_def MAX_CELLS_def)
  then show ?thesis by simp
qed

lemma count_ops_length:
  "count_op Insert cs + count_op Delete cs + count_op Replace cs + count_op Equal cs = length cs"
proof (induction cs)
  case (Cons c cs)
  then show ?case by (cases "op c") (simp_all add: count_op_def)
qed (simp add: count_op_def)

lemma similarity_eq:
  "similarity (stats_of cs) =
     (if cs = [] then 100 else of_nat (count_op Equal cs) / of_nat (length cs) * 100)"
  using count_ops_length [of cs] by (auto simp: stats_of_def Let_def simp flip: of_nat_add)

lemma count_op_le: "count_op x cs \<le> length cs"
  by (simp add: count_op_def)

lemma count_op_all: "count_op x cs = length cs \<longleftrightarrow> (\<forall>c \<in> set cs. op c = x)"
proof
  assume "count_op x cs = length cs"
  then show "\<forall>c \<in> set cs. op c = x"
    using length_filter_less [of _ cs "\<lambda>c. op c = x"] unfolding count_op_def by fastforce
qed (simp add: count_op_def)

lemma similarity_bounds: "0 \<le> similarity (stats_of cs) \<and> similarity (stats_of cs) \<le> 100"
  using count_op_le [of Equal cs] by (simp add: similarity_eq divide_le_eq)

lemma similarity_full: "similarity (stats_of cs) = 100 \<longleftrightarrow> (\<forall>c \<in> set cs. op c = Equal)"
  using count_op_all [of Equal cs] by (auto simp: similarity_eq divide_eq_eq)

text \<open>
  Within the word limit the similarity lies between 0 and 100, and it is 100 exactly when the two
  texts have the same words.
\<close>

theorem diff_similarity:
  assumes "length (split_whitespace r) \<le> MAX_WORDS" and "length (split_whitespace a) \<le> MAX_WORDS"
  shows "0 \<le> similarity (stats (compute_diff r a)) \<and> similarity (stats (compute_diff r a)) \<le> 100 \<and>
    (similarity (stats (compute_diff r a)) = 100 \<longleftrightarrow> split_whitespace r = split_whitespace a)"
proof -
  let ?r = "split_whitespace r" and ?a = "split_whitespace a"
  let ?cs = "diff_loop ?r ?a (extract_lcs ?r ?a (build_lcs_table ?r ?a))"
  have st: "stats (compute_diff r a) = stats_of ?cs"
    using assms by (simp add: compute_diff_def Let_def)
  have "concat (map raw_side ?cs) = ?r \<and> concat (map ann_side ?cs) = ?a"
    using diff_loop_sides split_whitespace_words by blast
  moreover have "\<forall>c \<in> set ?cs. op c = Equal \<Longrightarrow> concat (map raw_side ?cs) = concat (map ann_side ?cs)"
    by (intro arg_cong [where f = concat] map_cong) simp_all
  ultimately have "\<forall>c \<in> set ?cs. op c = Equal \<Longrightarrow> ?r = ?a" by metis
  moreover have "\<forall>c \<in> set ?cs. op c = Equal" if "?r = ?a"
    using diff_loop_same [of ?r] lcs_walk_same [of "length ?r" ?r] that by (auto simp: extract_lcs_def)
  ultimately show ?thesis using st similarity_bounds [of ?cs] similarity_full [of ?cs] by auto
qed

theorem diff_similarity_witness:
  "similarity (stats (compute_diff [97, 32, 99] [97, 32, 32, 99])) = 100"
proof -
  have w: "split_whitespace [97, 32, 99] = [[97], [99]]" "split_whitespace [97, 32, 32, 99] = [[97], [99]]"
    by (simp_all add: split_whitespace_def is_whitespace_def)
  then show ?thesis
    using diff_similarity [of "[97, 32, 99]" "[97, 32, 32, 99]"] by (simp add: MAX_WORDS_def)
qed

end
