(* ===== verification/Import_Journal.thy ===== *)
theory Import_Journal
  imports Prelude "HOL-Library.List_Lexorder" "HOL-Library.Product_Lexorder"
begin

text \<open>
  The resume journal of directory imports (\<^verbatim>\<open>db/jobs_rights.rs\<close>, tables \<^verbatim>\<open>import_jobs\<close> and
  \<^verbatim>\<open>import_job_files\<close>). The tables are the lists of their rows; foreign keys are enforced with
  cascading deletes, as the connection sets them. New ids come from the uuid library and are arguments.
  Each operation runs in one savepoint or one statement, so a failed operation changes nothing. The
  Unicode property behind \<open>is_alphanumeric\<close> is the parameter \<open>alnum\<close>.

  Shown here: the operations refine a one-slot specification (at most one running import with the
  set of files already done), and keep the tables' constraints.
\<close>

section \<open>Tables\<close>

datatype import_error = JournalDatabase utext | JournalValidation utext | JournalOther utext

record import_job_row =
  ij_id :: utext
  ij_dir :: utext
  ij_total_files :: nat
  ij_status :: string
  ij_created_at :: nat
  ij_updated_at :: nat

record import_tables =
  import_jobs :: "import_job_row list"
  import_job_files :: "(utext \<times> utext) list"

record import_job =
  im_id :: utext
  im_dir :: utext
  im_total_files :: nat
  im_completed_paths :: "utext list"
  im_created_at :: nat

datatype discard_outcome = Discarded | NotFound | Changed

definition is_running :: "import_job_row \<Rightarrow> bool" where
  "is_running r \<longleftrightarrow> ij_status r = ''running''"

definition newest_first :: "import_job_row list \<Rightarrow> import_job_row list" where
  "newest_first rs = rev (sort_key (\<lambda>r. (ij_created_at r, ij_id r)) rs)"

section \<open>Operations\<close>

definition validate_identifier :: "(uchar \<Rightarrow> bool) \<Rightarrow> utext \<Rightarrow> utext + unit" where
  "validate_identifier alnum s =
     (if s = [] then Inl (lit ''Identifier must not be empty'')
      else if 256 < utf8_len s then Inl (lit ''Identifier too long (max 256 chars)'')
      else if list_all (\<lambda>c. c = 46) s then Inl (lit ''Identifier must not consist only of dots'')
      else if \<not> list_all (\<lambda>c. alnum c \<or> c = 95 \<or> c = 45 \<or> c = 46) s
      then Inl (lit ''Identifier must be alphanumeric (underscore, hyphen, dot allowed)'')
      else Inr ())"

definition valid_id :: "(uchar \<Rightarrow> bool) \<Rightarrow> utext \<Rightarrow> import_error + unit" where
  "valid_id alnum s = (case validate_identifier alnum s of Inl m \<Rightarrow> Inl (JournalValidation m) | Inr u \<Rightarrow> Inr u)"

text \<open>\<open>UPDATE import_jobs SET status = 'abandoned' WHERE status = 'running'\<close>.\<close>

definition abandon_running :: "nat \<Rightarrow> import_job_row list \<Rightarrow> import_job_row list" where
  "abandon_running now rs =
     map (\<lambda>r. if is_running r then r\<lparr>ij_status := ''abandoned'', ij_updated_at := now\<rparr> else r) rs"

definition insert_job :: "import_job_row \<Rightarrow> import_tables \<Rightarrow> import_error + import_tables" where
  "insert_job r t =
     (if ij_id r \<in> ij_id ` set (import_jobs t) then Inl (JournalDatabase (lit ''UNIQUE constraint failed''))
      else Inr (t\<lparr>import_jobs := import_jobs t @ [r]\<rparr>))"

text \<open>A \<open>DELETE\<close> on the jobs cascades to their files.\<close>

definition delete_jobs :: "(import_job_row \<Rightarrow> bool) \<Rightarrow> import_tables \<Rightarrow> import_tables" where
  "delete_jobs P t =
     (let kept = filter (\<lambda>r. \<not> P r) (import_jobs t)
      in t\<lparr>import_jobs := kept,
           import_job_files := filter (\<lambda>f. fst f \<in> ij_id ` set kept) (import_job_files t)\<rparr>)"

text \<open>Retention: the 50 newest finished jobs are kept.\<close>

definition prune_finished :: "import_tables \<Rightarrow> import_tables" where
  "prune_finished t =
     (let keep = map ij_id (take 50 (newest_first (filter (\<lambda>r. \<not> is_running r) (import_jobs t))))
      in delete_jobs (\<lambda>r. \<not> is_running r \<and> ij_id r \<notin> set keep) t)"

definition begin_import_job ::
  "nat \<Rightarrow> utext \<Rightarrow> utext \<Rightarrow> nat \<Rightarrow> import_tables \<Rightarrow> import_error + import_tables"
where
  "begin_import_job now new_id dir total_files t =
     and_then (insert_job \<lparr>ij_id = new_id, ij_dir = dir, ij_total_files = total_files,
         ij_status = ''running'', ij_created_at = now, ij_updated_at = now\<rparr>
         (t\<lparr>import_jobs := abandon_running now (import_jobs t)\<rparr>)) (\<lambda>t1.
       Inr (prune_finished t1))"

definition find_job :: "utext \<Rightarrow> import_tables \<Rightarrow> import_job_row option" where
  "find_job i t = find (\<lambda>r. ij_id r = i) (import_jobs t)"

definition paths_of :: "utext \<Rightarrow> import_tables \<Rightarrow> utext list" where
  "paths_of i t = map snd (filter (\<lambda>f. fst f = i) (import_job_files t))"

definition handoff_import_job_for_resume ::
  "(uchar \<Rightarrow> bool) \<Rightarrow> nat \<Rightarrow> utext \<Rightarrow> utext \<Rightarrow> import_tables \<Rightarrow> import_error + import_tables"
where
  "handoff_import_job_for_resume alnum now new_id prior t =
     and_then (valid_id alnum prior) (\<lambda>_.
     and_then (require (list_ex (\<lambda>r. ij_id r = prior \<and> is_running r) (import_jobs t))
       (JournalValidation (lit ''Interrupted import journal '' @ prior
          @ lit '' is no longer the active resumable job''))) (\<lambda>_.
     let t1 = t\<lparr>import_jobs := abandon_running now (import_jobs t)\<rparr>
     in and_then
          (case find_job prior t1 of
             None \<Rightarrow> Inl (JournalOther (lit ''Interrupted import journal '' @ prior
               @ lit '' disappeared during resume handoff''))
           | Some r \<Rightarrow> insert_job \<lparr>ij_id = new_id, ij_dir = ij_dir r, ij_total_files = ij_total_files r,
               ij_status = ''running'', ij_created_at = now, ij_updated_at = now\<rparr> t1) (\<lambda>t2.
        and_then
          (let copies = map (\<lambda>p. (new_id, p)) (paths_of prior t2)
           in if list_ex (\<lambda>f. f \<in> set (import_job_files t2)) copies \<or> \<not> distinct copies
              then Inl (JournalDatabase (lit ''UNIQUE constraint failed''))
              else Inr (t2\<lparr>import_job_files := import_job_files t2 @ copies\<rparr>)) (\<lambda>t3.
        and_then (require (length (filter is_running (import_jobs t3)) = 1)
          (JournalOther (lit (''Resume journal handoff produced '' @ show_nat (length (filter is_running
             (import_jobs t3))) @ '' running jobs instead of exactly one'')))) (\<lambda>_.
        Inr (prune_finished t3))))))"

definition continue_import_job ::
  "(uchar \<Rightarrow> bool) \<Rightarrow> nat \<Rightarrow> utext \<Rightarrow> utext \<Rightarrow> nat \<Rightarrow> import_tables \<Rightarrow> import_error + import_tables"
where
  "continue_import_job alnum now i dir total_files t =
     and_then (valid_id alnum i) (\<lambda>_.
       let P = (\<lambda>r. ij_id r = i \<and> ij_dir r = dir \<and> is_running r)
       in if length (filter P (import_jobs t)) \<noteq> 1
          then Inl (JournalValidation (lit ''Resume worker does not own running import journal ''
            @ i @ lit '' for '' @ dir))
          else Inr (t\<lparr>import_jobs := map (\<lambda>r. if P r then r\<lparr>ij_total_files := total_files,
            ij_updated_at := now\<rparr> else r) (import_jobs t)\<rparr>))"

definition mark_import_file_done ::
  "nat \<Rightarrow> utext \<Rightarrow> utext \<Rightarrow> import_tables \<Rightarrow> import_error + import_tables"
where
  "mark_import_file_done now i path t =
     (if (i, path) \<notin> set (import_job_files t) \<and> i \<notin> ij_id ` set (import_jobs t)
      then Inl (JournalDatabase (lit ''FOREIGN KEY constraint failed''))
      else
        let t1 = (if (i, path) \<in> set (import_job_files t) then t
                  else t\<lparr>import_job_files := import_job_files t @ [(i, path)]\<rparr>)
        in Inr (t1\<lparr>import_jobs := map (\<lambda>r. if ij_id r = i then r\<lparr>ij_updated_at := now\<rparr> else r)
             (import_jobs t1)\<rparr>))"

definition complete_import_job :: "nat \<Rightarrow> utext \<Rightarrow> import_tables \<Rightarrow> import_tables" where
  "complete_import_job now i t =
     t\<lparr>import_jobs := map (\<lambda>r. if ij_id r = i then r\<lparr>ij_status := ''completed'', ij_updated_at := now\<rparr> else r)
        (import_jobs t)\<rparr>"

definition discard_import_job ::
  "(uchar \<Rightarrow> bool) \<Rightarrow> utext \<Rightarrow> import_tables \<Rightarrow> import_error + discard_outcome \<times> import_tables"
where
  "discard_import_job alnum i t =
     and_then (valid_id alnum i) (\<lambda>_.
       let running_ids = map ij_id (newest_first (filter is_running (import_jobs t)))
       in case running_ids of
            [] \<Rightarrow> Inr (NotFound, t)
          | current # _ \<Rightarrow>
              if length running_ids \<noteq> 1
              then Inl (JournalOther (lit (''Interrupted import journal invariant failed: expected one running job, found ''
                @ show_nat (length running_ids))))
              else if current \<noteq> i then Inr (Changed, t)
              else
                let t1 = t\<lparr>import_job_files := filter (\<lambda>f. fst f \<noteq> i) (import_job_files t)\<rparr>;
                    P = (\<lambda>r. ij_id r = i \<and> is_running r)
                in if length (filter P (import_jobs t1)) \<noteq> 1
                   then Inl (JournalOther (lit ''Interrupted import journal '' @ i
                     @ lit '' changed during exact discard''))
                   else Inr (Discarded, delete_jobs P t1))"

definition find_interrupted_import_job :: "import_tables \<Rightarrow> import_job option" where
  "find_interrupted_import_job t =
     (case newest_first (filter is_running (import_jobs t)) of
        [] \<Rightarrow> None
      | r # _ \<Rightarrow> Some \<lparr>im_id = ij_id r, im_dir = ij_dir r, im_total_files = ij_total_files r,
          im_completed_paths = paths_of (ij_id r) t, im_created_at = ij_created_at r\<rparr>)"

section \<open>Specification\<close>

text \<open>
  The abstract journal is at most one running import: its id, directory, number of files and the set
  of files already done.
\<close>

type_synonym import_slot = "(utext \<times> utext \<times> nat \<times> utext set) option"

datatype import_op =
    Begin nat utext utext nat
  | Handoff nat utext utext
  | Continue_Import nat utext utext nat
  | Mark_Done nat utext utext
  | Complete nat utext
  | Discard utext

fun import_step :: "(uchar \<Rightarrow> bool) \<Rightarrow> import_op \<Rightarrow> import_tables \<Rightarrow> import_error + import_tables" where
  "import_step alnum (Begin now i d n) t = begin_import_job now i d n t"
| "import_step alnum (Handoff now i p) t = handoff_import_job_for_resume alnum now i p t"
| "import_step alnum (Continue_Import now i d n) t = continue_import_job alnum now i d n t"
| "import_step alnum (Mark_Done now i p) t = mark_import_file_done now i p t"
| "import_step alnum (Complete now i) t = Inr (complete_import_job now i t)"
| "import_step alnum (Discard i) t = and_then (discard_import_job alnum i t) (\<lambda>(_, t'). Inr t')"

fun slot_step :: "import_op \<Rightarrow> import_slot \<Rightarrow> import_slot" where
  "slot_step (Begin _ i d n) _ = Some (i, d, n, {})"
| "slot_step (Handoff _ i p) s = (case s of Some (j, d, n, F) \<Rightarrow> Some (i, d, n, F) | None \<Rightarrow> None)"
| "slot_step (Continue_Import _ i d n) s = (case s of Some (j, e, _, F) \<Rightarrow> Some (j, e, n, F) | None \<Rightarrow> None)"
| "slot_step (Mark_Done _ i p) s =
     (case s of Some (j, d, n, F) \<Rightarrow> Some (j, d, n, if j = i then insert p F else F) | None \<Rightarrow> None)"
| "slot_step (Complete _ i) s =
     (case s of Some (j, d, n, F) \<Rightarrow> if j = i then None else s | None \<Rightarrow> None)"
| "slot_step (Discard i) s =
     (case s of Some (j, d, n, F) \<Rightarrow> if j = i then None else s | None \<Rightarrow> None)"

definition slot_of :: "import_tables \<Rightarrow> import_slot" where
  "slot_of t =
     (case filter is_running (import_jobs t) of
        [] \<Rightarrow> None
      | r # _ \<Rightarrow> Some (ij_id r, ij_dir r, ij_total_files r, set (paths_of (ij_id r) t)))"

text \<open>The constraints of the tables and the single running import.\<close>

definition import_tables_ok :: "import_tables \<Rightarrow> bool" where
  "import_tables_ok t \<longleftrightarrow>
     distinct (map ij_id (import_jobs t)) \<and> distinct (import_job_files t) \<and>
     fst ` set (import_job_files t) \<subseteq> ij_id ` set (import_jobs t) \<and>
     length (filter is_running (import_jobs t)) \<le> 1"

section \<open>Refinement\<close>

lemma abandon_ids [simp]: "map ij_id (abandon_running now rs) = map ij_id rs"
  by (simp add: abandon_running_def)

lemma abandon_id_set [simp]: "ij_id ` set (abandon_running now rs) = ij_id ` set rs"
  by (metis abandon_ids list.set_map)

lemma abandon_not_running [simp]: "filter is_running (abandon_running now rs) = []"
  by (induction rs) (simp_all add: abandon_running_def is_running_def)

lemma delete_jobs_ok: "import_tables_ok t \<Longrightarrow> import_tables_ok (delete_jobs P t)"
  by (auto simp: import_tables_ok_def delete_jobs_def Let_def distinct_map inj_on_def
      intro: le_trans [OF length_filter_le] simp del: filter_filter)
    (metis (mono_tags, lifting) filter_filter filter_cong conj_commute le_trans length_filter_le)

lemma paths_of_delete:
  assumes "i \<in> ij_id ` set (import_jobs (delete_jobs P t))"
  shows "paths_of i (delete_jobs P t) = paths_of i t"
proof -
  have "filter (\<lambda>f. fst f = i) (import_job_files (delete_jobs P t)) = filter (\<lambda>f. fst f = i) (import_job_files t)"
    using assms by (auto simp: delete_jobs_def Let_def intro!: filter_cong)
  then show ?thesis by (simp add: paths_of_def)
qed

lemma delete_jobs_slot:
  assumes "\<forall>r \<in> set (import_jobs t). P r \<longrightarrow> \<not> is_running r"
  shows "slot_of (delete_jobs P t) = slot_of t"
proof -
  have run: "filter is_running (import_jobs (delete_jobs P t)) = filter is_running (import_jobs t)"
    using assms by (auto simp: delete_jobs_def Let_def intro!: filter_cong)
  show ?thesis
  proof (cases "filter is_running (import_jobs t)")
    case (Cons r rs)
    then have "r \<in> set (import_jobs (delete_jobs P t))"
      using run by (metis filter_is_subset list.set_intros(1) subsetD)
    then show ?thesis using run Cons paths_of_delete [of "ij_id r" P t] by (simp add: slot_of_def)
  qed (use run in \<open>simp add: slot_of_def\<close>)
qed

lemma prune_finished_refines:
  "slot_of (prune_finished t) = slot_of t"
  "import_tables_ok t \<Longrightarrow> import_tables_ok (prune_finished t)"
  by (simp_all add: prune_finished_def Let_def delete_jobs_slot delete_jobs_ok)

lemma insert_running:
  assumes "import_tables_ok t" and "insert_job r (t\<lparr>import_jobs := abandon_running now (import_jobs t)\<rparr>) = Inr t1"
    and "is_running r"
  shows "import_tables_ok t1" "filter is_running (import_jobs t1) = [r]"
    "import_job_files t1 = import_job_files t" "paths_of (ij_id r) t1 = []"
    "ij_id r \<notin> ij_id ` set (import_jobs t)"
proof -
  have t1: "t1 = t\<lparr>import_jobs := abandon_running now (import_jobs t) @ [r]\<rparr>"
    and fresh: "ij_id r \<notin> ij_id ` set (import_jobs t)"
    using assms(2) by (auto simp: insert_job_def split: if_splits)
  have files: "f \<in> set (import_job_files t) \<Longrightarrow> fst f \<in> ij_id ` set (import_jobs t)" for f
    using assms(1) by (auto simp: import_tables_ok_def)
  with fresh show "paths_of (ij_id r) t1 = []" by (auto simp: t1 paths_of_def filter_empty_conv)
  show "import_tables_ok t1"
    using assms(1,3) fresh files by (auto simp: t1 import_tables_ok_def)
qed (use assms in \<open>auto simp: insert_job_def split: if_splits\<close>)

lemma begin_refines:
  assumes "import_tables_ok t" and "begin_import_job now i d n t = Inr t'"
  shows "import_tables_ok t' \<and> slot_of t' = Some (i, d, n, {})"
proof -
  let ?r = "\<lparr>ij_id = i, ij_dir = d, ij_total_files = n, ij_status = ''running'', ij_created_at = now,
    ij_updated_at = now\<rparr>"
  obtain t1 where t1: "insert_job ?r (t\<lparr>import_jobs := abandon_running now (import_jobs t)\<rparr>) = Inr t1"
    "t' = prune_finished t1"
    using assms(2) by (auto simp: begin_import_job_def result_simps)
  have "is_running ?r" by (simp add: is_running_def)
  from insert_running [OF assms(1) t1(1) this] show ?thesis
    unfolding t1(2) prune_finished_refines(1) by (simp add: prune_finished_refines(2)) (simp add: slot_of_def)
qed

lemma single_running:
  assumes "import_tables_ok t" and "r \<in> set (import_jobs t)" and "is_running r"
  shows "filter is_running (import_jobs t) = [r]"
proof -
  have "r \<in> set (filter is_running (import_jobs t))" using assms(2,3) by simp
  moreover have "length (filter is_running (import_jobs t)) \<le> 1"
    using assms(1) by (simp add: import_tables_ok_def)
  ultimately show ?thesis by (cases "filter is_running (import_jobs t)") auto
qed

lemma find_job_abandon:
  assumes "import_tables_ok t" and "r \<in> set (import_jobs t)" and "ij_id r = i"
    and "find_job i (t\<lparr>import_jobs := abandon_running now (import_jobs t)\<rparr>) = Some r1"
  shows "ij_dir r1 = ij_dir r \<and> ij_total_files r1 = ij_total_files r"
proof -
  have "r1 \<in> set (abandon_running now (import_jobs t))" "ij_id r1 = i"
    using assms(4) by (auto simp: find_job_def find_Some_iff)
  then obtain r0 where r0: "r0 \<in> set (import_jobs t)" "ij_id r0 = i" "ij_dir r1 = ij_dir r0"
    "ij_total_files r1 = ij_total_files r0"
    by (auto simp: abandon_running_def)
  moreover have "r0 = r"
    using assms(1-3) r0(1,2) by (auto simp: import_tables_ok_def distinct_map inj_on_def)
  ultimately show ?thesis by simp
qed

lemma handoff_refines:
  assumes ok: "import_tables_ok t" and "handoff_import_job_for_resume alnum now i prior t = Inr t'"
  shows "import_tables_ok t' \<and> slot_of t' = slot_step (Handoff now i prior) (slot_of t)"
proof -
  let ?t1 = "t\<lparr>import_jobs := abandon_running now (import_jobs t)\<rparr>"
  obtain r r1 t2 where r: "r \<in> set (import_jobs t)" "ij_id r = prior" "is_running r"
    and r1: "find_job prior ?t1 = Some r1"
    and t2: "insert_job \<lparr>ij_id = i, ij_dir = ij_dir r1, ij_total_files = ij_total_files r1,
        ij_status = ''running'', ij_created_at = now, ij_updated_at = now\<rparr> ?t1 = Inr t2"
    and copies: "distinct (map (\<lambda>p. (i, p)) (paths_of prior t2))"
      "\<forall>f \<in> set (map (\<lambda>p. (i, p)) (paths_of prior t2)). f \<notin> set (import_job_files t2)"
    and t': "t' = prune_finished (t2\<lparr>import_job_files := import_job_files t2 @ map (\<lambda>p. (i, p)) (paths_of prior t2)\<rparr>)"
    using assms(2)
    by (auto simp: handoff_import_job_for_resume_def Let_def result_simps list_ex_iff split: option.splits if_splits)
  let ?r = "\<lparr>ij_id = i, ij_dir = ij_dir r1, ij_total_files = ij_total_files r1, ij_status = ''running'',
    ij_created_at = now, ij_updated_at = now\<rparr>"
  have "is_running ?r" by (simp add: is_running_def)
  note ins = insert_running [OF ok t2 this]
  have r1_eq: "ij_dir r1 = ij_dir r" "ij_total_files r1 = ij_total_files r"
    using find_job_abandon [OF ok r(1,2) r1] by simp_all
  let ?t3 = "t2\<lparr>import_job_files := import_job_files t2 @ map (\<lambda>p. (i, p)) (paths_of prior t2)\<rparr>"
  have "?r \<in> set (import_jobs t2)" using ins(2) by (metis filter_is_subset list.set_intros(1) subsetD)
  then have "i \<in> ij_id ` set (import_jobs t2)" by force
  moreover have "set (import_job_files t2) \<inter> set (map (\<lambda>p. (i, p)) (paths_of prior t2)) = {}"
    using copies(2) by blast
  ultimately have "import_tables_ok ?t3"
    using ins(1) copies(1) unfolding import_tables_ok_def by (simp add: image_Un image_image subset_iff) blast
  moreover have "slot_of ?t3 = Some (i, ij_dir r, ij_total_files r, set (paths_of prior t))"
  proof -
    have "set (paths_of i ?t3) = set (paths_of prior t)"
      using ins(3,4) by (auto simp: paths_of_def filter_empty_conv)
    then show ?thesis using ins(2) r1_eq by (simp add: slot_of_def)
  qed
  moreover have "slot_of t = Some (prior, ij_dir r, ij_total_files r, set (paths_of prior t))"
    using single_running [OF ok r(1,3)] r(2) by (simp add: slot_of_def)
  ultimately show ?thesis by (simp add: t' prune_finished_refines)
qed

lemma update_rows_refines:
  assumes ok: "import_tables_ok t"
    and f: "\<forall>r. ij_id (f r) = ij_id r" "\<forall>r \<in> set (import_jobs t). is_running (f r) \<longrightarrow> is_running r"
  shows "import_tables_ok (t\<lparr>import_jobs := map f (import_jobs t)\<rparr>)"
    "\<forall>r \<in> set (import_jobs t). is_running r \<longrightarrow> is_running (f r) \<and> ij_dir (f r) = ij_dir r \<Longrightarrow>
      slot_of (t\<lparr>import_jobs := map f (import_jobs t)\<rparr>) =
        (case filter is_running (import_jobs t) of [] \<Rightarrow> None
         | r # _ \<Rightarrow> Some (ij_id r, ij_dir r, ij_total_files (f r), set (paths_of (ij_id r) t)))"
proof -
  have ids: "map ij_id (map f rs) = map ij_id rs" for rs using f(1) by simp
  have run: "length (filter is_running (map f rs)) \<le> length (filter is_running rs)"
    if "\<forall>r \<in> set rs. is_running (f r) \<longrightarrow> is_running r" for rs
    using that by (induction rs) auto
  show "import_tables_ok (t\<lparr>import_jobs := map f (import_jobs t)\<rparr>)"
  proof -
    have "ij_id ` f ` S = ij_id ` S" for S using f(1) by (simp add: image_image)
    moreover have "length (filter is_running (map f (import_jobs t))) \<le> 1"
      using run [OF f(2)] ok by (simp add: import_tables_ok_def)
    ultimately show ?thesis
      using ok ids [of "import_jobs t"] unfolding import_tables_ok_def by (simp del: map_map)
  qed
  show "slot_of (t\<lparr>import_jobs := map f (import_jobs t)\<rparr>) =
        (case filter is_running (import_jobs t) of [] \<Rightarrow> None
         | r # _ \<Rightarrow> Some (ij_id r, ij_dir r, ij_total_files (f r), set (paths_of (ij_id r) t)))"
    if "\<forall>r \<in> set (import_jobs t). is_running r \<longrightarrow> is_running (f r) \<and> ij_dir (f r) = ij_dir r"
  proof -
    have "filter is_running (map f rs) = map f (filter is_running rs)"
      if "\<forall>r \<in> set rs. is_running (f r) = is_running r" for rs
      using that by (induction rs) auto
    then have "filter is_running (map f (import_jobs t)) = map f (filter is_running (import_jobs t))"
      using that f(2) by blast
    then have run': "filter is_running (import_jobs (t\<lparr>import_jobs := map f (import_jobs t)\<rparr>)) =
        map f (filter is_running (import_jobs t))" by simp
    show ?thesis
    proof (cases "filter is_running (import_jobs t)")
      case (Cons r rs)
      then have "r \<in> set (filter is_running (import_jobs t))" by simp
      then have "ij_dir (f r) = ij_dir r" using that by auto
      then show ?thesis
        using run' Cons f(1) unfolding slot_of_def paths_of_def by simp
    qed (use run' in \<open>simp add: slot_of_def\<close>)
  qed
qed

lemma continue_refines:
  assumes ok: "import_tables_ok t" and "continue_import_job alnum now i d n t = Inr t'"
  shows "import_tables_ok t' \<and> slot_of t' = slot_step (Continue_Import now i d n) (slot_of t)"
proof -
  let ?P = "\<lambda>r. ij_id r = i \<and> ij_dir r = d \<and> is_running r"
  let ?f = "\<lambda>r. if ?P r then r\<lparr>ij_total_files := n, ij_updated_at := now\<rparr> else r"
  have one: "length (filter ?P (import_jobs t)) = 1" and t': "t' = t\<lparr>import_jobs := map ?f (import_jobs t)\<rparr>"
    using assms(2) by (auto simp: continue_import_job_def Let_def result_simps split: if_splits)
  have "filter ?P (import_jobs t) \<noteq> []" using one by (metis list.size(3) zero_neq_one)
  then obtain r where r: "r \<in> set (import_jobs t)" "?P r" by (auto simp: filter_empty_conv)
  have run: "filter is_running (import_jobs t) = [r]" using single_running [OF ok] r by simp
  have f: "\<forall>r. ij_id (?f r) = ij_id r" "\<forall>r \<in> set (import_jobs t). is_running (?f r) \<longrightarrow> is_running r"
    "\<forall>r \<in> set (import_jobs t). is_running r \<longrightarrow> is_running (?f r) \<and> ij_dir (?f r) = ij_dir r"
    by (simp_all add: is_running_def)
  show ?thesis
    using update_rows_refines(1) [OF ok f(1,2)] update_rows_refines(2) [OF ok f] run r(2) t'
    by (simp add: slot_of_def)
qed

lemma touch_refines:
  assumes "import_tables_ok t"
  shows "import_tables_ok (t\<lparr>import_jobs := map (\<lambda>r. if ij_id r = i then r\<lparr>ij_updated_at := now\<rparr> else r)
      (import_jobs t)\<rparr>) \<and>
    slot_of (t\<lparr>import_jobs := map (\<lambda>r. if ij_id r = i then r\<lparr>ij_updated_at := now\<rparr> else r)
      (import_jobs t)\<rparr>) = slot_of t"
proof -
  let ?f = "\<lambda>r. if ij_id r = i then r\<lparr>ij_updated_at := now\<rparr> else r"
  have f: "\<forall>r. ij_id (?f r) = ij_id r" "\<forall>r \<in> set (import_jobs t). is_running (?f r) \<longrightarrow> is_running r"
    "\<forall>r \<in> set (import_jobs t). is_running r \<longrightarrow> is_running (?f r) \<and> ij_dir (?f r) = ij_dir r"
    by (simp_all add: is_running_def)
  show ?thesis
    using update_rows_refines(1) [OF assms f(1,2)] update_rows_refines(2) [OF assms f]
    by (auto simp: slot_of_def split: list.splits)
qed

lemma mark_refines:
  assumes ok: "import_tables_ok t" and "mark_import_file_done now i p t = Inr t'"
  shows "import_tables_ok t' \<and> slot_of t' = slot_step (Mark_Done now i p) (slot_of t)"
proof -
  define t1 where "t1 = (if (i, p) \<in> set (import_job_files t) then t
     else t\<lparr>import_job_files := import_job_files t @ [(i, p)]\<rparr>)"
  have ex: "(i, p) \<in> set (import_job_files t) \<or> i \<in> ij_id ` set (import_jobs t)"
    and t': "t' = t1\<lparr>import_jobs := map (\<lambda>r. if ij_id r = i then r\<lparr>ij_updated_at := now\<rparr> else r) (import_jobs t1)\<rparr>"
    using assms(2) by (auto simp: mark_import_file_done_def Let_def t1_def split: if_splits)
  have t1: "import_tables_ok t1"
    using ok ex by (auto simp: t1_def import_tables_ok_def)
  have "set (paths_of j t1) = (if j = i then insert p (set (paths_of j t)) else set (paths_of j t))" for j
    by (force simp: t1_def paths_of_def)
  moreover have "import_jobs t1 = import_jobs t" by (simp add: t1_def)
  ultimately have "slot_of t1 = slot_step (Mark_Done now i p) (slot_of t)"
    by (auto simp: slot_of_def split: list.splits)
  with touch_refines [OF t1] show ?thesis by (simp add: t')
qed

lemma complete_refines:
  assumes ok: "import_tables_ok t"
  shows "import_tables_ok (complete_import_job now i t) \<and>
    slot_of (complete_import_job now i t) = slot_step (Complete now i) (slot_of t)"
proof -
  let ?f = "\<lambda>r. if ij_id r = i then r\<lparr>ij_status := ''completed'', ij_updated_at := now\<rparr> else r"
  have f: "\<forall>r. ij_id (?f r) = ij_id r" "\<forall>r \<in> set (import_jobs t). is_running (?f r) \<longrightarrow> is_running r"
    by (simp_all add: is_running_def)
  have run: "filter is_running (map ?f rs) = filter (\<lambda>r. is_running r \<and> ij_id r \<noteq> i) rs" for rs
    by (induction rs) (auto simp: is_running_def)
  show ?thesis
  proof (cases "filter is_running (import_jobs t)")
    case Nil
    then have "filter (\<lambda>r. is_running r \<and> ij_id r \<noteq> i) (import_jobs t) = []"
      by (simp add: filter_empty_conv)
    with Nil show ?thesis
      using update_rows_refines(1) [OF ok f] run by (simp add: complete_import_job_def slot_of_def)
  next
    case (Cons r rs)
    then have "rs = []" using ok by (simp add: import_tables_ok_def)
    then have "filter (\<lambda>r. is_running r \<and> ij_id r \<noteq> i) (import_jobs t) = (if ij_id r = i then [] else [r])"
      using Cons filter_filter [of "\<lambda>r. ij_id r \<noteq> i" is_running "import_jobs t"] by (auto split: if_splits)
    with Cons show ?thesis
      using update_rows_refines(1) [OF ok f] run
      by (simp add: complete_import_job_def slot_of_def paths_of_def)
  qed
qed

lemma discard_refines:
  assumes ok: "import_tables_ok t" and "discard_import_job alnum i t = Inr (out, t')"
  shows "import_tables_ok t' \<and> slot_of t' = slot_step (Discard i) (slot_of t)"
proof (cases "filter is_running (import_jobs t)")
  case Nil
  then have "t' = t" using assms(2) by (auto simp: discard_import_job_def newest_first_def result_simps)
  then show ?thesis using Nil ok by (simp add: slot_of_def)
next
  case (Cons r rs)
  then have run: "filter is_running (import_jobs t) = [r]" using ok by (simp add: import_tables_ok_def)
  let ?P = "\<lambda>r. ij_id r = i \<and> is_running r"
  let ?t1 = "t\<lparr>import_job_files := filter (\<lambda>f. fst f \<noteq> i) (import_job_files t)\<rparr>"
  have newest: "newest_first [r] = [r]" by (simp add: newest_first_def)
  show ?thesis
  proof (cases "ij_id r = i")
    case False
    then have "t' = t" using assms(2) run newest by (auto simp: discard_import_job_def result_simps)
    then show ?thesis using False run ok by (simp add: slot_of_def)
  next
    case True
    then have t': "t' = delete_jobs ?P ?t1"
      using assms(2) run newest by (auto simp: discard_import_job_def Let_def result_simps split: if_splits)
    have ok1: "import_tables_ok ?t1" using ok by (auto simp: import_tables_ok_def)
    have "filter is_running (import_jobs t') = []"
    proof -
      have "filter is_running (import_jobs t') = filter (\<lambda>r. \<not> ?P r) (filter is_running (import_jobs t))"
        by (auto simp: t' delete_jobs_def Let_def intro!: filter_cong)
      then show ?thesis using run True by (simp add: filter_empty_conv) (metis filter_eq_ConsD)
    qed
    then show ?thesis
      using delete_jobs_ok [OF ok1, of ?P] run True by (simp add: t' slot_of_def)
  qed
qed

lemma import_step_refines:
  assumes ok: "import_tables_ok t" and s: "import_step alnum x t = Inr t'"
  shows "import_tables_ok t' \<and> slot_of t' = slot_step x (slot_of t)"
proof (cases x)
  case (Begin now i d n)
  with s have "begin_import_job now i d n t = Inr t'" by simp
  from begin_refines [OF ok this] Begin show ?thesis by simp
next
  case (Handoff now i p)
  with s have "handoff_import_job_for_resume alnum now i p t = Inr t'" by simp
  from handoff_refines [OF ok this] Handoff show ?thesis by simp
next
  case (Continue_Import now i d n)
  with s have "continue_import_job alnum now i d n t = Inr t'" by simp
  from continue_refines [OF ok this] Continue_Import show ?thesis by simp
next
  case (Mark_Done now i p)
  with s have "mark_import_file_done now i p t = Inr t'" by simp
  from mark_refines [OF ok this] Mark_Done show ?thesis by simp
next
  case (Complete now i)
  with s have "t' = complete_import_job now i t" by simp
  with complete_refines [OF ok] Complete show ?thesis by simp
next
  case (Discard i)
  with s obtain out where "discard_import_job alnum i t = Inr (out, t')" by (auto simp: result_simps)
  from discard_refines [OF ok this] Discard show ?thesis by simp
qed

interpretation import_journal: functional_refinement "import_step alnum" slot_step slot_of import_tables_ok
  for alnum :: "uchar \<Rightarrow> bool"
  by unfold_locales (auto dest: import_step_refines simp del: import_step.simps slot_step.simps)

section \<open>Properties\<close>

text \<open>
  C33. The journal refines a single slot: over any sequence of begins, handoffs, continuations, file
  completions, job completions and discards, in which operations may fail and failed ones change nothing,
  the tables keep their constraints with at most one running import, and the running import with its set
  of finished files is what the specification computes from the operations that succeeded.
\<close>

theorem import_journal_refines_slot:
  assumes "import_tables_ok t"
  shows "import_tables_ok (run_ops (import_step alnum) xs t) \<and>
    slot_of (run_ops (import_step alnum) xs t) =
      foldl (\<lambda>s x. slot_step x s) (slot_of t) (effective_ops (import_step alnum) xs t)"
  by (rule import_journal.run_refines [OF assms])

theorem import_journal_refines_slot_witness:
  "slot_of (run_ops (import_step (\<lambda>c. True)) [Begin 1 [97] [47] 2, Mark_Done 2 [97] [1], Handoff 3 [98] [97]]
     \<lparr>import_jobs = [], import_job_files = []\<rparr>) =
   foldl (\<lambda>s x. slot_step x s) None
     (effective_ops (import_step (\<lambda>c. True)) [Begin 1 [97] [47] 2, Mark_Done 2 [97] [1], Handoff 3 [98] [97]]
       \<lparr>import_jobs = [], import_job_files = []\<rparr>)"
proof -
  let ?t = "\<lparr>import_jobs = [], import_job_files = []\<rparr> :: import_tables"
  have "import_tables_ok ?t" "slot_of ?t = None" by (simp_all add: import_tables_ok_def slot_of_def)
  then show ?thesis
    using import_journal_refines_slot [of ?t "\<lambda>c. True"
        "[Begin 1 [97] [47] 2, Mark_Done 2 [97] [1], Handoff 3 [98] [97]]"] by metis
qed

lemma running_job_found:
  assumes "import_tables_ok t" and "slot_of t = Some (i, d, n, F)"
  shows "\<exists>j. find_interrupted_import_job t = Some j \<and> im_id j = i \<and> im_dir j = d \<and> im_total_files j = n \<and>
    set (im_completed_paths j) = F"
proof -
  obtain r where "filter is_running (import_jobs t) = [r]"
    using assms by (cases "filter is_running (import_jobs t)") (auto simp: slot_of_def import_tables_ok_def)
  then show ?thesis
    using assms(2) by (auto simp: find_interrupted_import_job_def newest_first_def slot_of_def)
qed

text \<open>
  A crashed import is handed over without losing progress: when the handoff to a successor
  succeeds, the startup query that offered the crashed import now finds exactly one interrupted import, the
  successor, for the same directory and total and with the same finished files; when it fails the tables
  are returned unchanged by the savepoint, and a handoff of an id that is not the interrupted import fails.
\<close>

theorem import_handoff_preserves_progress:
  assumes "import_tables_ok t" and "find_interrupted_import_job t = Some j"
  shows "(\<forall>t'. handoff_import_job_for_resume alnum now i (im_id j) t = Inr t' \<longrightarrow>
      (\<exists>j'. find_interrupted_import_job t' = Some j' \<and> im_id j' = i \<and> im_dir j' = im_dir j \<and>
         im_total_files j' = im_total_files j \<and> set (im_completed_paths j') = set (im_completed_paths j))) \<and>
    (\<forall>p. p \<noteq> im_id j \<longrightarrow> \<not> is_ok (handoff_import_job_for_resume alnum now i p t))"
proof -
  obtain r where run: "filter is_running (import_jobs t) = [r]"
    using assms by (cases "filter is_running (import_jobs t)")
      (auto simp: find_interrupted_import_job_def newest_first_def import_tables_ok_def)
  then have j: "slot_of t = Some (im_id j, im_dir j, im_total_files j, set (im_completed_paths j))"
    "im_id j = ij_id r"
    using assms(2) by (auto simp: find_interrupted_import_job_def newest_first_def slot_of_def)
  have "\<exists>j'. find_interrupted_import_job t' = Some j' \<and> im_id j' = i \<and> im_dir j' = im_dir j \<and>
         im_total_files j' = im_total_files j \<and> set (im_completed_paths j') = set (im_completed_paths j)"
    if "handoff_import_job_for_resume alnum now i (im_id j) t = Inr t'" for t'
    using handoff_refines [OF assms(1) that] j(1) running_job_found [of t'] by simp
  moreover have "\<not> is_ok (handoff_import_job_for_resume alnum now i p t)" if "p \<noteq> im_id j" for p
  proof -
    have "\<not> list_ex (\<lambda>r. ij_id r = p \<and> is_running r) (import_jobs t)"
      using run that j(2) single_running [OF assms(1)] by (fastforce simp: list_ex_iff)
    then show ?thesis by (simp add: handoff_import_job_for_resume_def is_ok_iff result_simps)
  qed
  ultimately show ?thesis by blast
qed

theorem import_handoff_preserves_progress_witness:
  "let t = \<lparr>import_jobs = [\<lparr>ij_id = [97], ij_dir = [47], ij_total_files = 2, ij_status = ''running'',
        ij_created_at = 1, ij_updated_at = 1\<rparr>], import_job_files = [([97], [1])]\<rparr>
   in \<exists>t' j'. handoff_import_job_for_resume (\<lambda>c. True) 3 [98] [97] t = Inr t' \<and>
        find_interrupted_import_job t' = Some j' \<and> set (im_completed_paths j') = {[1]}"
proof -
  let ?t = "\<lparr>import_jobs = [\<lparr>ij_id = [97], ij_dir = [47], ij_total_files = 2, ij_status = ''running'',
        ij_created_at = 1, ij_updated_at = 1\<rparr>], import_job_files = [([97], [1])]\<rparr>"
  let ?j = "\<lparr>im_id = [97], im_dir = [47], im_total_files = 2, im_completed_paths = [[1]], im_created_at = 1\<rparr>"
  have ok: "import_tables_ok ?t" "find_interrupted_import_job ?t = Some ?j"
    by (simp_all add: import_tables_ok_def is_running_def find_interrupted_import_job_def newest_first_def paths_of_def)
  have "\<exists>t'. handoff_import_job_for_resume (\<lambda>c. True) 3 [98] [97] ?t = Inr t'"
    by (simp add: handoff_import_job_for_resume_def valid_id_def validate_identifier_def utf8_len_def
        require_def is_running_def abandon_running_def find_job_def insert_job_def paths_of_def Let_def)
  then show ?thesis
    using import_handoff_preserves_progress [OF ok, of "\<lambda>c. True" 3 "[98]"] unfolding Let_def by fastforce
qed

end
