(* ===== verification/Fingerprint.thy ===== *)
theory Fingerprint
  imports Prelude "HOL-Library.Word" "HOL-Library.AList_Mapping"
begin

unbundle bit_operations_syntax

text \<open>
  Duplicate detection of imported audio (\<^verbatim>\<open>fingerprint.rs\<close>): the spectral bucket key, the content
  hash, the four hash maps of the in-memory index and the reservations that guard an import until its
  rows are committed. Hash maps are mappings; every method holds the one mutex for its whole body, so a
  method is one step. The blake3 hasher and \<open>std::fs::canonicalize\<close> are parameters. Samples are 16-bit
  words, spectral keys and reservation tokens 64-bit words.

  Shown here: the four maps always describe one catalogue of recordings, and the methods refine the
  operations on that catalogue; admission rejects exactly on a known source or an equal content hash;
  the token loop ends; a streamed recording has the content hash of the whole recording.
\<close>

section \<open>Data\<close>

record known_recording =
  kr_content :: "string option"
  kr_source :: utext
  reservation_token :: "64 word option"

record fingerprint_state =
  by_spectral :: "(64 word, (utext, known_recording) mapping) mapping"
  spectral_by_source :: "(utext, 64 word) mapping"
  content_refcounts :: "(string, nat) mapping"
  source_by_reservation :: "(64 word, utext) mapping"

record audio_fingerprint =
  fp_state :: fingerprint_state
  next_reservation_token :: "64 word"

record audio_import_reservation =
  rv_spectral :: "64 word"
  rv_token :: "64 word option"
  rv_committed :: bool

record audio_identity =
  spectral :: "64 word"
  content :: string

record stored_audio_identity =
  st_spectral :: "64 word"
  st_content :: "string option"
  st_audio_path :: utext

section \<open>The index\<close>

definition contains_source :: "utext \<Rightarrow> fingerprint_state \<Rightarrow> bool" where
  "contains_source src st \<longleftrightarrow> Mapping.lookup (spectral_by_source st) src \<noteq> None"

definition contains_content :: "string \<Rightarrow> fingerprint_state \<Rightarrow> bool" where
  "contains_content c st \<longleftrightarrow> Mapping.lookup (content_refcounts st) c \<noteq> None"

definition increment_content :: "string \<Rightarrow> fingerprint_state \<Rightarrow> fingerprint_state" where
  "increment_content c st =
     st\<lparr>content_refcounts := Mapping.map_default c 0 (\<lambda>n. n + 1) (content_refcounts st)\<rparr>"

definition decrement_content :: "string \<Rightarrow> fingerprint_state \<Rightarrow> fingerprint_state" where
  "decrement_content c st =
     (case Mapping.lookup (content_refcounts st) c of
        Some n \<Rightarrow>
          if 1 < n then st\<lparr>content_refcounts := Mapping.update c (n - 1) (content_refcounts st)\<rparr>
          else st\<lparr>content_refcounts := Mapping.delete c (content_refcounts st)\<rparr>
      | None \<Rightarrow> st)"

definition insert_recording ::
  "64 word \<Rightarrow> known_recording \<Rightarrow> fingerprint_state \<Rightarrow> bool \<times> fingerprint_state"
where
  "insert_recording sp r st =
     (if sp = 0 \<or> kr_source r = [] \<or> contains_source (kr_source r) st then (False, st)
      else if (case reservation_token r of
                 None \<Rightarrow> False | Some t \<Rightarrow> Mapping.lookup (source_by_reservation st) t \<noteq> None)
      then (False, st)
      else
        let src = kr_source r;
            st1 = (case kr_content r of None \<Rightarrow> st | Some c \<Rightarrow> increment_content c st);
            st2 = (case reservation_token r of
                     None \<Rightarrow> st1
                   | Some t \<Rightarrow> st1\<lparr>source_by_reservation := Mapping.update t src (source_by_reservation st1)\<rparr>);
            st3 = st2\<lparr>spectral_by_source := Mapping.update src sp (spectral_by_source st2)\<rparr>
        in (True, st3\<lparr>by_spectral :=
              Mapping.map_default sp Mapping.empty (Mapping.update src r) (by_spectral st3)\<rparr>))"

definition remove_source ::
  "utext \<Rightarrow> fingerprint_state \<Rightarrow> known_recording option \<times> fingerprint_state"
where
  "remove_source src st =
     (case Mapping.lookup (spectral_by_source st) src of
        None \<Rightarrow> (None, st)
      | Some sp \<Rightarrow>
          let st1 = st\<lparr>spectral_by_source := Mapping.delete src (spectral_by_source st)\<rparr>
          in case Mapping.lookup (by_spectral st1) sp of
               None \<Rightarrow> (None, st1)
             | Some bucket \<Rightarrow>
                 let removed = Mapping.lookup bucket src;
                     bucket' = Mapping.delete src bucket;
                     st2 = (if Mapping.is_empty bucket'
                            then st1\<lparr>by_spectral := Mapping.delete sp (by_spectral st1)\<rparr>
                            else st1\<lparr>by_spectral := Mapping.update sp bucket' (by_spectral st1)\<rparr>)
                 in case removed of
                      None \<Rightarrow> (None, st2)
                    | Some r \<Rightarrow>
                        let st3 = (case kr_content r of None \<Rightarrow> st2 | Some c \<Rightarrow> decrement_content c st2);
                            st4 = (case reservation_token r of
                                     None \<Rightarrow> st3
                                   | Some t \<Rightarrow> st3\<lparr>source_by_reservation :=
                                       Mapping.delete t (source_by_reservation st3)\<rparr>)
                        in (Some r, st4))"

definition recording :: "utext \<Rightarrow> fingerprint_state \<Rightarrow> known_recording option" where
  "recording src st =
     (case Mapping.lookup (spectral_by_source st) src of
        None \<Rightarrow> None
      | Some sp \<Rightarrow> (case Mapping.lookup (by_spectral st) sp of
                     None \<Rightarrow> None | Some bucket \<Rightarrow> Mapping.lookup bucket src))"

definition forget_token :: "64 word \<Rightarrow> fingerprint_state \<Rightarrow> fingerprint_state" where
  "forget_token t st = st\<lparr>source_by_reservation := Mapping.delete t (source_by_reservation st)\<rparr>"

definition commit_reservation :: "64 word \<Rightarrow> fingerprint_state \<Rightarrow> bool \<times> fingerprint_state" where
  "commit_reservation t st =
     (case Mapping.lookup (source_by_reservation st) t of
        None \<Rightarrow> (False, st)
      | Some src \<Rightarrow>
          (case Mapping.lookup (spectral_by_source st) src of
             None \<Rightarrow> (False, forget_token t st)
           | Some sp \<Rightarrow>
               (case Mapping.lookup (by_spectral st) sp of
                  None \<Rightarrow> (False, forget_token t st)
                | Some bucket \<Rightarrow>
                    (case Mapping.lookup bucket src of
                       None \<Rightarrow> (False, forget_token t st)
                     | Some r \<Rightarrow>
                         if reservation_token r = Some t
                         then (True, forget_token t (st\<lparr>by_spectral := Mapping.update sp
                                (Mapping.update src (r\<lparr>reservation_token := None\<rparr>) bucket)
                                (by_spectral st)\<rparr>))
                         else (False, forget_token t st)))))"

definition rollback_reservation :: "64 word \<Rightarrow> fingerprint_state \<Rightarrow> bool \<times> fingerprint_state" where
  "rollback_reservation t st =
     (case Mapping.lookup (source_by_reservation st) t of
        None \<Rightarrow> (False, st)
      | Some src \<Rightarrow>
          (case recording src st of
             None \<Rightarrow> (False, forget_token t st)
           | Some r \<Rightarrow>
               if reservation_token r = Some t
               then (case remove_source src st of (removed, st') \<Rightarrow> (removed \<noteq> None, st'))
               else (False, forget_token t st)))"

definition state_count :: "fingerprint_state \<Rightarrow> nat" where
  "state_count st = Mapping.size (spectral_by_source st)"

definition empty_state :: fingerprint_state where
  "empty_state = \<lparr>by_spectral = Mapping.empty, spectral_by_source = Mapping.empty,
     content_refcounts = Mapping.empty, source_by_reservation = Mapping.empty\<rparr>"

section \<open>Identities\<close>

text \<open>Samples are fed to the hasher little-endian, in blocks of 2048.\<close>

definition to_le_bytes16 :: "16 word \<Rightarrow> 8 word list" where
  "to_le_bytes16 w = [ucast w, ucast (drop_bit 8 w)]"

definition to_le_bytes32 :: "32 word \<Rightarrow> 8 word list" where
  "to_le_bytes32 w = map (\<lambda>k. ucast (drop_bit (8 * k) w)) [0..<4]"

function chunks :: "nat \<Rightarrow> 'a list \<Rightarrow> 'a list list" where
  "chunks n xs = (if xs = [] \<or> n = 0 then [] else take n xs # chunks n (drop n xs))"
  by pat_completeness auto
termination by (relation "measure (\<lambda>(n, xs). length xs)") auto

declare chunks.simps [simp del]

definition hash_samples_le ::
  "('h \<Rightarrow> 8 word list \<Rightarrow> 'h) \<Rightarrow> 'h \<Rightarrow> 16 word list \<Rightarrow> 'h"
where
  "hash_samples_le upd h pcm = foldl (\<lambda>h block. upd h (concat (map to_le_bytes16 block))) h (chunks 2048 pcm)"

definition band_energy :: "16 word list \<Rightarrow> nat \<Rightarrow> nat \<Rightarrow> nat \<Rightarrow> 64 word" where
  "band_energy pcm frame_size band_size i =
     (let start = i * band_size * frame_size;
          fin = min ((i + 1) * band_size * frame_size) (length pcm)
      in if fin \<le> start then 0
         else
           let samples = take (fin - start) (drop start pcm);
               total = foldl (\<lambda>s w. s + sint w * sint w) 0 samples
           in word_of_int (total div int (length samples)))"

definition fold_bands :: "64 word list \<Rightarrow> 64 word" where
  "fold_bands bands =
     foldl (\<lambda>h (i, b). (h XOR push_bit ((i * 8) mod 64) b) * 0x9E3779B97F4A7C15) 0 (enumerate 0 bands)"

definition fingerprint :: "16 word list \<Rightarrow> 32 word \<Rightarrow> 64 word" where
  "fingerprint pcm sample_rate =
     (if pcm = [] then 0
      else
        let frame_size = max (unat sample_rate div 1000) 32;
            num_frames = length pcm div frame_size
        in if num_frames = 0 then 0
           else fold_bands (map (band_energy pcm frame_size (num_frames div 8)) [0..<8]))"

definition content_hash ::
  "'h \<Rightarrow> ('h \<Rightarrow> 8 word list \<Rightarrow> 'h) \<Rightarrow> ('h \<Rightarrow> string) \<Rightarrow> 16 word list \<Rightarrow> 32 word \<Rightarrow> string"
where
  "content_hash new_hasher upd to_hex pcm sample_rate =
     to_hex (hash_samples_le upd (upd new_hasher (to_le_bytes32 sample_rate)) pcm)"

definition identify ::
  "'h \<Rightarrow> ('h \<Rightarrow> 8 word list \<Rightarrow> 'h) \<Rightarrow> ('h \<Rightarrow> string) \<Rightarrow> 16 word list \<Rightarrow> 32 word \<Rightarrow> audio_identity"
where
  "identify new_hasher upd to_hex pcm sample_rate =
     \<lparr>spectral = fingerprint pcm sample_rate, content = content_hash new_hasher upd to_hex pcm sample_rate\<rparr>"

record 'h streaming_identity =
  si_hasher :: 'h
  rate_mixed :: bool
  si_spectral :: "64 word"

definition new_streaming :: "'h \<Rightarrow> 'h streaming_identity" where
  "new_streaming new_hasher = \<lparr>si_hasher = new_hasher, rate_mixed = False, si_spectral = 0\<rparr>"

definition push ::
  "('h \<Rightarrow> 8 word list \<Rightarrow> 'h) \<Rightarrow> 16 word list \<Rightarrow> 32 word \<Rightarrow> 'h streaming_identity \<Rightarrow> 'h streaming_identity"
where
  "push upd pcm sample_rate s =
     (if pcm = [] then s
      else
        let s1 = (if \<not> rate_mixed s
                  then s\<lparr>si_hasher := upd (si_hasher s) (to_le_bytes32 sample_rate), rate_mixed := True\<rparr>
                  else s);
            s2 = s1\<lparr>si_hasher := hash_samples_le upd (si_hasher s1) pcm\<rparr>
        in if si_spectral s2 = 0 then s2\<lparr>si_spectral := fingerprint pcm sample_rate\<rparr> else s2)"

definition finish_streaming :: "('h \<Rightarrow> string) \<Rightarrow> 'h streaming_identity \<Rightarrow> audio_identity" where
  "finish_streaming to_hex s = \<lparr>spectral = si_spectral s, content = to_hex (si_hasher s)\<rparr>"

section \<open>Admission\<close>

definition new_fingerprint :: audio_fingerprint where
  "new_fingerprint = \<lparr>fp_state = empty_state, next_reservation_token = 1\<rparr>"

definition source_key :: "(utext \<Rightarrow> utext option) \<Rightarrow> utext option \<Rightarrow> utext" where
  "source_key canonicalize src =
     (case src of
        None \<Rightarrow> []
      | Some p \<Rightarrow> (case canonicalize p of Some c \<Rightarrow> c | None \<Rightarrow> p))"

definition check_duplicate ::
  "'h \<Rightarrow> ('h \<Rightarrow> 8 word list \<Rightarrow> 'h) \<Rightarrow> ('h \<Rightarrow> string) \<Rightarrow> (utext \<Rightarrow> utext option) \<Rightarrow> 16 word list \<Rightarrow>
   32 word \<Rightarrow> utext option \<Rightarrow> audio_fingerprint \<Rightarrow> bool"
where
  "check_duplicate new_hasher upd to_hex canonicalize pcm sample_rate src fp =
     (let i = identify new_hasher upd to_hex pcm sample_rate
      in if spectral i = 0 then False
         else source_key canonicalize src \<noteq> [] \<and> contains_content (content i) (fp_state fp))"

text \<open>
  The token loop: \<open>fetch_add\<close> wraps at 64 bits, the sentinel 0 and live tokens are skipped. The result
  is the token and the counter left behind.
\<close>

partial_function (option) next_token :: "(64 word \<Rightarrow> bool) \<Rightarrow> 64 word \<Rightarrow> (64 word \<times> 64 word) option" where
  "next_token live n = (if n \<noteq> 0 \<and> \<not> live n then Some (n, n + 1) else next_token live (n + 1))"

definition live_token :: "fingerprint_state \<Rightarrow> 64 word \<Rightarrow> bool" where
  "live_token st t \<longleftrightarrow> Mapping.lookup (source_by_reservation st) t \<noteq> None"

definition reserve_import_identity ::
  "(utext \<Rightarrow> utext option) \<Rightarrow> audio_identity \<Rightarrow> utext option \<Rightarrow> audio_fingerprint \<Rightarrow>
   ((string + audio_import_reservation) \<times> audio_fingerprint) option"
where
  "reserve_import_identity canonicalize i src fp =
     (if spectral i = 0
      then Some (Inr \<lparr>rv_spectral = 0, rv_token = None, rv_committed = False\<rparr>, fp)
      else
        let key = source_key canonicalize src; st = fp_state fp
        in if key = []
           then Some (Inr \<lparr>rv_spectral = spectral i, rv_token = None, rv_committed = False\<rparr>, fp)
           else if contains_source key st then Some (Inl ''Source audio path is already imported'', fp)
           else if contains_content (content i) st then Some (Inl ''Duplicate audio content'', fp)
           else
             (case next_token (live_token st) (next_reservation_token fp) of
                None \<Rightarrow> None
              | Some (t, n) \<Rightarrow>
                  (case insert_recording (spectral i) \<lparr>kr_content = Some (content i), kr_source = key,
                     reservation_token = Some t\<rparr> st of
                     (inserted, st') \<Rightarrow>
                       Some (if \<not> inserted then Inl ''Audio fingerprint reservation index conflict''
                             else Inr \<lparr>rv_spectral = spectral i, rv_token = Some t, rv_committed = False\<rparr>,
                             fp\<lparr>fp_state := st', next_reservation_token := n\<rparr>))))"

definition commit_import ::
  "audio_import_reservation \<Rightarrow> audio_fingerprint \<Rightarrow> audio_import_reservation \<times> audio_fingerprint"
where
  "commit_import r fp =
     (case rv_token r of
        None \<Rightarrow> (r\<lparr>rv_committed := True\<rparr>, fp)
      | Some t \<Rightarrow> (r\<lparr>rv_committed := True\<rparr>, fp\<lparr>fp_state := snd (commit_reservation t (fp_state fp))\<rparr>))"

definition drop_reservation :: "audio_import_reservation \<Rightarrow> audio_fingerprint \<Rightarrow> audio_fingerprint" where
  "drop_reservation r fp =
     (case rv_token r of
        None \<Rightarrow> fp
      | Some t \<Rightarrow>
          if rv_committed r then fp
          else fp\<lparr>fp_state := snd (rollback_reservation t (fp_state fp))\<rparr>)"

text \<open>\<open>commit\<close> consumes the reservation, so its \<open>Drop\<close> runs at the end of the method.\<close>

definition check_and_register_identity ::
  "(utext \<Rightarrow> utext option) \<Rightarrow> audio_identity \<Rightarrow> utext option \<Rightarrow> audio_fingerprint \<Rightarrow>
   ((string + unit) \<times> audio_fingerprint) option"
where
  "check_and_register_identity canonicalize i src fp =
     (case reserve_import_identity canonicalize i src fp of
        None \<Rightarrow> None
      | Some (Inl e, fp1) \<Rightarrow> Some (Inl e, fp1)
      | Some (Inr r, fp1) \<Rightarrow>
          (case commit_import r fp1 of (r', fp2) \<Rightarrow> Some (Inr (), drop_reservation r' fp2)))"

definition reserve_import ::
  "'h \<Rightarrow> ('h \<Rightarrow> 8 word list \<Rightarrow> 'h) \<Rightarrow> ('h \<Rightarrow> string) \<Rightarrow> (utext \<Rightarrow> utext option) \<Rightarrow> 16 word list \<Rightarrow>
   32 word \<Rightarrow> utext option \<Rightarrow> audio_fingerprint \<Rightarrow>
   ((string + audio_identity \<times> audio_import_reservation) \<times> audio_fingerprint) option"
where
  "reserve_import new_hasher upd to_hex canonicalize pcm sample_rate src fp =
     (let i = identify new_hasher upd to_hex pcm sample_rate
      in case reserve_import_identity canonicalize i src fp of
           None \<Rightarrow> None
         | Some (Inl e, fp1) \<Rightarrow> Some (Inl e, fp1)
         | Some (Inr r, fp1) \<Rightarrow> Some (Inr (i, r), fp1))"

definition check_and_register ::
  "'h \<Rightarrow> ('h \<Rightarrow> 8 word list \<Rightarrow> 'h) \<Rightarrow> ('h \<Rightarrow> string) \<Rightarrow> (utext \<Rightarrow> utext option) \<Rightarrow> 16 word list \<Rightarrow>
   32 word \<Rightarrow> utext option \<Rightarrow> audio_fingerprint \<Rightarrow> ((string + audio_identity) \<times> audio_fingerprint) option"
where
  "check_and_register new_hasher upd to_hex canonicalize pcm sample_rate src fp =
     (let i = identify new_hasher upd to_hex pcm sample_rate
      in case reserve_import_identity canonicalize i src fp of
           None \<Rightarrow> None
         | Some (Inl e, fp1) \<Rightarrow> Some (Inl e, fp1)
         | Some (Inr r, fp1) \<Rightarrow>
             (case commit_import r fp1 of (r', fp2) \<Rightarrow> Some (Inr i, drop_reservation r' fp2)))"

definition forget_source ::
  "(utext \<Rightarrow> utext option) \<Rightarrow> utext \<Rightarrow> audio_fingerprint \<Rightarrow> nat \<times> audio_fingerprint"
where
  "forget_source canonicalize src fp =
     (let key = source_key canonicalize (Some src)
      in if key = [] then (0, fp)
         else case remove_source key (fp_state fp) of
                (removed, st) \<Rightarrow> (if removed \<noteq> None then 1 else 0, fp\<lparr>fp_state := st\<rparr>))"

definition rehydrate_row ::
  "(utext \<Rightarrow> utext option) \<Rightarrow> nat \<times> fingerprint_state \<Rightarrow> stored_audio_identity \<Rightarrow> nat \<times> fingerprint_state"
where
  "rehydrate_row canonicalize acc row =
     (case acc of (added, st) \<Rightarrow>
       if st_spectral row = 0 then (added, st)
       else
         let key = source_key canonicalize (Some (st_audio_path row))
         in if key = [] then (added, st)
            else if contains_source key st then
              (case recording key st of
                 None \<Rightarrow> (added, st)
               | Some entry \<Rightarrow>
                   (case (kr_content entry, st_content row) of
                      (None, Some c) \<Rightarrow>
                        let st1 = increment_content c st
                        in (case Mapping.lookup (spectral_by_source st1) key of
                              None \<Rightarrow> (added, st1)
                            | Some sp \<Rightarrow>
                                (case Mapping.lookup (by_spectral st1) sp of
                                   None \<Rightarrow> (added, st1)
                                 | Some bucket \<Rightarrow>
                                     (case Mapping.lookup bucket key of
                                        None \<Rightarrow> (added, st1)
                                      | Some existing \<Rightarrow>
                                          (added, st1\<lparr>by_spectral := Mapping.update sp
                                             (Mapping.update key (existing\<lparr>kr_content := Some c\<rparr>) bucket)
                                             (by_spectral st1)\<rparr>))))
                    | _ \<Rightarrow> (added, st)))
            else
              (case insert_recording (st_spectral row) \<lparr>kr_content = st_content row, kr_source = key,
                 reservation_token = None\<rparr> st of
                 (inserted, st') \<Rightarrow> (if inserted then added + 1 else added, st')))"

definition rehydrate ::
  "(utext \<Rightarrow> utext option) \<Rightarrow> stored_audio_identity list \<Rightarrow> audio_fingerprint \<Rightarrow> nat \<times> audio_fingerprint"
where
  "rehydrate canonicalize rows fp =
     (case foldl (rehydrate_row canonicalize) (0, fp_state fp) rows of
        (added, st) \<Rightarrow> (added, fp\<lparr>fp_state := st\<rparr>))"

definition clear_fingerprints :: "audio_fingerprint \<Rightarrow> audio_fingerprint" where
  "clear_fingerprints fp = fp\<lparr>fp_state := empty_state\<rparr>"

definition fingerprint_count :: "audio_fingerprint \<Rightarrow> nat" where
  "fingerprint_count fp = state_count (fp_state fp)"

section \<open>The catalogue\<close>

text \<open>
  What the four maps stand for: every known source with its bucket key, its content hash if it has one
  and its reservation if it is still in flight.
\<close>

type_synonym catalogue = "utext \<rightharpoonup> 64 word \<times> string option \<times> 64 word option"

definition holders :: "catalogue \<Rightarrow> string \<Rightarrow> utext set" where
  "holders A c = {src. \<exists>sp t. A src = Some (sp, Some c, t)}"

definition reserved :: "catalogue \<Rightarrow> 64 word \<Rightarrow> utext \<Rightarrow> bool" where
  "reserved A t src \<longleftrightarrow> (\<exists>sp c. A src = Some (sp, c, Some t))"

definition refcount :: "catalogue \<Rightarrow> string \<Rightarrow> nat option" where
  "refcount A c = (if holders A c = {} then None else Some (card (holders A c)))"

definition entry_at :: "fingerprint_state \<Rightarrow> 64 word \<Rightarrow> utext \<Rightarrow> known_recording option" where
  "entry_at st sp src =
     (case Mapping.lookup (by_spectral st) sp of None \<Rightarrow> None | Some bucket \<Rightarrow> Mapping.lookup bucket src)"

definition catalogue_entry :: "catalogue \<Rightarrow> 64 word \<Rightarrow> utext \<Rightarrow> known_recording option" where
  "catalogue_entry A sp src =
     (case A src of
        None \<Rightarrow> None
      | Some (sp', c, t) \<Rightarrow>
          if sp' = sp then Some \<lparr>kr_content = c, kr_source = src, reservation_token = t\<rparr> else None)"

definition represents :: "fingerprint_state \<Rightarrow> catalogue \<Rightarrow> bool" where
  "represents st A \<longleftrightarrow>
     (\<forall>sp src. entry_at st sp src = catalogue_entry A sp src) \<and>
     (\<forall>src. Mapping.lookup (spectral_by_source st) src = map_option fst (A src)) \<and>
     (\<forall>sp bucket. Mapping.lookup (by_spectral st) sp = Some bucket \<longrightarrow> \<not> Mapping.is_empty bucket) \<and>
     (\<forall>src x. A src = Some x \<longrightarrow> src \<noteq> [] \<and> fst x \<noteq> 0) \<and>
     finite (dom A) \<and>
     (\<forall>c. Mapping.lookup (content_refcounts st) c = refcount A c) \<and>
     (\<forall>t src. Mapping.lookup (source_by_reservation st) t = Some src \<longleftrightarrow> reserved A t src)"

text \<open>The catalogue of a state, read through the source index.\<close>

definition catalogue_of :: "fingerprint_state \<Rightarrow> catalogue" where
  "catalogue_of st src =
     map_option (\<lambda>r. (the (Mapping.lookup (spectral_by_source st) src), kr_content r, reservation_token r))
       (recording src st)"

text \<open>The consistency of the indexes that the code's own tests assert.\<close>

definition consistent :: "fingerprint_state \<Rightarrow> bool" where
  "consistent st \<longleftrightarrow> represents st (catalogue_of st)"

named_theorems index_simps \<open>reading the index of a represented catalogue\<close>

lemma representsD:
  assumes "represents st A"
  shows "entry_at st sp src = catalogue_entry A sp src"
    and "Mapping.lookup (spectral_by_source st) src = map_option fst (A src)"
    and "Mapping.lookup (by_spectral st) sp = Some bucket \<Longrightarrow> \<not> Mapping.is_empty bucket"
    and "A src = Some x \<Longrightarrow> src \<noteq> []" and "A src = Some x \<Longrightarrow> fst x \<noteq> 0"
    and "finite (dom A)"
    and "Mapping.lookup (content_refcounts st) c = refcount A c"
    and "Mapping.lookup (source_by_reservation st) t = Some src \<longleftrightarrow> reserved A t src"
  using assms unfolding represents_def by (fast | metis)+

lemma recording_entry_at:
  "recording src st = (case Mapping.lookup (spectral_by_source st) src of None \<Rightarrow> None | Some sp \<Rightarrow> entry_at st sp src)"
  by (simp add: recording_def entry_at_def split: option.split)

lemma represents_catalogue_of: "represents st A \<Longrightarrow> catalogue_of st = A"
  by (rule ext)
    (auto simp: catalogue_of_def recording_entry_at representsD catalogue_entry_def split: option.splits)

lemma represents_consistent: "represents st A \<Longrightarrow> consistent st"
  by (simp add: consistent_def represents_catalogue_of)

lemma finite_holders: "finite (dom A) \<Longrightarrow> finite (holders A c)"
  by (rule finite_subset [of _ "dom A"]) (auto simp: holders_def)

lemma holders_empty_iff: "holders A c = {} \<longleftrightarrow> (\<forall>src sp t. A src \<noteq> Some (sp, Some c, t))"
  by (auto simp: holders_def)

lemma contains_index [index_simps]:
  assumes "represents st A"
  shows "contains_source src st \<longleftrightarrow> src \<in> dom A" and "contains_content c st \<longleftrightarrow> holders A c \<noteq> {}"
    and "live_token st t \<longleftrightarrow> (\<exists>src. reserved A t src)"
  using representsD(2,7,8) [OF assms]
  by (auto simp: contains_source_def contains_content_def live_token_def refcount_def dom_def)

lemma recording_index [index_simps]:
  assumes "represents st A"
  shows "recording src st = (case A src of None \<Rightarrow> None
    | Some (sp, c, t) \<Rightarrow> Some \<lparr>kr_content = c, kr_source = src, reservation_token = t\<rparr>)"
  by (simp add: recording_entry_at representsD [OF assms] catalogue_entry_def split: option.split)

text \<open>Tokens of distinct sources are distinct, because one map records their owner.\<close>

lemma reserved_unique: "represents st A \<Longrightarrow> reserved A t s1 \<Longrightarrow> reserved A t s2 \<Longrightarrow> s1 = s2"
  using representsD(8) by (metis option.inject)

lemma empty_represents: "represents empty_state Map.empty"
  by (simp add: represents_def empty_state_def entry_at_def catalogue_entry_def refcount_def holders_def reserved_def)

section \<open>Effect of the index operations\<close>

lemma holders_update:
  assumes "\<And>sp c t. A src \<noteq> Some (sp, Some c, t)"
  shows "holders (A(src \<mapsto> (sp, c', t))) c = (if c' = Some c then insert src (holders A c) else holders A c)"
  using assms by (auto simp: holders_def)

lemma holders_delete: "holders (A(src := None)) c = holders A c - {src}"
  by (auto simp: holders_def)

lemma holders_retag:
  "A src = Some (sp, c', t) \<Longrightarrow> holders (A(src \<mapsto> (sp2, c', t2))) c = holders A c"
  by (auto simp: holders_def)

lemma reserved_update:
  "reserved (A(src \<mapsto> (sp, c, t'))) t s \<longleftrightarrow> (if s = src then t' = Some t else reserved A t s)"
  by (auto simp: reserved_def)

lemma reserved_delete: "reserved (A(src := None)) t s \<longleftrightarrow> s \<noteq> src \<and> reserved A t s"
  by (auto simp: reserved_def)

lemma refcount_update:
  assumes "\<And>sp c t. A src \<noteq> Some (sp, Some c, t)" and "finite (dom A)"
  shows "refcount (A(src \<mapsto> (sp, c', t))) c =
    (if c' = Some c then Some (case refcount A c of None \<Rightarrow> 1 | Some n \<Rightarrow> n + 1) else refcount A c)"
proof -
  have "src \<notin> holders A c" using assms(1) by (auto simp: holders_def)
  then show ?thesis
    using finite_holders [OF assms(2), of c] by (auto simp: refcount_def holders_update [of A src, OF assms(1)])
qed

lemma refcount_delete:
  assumes "A src = Some (sp, c', t)" and "finite (dom A)"
  shows "refcount (A(src := None)) c =
    (if c' = Some c then (case refcount A c of Some n \<Rightarrow> if 1 < n then Some (n - 1) else None | None \<Rightarrow> None)
     else refcount A c)"
proof (cases "c' = Some c")
  case True
  then have mem: "src \<in> holders A c" using assms(1) by (auto simp: holders_def)
  have "card (holders A c - {src}) = card (holders A c) - 1"
    using mem finite_holders [OF assms(2), of c] by simp
  moreover have "holders A c - {src} = {} \<longleftrightarrow> \<not> 1 < card (holders A c)"
    using mem finite_holders [OF assms(2), of c]
    by (metis calculation card_0_eq card_gt_0_iff diff_is_0_eq' empty_iff finite_Diff not_less zero_less_diff)
  ultimately show ?thesis using True mem by (auto simp: refcount_def holders_delete)
next
  case False
  then have "src \<notin> holders A c" using assms(1) by (auto simp: holders_def)
  then show ?thesis using False by (simp add: refcount_def holders_delete)
qed

lemma lookup_increment [simp]:
  "Mapping.lookup (content_refcounts (increment_content c st)) d =
     (if d = c then Some (case Mapping.lookup (content_refcounts st) c of None \<Rightarrow> 1 | Some n \<Rightarrow> n + 1)
      else Mapping.lookup (content_refcounts st) d)"
  by (auto simp: increment_content_def lookup_map_default' Mapping.lookup_default_def split: option.split)

lemma lookup_decrement [simp]:
  "Mapping.lookup (content_refcounts (decrement_content c st)) d =
     (if d = c then (case Mapping.lookup (content_refcounts st) c of Some n \<Rightarrow> if 1 < n then Some (n - 1) else None | None \<Rightarrow> None)
      else Mapping.lookup (content_refcounts st) d)"
  by (auto simp: decrement_content_def lookup_update' split: option.split)

lemma content_counts_frame [simp]:
  "by_spectral (increment_content c st) = by_spectral st"
  "spectral_by_source (increment_content c st) = spectral_by_source st"
  "source_by_reservation (increment_content c st) = source_by_reservation st"
  "by_spectral (decrement_content c st) = by_spectral st"
  "spectral_by_source (decrement_content c st) = spectral_by_source st"
  "source_by_reservation (decrement_content c st) = source_by_reservation st"
  by (auto simp: increment_content_def decrement_content_def split: option.split)

lemma lookup_deleted: "Mapping.lookup (Mapping.delete k m) k' = (if k = k' then None else Mapping.lookup m k')"
  by (cases "k = k'") simp_all

lemma entry_at_insert:
  "by_spectral st' = Mapping.map_default sp Mapping.empty (Mapping.update src r) (by_spectral st) \<Longrightarrow>
   entry_at st' sp' s = (if sp' = sp \<and> s = src then Some r else entry_at st sp' s)"
  by (auto simp: entry_at_def lookup_map_default' lookup_update' Mapping.lookup_default_def split: option.split)

lemma insert_represents:
  assumes rep: "represents st A" and "sp \<noteq> 0" and "src \<noteq> []" and new: "src \<notin> dom A"
    and tok: "\<And>t. t' = Some t \<Longrightarrow> \<not> live_token st t"
  shows "\<exists>st'. insert_recording sp \<lparr>kr_content = c', kr_source = src, reservation_token = t'\<rparr> st = (True, st') \<and>
    represents st' (A(src \<mapsto> (sp, c', t')))"
proof -
  let ?r = "\<lparr>kr_content = c', kr_source = src, reservation_token = t'\<rparr>"
  obtain st' where ins: "insert_recording sp ?r st = (True, st')"
    and bs: "by_spectral st' = Mapping.map_default sp Mapping.empty (Mapping.update src ?r) (by_spectral st)"
    and ss: "spectral_by_source st' = Mapping.update src sp (spectral_by_source st)"
    and rc: "\<And>c. Mapping.lookup (content_refcounts st') c = (if c' = Some c
       then Some (case Mapping.lookup (content_refcounts st) c of None \<Rightarrow> 1 | Some n \<Rightarrow> n + 1)
       else Mapping.lookup (content_refcounts st) c)"
    and sr: "\<And>t. Mapping.lookup (source_by_reservation st') t =
       (if t' = Some t then Some src else Mapping.lookup (source_by_reservation st) t)"
    using assms(2,3) new tok
    by (cases c'; cases t')
      (auto simp: insert_recording_def contains_index [OF rep] Let_def lookup_update' live_token_def)
  have none: "A src \<noteq> Some (sp, Some c, t)" for sp c t using new by auto
  have "represents st' (A(src \<mapsto> (sp, c', t')))"
    unfolding represents_def
  proof (intro conjI allI impI, goal_cases)
    case (1 sp1 s1)
    then show ?case
      using new by (auto simp: entry_at_insert [OF bs] representsD(1) [OF rep] catalogue_entry_def split: option.split)
  next
    case (3 sp1 b)
    then show ?case
      using representsD(3) [OF rep] by (auto simp: bs lookup_map_default' split: if_splits)
  next
    case (8 t s)
    have "\<not> reserved A t src" using new by (auto simp: reserved_def)
    then show ?case using tok representsD(8) [OF rep] by (auto simp: sr reserved_update live_token_def)
  qed (use assms(2,3) representsD [OF rep] in
      \<open>auto simp: ss rc lookup_update' refcount_update [of A, OF none representsD(6) [OF rep]] split: if_splits\<close>)
  with ins show ?thesis by blast
qed

lemma entry_at_remove:
  assumes "Mapping.lookup (by_spectral st) sp = Some bucket"
    and "by_spectral st' = (if Mapping.is_empty (Mapping.delete src bucket) then Mapping.delete sp (by_spectral st)
      else Mapping.update sp (Mapping.delete src bucket) (by_spectral st))"
  shows "entry_at st' sp' s = (if sp' = sp \<and> s = src then None else entry_at st sp' s)"
proof -
  have "Mapping.lookup bucket k = None" if "Mapping.is_empty (Mapping.delete src bucket)" "k \<noteq> src" for k
    using that by (metis Mapping.is_empty_def empty_iff domIff keys_dom_lookup lookup_delete_neq)
  then show ?thesis
    using assms by (auto simp: entry_at_def lookup_update' lookup_deleted split: option.split if_splits)
qed

lemma remove_represents:
  assumes rep: "represents st A"
  shows "\<exists>st'. remove_source src st =
      (map_option (\<lambda>(sp, c, t). \<lparr>kr_content = c, kr_source = src, reservation_token = t\<rparr>) (A src), st') \<and>
    represents st' (A(src := None))"
proof (cases "A src")
  case None
  then have "A(src := None) = A" by auto
  then show ?thesis using None rep representsD(2) [OF rep] by (simp add: remove_source_def)
next
  case (Some x)
  obtain sp c' t' where x: "A src = Some (sp, c', t')" using Some by (cases x) auto
  let ?r = "\<lparr>kr_content = c', kr_source = src, reservation_token = t'\<rparr>"
  obtain bucket where bucket: "Mapping.lookup (by_spectral st) sp = Some bucket" "Mapping.lookup bucket src = Some ?r"
    using representsD(1) [OF rep, of sp src] x by (auto simp: entry_at_def catalogue_entry_def split: option.splits)
  obtain st' where rem: "remove_source src st = (Some ?r, st')"
    and bs: "by_spectral st' = (if Mapping.is_empty (Mapping.delete src bucket) then Mapping.delete sp (by_spectral st)
      else Mapping.update sp (Mapping.delete src bucket) (by_spectral st))"
    and ss: "spectral_by_source st' = Mapping.delete src (spectral_by_source st)"
    and rc: "\<And>c. Mapping.lookup (content_refcounts st') c = (if c' = Some c
       then (case Mapping.lookup (content_refcounts st) c of Some n \<Rightarrow> if 1 < n then Some (n - 1) else None | None \<Rightarrow> None)
       else Mapping.lookup (content_refcounts st) c)"
    and sr: "\<And>t. Mapping.lookup (source_by_reservation st') t =
       (if t' = Some t then None else Mapping.lookup (source_by_reservation st) t)"
    using representsD(2) [OF rep, of src] x bucket
    by (cases c'; cases t') (auto simp: remove_source_def Let_def)
  have "represents st' (A(src := None))"
    unfolding represents_def
  proof (intro conjI allI impI, goal_cases)
    case (1 sp1 s1)
    then show ?case
      using x by (auto simp: entry_at_remove [OF bucket(1) bs] representsD(1) [OF rep] catalogue_entry_def split: option.split)
  next
    case (3 sp1 b)
    then show ?case
      using representsD(3) [OF rep] by (auto simp: bs lookup_update' lookup_deleted split: if_splits)
  next
    case (8 t s)
    have "reserved A t s \<Longrightarrow> t' = Some t \<Longrightarrow> s = src"
      using reserved_unique [OF rep, of t s src] x by (auto simp: reserved_def)
    moreover have "reserved A t src \<Longrightarrow> t' = Some t" using x by (auto simp: reserved_def)
    ultimately show ?case using representsD(8) [OF rep] by (auto simp: sr reserved_delete)
  qed (use representsD [OF rep] in
      \<open>auto simp: ss rc refcount_delete [OF x representsD(6) [OF rep]] lookup_deleted split: if_splits\<close>)
  with rem x show ?thesis by auto
qed

text \<open>Overwriting the entry of a known source in place, as \<open>commit\<close> and \<open>rehydrate\<close> do.\<close>

lemma overwrite_represents:
  assumes rep: "represents st A" and x: "A src = Some (sp, c0, t0)"
    and bucket: "Mapping.lookup (by_spectral st) sp = Some bucket"
    and bs: "by_spectral st' = Mapping.update sp
      (Mapping.update src \<lparr>kr_content = c1, kr_source = src, reservation_token = t1\<rparr> bucket) (by_spectral st)"
    and ss: "spectral_by_source st' = spectral_by_source st"
    and rc: "\<And>c. Mapping.lookup (content_refcounts st') c = refcount (A(src \<mapsto> (sp, c1, t1))) c"
    and sr: "\<And>t s. Mapping.lookup (source_by_reservation st') t = Some s \<longleftrightarrow> reserved (A(src \<mapsto> (sp, c1, t1))) t s"
  shows "represents st' (A(src \<mapsto> (sp, c1, t1)))"
  unfolding represents_def
proof (intro conjI allI impI, goal_cases)
  case (1 sp1 s1)
  have "entry_at st' sp1 s1 = (if sp1 = sp \<and> s1 = src
      then Some \<lparr>kr_content = c1, kr_source = src, reservation_token = t1\<rparr> else entry_at st sp1 s1)"
    using bucket by (auto simp: entry_at_def bs lookup_update' split: option.split)
  then show ?case
    using x by (auto simp: representsD(1) [OF rep] catalogue_entry_def split: option.split)
next
  case (3 sp1 b)
  then show ?case
    using representsD(3) [OF rep] by (auto simp: bs lookup_update' split: if_splits)
next
  case (4 s y)
  then show ?case using x representsD(4) [OF rep] by (cases "s = src") auto
next
  case (5 s y)
  then show ?case using representsD(5) [OF rep x] representsD(5) [OF rep, of s y] by (cases "s = src") auto
qed (simp_all add: ss rc sr x representsD [OF rep] del: fun_upd_apply, simp add: representsD(2) [OF rep] x)

text \<open>The catalogue after a commit and after a rollback of a token.\<close>

definition release :: "catalogue \<Rightarrow> 64 word \<Rightarrow> catalogue" where
  "release A t = (\<lambda>src. case A src of None \<Rightarrow> None
     | Some (sp, c, t') \<Rightarrow> Some (sp, c, if t' = Some t then None else t'))"

definition withdraw :: "catalogue \<Rightarrow> 64 word \<Rightarrow> catalogue" where
  "withdraw A t = (\<lambda>src. case A src of None \<Rightarrow> None
     | Some (sp, c, t') \<Rightarrow> if t' = Some t then None else Some (sp, c, t'))"

lemma token_ops_none:
  assumes "\<And>src. \<not> reserved A t src"
  shows "release A t = A" and "withdraw A t = A"
  using assms by (auto simp: release_def withdraw_def reserved_def split: option.split)

lemma token_ops_owner:
  assumes "represents st A" and "A src = Some (sp, c, Some t)"
  shows "release A t = A(src \<mapsto> (sp, c, None))" and "withdraw A t = A(src := None)"
proof -
  have "s = src" if "A s = Some (sp', c', Some t)" for s sp' c'
    using reserved_unique [OF assms(1), of t s src] that assms(2) by (auto simp: reserved_def)
  then show "release A t = A(src \<mapsto> (sp, c, None))" "withdraw A t = A(src := None)"
    using assms(2) by (fastforce simp: release_def withdraw_def split: option.split)+
qed

lemma represented_bucket:
  assumes "represents st A" and "A src = Some (sp, c, t)"
  obtains bucket where "Mapping.lookup (by_spectral st) sp = Some bucket"
    and "Mapping.lookup bucket src = Some \<lparr>kr_content = c, kr_source = src, reservation_token = t\<rparr>"
  using representsD(1) [OF assms(1), of sp src] assms(2)
  by (auto simp: entry_at_def catalogue_entry_def split: option.splits)

lemma commit_represents:
  assumes rep: "represents st A"
  shows "\<exists>st'. commit_reservation t st = (\<exists>src. reserved A t src, st') \<and> represents st' (release A t)"
proof (cases "Mapping.lookup (source_by_reservation st) t")
  case None
  then have "\<not> reserved A t src" for src using representsD(8) [OF rep, of t src] by simp
  then show ?thesis using None rep by (simp add: commit_reservation_def token_ops_none)
next
  case (Some src)
  then obtain sp c where x: "A src = Some (sp, c, Some t)" and res: "reserved A t src"
    using representsD(8) [OF rep, of t src] by (auto simp: reserved_def)
  obtain bucket where bucket: "Mapping.lookup (by_spectral st) sp = Some bucket"
    "Mapping.lookup bucket src = Some \<lparr>kr_content = c, kr_source = src, reservation_token = Some t\<rparr>"
    by (rule represented_bucket [OF rep x])
  let ?st' = "forget_token t (st\<lparr>by_spectral := Mapping.update sp
    (Mapping.update src \<lparr>kr_content = c, kr_source = src, reservation_token = None\<rparr> bucket) (by_spectral st)\<rparr>)"
  have "commit_reservation t st = (True, ?st')"
    using Some bucket representsD(2) [OF rep, of src] x by (simp add: commit_reservation_def)
  moreover have "represents ?st' (A(src \<mapsto> (sp, c, None)))"
  proof (rule overwrite_represents [OF rep x bucket(1)], goal_cases)
    case (3 d)
    then show ?case
      using representsD(7) [OF rep, of d] holders_retag [of A src sp c "Some t" sp None d] x
      by (simp add: forget_token_def refcount_def)
  next
    case (4 t' s)
    have "reserved A t' src \<Longrightarrow> t' = t" using x by (simp add: reserved_def)
    then show ?case
      using reserved_unique [OF rep _ res] representsD(8) [OF rep, of t' s]
      by (auto simp: forget_token_def lookup_deleted reserved_update)
  qed (simp_all add: forget_token_def)
  ultimately show ?thesis using res token_ops_owner(1) [OF rep x] by auto
qed

lemma rollback_represents:
  assumes rep: "represents st A"
  shows "\<exists>st'. rollback_reservation t st = (\<exists>src. reserved A t src, st') \<and> represents st' (withdraw A t)"
proof (cases "Mapping.lookup (source_by_reservation st) t")
  case None
  then have "\<not> reserved A t src" for src using representsD(8) [OF rep, of t src] by simp
  then show ?thesis using None rep by (simp add: rollback_reservation_def token_ops_none)
next
  case (Some src)
  then obtain sp c where x: "A src = Some (sp, c, Some t)" and res: "reserved A t src"
    using representsD(8) [OF rep, of t src] by (auto simp: reserved_def)
  obtain st' where "remove_source src st = (Some \<lparr>kr_content = c, kr_source = src, reservation_token = Some t\<rparr>, st')"
    and "represents st' (A(src := None))"
    using remove_represents [OF rep, of src] x by auto
  then show ?thesis
    using Some res x token_ops_owner(2) [OF rep x]
    by (auto simp: rollback_reservation_def recording_index [OF rep])
qed

section \<open>The token loop\<close>

lemma next_token_result:
  assumes "next_token live n = Some r"
  shows "fst r \<noteq> 0 \<and> \<not> live (fst r) \<and> snd r = fst r + 1"
  by (rule next_token.raw_induct [OF _ assms, where P = "\<lambda>live n r. fst r \<noteq> 0 \<and> \<not> live (fst r) \<and> snd r = fst r + 1"])
    (auto split: if_splits)

lemma next_token_sound: "next_token live n = Some (t, n') \<Longrightarrow> t \<noteq> 0 \<and> \<not> live t \<and> n' = t + 1"
  using next_token_result by fastforce

lemma next_token_total:
  assumes "t \<noteq> 0" and "\<not> live t"
  shows "\<exists>r. next_token live n = Some r"
proof (induction "unat (t - n)" arbitrary: n)
  case 0
  then have "n = t" by (simp add: unat_eq_0)
  then show ?case using assms by (subst next_token.simps) simp
next
  case (Suc k)
  have "t - n \<noteq> 0" using Suc.hyps(2) by (metis Zero_not_Suc unat_eq_0)
  then have "unat (t - (n + 1)) = unat (t - n) - 1"
    by (metis diff_diff_eq unat_minus_one)
  then show ?case using Suc by (subst next_token.simps) simp
qed

lemma fresh_token_exists:
  assumes "finite T" and "card T < 2 ^ 64 - 1"
  shows "\<exists>t :: 64 word. t \<noteq> 0 \<and> t \<notin> T"
proof (rule ccontr)
  assume "\<not> ?thesis"
  then have "(UNIV :: 64 word set) \<subseteq> insert 0 T" by auto
  then have "card (UNIV :: 64 word set) \<le> card (insert 0 T)" using assms(1) by (intro card_mono) auto
  also have "\<dots> \<le> Suc (card T)" by (rule card_insert_le_m1) (use assms(1) in simp_all)
  finally show False using assms(2) by (simp add: card_word)
qed

section \<open>Refinement\<close>

text \<open>The operations on the catalogue.\<close>

definition admit ::
  "(utext \<Rightarrow> utext option) \<Rightarrow> audio_identity \<Rightarrow> utext option \<Rightarrow> catalogue \<times> 64 word \<Rightarrow> catalogue \<times> 64 word"
where
  "admit canonicalize i src = (\<lambda>(A, n).
     let key = source_key canonicalize src
     in if spectral i = 0 \<or> key = [] \<or> key \<in> dom A \<or> holders A (content i) \<noteq> {} then (A, n)
        else case next_token (\<lambda>t. \<exists>s. reserved A t s) n of
               None \<Rightarrow> (A, n)
             | Some (t, n') \<Rightarrow> (A(key \<mapsto> (spectral i, Some (content i), Some t)), n'))"

definition rehydrate_entry ::
  "(utext \<Rightarrow> utext option) \<Rightarrow> catalogue \<Rightarrow> stored_audio_identity \<Rightarrow> catalogue"
where
  "rehydrate_entry canonicalize A row =
     (let key = source_key canonicalize (Some (st_audio_path row))
      in if st_spectral row = 0 \<or> key = [] then A
         else case A key of
                None \<Rightarrow> A(key \<mapsto> (st_spectral row, st_content row, None))
              | Some (sp, Some c, t) \<Rightarrow> A
              | Some (sp, None, t) \<Rightarrow> A(key \<mapsto> (sp, st_content row, t)))"

datatype fingerprint_op =
    Reserve audio_identity "utext option"
  | Commit audio_import_reservation
  | Drop audio_import_reservation
  | Forget utext
  | Rehydrate "stored_audio_identity list"
  | Clear

text \<open>One method call; a reservation whose token loop does not end has no result.\<close>

fun fingerprint_step ::
  "(utext \<Rightarrow> utext option) \<Rightarrow> fingerprint_op \<Rightarrow> audio_fingerprint \<Rightarrow> unit + audio_fingerprint"
where
  "fingerprint_step canonicalize (Reserve i src) fp =
     (case reserve_import_identity canonicalize i src fp of None \<Rightarrow> Inl () | Some (_, fp') \<Rightarrow> Inr fp')"
| "fingerprint_step canonicalize (Commit r) fp = Inr (snd (commit_import r fp))"
| "fingerprint_step canonicalize (Drop r) fp = Inr (drop_reservation r fp)"
| "fingerprint_step canonicalize (Forget src) fp = Inr (snd (forget_source canonicalize src fp))"
| "fingerprint_step canonicalize (Rehydrate rows) fp = Inr (snd (rehydrate canonicalize rows fp))"
| "fingerprint_step canonicalize Clear fp = Inr (clear_fingerprints fp)"

fun catalogue_step ::
  "(utext \<Rightarrow> utext option) \<Rightarrow> fingerprint_op \<Rightarrow> catalogue \<times> 64 word \<Rightarrow> catalogue \<times> 64 word"
where
  "catalogue_step canonicalize (Reserve i src) An = admit canonicalize i src An"
| "catalogue_step canonicalize (Commit r) (A, n) = (case rv_token r of None \<Rightarrow> A | Some t \<Rightarrow> release A t, n)"
| "catalogue_step canonicalize (Drop r) (A, n) =
     (case rv_token r of None \<Rightarrow> A | Some t \<Rightarrow> if rv_committed r then A else withdraw A t, n)"
| "catalogue_step canonicalize (Forget src) (A, n) = (A(source_key canonicalize (Some src) := None), n)"
| "catalogue_step canonicalize (Rehydrate rows) (A, n) = (foldl (rehydrate_entry canonicalize) A rows, n)"
| "catalogue_step canonicalize Clear (A, n) = (Map.empty, n)"

lemma reserve_represents:
  assumes rep: "represents (fp_state fp) A"
    and res: "reserve_import_identity canonicalize i src fp = Some (r, fp')"
  shows "represents (fp_state fp') (fst (admit canonicalize i src (A, next_reservation_token fp)))"
    and "next_reservation_token fp' = snd (admit canonicalize i src (A, next_reservation_token fp))"
proof -
  let ?key = "source_key canonicalize src"
  have live: "live_token (fp_state fp) = (\<lambda>t. \<exists>s. reserved A t s)"
    using contains_index(3) [OF rep] by (simp add: fun_eq_iff)
  have "represents (fp_state fp') (fst (admit canonicalize i src (A, next_reservation_token fp))) \<and>
      next_reservation_token fp' = snd (admit canonicalize i src (A, next_reservation_token fp))"
  proof (cases "spectral i = 0 \<or> ?key = [] \<or> ?key \<in> dom A \<or> holders A (content i) \<noteq> {}")
    case True
    then have "fp' = fp"
      using res by (auto simp: reserve_import_identity_def Let_def contains_index [OF rep] split: if_splits)
    then show ?thesis using True rep by (auto simp: admit_def)
  next
    case False
    then obtain t n where tok: "next_token (\<lambda>t. \<exists>s. reserved A t s) (next_reservation_token fp) = Some (t, n)"
      using res by (auto simp: reserve_import_identity_def Let_def contains_index [OF rep] live split: if_splits option.splits)
    have "\<not> live_token (fp_state fp) t" using next_token_sound [OF tok] live by simp
    then obtain st' where "insert_recording (spectral i) \<lparr>kr_content = Some (content i), kr_source = ?key,
        reservation_token = Some t\<rparr> (fp_state fp) = (True, st')"
      and "represents st' (A(?key \<mapsto> (spectral i, Some (content i), Some t)))"
      using insert_represents [OF rep, of "spectral i" ?key "Some t" "Some (content i)"] False by auto
    then show ?thesis
      using False res tok
      by (auto simp: reserve_import_identity_def Let_def contains_index [OF rep] live admit_def)
  qed
  then show "represents (fp_state fp') (fst (admit canonicalize i src (A, next_reservation_token fp)))"
    and "next_reservation_token fp' = snd (admit canonicalize i src (A, next_reservation_token fp))" by auto
qed

lemma rehydrate_row_represents:
  assumes rep: "represents st A"
  shows "\<exists>n st'. rehydrate_row canonicalize (added, st) row = (n, st') \<and> represents st' (rehydrate_entry canonicalize A row)"
proof -
  let ?key = "source_key canonicalize (Some (st_audio_path row))"
  consider (skip) "st_spectral row = 0 \<or> ?key = []"
    | (new) "st_spectral row \<noteq> 0" "?key \<noteq> []" "A ?key = None"
    | (fill) sp t c where "st_spectral row \<noteq> 0" "?key \<noteq> []" "A ?key = Some (sp, None, t)" "st_content row = Some c"
    | (gap) sp t where "st_spectral row \<noteq> 0" "?key \<noteq> []" "A ?key = Some (sp, None, t)" "st_content row = None"
    | (known) sp t c where "st_spectral row \<noteq> 0" "?key \<noteq> []" "A ?key = Some (sp, Some c, t)"
    by (metis option.exhaust prod_cases3)
  then show ?thesis
  proof cases
    case new
    then have "?key \<notin> dom A" by auto
    with new show ?thesis
      using insert_represents [OF rep, of "st_spectral row" ?key None "st_content row"]
      by (auto simp: rehydrate_row_def rehydrate_entry_def Let_def contains_index [OF rep] split: prod.split)
  next
    case (fill sp t c)
    obtain bucket where bucket: "Mapping.lookup (by_spectral st) sp = Some bucket"
      "Mapping.lookup bucket ?key = Some \<lparr>kr_content = None, kr_source = ?key, reservation_token = t\<rparr>"
      by (rule represented_bucket [OF rep fill(3)])
    let ?st' = "(increment_content c st)\<lparr>by_spectral := Mapping.update sp
      (Mapping.update ?key \<lparr>kr_content = Some c, kr_source = ?key, reservation_token = t\<rparr> bucket) (by_spectral st)\<rparr>"
    have none: "A ?key \<noteq> Some (sp', Some c', t')" for sp' c' t' using fill(3) by simp
    have "represents ?st' (A(?key \<mapsto> (sp, Some c, t)))"
    proof (rule overwrite_represents [OF rep fill(3) bucket(1)], goal_cases)
      case (3 d)
      then show ?case by (simp add: refcount_update [of A, OF none representsD(6) [OF rep]] representsD(7) [OF rep] del: fun_upd_apply)
    next
      case (4 t' s)
      have "reserved A t' ?key \<longleftrightarrow> t = Some t'" using fill(3) by (auto simp: reserved_def)
      then show ?case using representsD(8) [OF rep, of t' s] by (auto simp: reserved_update)
    qed simp_all
    then show ?thesis
      using fill bucket representsD(2) [OF rep, of ?key]
      by (simp add: rehydrate_row_def rehydrate_entry_def Let_def contains_index [OF rep] recording_index [OF rep] dom_def)
  next
    case (gap sp t)
    then have "A(?key \<mapsto> (sp, None, t)) = A" by (intro map_upd_triv)
    with gap rep show ?thesis
      by (simp add: rehydrate_row_def rehydrate_entry_def Let_def contains_index [OF rep] recording_index [OF rep] dom_def)
  qed (use rep in \<open>auto simp: rehydrate_row_def rehydrate_entry_def Let_def contains_index [OF rep] recording_index [OF rep]\<close>)
qed

lemma rehydrate_represents:
  "represents st A \<Longrightarrow>
   represents (snd (foldl (rehydrate_row canonicalize) (n, st) rows)) (foldl (rehydrate_entry canonicalize) A rows)"
proof (induction rows arbitrary: n st A)
  case (Cons row rows)
  then show ?case using rehydrate_row_represents [OF Cons.prems, of canonicalize n row] by auto
qed simp

text \<open>A stored row that is alone under its key ends up in the catalogue.\<close>

lemma rehydrated_entry:
  assumes "st_spectral row \<noteq> 0" and "source_key canonicalize (Some (st_audio_path row)) = key" and "key \<noteq> []"
    and "st_content row = Some c"
    and "\<forall>x \<in> set rows. source_key canonicalize (Some (st_audio_path x)) = key \<longrightarrow> x = row"
    and "A key = None \<and> row \<in> set rows \<or> A key = Some (st_spectral row, Some c, None)"
  shows "foldl (rehydrate_entry canonicalize) A rows key = Some (st_spectral row, Some c, None)"
  using assms(5,6)
proof (induction rows arbitrary: A)
  case (Cons x rows)
  let ?A' = "rehydrate_entry canonicalize A x"
  have "?A' key = None \<and> row \<in> set rows \<or> ?A' key = Some (st_spectral row, Some c, None)"
  proof (cases "source_key canonicalize (Some (st_audio_path x)) = key")
    case True
    then have "x = row" using Cons.prems(1) by simp
    then show ?thesis using assms(1-4) Cons.prems(2) by (auto simp: rehydrate_entry_def Let_def)
  next
    case False
    then have "?A' key = A key" by (auto simp: rehydrate_entry_def Let_def split: option.split)
    moreover have "x \<noteq> row" using False assms(2) by auto
    ultimately show ?thesis using Cons.prems(2) by auto
  qed
  then show ?case using Cons.IH [of ?A'] Cons.prems(1) by simp
qed simp

text \<open>Every method call follows the catalogue.\<close>

lemma fingerprint_step_represents:
  assumes rep: "represents (fp_state fp) A" and step: "fingerprint_step canonicalize x fp = Inr fp'"
  shows "represents (fp_state fp') (fst (catalogue_step canonicalize x (A, next_reservation_token fp))) \<and>
    next_reservation_token fp' = snd (catalogue_step canonicalize x (A, next_reservation_token fp))"
proof (cases x)
  case (Reserve i src)
  then show ?thesis
    using step reserve_represents [OF rep] by (auto split: option.splits)
next
  case (Commit r)
  then show ?thesis
    using step rep commit_represents [OF rep, of "the (rv_token r)"]
    by (auto simp: commit_import_def split: option.splits)
next
  case (Drop r)
  then show ?thesis
    using step rep rollback_represents [OF rep, of "the (rv_token r)"]
    by (auto simp: drop_reservation_def split: option.splits if_splits)
next
  case (Forget src)
  let ?key = "source_key canonicalize (Some src)"
  have "A([] := None) = A" using representsD(4) [OF rep, of "[]"] by (cases "A []") auto
  then show ?thesis
    using Forget step rep remove_represents [OF rep, of ?key]
    by (auto simp: forget_source_def Let_def split: if_splits prod.splits)
next
  case (Rehydrate rows)
  then show ?thesis
    using step rehydrate_represents [OF rep, of canonicalize 0 rows]
    by (auto simp: rehydrate_def split: prod.splits)
next
  case Clear
  then show ?thesis using step empty_represents by (auto simp: clear_fingerprints_def)
qed

definition fingerprint_abs :: "audio_fingerprint \<Rightarrow> catalogue \<times> 64 word" where
  "fingerprint_abs fp = (catalogue_of (fp_state fp), next_reservation_token fp)"

interpretation recording_index: functional_refinement
  "fingerprint_step canonicalize" "catalogue_step canonicalize" fingerprint_abs "\<lambda>fp. consistent (fp_state fp)"
  for canonicalize
proof (unfold_locales, goal_cases)
  case (1 fp x fp')
  then show ?case
    using fingerprint_step_represents [of fp "catalogue_of (fp_state fp)" canonicalize x fp']
    unfolding consistent_def [of "fp_state fp"] by (metis represents_consistent)
next
  case (2 fp x fp')
  then show ?case
    using fingerprint_step_represents [of fp "catalogue_of (fp_state fp)" canonicalize x fp']
    unfolding consistent_def [of "fp_state fp"] fingerprint_abs_def
    by (metis represents_catalogue_of prod.collapse)
qed

lemma new_consistent: "consistent (fp_state new_fingerprint)"
  using represents_consistent [OF empty_represents] by (simp add: new_fingerprint_def)

lemma new_abs: "fingerprint_abs new_fingerprint = (Map.empty, 1)"
  using represents_catalogue_of [OF empty_represents] by (simp add: fingerprint_abs_def new_fingerprint_def)

lemma count_catalogue: "consistent st \<Longrightarrow> state_count st = card (dom (catalogue_of st))"
  using representsD(2) [of st "catalogue_of st"]
  by (simp add: consistent_def state_count_def Mapping.size_def keys_dom_lookup dom_def)

section \<open>Streamed recordings\<close>

lemma concat_chunks: "0 < n \<Longrightarrow> concat (chunks n xs) = xs"
proof (induction n xs rule: chunks.induct)
  case (1 n xs)
  then show ?case by (subst chunks.simps) auto
qed

lemma foldl_update:
  assumes "\<And>h a b. upd (upd h a) b = upd h (a @ b)"
  shows "foldl (\<lambda>h x. upd h (f x)) (upd h a) xs = upd h (a @ concat (map f xs))"
  by (induction xs arbitrary: a) (simp_all add: assms)

lemma hash_samples_whole:
  assumes "\<And>h a b. upd (upd h a) b = upd h (a @ b)"
  shows "hash_samples_le upd (upd h a) pcm = upd h (a @ concat (map to_le_bytes16 pcm))"
proof -
  have "concat (map (\<lambda>block. concat (map to_le_bytes16 block)) bs) = concat (map to_le_bytes16 (concat bs))" for bs
    by (induction bs) simp_all
  then show ?thesis
    unfolding hash_samples_le_def by (simp add: foldl_update [OF assms] concat_chunks)
qed

definition first_spectral :: "32 word \<Rightarrow> 16 word list list \<Rightarrow> 64 word" where
  "first_spectral rate ws = (case filter (\<lambda>x. x \<noteq> 0) (map (\<lambda>w. fingerprint w rate) ws) of [] \<Rightarrow> 0 | x # _ \<Rightarrow> x)"

lemma push_windows:
  assumes law: "\<And>h a b. upd (upd h a) b = upd h (a @ b)"
    and "si_hasher s = upd h0 (to_le_bytes32 rate @ concat (map to_le_bytes16 done))" and "rate_mixed s"
  shows "foldl (\<lambda>s w. push upd w rate s) s ws =
    \<lparr>si_hasher = upd h0 (to_le_bytes32 rate @ concat (map to_le_bytes16 (done @ concat ws))), rate_mixed = True,
     si_spectral = (if si_spectral s = 0 then first_spectral rate ws else si_spectral s)\<rparr>"
  using assms(2,3)
proof (induction ws arbitrary: s "done")
  case (Cons w ws)
  show ?case
  proof (cases "w = []")
    case True
    then show ?thesis
      using Cons.IH [OF Cons.prems] by (simp add: push_def first_spectral_def fingerprint_def)
  next
    case False
    let ?s1 = "push upd w rate s"
    have s1: "si_hasher ?s1 = upd h0 (to_le_bytes32 rate @ concat (map to_le_bytes16 (done @ w)))" "rate_mixed ?s1"
      "si_spectral ?s1 = (if si_spectral s = 0 then fingerprint w rate else si_spectral s)"
      using False Cons.prems by (simp_all add: push_def Let_def hash_samples_whole [OF law])
    show ?thesis
      using Cons.IH [OF s1(1,2)] s1(3) by (simp add: first_spectral_def)
  qed
qed (cases s; simp add: first_spectral_def)

text \<open>
  A recording fed to the streaming identity in windows gets exactly the content hash of the whole
  recording, whatever the windows are, and the bucket key of its first window that has one. The hasher
  is only required to treat successive updates as one update with the concatenated bytes.
\<close>

theorem streaming_identity_whole:
  assumes law: "\<And>h a b. upd (upd h a) b = upd h (a @ b)" and "concat ws \<noteq> []"
  shows "finish_streaming to_hex (foldl (\<lambda>s w. push upd w rate s) (new_streaming h0) ws) =
    \<lparr>spectral = first_spectral rate ws, content = content_hash h0 upd to_hex (concat ws) rate\<rparr>"
  using assms(2)
proof (induction ws)
  case (Cons w ws)
  show ?case
  proof (cases "w = []")
    case True
    then show ?thesis using Cons by (simp add: push_def first_spectral_def fingerprint_def)
  next
    case False
    let ?s1 = "push upd w rate (new_streaming h0)"
    have "si_hasher ?s1 = upd h0 (to_le_bytes32 rate @ concat (map to_le_bytes16 w))" "rate_mixed ?s1"
      "si_spectral ?s1 = fingerprint w rate"
      using False by (simp_all add: push_def new_streaming_def Let_def hash_samples_whole [OF law])
    then show ?thesis
      by (simp add: push_windows [OF law] finish_streaming_def content_hash_def hash_samples_whole [OF law] first_spectral_def)
  qed
qed simp

theorem streaming_identity_whole_witness:
  "finish_streaming (map (\<lambda>b. char_of (unat b))) (foldl (\<lambda>s w. push (@) w 16000 s) (new_streaming []) [[], [1, 2], [3]]) =
    \<lparr>spectral = first_spectral 16000 [[], [1, 2], [3]],
     content = content_hash [] (@) (map (\<lambda>b. char_of (unat b))) [1, 2, 3] 16000\<rparr>"
  using streaming_identity_whole [of "(@)" "[[], [1, 2], [3]]" "map (\<lambda>b. char_of (unat b))" 16000 "[]"] by simp

section \<open>Properties\<close>

text \<open>
  C34. The four hash maps of the index never disagree: after any sequence of reservations, commits,
  rollbacks, evictions, rehydrations and clears, each map is determined by one catalogue of
  recordings (the consistency that the code's tests assert), that catalogue is the one the operations
  prescribe, and the reported count is its size.
\<close>

theorem fingerprint_refines_catalogue:
  fixes canonicalize ops
  defines "fp \<equiv> run_ops (fingerprint_step canonicalize) ops new_fingerprint"
  shows "consistent (fp_state fp) \<and>
    fingerprint_abs fp = foldl (\<lambda>a x. catalogue_step canonicalize x a) (Map.empty, 1)
      (effective_ops (fingerprint_step canonicalize) ops new_fingerprint) \<and>
    fingerprint_count fp = card (dom (catalogue_of (fp_state fp)))"
  using recording_index.run_refines [of new_fingerprint canonicalize ops] new_consistent new_abs
  by (auto simp: fp_def fingerprint_count_def count_catalogue)

lemma reserve_total:
  assumes "card {t. live_token (fp_state fp) t} < 2 ^ 64 - 1"
  shows "\<exists>r. next_token (live_token (fp_state fp)) (next_reservation_token fp) = Some r"
proof -
  obtain t :: "64 word" where "t \<noteq> 0" "\<not> live_token (fp_state fp) t"
    using fresh_token_exists [OF finite assms] by auto
  then show ?thesis by (rule next_token_total)
qed

lemma admitted_reservation:
  assumes rep: "represents (fp_state fp) A" and "spectral i \<noteq> 0" and "source_key canonicalize src \<noteq> []"
    and "source_key canonicalize src \<notin> dom A" and "holders A (content i) = {}"
    and tok: "next_token (live_token (fp_state fp)) (next_reservation_token fp) = Some (t, n)"
  shows "\<exists>fp'. reserve_import_identity canonicalize i src fp =
      Some (Inr \<lparr>rv_spectral = spectral i, rv_token = Some t, rv_committed = False\<rparr>, fp') \<and>
    represents (fp_state fp') (A(source_key canonicalize src \<mapsto> (spectral i, Some (content i), Some t)))"
proof -
  obtain st' where "insert_recording (spectral i) \<lparr>kr_content = Some (content i),
      kr_source = source_key canonicalize src, reservation_token = Some t\<rparr> (fp_state fp) = (True, st')"
    and "represents st' (A(source_key canonicalize src \<mapsto> (spectral i, Some (content i), Some t)))"
    using insert_represents [OF rep assms(2,3,4), of "Some t" "Some (content i)"] next_token_sound [OF tok] by auto
  then show ?thesis
    using assms(2-5) tok by (simp add: reserve_import_identity_def Let_def contains_index [OF rep])
qed


lemma new_no_tokens: "{t. live_token (fp_state new_fingerprint) t} = {}"
  by (simp add: live_token_def new_fingerprint_def empty_state_def)

lemma new_catalogue: "catalogue_of (fp_state new_fingerprint) = Map.empty"
  using new_abs by (simp add: fingerprint_abs_def)


text \<open>
  A failed import leaves no trace and a successful one is permanent: dropping an admitted
  reservation gives back the catalogue from before the reservation, so that the same recording can be
  admitted again; committing it keeps the recording without its token, and the drop at the end of the
  commit then changes nothing.
\<close>

theorem reservation_outcome:
  assumes ok: "consistent (fp_state fp)"
    and res: "reserve_import_identity canonicalize i src fp = Some (Inr r, fp1)" and tok: "rv_token r = Some t"
  defines "A \<equiv> catalogue_of (fp_state fp)" and "key \<equiv> source_key canonicalize src"
  shows "consistent (fp_state (drop_reservation r fp1)) \<and>
    catalogue_of (fp_state (drop_reservation r fp1)) = A \<and>
    consistent (fp_state (snd (commit_import r fp1))) \<and>
    catalogue_of (fp_state (snd (commit_import r fp1))) = A(key \<mapsto> (spectral i, Some (content i), None)) \<and>
    (case commit_import r fp1 of (r', fp2) \<Rightarrow> drop_reservation r' fp2 = fp2)"
proof -
  have rep: "represents (fp_state fp) A" using ok by (simp add: consistent_def A_def)
  have new: "spectral i \<noteq> 0" "key \<noteq> []" "key \<notin> dom A" "holders A (content i) = {}"
    using res tok by (auto simp: reserve_import_identity_def key_def Let_def contains_index [OF rep] split: if_splits)
  obtain t' n where nt: "next_token (live_token (fp_state fp)) (next_reservation_token fp) = Some (t', n)"
    using res new by (auto simp: reserve_import_identity_def key_def Let_def contains_index [OF rep] split: option.splits)
  let ?A1 = "A(key \<mapsto> (spectral i, Some (content i), Some t))"
  have rep1: "represents (fp_state fp1) ?A1" and r: "r = \<lparr>rv_spectral = spectral i, rv_token = Some t, rv_committed = False\<rparr>"
    using admitted_reservation [OF rep new [unfolded key_def] nt] res tok by (auto simp: key_def)
  have drop: "withdraw ?A1 t = A" and commit: "release ?A1 t = A(key \<mapsto> (spectral i, Some (content i), None))"
    using token_ops_owner [OF rep1, of key] new(3) by (auto simp: fun_upd_idem_iff)
  have "represents (fp_state (drop_reservation r fp1)) A"
    using rollback_represents [OF rep1, of t] unfolding drop by (auto simp: drop_reservation_def r)
  moreover have "represents (fp_state (snd (commit_import r fp1))) (A(key \<mapsto> (spectral i, Some (content i), None)))"
    using commit_represents [OF rep1, of t] unfolding commit by (auto simp: commit_import_def r)
  ultimately show ?thesis
    by (auto simp: represents_catalogue_of commit_import_def drop_reservation_def r intro: represents_consistent)
qed

theorem reservation_outcome_witness:
  "\<exists>r fp1. reserve_import_identity (\<lambda>_. None) \<lparr>spectral = 7, content = ''ab''\<rparr> (Some (lit ''a.wav'')) new_fingerprint =
      Some (Inr r, fp1) \<and> catalogue_of (fp_state (drop_reservation r fp1)) = Map.empty \<and>
    catalogue_of (fp_state (snd (commit_import r fp1))) = [lit ''a.wav'' \<mapsto> (7, Some ''ab'', None)]"
proof -
  have "next_token (live_token (fp_state new_fingerprint)) (next_reservation_token new_fingerprint) = Some (1, 2)"
    by (subst next_token.simps) (simp add: live_token_def new_fingerprint_def empty_state_def)
  then obtain fp1 where res: "reserve_import_identity (\<lambda>_. None) \<lparr>spectral = 7, content = ''ab''\<rparr> (Some (lit ''a.wav''))
      new_fingerprint = Some (Inr \<lparr>rv_spectral = 7, rv_token = Some 1, rv_committed = False\<rparr>, fp1)"
    using admitted_reservation [of new_fingerprint Map.empty "\<lparr>spectral = 7, content = ''ab''\<rparr>" "\<lambda>_. None" "Some (lit ''a.wav'')"]
      empty_represents by (auto simp: new_fingerprint_def source_key_def holders_def lit_def)
  from reservation_outcome [OF new_consistent res] show ?thesis
    using res by (auto simp: new_catalogue source_key_def lit_def)
qed

text \<open>Silence, and audio shorter than eight frames, has no bucket key.\<close>

lemma energy_silent: "foldl (\<lambda>s w. s + sint w * sint w) 0 (replicate n (0 :: 16 word)) = 0"
  by (induction n) simp_all

lemma band_energy_silent: "band_energy (replicate n 0) f b i = 0"
  by (simp add: band_energy_def Let_def energy_silent)

lemma fold_bands_zero: "fold_bands (replicate n 0) = 0"
proof -
  have "foldl (\<lambda>h (i, b). (h XOR push_bit ((i * 8) mod 64) b) * 0x9E3779B97F4A7C15) 0 (enumerate k (replicate n 0)) = (0 :: 64 word)" for k
    by (induction n arbitrary: k) simp_all
  then show ?thesis by (simp add: fold_bands_def)
qed

text \<open>
  The bucket key of silence and of audio shorter than eight frames is 0, the value that switches
  duplicate detection off, but so is the key of audio that is not silent: eight frames whose last one
  holds the constant amplitude 16. Such a recording is never compared nor stored.
\<close>

theorem degenerate_key_of_audible_audio:
  defines "pcm \<equiv> replicate 224 0 @ replicate 32 (16 :: 16 word)"
  shows "fingerprint (replicate n 0) rate = 0 \<and>
    fingerprint pcm 16000 = 0 \<and>
    \<not> check_duplicate new_hasher upd to_hex canonicalize pcm 16000 src fp \<and>
    reserve_import new_hasher upd to_hex canonicalize pcm 16000 src fp =
      Some (Inr (identify new_hasher upd to_hex pcm 16000, \<lparr>rv_spectral = 0, rv_token = None, rv_committed = False\<rparr>), fp)"
proof -
  have "map (band_energy (replicate n 0) f b) [0..<8] = replicate 8 0" for f b
    by (rule nth_equalityI) (simp_all add: band_energy_silent)
  then have silent: "fingerprint (replicate n 0) rate = 0"
    by (simp add: fingerprint_def Let_def fold_bands_zero)
  have audible: "fingerprint pcm 16000 = 0"
    unfolding pcm_def by code_simp
  show ?thesis
    using silent audible by (simp add: check_duplicate_def reserve_import_def reserve_import_identity_def identify_def Let_def)
qed

end
