(* ===== verification/Recording_Rights.thy ===== *)
theory Recording_Rights
  imports Fingerprint "HOL-Library.List_Lexorder"
begin

text \<open>
  Consent and identity of recordings on the rows of \<^verbatim>\<open>speech_segments\<close> (\<^verbatim>\<open>db.rs\<close>,
  \<^verbatim>\<open>db/jobs_rights.rs\<close>): what the recorded rights permit, declaring and withdrawing them, and binding
  a recording's identity to its segments. The table is the list of its rows in rowid order, restricted
  to the columns this code reads and writes. \<open>str::to_lowercase\<close>, which uses the Unicode tables, is a
  parameter; SQLite's \<open>LOWER\<close> changes ASCII letters only. \<open>datetime('now')\<close> is an argument.

  Shown here: a withdrawn recording stays withdrawn under every later operation; under one path (up to
  case and separators) there is one content hash, for paths in ASCII, and what goes wrong otherwise;
  a stored identity is read back exactly.
\<close>

section \<open>Rights\<close>

record recording_rights =
  license :: "utext option"
  consent_basis :: "utext option"
  permitted_use :: "utext option"
  attribution :: "utext option"
  rr_source :: "utext option"
  revoked_at :: "utext option"

datatype rights_disposition = Revoked | Unknown | PrivateOnly | Redistributable

definition default_rights :: recording_rights where
  "default_rights = \<lparr>license = None, consent_basis = None, permitted_use = None, attribution = None,
     rr_source = None, revoked_at = None\<rparr>"

text \<open>\<open>str::split\<close> with a predicate: the pieces between separators, empty ones included.\<close>

fun split_on :: "(uchar \<Rightarrow> bool) \<Rightarrow> utext \<Rightarrow> utext list" where
  "split_on P [] = [[]]"
| "split_on P (c # cs) =
     (if P c then [] # split_on P cs
      else case split_on P cs of [] \<Rightarrow> [[c]] | w # ws \<Rightarrow> (c # w) # ws)"

definition declared :: "utext option \<Rightarrow> bool" where
  "declared v = (case v of None \<Rightarrow> False | Some s \<Rightarrow> trim s \<noteq> [])"

definition disposition :: "recording_rights \<Rightarrow> rights_disposition" where
  "disposition r =
     (if declared (revoked_at r) then Revoked
      else if \<not> declared (license r) \<or> \<not> declared (consent_basis r) then Unknown
      else if list_ex (\<lambda>t. map ascii_lower (trim t) \<in> {lit ''redistribute'', lit ''publish''})
                (split_on (\<lambda>c. c = 44 \<or> c = 59 \<or> is_whitespace c)
                  (case permitted_use r of None \<Rightarrow> [] | Some s \<Rightarrow> s))
      then Redistributable else PrivateOnly)"

definition permits_redistribution :: "recording_rights \<Rightarrow> bool" where
  "permits_redistribution r \<longleftrightarrow> disposition r = Redistributable"

definition is_revoked :: "recording_rights \<Rightarrow> bool" where
  "is_revoked r \<longleftrightarrow> disposition r = Revoked"

section \<open>The segment rows\<close>

record segment_row =
  sg_id :: utext
  sg_audio_path :: utext
  sg_rights :: recording_rights
  sg_updated_at :: utext
  sg_fingerprint :: "int option"
  sg_content_hash :: "string option"

definition rights_for_segment :: "utext \<Rightarrow> segment_row list \<Rightarrow> recording_rights" where
  "rights_for_segment i t =
     (case find (\<lambda>r. sg_id r = i) t of Some r \<Rightarrow> sg_rights r | None \<Rightarrow> default_rights)"

definition set_recording_rights ::
  "utext \<Rightarrow> utext \<Rightarrow> recording_rights \<Rightarrow> segment_row list \<Rightarrow> nat \<times> segment_row list"
where
  "set_recording_rights now path rights t =
     (length (filter (\<lambda>r. sg_audio_path r = path) t),
      map (\<lambda>r. if sg_audio_path r = path
        then r\<lparr>sg_rights := rights\<lparr>revoked_at := revoked_at (sg_rights r)\<rparr>, sg_updated_at := now\<rparr> else r) t)"

definition revoke_recording :: "utext \<Rightarrow> utext \<Rightarrow> segment_row list \<Rightarrow> nat \<times> segment_row list" where
  "revoke_recording now path t =
     (length (filter (\<lambda>r. sg_audio_path r = path) t),
      map (\<lambda>r. if sg_audio_path r = path
        then r\<lparr>sg_rights := (sg_rights r)\<lparr>revoked_at := (case revoked_at (sg_rights r) of
                 None \<Rightarrow> Some now | Some s \<Rightarrow> Some s)\<rparr>, sg_updated_at := now\<rparr> else r) t)"

text \<open>
  \<open>GROUP BY audio_path\<close> with bare columns: SQLite takes them from an unspecified row of the group,
  the parameter \<open>pick\<close>.
\<close>

definition list_recording_rights ::
  "(segment_row list \<Rightarrow> segment_row) \<Rightarrow> segment_row list \<Rightarrow> (utext \<times> nat \<times> recording_rights) list"
where
  "list_recording_rights pick t =
     map (\<lambda>p. let g = filter (\<lambda>r. sg_audio_path r = p) t in (p, length g, sg_rights (pick g)))
       (sort (remdups (map sg_audio_path t)))"

section \<open>Identity\<close>

datatype identity_error =
    SourceIdentityDrift utext "string" "int option"
  | NoSegments
  | DuplicateSegment utext
  | LostSegment utext
  | OtherSourcePath utext
  | CouldNotBind utext

definition backslashes :: "utext \<Rightarrow> utext" where
  "backslashes s = map (\<lambda>c. if c = 47 then 92 else c) s"

text \<open>\<open>spectral as i64\<close> and back.\<close>

definition as_i64 :: "64 word \<Rightarrow> int" where
  "as_i64 w = sint w"

definition as_u64 :: "int \<Rightarrow> 64 word" where
  "as_u64 n = word_of_int n"

definition conflicting :: "(utext \<Rightarrow> utext) \<Rightarrow> utext \<Rightarrow> audio_identity \<Rightarrow> segment_row \<Rightarrow> bool" where
  "conflicting to_lowercase path i r \<longleftrightarrow>
     map ascii_lower (backslashes (sg_audio_path r)) = to_lowercase (backslashes path) \<and>
     (case sg_content_hash r of None \<Rightarrow> False | Some h \<Rightarrow> h \<noteq> content i)"

definition ensure_audio_identity_compatible ::
  "(utext \<Rightarrow> utext) \<Rightarrow> utext \<Rightarrow> audio_identity \<Rightarrow> segment_row list \<Rightarrow> identity_error + unit"
where
  "ensure_audio_identity_compatible to_lowercase path i t =
     (case find (conflicting to_lowercase path i) t of
        Some r \<Rightarrow> Inl (SourceIdentityDrift (sg_id r) (the (sg_content_hash r)) (sg_fingerprint r))
      | None \<Rightarrow> Inr ())"

definition bind_identity :: "audio_identity \<Rightarrow> segment_row \<Rightarrow> segment_row" where
  "bind_identity i r = r\<lparr>sg_fingerprint := Some (as_i64 (spectral i)), sg_content_hash := Some (content i)\<rparr>"

text \<open>
  The loop over the segment ids. The function itself has no savepoint: what it has written before an
  error is left to the caller to roll back, so the table is returned in every case.
\<close>

fun bind_segments ::
  "utext \<Rightarrow> audio_identity \<Rightarrow> utext list \<Rightarrow> utext list \<Rightarrow> nat \<Rightarrow> segment_row list \<Rightarrow>
   (identity_error + nat) \<times> segment_row list"
where
  "bind_segments path i [] seen updated t = (Inr updated, t)"
| "bind_segments path i (x # xs) seen updated t =
     (if x \<in> set seen then (Inl (DuplicateSegment x), t)
      else case find (\<lambda>r. sg_id r = x) t of
        None \<Rightarrow> (Inl (LostSegment x), t)
      | Some r \<Rightarrow>
          if sg_audio_path r \<noteq> path then (Inl (OtherSourcePath x), t)
          else if sg_fingerprint r = Some (as_i64 (spectral i)) \<and> sg_content_hash r = Some (content i)
          then bind_segments path i xs (x # seen) updated t
          else
            let t' = map (\<lambda>r. if sg_id r = x \<and> sg_audio_path r = path then bind_identity i r else r) t
            in if length (filter (\<lambda>r. sg_id r = x \<and> sg_audio_path r = path) t) \<noteq> 1
               then (Inl (CouldNotBind x), t')
               else bind_segments path i xs (x # seen) (updated + 1) t')"

definition set_audio_identity_for_segments ::
  "(utext \<Rightarrow> utext) \<Rightarrow> utext \<Rightarrow> utext list \<Rightarrow> audio_identity \<Rightarrow> segment_row list \<Rightarrow>
   (identity_error + nat) \<times> segment_row list"
where
  "set_audio_identity_for_segments to_lowercase path ids i t =
     (if ids = [] then (Inl NoSegments, t)
      else case ensure_audio_identity_compatible to_lowercase path i t of
        Inl e \<Rightarrow> (Inl e, t)
      | Inr _ \<Rightarrow> bind_segments path i ids [] 0 t)"

definition set_audio_identity ::
  "(utext \<Rightarrow> utext) \<Rightarrow> utext \<Rightarrow> audio_identity \<Rightarrow> segment_row list \<Rightarrow>
   (identity_error + nat) \<times> segment_row list"
where
  "set_audio_identity to_lowercase path i t =
     (case ensure_audio_identity_compatible to_lowercase path i t of
        Inl e \<Rightarrow> (Inl e, t)
      | Inr _ \<Rightarrow>
          let P = (\<lambda>r. sg_audio_path r = path \<and> (sg_content_hash r = None \<or> sg_content_hash r = Some (content i)))
          in (Inr (length (filter P t)), map (\<lambda>r. if P r then bind_identity i r else r) t))"

text \<open>\<open>SELECT DISTINCT\<close>; the order of its result is not specified and is the table's here.\<close>

definition stored_of :: "segment_row \<Rightarrow> stored_audio_identity option" where
  "stored_of r = (case sg_fingerprint r of
      None \<Rightarrow> None
    | Some n \<Rightarrow> Some \<lparr>st_spectral = as_u64 n, st_content = sg_content_hash r, st_audio_path = sg_audio_path r\<rparr>)"

definition load_audio_identities :: "segment_row list \<Rightarrow> stored_audio_identity list" where
  "load_audio_identities t = remdups (List.map_filter stored_of t)"

definition incomplete_identity :: "segment_row \<Rightarrow> bool" where
  "incomplete_identity r \<longleftrightarrow>
     sg_fingerprint r = None \<or> sg_fingerprint r = Some 0 \<or>
     (case sg_content_hash r of
        None \<Rightarrow> True
      | Some h \<Rightarrow> length h \<noteq> 64 \<or>
          \<not> list_all (\<lambda>c. (48 \<le> (of_char c :: nat) \<and> (of_char c :: nat) \<le> 57) \<or>
                          (97 \<le> (of_char c :: nat) \<and> (of_char c :: nat) \<le> 102)) h)"

definition load_audio_identity_inventory :: "segment_row list \<Rightarrow> stored_audio_identity list \<times> nat" where
  "load_audio_identity_inventory t =
     (load_audio_identities t,
      length (filter (\<lambda>p. list_ex (\<lambda>r. sg_audio_path r = p \<and> incomplete_identity r) t)
        (remdups (map sg_audio_path t))))"

section \<open>Runs of operations\<close>

datatype rights_op =
    Declare utext utext recording_rights
  | Revoke utext utext
  | Bind utext audio_identity
  | Bind_Segments utext "utext list" audio_identity

fun rights_step :: "(utext \<Rightarrow> utext) \<Rightarrow> rights_op \<Rightarrow> segment_row list \<Rightarrow> segment_row list" where
  "rights_step lower (Declare now path rights) t = snd (set_recording_rights now path rights t)"
| "rights_step lower (Revoke now path) t = snd (revoke_recording now path t)"
| "rights_step lower (Bind path i) t = snd (set_audio_identity lower path i t)"
| "rights_step lower (Bind_Segments path ids i) t = snd (set_audio_identity_for_segments lower path ids i t)"

definition rights_run :: "(utext \<Rightarrow> utext) \<Rightarrow> rights_op list \<Rightarrow> segment_row list \<Rightarrow> segment_row list" where
  "rights_run lower ops t = foldl (\<lambda>t x. rights_step lower x t) t ops"

text \<open>
  Every operation row_rel each row in place: \<open>row_rel f t t'\<close> says that the new rows are the old ones
  under rewritings that \<open>f\<close> allows.
\<close>

definition row_rel :: "(segment_row \<Rightarrow> segment_row \<Rightarrow> bool) \<Rightarrow> segment_row list \<Rightarrow> segment_row list \<Rightarrow> bool" where
  "row_rel R t t' \<longleftrightarrow> list_all2 R t t'"

lemma row_rel_map: "(\<And>r. r \<in> set t \<Longrightarrow> R r (g r)) \<Longrightarrow> row_rel R t (map g t)"
  by (simp add: row_rel_def list_all2_map2 list.rel_refl_strong)

lemma row_rel_refl: "reflp R \<Longrightarrow> row_rel R t t"
  by (simp add: row_rel_def list.rel_refl_strong reflpD)

lemma row_rel_trans: "transp R \<Longrightarrow> row_rel R t u \<Longrightarrow> row_rel R u v \<Longrightarrow> row_rel R t v"
  unfolding row_rel_def by (blast intro: list_all2_trans dest: transpD)

lemma row_rel_run:
  assumes "reflp R" and "transp R" and "\<And>x t. allowed x \<Longrightarrow> row_rel R t (rights_step lower x t)" and "list_all allowed ops"
  shows "row_rel R t (rights_run lower ops t)"
  using assms(4) unfolding rights_run_def
proof (induction ops rule: rev_induct)
  case (snoc x ops)
  then show ?case
    using row_rel_trans [OF assms(2) _ assms(3), of t "foldl (\<lambda>t x. rights_step lower x t) t ops" x] by simp
qed (simp add: row_rel_refl [OF assms(1)])

lemma row_rel_set: "row_rel R t t' \<Longrightarrow> r' \<in> set t' \<Longrightarrow> \<exists>r \<in> set t. R r r'"
  unfolding row_rel_def by (metis in_set_conv_nth list_all2_conv_all_nth)

lemma row_rel_find:
  assumes "row_rel R t t'" and "\<And>r r'. R r r' \<Longrightarrow> P r' = P r" and "find P t = Some r"
  obtains r' where "find P t' = Some r'" and "R r r'"
proof -
  have "list_all2 R t t' \<Longrightarrow> find P t = Some r \<Longrightarrow> \<exists>r'. find P t' = Some r' \<and> R r r'"
    by (induction t t' rule: list_all2_induct) (auto simp: assms(2) split: if_splits)
  then show ?thesis using assms(1,3) that unfolding row_rel_def by blast
qed

text \<open>What an operation may do to a row: it keeps id and path, and a withdrawal stays.\<close>

definition keeps_withdrawal :: "segment_row \<Rightarrow> segment_row \<Rightarrow> bool" where
  "keeps_withdrawal r r' \<longleftrightarrow>
     sg_id r' = sg_id r \<and> sg_audio_path r' = sg_audio_path r \<and>
     (declared (revoked_at (sg_rights r)) \<longrightarrow> revoked_at (sg_rights r') = revoked_at (sg_rights r))"

lemma keeps_withdrawal_preorder: "reflp keeps_withdrawal" "transp keeps_withdrawal"
  by (auto simp: keeps_withdrawal_def intro!: reflpI transpI)

lemma bind_identity_keeps [simp]:
  "sg_id (bind_identity i r) = sg_id r" "sg_audio_path (bind_identity i r) = sg_audio_path r"
  "sg_rights (bind_identity i r) = sg_rights r" "sg_content_hash (bind_identity i r) = Some (content i)"
  "sg_fingerprint (bind_identity i r) = Some (as_i64 (spectral i))"
  by (simp_all add: bind_identity_def)

text \<open>
  Binding row_rel rows only to rows bound to the given identity, and only rows of the given path:
  every reflexive and transitive row relation that allows this holds between the tables.
\<close>

lemma bind_segments_row_rel:
  assumes "reflp R" and "transp R"
    and inv: "\<And>r. r \<in> set t \<Longrightarrow> Q r" and keep: "\<And>r. Q r \<Longrightarrow> Q (bind_identity i r)"
    and bind: "\<And>r. Q r \<Longrightarrow> sg_audio_path r = path \<Longrightarrow> R r (bind_identity i r)"
  shows "row_rel R t (snd (bind_segments path i xs seen n t))"
  using inv
proof (induction xs arbitrary: seen n t)
  case Nil
  then show ?case by (simp add: row_rel_refl assms(1))
next
  case (Cons x xs)
  let ?t' = "map (\<lambda>r. if sg_id r = x \<and> sg_audio_path r = path then bind_identity i r else r) t"
  have step: "row_rel R t ?t'" by (rule row_rel_map) (use Cons.prems bind assms(1) in \<open>auto simp: reflpD\<close>)
  have "row_rel R ?t' (snd (bind_segments path i xs seen' n' ?t'))" for seen' n'
    by (rule Cons.IH) (use Cons.prems keep in auto)
  then have "row_rel R t (snd (bind_segments path i xs seen' n' ?t'))" for seen' n'
    using row_rel_trans [OF assms(2) step] by blast
  moreover have "row_rel R t (snd (bind_segments path i xs seen' n' t))" for seen' n'
    by (rule Cons.IH) (rule Cons.prems)
  ultimately show ?case
    using step by (auto simp: Let_def row_rel_refl assms(1) split: option.split)
qed

lemma keeps_withdrawal_step: "row_rel keeps_withdrawal t (rights_step lower x t)"
proof (cases x)
  case (Declare now path rights)
  then show ?thesis
    by (auto simp: set_recording_rights_def keeps_withdrawal_def intro!: row_rel_map)
next
  case (Revoke now path)
  then show ?thesis
    by (auto simp: revoke_recording_def keeps_withdrawal_def declared_def intro!: row_rel_map split: option.split)
next
  case (Bind path i)
  then show ?thesis
    using row_rel_refl [OF keeps_withdrawal_preorder(1)]
    by (auto simp: set_audio_identity_def keeps_withdrawal_def Let_def split: sum.split intro!: row_rel_map)
next
  case (Bind_Segments path ids i)
  have "row_rel keeps_withdrawal t (snd (bind_segments path i ids [] 0 t))"
    by (rule bind_segments_row_rel [where Q = "\<lambda>_. True", OF keeps_withdrawal_preorder]) (auto simp: keeps_withdrawal_def)
  with Bind_Segments show ?thesis
    using row_rel_refl [OF keeps_withdrawal_preorder(1)]
    by (auto simp: set_audio_identity_for_segments_def split: sum.split)
qed

text \<open>
  C37. Withdrawing a recording is permanent: once \<open>revoke_recording\<close> has run, every segment of that
  recording is revoked and not redistributable after any further declarations, withdrawals and identity
  bindings, whatever rights they declare. (A stamp that was already there but blank is not overwritten,
  and is the one exception.)
\<close>

theorem withdrawal_permanent:
  assumes "trim now \<noteq> []" and "find (\<lambda>r. sg_id r = i) t = Some r" and "sg_audio_path r = path"
    and "revoked_at (sg_rights r) = None \<or> declared (revoked_at (sg_rights r))"
  shows "is_revoked (rights_for_segment i (rights_run lower ops (snd (revoke_recording now path t)))) \<and>
    \<not> permits_redistribution (rights_for_segment i (rights_run lower ops (snd (revoke_recording now path t))))"
proof -
  let ?t1 = "snd (revoke_recording now path t)"
  have "row_rel (\<lambda>r r'. sg_id r' = sg_id r \<and> (sg_audio_path r = path \<longrightarrow>
      (revoked_at (sg_rights r) = None \<or> declared (revoked_at (sg_rights r))) \<longrightarrow> declared (revoked_at (sg_rights r')))) t ?t1"
    unfolding revoke_recording_def snd_conv
    by (rule row_rel_map) (use assms(1) in \<open>auto simp: declared_def split: option.split\<close>)
  from row_rel_find [OF this _ assms(2)] obtain r1
    where r1: "find (\<lambda>r. sg_id r = i) ?t1 = Some r1" "declared (revoked_at (sg_rights r1))"
    using assms(3,4) by auto
  have "row_rel keeps_withdrawal ?t1 (rights_run lower ops ?t1)"
    by (rule row_rel_run [where allowed = "\<lambda>_. True", OF keeps_withdrawal_preorder keeps_withdrawal_step])
      (simp add: list_all_iff)
  from row_rel_find [OF this _ r1(1)] obtain r2
    where "find (\<lambda>r. sg_id r = i) (rights_run lower ops ?t1) = Some r2" "keeps_withdrawal r1 r2"
    by (auto simp: keeps_withdrawal_def)
  then show ?thesis
    using r1(2) by (simp add: rights_for_segment_def is_revoked_def permits_redistribution_def disposition_def keeps_withdrawal_def)
qed

definition sample_segment :: segment_row where
  "sample_segment = \<lparr>sg_id = lit ''s1'', sg_audio_path = lit ''a.wav'', sg_rights = default_rights,
     sg_updated_at = [], sg_fingerprint = None, sg_content_hash = None\<rparr>"

definition open_rights :: recording_rights where
  "open_rights = \<lparr>license = Some (lit ''CC-BY-4.0''), consent_basis = Some (lit ''explicit_consent''),
     permitted_use = Some (lit ''train, Redistribute''), attribution = None, rr_source = None, revoked_at = None\<rparr>"

theorem withdrawal_permanent_witness:
  "disposition open_rights = Redistributable \<and>
   is_revoked (rights_for_segment (lit ''s1'') (rights_run id [Declare (lit ''later'') (lit ''a.wav'') open_rights]
     (snd (revoke_recording (lit ''now'') (lit ''a.wav'') [sample_segment]))))"
proof -
  have "disposition open_rights = Redistributable"
    by (simp add: disposition_def open_rights_def declared_def trim_def trim_end_def trim_start_def lit_def
        is_whitespace_def ascii_lower_def)
  moreover have "trim (lit ''now'') \<noteq> []"
    by (simp add: trim_def trim_end_def trim_start_def lit_def is_whitespace_def)
  ultimately show ?thesis
    using withdrawal_permanent [of "lit ''now''" "lit ''s1''" "[sample_segment]" sample_segment "lit ''a.wav''" id
        "[Declare (lit ''later'') (lit ''a.wav'') open_rights]"]
    by (simp add: sample_segment_def default_rights_def)
qed

section \<open>One identity per recording\<close>

definition ascii :: "utext \<Rightarrow> bool" where
  "ascii s \<longleftrightarrow> list_all (\<lambda>c. c < 128) s"

definition alias_key :: "utext \<Rightarrow> utext" where
  "alias_key path = map ascii_lower (backslashes path)"

definition one_identity :: "segment_row list \<Rightarrow> bool" where
  "one_identity t \<longleftrightarrow> (\<forall>r \<in> set t. \<forall>s \<in> set t. alias_key (sg_audio_path r) = alias_key (sg_audio_path s) \<longrightarrow>
     sg_content_hash r = None \<or> sg_content_hash s = None \<or> sg_content_hash r = sg_content_hash s)"

fun op_ascii :: "rights_op \<Rightarrow> bool" where
  "op_ascii (Declare now path rights) \<longleftrightarrow> True"
| "op_ascii (Revoke now path) \<longleftrightarrow> True"
| "op_ascii (Bind path i) \<longleftrightarrow> ascii path"
| "op_ascii (Bind_Segments path ids i) \<longleftrightarrow> ascii path"

definition keeps_content :: "segment_row \<Rightarrow> segment_row \<Rightarrow> bool" where
  "keeps_content r r' \<longleftrightarrow> sg_id r' = sg_id r \<and> sg_audio_path r' = sg_audio_path r \<and>
     (sg_content_hash r \<noteq> None \<longrightarrow> sg_content_hash r' = sg_content_hash r)"

lemma keeps_content_preorder: "reflp keeps_content" "transp keeps_content"
  by (auto simp: keeps_content_def intro!: reflpI transpI)

text \<open>What a binding does to the rows, and what its guard has checked of them.\<close>

definition bound_to :: "utext \<Rightarrow> audio_identity \<Rightarrow> segment_row \<Rightarrow> segment_row \<Rightarrow> bool" where
  "bound_to path i r r' \<longleftrightarrow> r' = r \<or> sg_audio_path r = path \<and> r' = bind_identity i r"

lemma bound_to_preorder: "reflp (bound_to path i)" "transp (bound_to path i)"
  by (auto simp: bound_to_def bind_identity_def intro!: reflpI transpI)

definition compatible :: "utext \<Rightarrow> audio_identity \<Rightarrow> segment_row list \<Rightarrow> bool" where
  "compatible path i t \<longleftrightarrow> (\<forall>r \<in> set t. alias_key (sg_audio_path r) = alias_key path \<longrightarrow>
     sg_content_hash r = None \<or> sg_content_hash r = Some (content i))"

lemma ensure_compatible:
  assumes law: "\<forall>s. ascii s \<longrightarrow> lower s = map ascii_lower s" and "ascii path"
  shows "ensure_audio_identity_compatible lower path i t = Inr () \<longleftrightarrow> compatible path i t"
proof -
  have "ascii (backslashes path)" using assms(2) by (auto simp: ascii_def backslashes_def list_all_iff)
  then have "conflicting lower path i r \<longleftrightarrow> alias_key (sg_audio_path r) = alias_key path \<and>
      sg_content_hash r \<noteq> None \<and> sg_content_hash r \<noteq> Some (content i)" for r
    by (auto simp: conflicting_def law alias_key_def split: option.split)
  moreover have "ensure_audio_identity_compatible lower path i t = Inr () \<longleftrightarrow> find (conflicting lower path i) t = None"
    by (simp add: ensure_audio_identity_compatible_def split: option.split)
  ultimately show ?thesis by (auto simp: compatible_def find_None_iff)
qed

lemma binding_step:
  assumes law: "\<forall>s. ascii s \<longrightarrow> lower s = map ascii_lower s" and "op_ascii x"
  shows "row_rel (\<lambda>r r'. sg_id r' = sg_id r \<and> sg_audio_path r' = sg_audio_path r \<and>
      sg_content_hash r' = sg_content_hash r) t (rights_step lower x t) \<or>
    (\<exists>path i. compatible path i t \<and> row_rel (bound_to path i) t (rights_step lower x t))"
proof (cases x)
  case (Bind path i)
  have "row_rel (bound_to path i) t (map (\<lambda>r. if sg_audio_path r = path \<and> P r then bind_identity i r else r) t)" for P
    by (rule row_rel_map) (simp add: bound_to_def)
  then show ?thesis
    using Bind ensure_compatible [OF law, of path i t] assms(2)
    by (cases "ensure_audio_identity_compatible lower path i t")
      (auto simp: set_audio_identity_def Let_def row_rel_refl reflp_def intro!: exI)
next
  case (Bind_Segments path ids i)
  have "row_rel (bound_to path i) t (snd (bind_segments path i ids [] 0 t))"
    by (rule bind_segments_row_rel [where Q = "\<lambda>_. True", OF bound_to_preorder]) (auto simp: bound_to_def)
  then show ?thesis
    using Bind_Segments ensure_compatible [OF law, of path i t] assms(2)
    by (auto simp: set_audio_identity_for_segments_def row_rel_refl reflp_def split: sum.split intro!: exI)
qed (auto simp: set_recording_rights_def revoke_recording_def intro!: row_rel_map)

lemma keeps_content_step:
  assumes "\<forall>s. ascii s \<longrightarrow> lower s = map ascii_lower s" and "op_ascii x"
  shows "row_rel keeps_content t (rights_step lower x t)"
proof -
  have "row_rel keeps_content t t'" if "compatible path i t" "row_rel (bound_to path i) t t'" for path i t'
    using that(2) unfolding row_rel_def
    by (rule list.rel_mono_strong) (use that(1) in \<open>auto simp: bound_to_def keeps_content_def compatible_def\<close>)
  moreover have "row_rel keeps_content t t'" if "row_rel (\<lambda>r r'. sg_id r' = sg_id r \<and>
      sg_audio_path r' = sg_audio_path r \<and> sg_content_hash r' = sg_content_hash r) t t'" for t'
    using that unfolding row_rel_def by (rule list_all2_mono) (simp add: keeps_content_def)
  ultimately show ?thesis using binding_step [OF assms] by blast
qed

lemma one_identity_step:
  assumes "\<forall>s. ascii s \<longrightarrow> lower s = map ascii_lower s" and "op_ascii x" and one: "one_identity t"
  shows "one_identity (rights_step lower x t)"
  using binding_step [OF assms(1,2), of t]
proof (elim disjE exE conjE)
  assume "row_rel (\<lambda>r r'. sg_id r' = sg_id r \<and> sg_audio_path r' = sg_audio_path r \<and>
      sg_content_hash r' = sg_content_hash r) t (rights_step lower x t)"
  from row_rel_set [OF this] show ?thesis using one unfolding one_identity_def by metis
next
  fix path i
  assume comp: "compatible path i t" and rel: "row_rel (bound_to path i) t (rights_step lower x t)"
  have "(\<exists>r \<in> set t. alias_key (sg_audio_path r) = alias_key (sg_audio_path r') \<and> sg_content_hash r = sg_content_hash r') \<or>
      alias_key (sg_audio_path r') = alias_key path \<and> sg_content_hash r' = Some (content i)"
    if "r' \<in> set (rights_step lower x t)" for r'
    using row_rel_set [OF rel that] by (auto simp: bound_to_def)
  then show ?thesis
    using one comp unfolding one_identity_def compatible_def by metis
qed

text \<open>
  C38. The content hash of a recording never drifts: along any sequence of operations on ASCII paths, a
  segment that has a content hash keeps exactly that hash, and all segments under one path, up to case
  and the direction of slashes, share one hash.
\<close>

theorem identity_never_drifts:
  assumes "\<forall>s. ascii s \<longrightarrow> lower s = map ascii_lower s" and "list_all op_ascii ops" and "one_identity t"
  shows "row_rel keeps_content t (rights_run lower ops t) \<and> one_identity (rights_run lower ops t)"
proof
  show "row_rel keeps_content t (rights_run lower ops t)"
    by (rule row_rel_run [OF keeps_content_preorder keeps_content_step [OF assms(1)] assms(2)])
  show "one_identity (rights_run lower ops t)"
    using assms(2) unfolding rights_run_def
    by (induction ops rule: rev_induct) (simp_all add: assms(1,3) one_identity_step)
qed

theorem identity_never_drifts_witness:
  "one_identity (rights_run (map ascii_lower) [Bind (lit ''a.wav'') \<lparr>spectral = 7, content = ''ab''\<rparr>,
     Bind (lit ''A.wav'') \<lparr>spectral = 8, content = ''cd''\<rparr>] [sample_segment])"
  using identity_never_drifts [of "map ascii_lower" "[Bind (lit ''a.wav'') \<lparr>spectral = 7, content = ''ab''\<rparr>,
     Bind (lit ''A.wav'') \<lparr>spectral = 8, content = ''cd''\<rparr>]" "[sample_segment]"]
  by (simp add: ascii_def lit_def one_identity_def)

text \<open>
  Outside ASCII the guard against drift is void, because it compares the path folded by the Unicode
  tables with the path folded by SQLite, which only folds ASCII: a segment stored under a path with an
  upper-case letter such as E with acute accent is silently rebound to different bytes.
\<close>

theorem identity_drifts_outside_ascii:
  assumes "lower [201] = [233]"
  shows "set_audio_identity_for_segments lower [201] [lit ''s1''] \<lparr>spectral = 8, content = ''cd''\<rparr>
      [sample_segment\<lparr>sg_audio_path := [201], sg_fingerprint := Some 7, sg_content_hash := Some ''ab''\<rparr>] =
    (Inr 1, [sample_segment\<lparr>sg_audio_path := [201], sg_fingerprint := Some 8, sg_content_hash := Some ''cd''\<rparr>])"
proof -
  have "lower (backslashes [201]) = [233]" using assms by (simp add: backslashes_def)
  then show ?thesis
    by (simp add: set_audio_identity_for_segments_def ensure_audio_identity_compatible_def conflicting_def
        backslashes_def ascii_lower_def sample_segment_def bind_identity_def as_i64_def)
qed

theorem identity_drifts_outside_ascii_witness:
  "set_audio_identity_for_segments (map (\<lambda>c. if c = 201 then 233 else ascii_lower c)) [201] [lit ''s1'']
      \<lparr>spectral = 8, content = ''cd''\<rparr>
      [sample_segment\<lparr>sg_audio_path := [201], sg_fingerprint := Some 7, sg_content_hash := Some ''ab''\<rparr>] =
    (Inr 1, [sample_segment\<lparr>sg_audio_path := [201], sg_fingerprint := Some 8, sg_content_hash := Some ''cd''\<rparr>])"
  by (rule identity_drifts_outside_ascii) simp

section \<open>Reading an identity back\<close>

lemma i64_roundtrip [simp]: "as_u64 (as_i64 w) = w"
  by (simp add: as_u64_def as_i64_def)

lemma bound_rows_readback:
  assumes law: "\<forall>s. ascii s \<longrightarrow> lower s = map ascii_lower s" and "ascii path"
    and ok: "set_audio_identity lower path i t = (Inr n, t')" and r: "r \<in> set t'" "sg_audio_path r = path"
  shows "stored_of r = Some \<lparr>st_spectral = spectral i, st_content = Some (content i), st_audio_path = path\<rparr>"
proof -
  have ens: "ensure_audio_identity_compatible lower path i t = Inr ()"
    using ok by (simp add: set_audio_identity_def split: sum.splits)
  then have comp: "compatible path i t" using ensure_compatible [OF law assms(2)] by blast
  obtain r0 where r0: "r0 \<in> set t" "r = (if sg_audio_path r0 = path \<and> (sg_content_hash r0 = None \<or>
      sg_content_hash r0 = Some (content i)) then bind_identity i r0 else r0)"
    using ok r(1) by (auto simp: set_audio_identity_def ens Let_def)
  have "sg_audio_path r0 = path" using r0(2) r(2) by (simp split: if_splits)
  then have "r = bind_identity i r0" using comp r0 by (auto simp: compatible_def)
  then show ?thesis using r(2) by (simp add: stored_of_def)
qed

lemma set_audio_identity_paths:
  "set_audio_identity lower path i t = (Inr n, t') \<Longrightarrow> map sg_audio_path t' = map sg_audio_path t"
  by (auto simp: set_audio_identity_def Let_def split: sum.splits)

end
