(* ===== verification/Chunking.thy ===== *)
theory Chunking
  imports Prelude Complex_Main
begin

text \<open>
  Planning of transcription chunks (\<^verbatim>\<open>chunking.rs\<close>) and slicing of recordings (also
  \<^verbatim>\<open>export.rs\<close>, \<open>slice_for_export\<close>). Regions are half-open sample ranges. The voice activity
  detector runs a neural model and is a parameter, as is the optional judge that hears whether two
  stretches of audio are the same voice, and the parser of the alignment JSON. Sample counts and
  products of two 32-bit values fit 64 bits, so they are natural numbers. Energies are exact rationals:
  the source compares root mean squares in f64, here the mean squares are compared, and the threshold of
  -25 dB on the level is 10 to the -5 on its fourth power.

  Shown here: the plan keeps all detected speech, in order, without overlap and within the cap; every loop
  ends; slices never leave the recording.
\<close>

type_synonym region = "nat \<times> nat"
type_synonym pcm = "int list"
type_synonym judge = "(pcm \<Rightarrow> pcm \<Rightarrow> bool option) option"

definition MAX_PCM_SAMPLES :: nat where "MAX_PCM_SAMPLES = 16000000"
definition SPEAKER_JUDGE_MIN_MS :: nat where "SPEAKER_JUDGE_MIN_MS = 1500"
definition SPEAKER_JUDGE_WINDOW_MS :: nat where "SPEAKER_JUDGE_WINDOW_MS = 4000"
definition SPEAKER_CUT_CANDIDATES :: nat where "SPEAKER_CUT_CANDIDATES = 6"
definition MAX_OVERRUN_MS :: nat where "MAX_OVERRUN_MS = 3000"
definition MIN_PAUSE_MS :: nat where "MIN_PAUSE_MS = 120"
definition TARGET_SAMPLE_RATE :: nat where "TARGET_SAMPLE_RATE = 16000"

datatype vad_backend = Silero | Energy | NoVad

definition ms_to_samples :: "nat \<Rightarrow> nat \<Rightarrow> nat" where
  "ms_to_samples ms rate = ms * rate div 1000"

definition samples_to_ms :: "nat \<Rightarrow> nat \<Rightarrow> nat" where
  "samples_to_ms samples rate = (if rate = 0 then 0 else samples * 1000 div rate)"

definition needs_chunking :: "nat \<Rightarrow> nat \<Rightarrow> nat \<Rightarrow> bool" where
  "needs_chunking n rate max_segment_ms \<longleftrightarrow>
     MAX_PCM_SAMPLES < n \<or> ms_to_samples max_segment_ms rate < n"

definition should_stream_decode :: "int \<Rightarrow> nat \<Rightarrow> bool" where
  "should_stream_decode duration_ms max_segment_ms =
     (if duration_ms \<le> 0 then False
      else MAX_PCM_SAMPLES < nat duration_ms * TARGET_SAMPLE_RATE div 1000 \<or>
           int max_segment_ms * 2 < duration_ms)"

text \<open>A slice \<open>&pcm[a..b]\<close> with \<open>a\<close> and \<open>b\<close> in range.\<close>

definition slice :: "nat \<Rightarrow> nat \<Rightarrow> 'a list \<Rightarrow> 'a list" where
  "slice a b xs = take (b - a) (drop a xs)"

section \<open>Pauses\<close>

definition cap_with_overrun :: "nat \<Rightarrow> nat \<Rightarrow> nat" where
  "cap_with_overrun max_samples rate = max_samples + ms_to_samples MAX_OVERRUN_MS rate"

definition frame_energy :: "pcm \<Rightarrow> nat \<Rightarrow> nat \<Rightarrow> rat" where
  "frame_energy pcm a b =
     (if b \<le> a \<or> length pcm \<le> a then 0
      else let b' = min b (length pcm)
           in rat_of_int (sum_list (map (\<lambda>v. v * v) (slice a b' pcm))) / rat_of_nat (b' - a))"

function level_frames :: "pcm \<Rightarrow> nat \<Rightarrow> nat \<Rightarrow> nat \<Rightarrow> rat list" where
  "level_frames pcm frame stop c =
     (if 0 < frame \<and> c + frame \<le> stop
      then frame_energy pcm c (c + frame) # level_frames pcm frame stop (c + frame) else [])"
  by pat_completeness auto
termination by (relation "measure (\<lambda>(pcm, frame, stop, c). stop - c)") auto

declare level_frames.simps [simp del]

definition region_speech_level :: "pcm \<Rightarrow> nat \<Rightarrow> nat \<Rightarrow> nat \<Rightarrow> rat" where
  "region_speech_level pcm start fin rate =
     (let frame = max (ms_to_samples 15 rate) 1;
          es = sort (level_frames pcm frame (min fin (length pcm)) start)
      in if es = [] then 0 else es ! (length es div 2))"

definition push_pause :: "nat \<Rightarrow> nat \<Rightarrow> nat \<Rightarrow> (nat \<times> nat) list \<Rightarrow> (nat \<times> nat) list" where
  "push_pause min_pause rs re out = (if min_pause \<le> re - rs then out @ [(rs + (re - rs) div 2, re - rs)] else out)"

function pause_scan ::
  "(nat \<Rightarrow> bool) \<Rightarrow> nat \<Rightarrow> nat \<Rightarrow> nat \<Rightarrow> nat \<Rightarrow> nat option \<Rightarrow> (nat \<times> nat) list \<Rightarrow> (nat \<times> nat) list"
where
  "pause_scan quiet min_pause hop hi c run out =
     (if c < hi \<and> 0 < hop then
        (if quiet c
         then pause_scan quiet min_pause hop hi (c + hop) (case run of None \<Rightarrow> Some c | Some rs \<Rightarrow> Some rs) out
         else case run of
                Some rs \<Rightarrow> pause_scan quiet min_pause hop hi (c + hop) None (push_pause min_pause rs c out)
              | None \<Rightarrow> pause_scan quiet min_pause hop hi (c + hop) None out)
      else case run of Some rs \<Rightarrow> push_pause min_pause rs hi out | None \<Rightarrow> out)"
  by pat_completeness auto
termination by (relation "measure (\<lambda>(q, m, hop, hi, c, run, out). hi - c)") auto

declare pause_scan.simps [simp del]

definition find_pauses :: "pcm \<Rightarrow> nat \<Rightarrow> nat \<Rightarrow> nat \<Rightarrow> rat \<Rightarrow> (nat \<times> nat) list" where
  "find_pauses pcm lo hi0 rate level =
     (let hi = min hi0 (length pcm)
      in if hi \<le> lo \<or> level \<le> 0 then []
         else
           let frame = max (ms_to_samples 15 rate) 1;
               hop = max (ms_to_samples 5 rate) 1;
               quiet = (\<lambda>c. frame_energy pcm c (c + frame) ^ 2 * 100000 < level ^ 2);
               min_pause = max (ms_to_samples MIN_PAUSE_MS rate) 1
           in sort_key (\<lambda>(_, width). - int width) (pause_scan quiet min_pause hop hi lo None []))"

definition find_pause_cut :: "pcm \<Rightarrow> nat \<Rightarrow> nat \<Rightarrow> nat \<Rightarrow> rat \<Rightarrow> nat option" where
  "find_pause_cut pcm lo hi rate level =
     (case find_pauses pcm lo hi rate level of [] \<Rightarrow> None | (centre, _) # _ \<Rightarrow> Some centre)"

definition turn_heard :: "judge \<Rightarrow> pcm \<Rightarrow> nat \<Rightarrow> nat \<times> nat \<Rightarrow> bool" where
  "turn_heard speaker_judge pcm rate pause =
     (case (speaker_judge, pause) of
        (None, _) \<Rightarrow> False
      | (Some judge, (centre, width)) \<Rightarrow>
          let judge_min = max (ms_to_samples SPEAKER_JUDGE_MIN_MS rate) 1;
              judge_window = max (ms_to_samples SPEAKER_JUDGE_WINDOW_MS rate) judge_min;
              gap_lo = centre - width div 2;
              gap_hi = min (centre + width div 2) (length pcm);
              tail_start = gap_lo - judge_window;
              head_end = min (gap_hi + judge_window) (length pcm)
          in if gap_lo - tail_start < judge_min \<or> head_end - gap_hi < judge_min then False
             else judge (slice tail_start gap_lo pcm) (slice gap_hi head_end pcm) = Some False)"

definition speaker_turn_cut :: "pcm \<Rightarrow> nat \<Rightarrow> nat \<Rightarrow> nat \<Rightarrow> rat \<Rightarrow> judge \<Rightarrow> nat option" where
  "speaker_turn_cut pcm rate lo hi level speaker_judge =
     (case speaker_judge of
        None \<Rightarrow> None
      | Some _ \<Rightarrow> map_option fst (find (turn_heard speaker_judge pcm rate)
          (take SPEAKER_CUT_CANDIDATES (find_pauses pcm lo hi rate level))))"

text \<open>The fallback cut: the frame of least mean energy, with \<open>u64::MAX\<close> for an empty frame.\<close>

definition cut_energy :: "pcm \<Rightarrow> nat \<Rightarrow> nat \<Rightarrow> nat" where
  "cut_energy pcm half c =
     (let f_start = c - half; f_end = min (c + half) (length pcm); n = f_end - f_start
      in if n = 0 then U64_MAX else nat (sum_list (map (\<lambda>v. v * v) (slice f_start f_end pcm))) div n)"

function quietest_scan :: "(nat \<Rightarrow> nat) \<Rightarrow> nat \<Rightarrow> nat \<Rightarrow> nat \<Rightarrow> nat \<Rightarrow> nat \<Rightarrow> nat" where
  "quietest_scan energy step hi c best_energy best_idx =
     (if c < hi \<and> 0 < step then
        (if energy c < best_energy then quietest_scan energy step hi (c + step) (energy c) c
         else quietest_scan energy step hi (c + step) best_energy best_idx)
      else best_idx)"
  by pat_completeness auto
termination by (relation "measure (\<lambda>(e, step, hi, c, b, i). hi - c)") auto

declare quietest_scan.simps [simp del]

definition find_quietest_cut :: "pcm \<Rightarrow> nat \<Rightarrow> nat \<Rightarrow> nat \<Rightarrow> nat" where
  "find_quietest_cut pcm lo hi rate =
     (if hi \<le> lo then lo
      else let half = max (ms_to_samples 15 rate div 2) 1
           in quietest_scan (cut_energy pcm half) (max half 1) hi lo U64_MAX lo)"

section \<open>Splitting and merging\<close>

definition clamp :: "nat \<Rightarrow> nat \<Rightarrow> nat \<Rightarrow> nat" where
  "clamp x lo hi = (if x < lo then lo else if hi < x then hi else x)"

definition choose_cut :: "pcm \<Rightarrow> nat \<Rightarrow> nat \<Rightarrow> nat \<Rightarrow> nat \<Rightarrow> nat \<Rightarrow> rat \<Rightarrow> judge \<Rightarrow> nat" where
  "choose_cut pcm rate s fin max_samples min_samples level speaker_judge =
     (let overrun = ms_to_samples MAX_OVERRUN_MS rate;
          lo = min (max (s + max_samples * 7 div 10) (s + min_samples)) (fin - 1);
          hi0 = s + max_samples;
          hi1 = (if fin - hi0 < min_samples then fin - min_samples else hi0);
          hi = clamp hi1 (lo + 1) fin;
          stretched = min (hi + overrun) (fin - min_samples);
          cut = (case speaker_turn_cut pcm rate lo hi level speaker_judge of
                   Some c \<Rightarrow> c
                 | None \<Rightarrow> (case find_pause_cut pcm lo hi rate level of
                     Some c \<Rightarrow> c
                   | None \<Rightarrow> (case (if hi < stretched then find_pause_cut pcm hi stretched rate level else None) of
                       Some c \<Rightarrow> c
                     | None \<Rightarrow> find_quietest_cut pcm lo hi rate)))
      in clamp cut (s + 1) fin)"

lemma choose_cut_range:
  assumes "s < fin"
  shows "s < choose_cut pcm rate s fin mx mn level j" and "choose_cut pcm rate s fin mx mn level j \<le> fin"
proof -
  have "\<exists>c. choose_cut pcm rate s fin mx mn level j = clamp c (s + 1) fin"
    unfolding choose_cut_def Let_def by (rule exI) (rule refl)
  then show "s < choose_cut pcm rate s fin mx mn level j" "choose_cut pcm rate s fin mx mn level j \<le> fin"
    using assms by (auto simp: clamp_def)
qed

function split_loop ::
  "pcm \<Rightarrow> nat \<Rightarrow> nat \<Rightarrow> nat \<Rightarrow> nat \<Rightarrow> rat \<Rightarrow> judge \<Rightarrow> nat \<Rightarrow> region list"
where
  "split_loop pcm rate fin max_samples min_samples level speaker_judge s =
     (if max_samples < fin - s then
        let cut = choose_cut pcm rate s fin max_samples min_samples level speaker_judge
        in (s, cut) # split_loop pcm rate fin max_samples min_samples level speaker_judge cut
      else if s < fin then [(s, fin)] else [])"
  by pat_completeness auto
termination
proof (relation "measure (\<lambda>(pcm, rate, fin, mx, mn, level, j, s). fin - s)", goal_cases)
  case (2 pcm rate fin mx mn level j s cut)
  then show ?case using choose_cut_range [of s fin] by (simp add: diff_less_mono2)
qed simp

declare split_loop.simps [simp del]

definition silence_aware_split :: "pcm \<Rightarrow> nat \<Rightarrow> nat \<Rightarrow> nat \<Rightarrow> nat \<Rightarrow> nat \<Rightarrow> judge \<Rightarrow> region list" where
  "silence_aware_split pcm rate start fin max_samples min_samples speaker_judge =
     split_loop pcm rate fin max_samples min_samples (region_speech_level pcm start fin rate) speaker_judge start"

definition split_oversized_regions ::
  "pcm \<Rightarrow> nat \<Rightarrow> region list \<Rightarrow> nat \<Rightarrow> nat \<Rightarrow> nat \<Rightarrow> judge \<Rightarrow> region list"
where
  "split_oversized_regions pcm rate regions max_samples min_samples total_len speaker_judge =
     concat (map (\<lambda>(start, fin).
       let s = min start total_len; e = min fin total_len
       in if e \<le> s then []
          else if e - s \<le> cap_with_overrun max_samples rate then [(s, e)]
          else silence_aware_split pcm rate s e max_samples min_samples speaker_judge) regions)"

definition turn_detected :: "judge \<Rightarrow> pcm \<Rightarrow> nat \<Rightarrow> nat \<Rightarrow> region \<Rightarrow> region \<Rightarrow> bool" where
  "turn_detected speaker_judge pcm judge_min judge_window last_c next_r =
     (case speaker_judge of
        None \<Rightarrow> False
      | Some judge \<Rightarrow>
          let ls = min (fst last_c) (length pcm); le = min (snd last_c) (length pcm);
              ns = min (fst next_r) (length pcm); ne = min (snd next_r) (length pcm)
          in if le - ls < judge_min \<or> ne - ns < judge_min then False
             else judge (slice (max (le - judge_window) ls) le pcm) (slice ns (min (ns + judge_window) ne) pcm)
                    = Some False)"

text \<open>The loop over the remaining regions; the result is the merged regions and the hard boundaries.\<close>

fun merge_loop ::
  "(region \<Rightarrow> region \<Rightarrow> bool) \<Rightarrow> nat \<Rightarrow> nat \<Rightarrow> region \<Rightarrow> region \<Rightarrow> region list \<Rightarrow> region list \<times> nat list"
where
  "merge_loop turn max_samples max_gap cur_r last_c [] =
     (if fst cur_r < snd cur_r then [cur_r] else [], [])"
| "merge_loop turn max_samples max_gap cur_r last_c ((start, fin) # rest) =
     (if fin - fst cur_r \<le> max_samples \<and> start - snd cur_r \<le> max_gap \<and> \<not> turn last_c (start, fin)
      then merge_loop turn max_samples max_gap (fst cur_r, fin) (start, fin) rest
      else
        let (merged, hard) = merge_loop turn max_samples max_gap (max (snd cur_r) start, fin) (start, fin) rest
        in ((if fst cur_r < snd cur_r then [cur_r] else []) @ merged,
            (if fin - fst cur_r \<le> max_samples \<and> start - snd cur_r \<le> max_gap then [start] else []) @ hard))"

definition merge_adjacent_regions ::
  "pcm \<Rightarrow> nat \<Rightarrow> region list \<Rightarrow> nat \<Rightarrow> nat \<Rightarrow> judge \<Rightarrow> region list \<times> nat list"
where
  "merge_adjacent_regions pcm rate regions max_samples max_gap speaker_judge =
     (case regions of
        [] \<Rightarrow> ([], [])
      | r # rest \<Rightarrow>
          let judge_min = max (ms_to_samples SPEAKER_JUDGE_MIN_MS rate) 1;
              judge_window = max (ms_to_samples SPEAKER_JUDGE_WINDOW_MS rate) judge_min
          in merge_loop (turn_detected speaker_judge pcm judge_min judge_window) max_samples max_gap r r rest)"

definition crosses_turn :: "nat list \<Rightarrow> nat \<Rightarrow> nat \<Rightarrow> bool" where
  "crosses_turn hard left_end right_start \<longleftrightarrow> list_ex (\<lambda>b. left_end \<le> b \<and> b \<le> right_start) hard"

definition absorbable :: "nat \<Rightarrow> nat \<Rightarrow> nat list \<Rightarrow> region \<Rightarrow> region \<Rightarrow> bool" where
  "absorbable max_samples max_gap hard left right \<longleftrightarrow>
     fst right - snd left \<le> max_gap \<and> snd right - fst left \<le> max_samples \<and>
     \<not> crosses_turn hard (snd left) (fst right)"

text \<open>
  One pass of the inner loop over \<open>working\<close>; \<open>done\<close> is the vector \<open>next\<close>. A region merged into its
  successor is written into the successor's place.
\<close>

function absorb_pass ::
  "nat \<Rightarrow> (region \<Rightarrow> region \<Rightarrow> bool) \<Rightarrow> region list \<Rightarrow> region list \<Rightarrow> bool \<Rightarrow> region list \<times> bool"
where
  "absorb_pass min_samples ok [] out changed = (out, changed)"
| "absorb_pass min_samples ok ((s, e) # rest) out changed =
     (if e - s < min_samples \<and> rest \<noteq> [] \<and> ok (s, e) (hd rest)
      then absorb_pass min_samples ok ((s, snd (hd rest)) # tl rest) out True
      else if e - s < min_samples \<and> out \<noteq> [] \<and> ok (last out) (s, e)
      then absorb_pass min_samples ok rest (butlast out @ [(fst (last out), e)]) True
      else absorb_pass min_samples ok rest (out @ [(s, e)]) changed)"
  by pat_completeness auto
termination by (relation "measure (\<lambda>(m, ok, working, out, c). length working)") (auto simp: neq_Nil_conv)

declare absorb_pass.simps(2) [simp del]

lemma absorb_pass_induct [case_names Nil Merge Into_Last Keep]:
  assumes "\<And>out c. P [] out c"
    and "\<And>s e n rest out c. ok (s, e) n \<Longrightarrow> P ((s, snd n) # rest) out True \<Longrightarrow>
      absorb_pass m ok ((s, e) # n # rest) out c = absorb_pass m ok ((s, snd n) # rest) out True \<Longrightarrow> P ((s, e) # n # rest) out c"
    and "\<And>s e rest out l c. ok l (s, e) \<Longrightarrow> P rest (out @ [(fst l, e)]) True \<Longrightarrow>
      absorb_pass m ok ((s, e) # rest) (out @ [l]) c = absorb_pass m ok rest (out @ [(fst l, e)]) True \<Longrightarrow>
      P ((s, e) # rest) (out @ [l]) c"
    and "\<And>s e rest out c. P rest (out @ [(s, e)]) c \<Longrightarrow>
      absorb_pass m ok ((s, e) # rest) out c = absorb_pass m ok rest (out @ [(s, e)]) c \<Longrightarrow> P ((s, e) # rest) out c"
  shows "P xs out c"
proof (induction "length xs" arbitrary: xs out c rule: less_induct)
  case (less xs out c)
  show ?case
  proof (cases xs)
    case (Cons r rest)
    obtain s e where r: "r = (s, e)" by (cases r)
    consider (merge) "e - s < m \<and> rest \<noteq> [] \<and> ok (s, e) (hd rest)"
      | (into_last) "\<not> (e - s < m \<and> rest \<noteq> [] \<and> ok (s, e) (hd rest))" "e - s < m \<and> out \<noteq> [] \<and> ok (last out) (s, e)"
      | (keep) "\<not> (e - s < m \<and> rest \<noteq> [] \<and> ok (s, e) (hd rest))" "\<not> (e - s < m \<and> out \<noteq> [] \<and> ok (last out) (s, e))"
      by blast
    then show ?thesis
    proof cases
      case merge
      then obtain n rest' where rest: "rest = n # rest'" by (cases rest) auto
      have "absorb_pass m ok ((s, e) # n # rest') out c = absorb_pass m ok ((s, snd n) # rest') out True"
        using merge rest by (subst absorb_pass.simps(2)) simp
      then show ?thesis
        using assms(2) [of s e n rest' out c] merge rest less [of "(s, snd n) # rest'" out True] Cons r by simp
    next
      case into_last
      then obtain out' l where out: "out = out' @ [l]" by (metis append_butlast_last_id)
      have "absorb_pass m ok ((s, e) # rest) (out' @ [l]) c = absorb_pass m ok rest (out' @ [(fst l, e)]) True"
        using into_last out by (subst absorb_pass.simps(2)) auto
      then show ?thesis
        using assms(3) [of l s e rest out' c] into_last out less [of rest "out' @ [(fst l, e)]" True] Cons r by simp
    next
      case keep
      then have "absorb_pass m ok ((s, e) # rest) out c = absorb_pass m ok rest (out @ [(s, e)]) c"
        by (subst absorb_pass.simps(2)) (simp only: if_False)
      then show ?thesis using assms(4) [of rest out s e c] less [of rest "out @ [(s, e)]" c] Cons r by simp
    qed
  qed (simp add: assms(1))
qed

lemma absorb_pass_length:
  "length (fst (absorb_pass m ok xs out c)) + (if snd (absorb_pass m ok xs out c) \<and> \<not> c then 1 else 0)
     \<le> length xs + length out"
  by (induction xs out c rule: absorb_pass_induct [of _ ok m]) (auto split: if_splits)

function absorb_loop :: "nat \<Rightarrow> (region \<Rightarrow> region \<Rightarrow> bool) \<Rightarrow> region list \<Rightarrow> region list" where
  "absorb_loop min_samples ok working =
     (if length working \<le> 1 then working
      else
        let (next_r, changed) = absorb_pass min_samples ok working [] False
        in if changed then absorb_loop min_samples ok next_r else next_r)"
  by pat_completeness auto
termination
proof (relation "measure (\<lambda>(m, ok, working). length working)", goal_cases)
  case (2 m ok working x next_r changed)
  then show ?case using absorb_pass_length [of m ok working "[]" False] by (auto simp: prod_eq_iff)
qed simp

declare absorb_loop.simps [simp del]

definition absorb_short_regions ::
  "region list \<Rightarrow> nat \<Rightarrow> nat \<Rightarrow> nat \<Rightarrow> nat \<Rightarrow> nat list \<Rightarrow> region list"
where
  "absorb_short_regions regions min_samples max_samples max_gap total_len hard =
     (if regions = [] then []
      else filter (\<lambda>(s, e). s < e)
        (absorb_loop min_samples (absorbable max_samples max_gap hard)
          (filter (\<lambda>(s, e). s < e) (map (\<lambda>(s, e). (min s total_len, min e total_len)) regions))))"

definition MAX_MERGE_GAP_MS :: nat where "MAX_MERGE_GAP_MS = 2000"

text \<open>
  From the detected regions to the chunks. The final pass of the planner is the loop of
  \<open>split_oversized_regions\<close> once more.
\<close>

definition plan_regions :: "pcm \<Rightarrow> nat \<Rightarrow> nat \<Rightarrow> nat \<Rightarrow> judge \<Rightarrow> region list \<Rightarrow> region list" where
  "plan_regions pcm rate max_samples min_samples speaker_judge regions0 =
     (let regions1 = (if regions0 = [] then [(0, length pcm)] else regions0);
          max_gap = ms_to_samples MAX_MERGE_GAP_MS rate;
          (regions2, hard) = merge_adjacent_regions pcm rate regions1 max_samples max_gap speaker_judge;
          regions3 = split_oversized_regions pcm rate regions2 max_samples min_samples (length pcm) speaker_judge;
          regions4 = absorb_short_regions regions3 min_samples max_samples max_gap (length pcm) hard;
          regions5 = (if regions4 = []
             then silence_aware_split pcm rate 0 (length pcm) max_samples min_samples speaker_judge
             else regions4);
          final_regions = split_oversized_regions pcm rate regions5 max_samples min_samples (length pcm) speaker_judge
      in if final_regions = [] then [(0, min (length pcm) max_samples)] else final_regions)"

definition plan_speech_chunks_with_judge ::
  "(pcm \<Rightarrow> 'e + region list \<times> vad_backend) \<Rightarrow> pcm \<Rightarrow> nat \<Rightarrow> nat \<Rightarrow> nat \<Rightarrow> judge \<Rightarrow>
   'e + region list \<times> vad_backend"
where
  "plan_speech_chunks_with_judge vad pcm rate min_segment_ms max_segment_ms speaker_judge =
     (if pcm = [] then Inr ([], NoVad)
      else
        let min_samples = max (ms_to_samples min_segment_ms rate) 1;
            max_samples = max (ms_to_samples max_segment_ms rate) min_samples
        in and_then (if needs_chunking (length pcm) rate max_segment_ms then vad pcm
                     else Inr ([(0, length pcm)], NoVad)) (\<lambda>(regions, backend).
           Inr (plan_regions pcm rate max_samples min_samples speaker_judge regions, backend)))"

definition plan_speech_chunks ::
  "(pcm \<Rightarrow> 'e + region list \<times> vad_backend) \<Rightarrow> pcm \<Rightarrow> nat \<Rightarrow> nat \<Rightarrow> nat \<Rightarrow> 'e + region list \<times> vad_backend"
where
  "plan_speech_chunks vad pcm rate min_segment_ms max_segment_ms =
     plan_speech_chunks_with_judge vad pcm rate min_segment_ms max_segment_ms None"

section \<open>Slicing\<close>

record segment_source_meta =
  source_start_ms :: int
  source_end_ms :: int
  chunk_index :: nat
  chunk_count :: nat

datatype slice_error = OutOfBounds | InvalidRange | MissingOffsets

text \<open>The slice and the suffix of its cache key, which is the stored range of milliseconds.\<close>

definition slice_pcm_by_alignment ::
  "(string \<Rightarrow> segment_source_meta option) \<Rightarrow> pcm \<Rightarrow> nat \<Rightarrow> string option \<Rightarrow>
   slice_error + pcm \<times> (int \<times> int) option"
where
  "slice_pcm_by_alignment from_alignment_json pcm rate alignment =
     (case alignment of
        None \<Rightarrow> Inr (pcm, None)
      | Some json \<Rightarrow>
          (case from_alignment_json json of
             None \<Rightarrow> Inl MissingOffsets
           | Some meta \<Rightarrow>
               let start_ms = max (source_start_ms meta) 0; end_ms = max (source_end_ms meta) 0
               in if int U32_MAX < start_ms \<or> int U32_MAX < end_ms then Inl OutOfBounds
                  else
                    let start = ms_to_samples (nat start_ms) rate;
                        fin = min (ms_to_samples (nat end_ms) rate) (length pcm)
                    in if fin \<le> start then Inl InvalidRange
                       else Inr (slice start fin pcm, Some (source_start_ms meta, source_end_ms meta))))"

definition slice_for_export ::
  "(string \<Rightarrow> segment_source_meta option) \<Rightarrow> pcm \<Rightarrow> nat \<Rightarrow> string option \<Rightarrow> pcm option"
where
  "slice_for_export from_alignment_json pcm rate alignment =
     (case alignment of
        None \<Rightarrow> Some pcm
      | Some json \<Rightarrow>
          (case from_alignment_json json of
             None \<Rightarrow> None
           | Some meta \<Rightarrow>
               let start_ms = max (source_start_ms meta) 0; end_ms = max (source_end_ms meta) 0
               in if int U32_MAX < start_ms \<or> int U32_MAX < end_ms then None
                  else
                    let start = ms_to_samples (nat start_ms) rate;
                        fin = min (ms_to_samples (nat end_ms) rate) (length pcm)
                    in if start < fin \<and> start < length pcm then Some (slice start fin pcm) else None))"

definition build_source_meta :: "nat \<Rightarrow> nat \<Rightarrow> nat \<Rightarrow> nat \<Rightarrow> nat \<Rightarrow> segment_source_meta" where
  "build_source_meta start_sample end_sample rate idx count =
     \<lparr>source_start_ms = int (samples_to_ms start_sample rate), source_end_ms = int (samples_to_ms end_sample rate),
      chunk_index = idx, chunk_count = count\<rparr>"

section \<open>Ordered regions\<close>

text \<open>Regions in order, without overlap, from \<open>lo\<close> on; the samples they span.\<close>

fun ordered :: "nat \<Rightarrow> region list \<Rightarrow> bool" where
  "ordered lo [] \<longleftrightarrow> True"
| "ordered lo ((a, b) # rs) \<longleftrightarrow> lo \<le> a \<and> a \<le> b \<and> ordered b rs"

fun last_end :: "nat \<Rightarrow> region list \<Rightarrow> nat" where
  "last_end lo [] = lo"
| "last_end lo ((a, b) # rs) = last_end b rs"

definition spans :: "region list \<Rightarrow> nat set" where
  "spans rs = (\<Union>(a, b) \<in> set rs. {a..<b})"

definition proper :: "region list \<Rightarrow> bool" where
  "proper rs \<longleftrightarrow> (\<forall>(a, b) \<in> set rs. a < b)"

definition fits :: "nat \<Rightarrow> nat \<Rightarrow> region list \<Rightarrow> bool" where
  "fits n cap rs \<longleftrightarrow> (\<forall>(a, b) \<in> set rs. a < b \<and> b \<le> n \<and> b - a \<le> cap)"

lemma region_list_simps [simp]:
  "spans [] = {}" "spans ((a, b) # rs) = {a..<b} \<union> spans rs" "spans (xs @ ys) = spans xs \<union> spans ys"
  "proper []" "proper ((a, b) # rs) \<longleftrightarrow> a < b \<and> proper rs" "proper (xs @ ys) \<longleftrightarrow> proper xs \<and> proper ys"
  "fits n cap []" "fits n cap ((a, b) # rs) \<longleftrightarrow> a < b \<and> b \<le> n \<and> b - a \<le> cap \<and> fits n cap rs"
  "fits n cap (xs @ ys) \<longleftrightarrow> fits n cap xs \<and> fits n cap ys"
  by (auto simp: spans_def proper_def fits_def)

lemma ordered_mono: "ordered lo rs \<Longrightarrow> lo' \<le> lo \<Longrightarrow> ordered lo' rs"
  by (cases rs) auto

lemma ordered_append: "ordered lo (xs @ ys) \<longleftrightarrow> ordered lo xs \<and> ordered (last_end lo xs) ys"
  by (induction lo xs rule: ordered.induct) auto

lemma last_end_append [simp]: "last_end lo (xs @ [(a, b)]) = b"
  by (induction lo xs rule: last_end.induct) auto

lemma last_end_le: "lo \<le> n \<Longrightarrow> \<forall>r \<in> set rs. snd r \<le> n \<Longrightarrow> last_end lo rs \<le> n"
  by (induction lo rs rule: last_end.induct) auto

lemma last_end_ge: "ordered lo rs \<Longrightarrow> lo \<le> last_end lo rs"
  by (induction lo rs rule: ordered.induct) auto

section \<open>Cuts stay in their band\<close>

definition in_band :: "nat \<Rightarrow> nat \<Rightarrow> (nat \<times> nat) list \<Rightarrow> bool" where
  "in_band lo hi ps \<longleftrightarrow> (\<forall>p \<in> set ps. lo \<le> fst p \<and> fst p < hi)"

lemma push_pause_range:
  assumes "in_band lo hi out" and "0 < min_pause" and "lo \<le> rs" and "re \<le> hi"
  shows "in_band lo hi (push_pause min_pause rs re out)"
proof -
  have "rs + (re - rs) div 2 < re" if "0 < re - rs" using that by auto
  then show ?thesis using assms by (auto simp: push_pause_def in_band_def)
qed

lemma pause_scan_range:
  assumes "0 < min_pause"
  shows "in_band lo hi out \<Longrightarrow> lo \<le> c \<Longrightarrow> \<forall>rs. run = Some rs \<longrightarrow> lo \<le> rs \<Longrightarrow>
    in_band lo hi (pause_scan quiet min_pause hop hi c run out)"
proof (induction "hi - c" arbitrary: c run out rule: less_induct)
  case less
  show ?case
  proof (cases "c < hi \<and> 0 < hop")
    case True
    then have rec: "in_band lo hi out' \<Longrightarrow> \<forall>rs. run' = Some rs \<longrightarrow> lo \<le> rs \<Longrightarrow>
        in_band lo hi (pause_scan quiet min_pause hop hi (c + hop) run' out')" for run' out'
      using less.hyps [of "c + hop" out' run'] less.prems(2) by auto
    have "in_band lo hi (push_pause min_pause rs c out)" if "run = Some rs" for rs
      using push_pause_range [OF less.prems(1) assms, of rs c] less.prems(3) that True by auto
    then show ?thesis
      using True less.prems by (subst pause_scan.simps) (auto intro!: rec split: option.split)
  next
    case False
    then show ?thesis
      using less.prems push_pause_range [OF less.prems(1) assms, of _ hi]
      by (subst pause_scan.simps) (auto split: option.split)
  qed
qed

lemma find_pauses_range: "in_band lo hi (find_pauses pcm lo hi rate level)"
proof -
  let ?hi = "min hi (length pcm)"
  have "in_band lo ?hi (pause_scan quiet (max (ms_to_samples MIN_PAUSE_MS rate) 1) hop ?hi lo None [])" for quiet hop
    by (rule pause_scan_range) (simp_all add: in_band_def)
  then show ?thesis by (simp add: find_pauses_def Let_def in_band_def)
qed

lemma find_pause_cut_range: "find_pause_cut pcm lo hi rate level = Some c \<Longrightarrow> lo \<le> c \<and> c < hi"
  using find_pauses_range [of lo hi pcm rate level]
  by (auto simp: find_pause_cut_def in_band_def split: list.splits)

lemma speaker_turn_cut_range: "speaker_turn_cut pcm rate lo hi level j = Some c \<Longrightarrow> lo \<le> c \<and> c < hi"
  using find_pauses_range [of lo hi pcm rate level]
  unfolding speaker_turn_cut_def in_band_def
  by (auto simp: find_Some_iff split: option.splits dest!: nth_mem) (metis fst_conv)+

lemma quietest_scan_range:
  assumes "lo \<le> i" and "i < hi" and "lo \<le> c"
  shows "lo \<le> quietest_scan energy step hi c b i \<and> quietest_scan energy step hi c b i < hi"
  using assms
proof (induction "hi - c" arbitrary: c b i rule: less_induct)
  case less
  then show ?case by (subst (1 2) quietest_scan.simps) auto
qed

lemma find_quietest_cut_range: "lo < hi \<Longrightarrow> lo \<le> find_quietest_cut pcm lo hi rate \<and> find_quietest_cut pcm lo hi rate < hi"
  using quietest_scan_range [of lo lo hi lo] by (simp add: find_quietest_cut_def Let_def)

text \<open>A cut leaves a piece of at most the cap with its overrun.\<close>

lemma choose_cut_cap:
  assumes "0 < mn" and "mn \<le> mx" and "mx < fin - s"
  shows "choose_cut pcm rate s fin mx mn level j - s \<le> cap_with_overrun mx rate"
proof -
  define lo where "lo = min (max (s + mx * 7 div 10) (s + mn)) (fin - 1)"
  define hi where "hi = clamp (if fin - (s + mx) < mn then fin - mn else s + mx) (lo + 1) fin"
  define stretched where "stretched = min (hi + ms_to_samples MAX_OVERRUN_MS rate) (fin - mn)"
  define cut where "cut = (case speaker_turn_cut pcm rate lo hi level j of
      Some c \<Rightarrow> c
    | None \<Rightarrow> (case find_pause_cut pcm lo hi rate level of
        Some c \<Rightarrow> c
      | None \<Rightarrow> (case (if hi < stretched then find_pause_cut pcm hi stretched rate level else None) of
          Some c \<Rightarrow> c
        | None \<Rightarrow> find_quietest_cut pcm lo hi rate)))"
  have lo: "lo \<le> s + mx" "lo < fin" using assms unfolding lo_def by auto
  have hi: "lo < hi" "hi \<le> s + mx + 1" using lo assms unfolding hi_def clamp_def by auto
  have "cut < max hi stretched"
    using speaker_turn_cut_range [of pcm rate lo hi level j] find_pause_cut_range [of pcm lo hi rate level]
      find_pause_cut_range [of pcm hi stretched rate level] find_quietest_cut_range [OF hi(1), of pcm rate]
    unfolding cut_def by (auto split: option.split if_splits)
  then have "cut \<le> s + mx + ms_to_samples MAX_OVERRUN_MS rate"
    using hi unfolding stretched_def by auto
  moreover have "choose_cut pcm rate s fin mx mn level j = clamp cut (s + 1) fin"
    unfolding choose_cut_def Let_def cut_def stretched_def hi_def lo_def by (rule refl)
  ultimately show ?thesis using assms by (auto simp: clamp_def cap_with_overrun_def)
qed

section \<open>The phases of the plan\<close>

lemma split_loop_tiles:
  assumes "0 < mn" and "mn \<le> mx" and "s \<le> fin"
  shows "ordered s (split_loop pcm rate fin mx mn level j s) \<and>
    spans (split_loop pcm rate fin mx mn level j s) = {s..<fin} \<and>
    fits fin (cap_with_overrun mx rate) (split_loop pcm rate fin mx mn level j s)"
  using assms(3)
proof (induction "fin - s" arbitrary: s rule: less_induct)
  case less
  show ?case
  proof (cases "mx < fin - s")
    case True
    let ?cut = "choose_cut pcm rate s fin mx mn level j"
    have cut: "s < ?cut" "?cut \<le> fin" "?cut - s \<le> cap_with_overrun mx rate"
      using True choose_cut_range [of s fin] choose_cut_cap [OF assms(1,2) True] by auto
    then show ?thesis
      using less.hyps [of ?cut] True by (subst (1 2 3) split_loop.simps) (auto simp: Let_def)
  next
    case False
    then show ?thesis
      using less.prems by (subst (1 2 3) split_loop.simps) (auto simp: cap_with_overrun_def)
  qed
qed

lemma fits_mono: "fits n cap rs \<Longrightarrow> n \<le> n' \<Longrightarrow> fits n' cap rs"
  by (auto simp: fits_def)

lemma split_oversized_phase:
  assumes "0 < mn" and "mn \<le> mx" and "ordered lo rs"
  shows "ordered lo (split_oversized_regions pcm rate rs mx mn n j) \<and>
    spans (split_oversized_regions pcm rate rs mx mn n j) = spans rs \<inter> {..<n} \<and>
    fits n (cap_with_overrun mx rate) (split_oversized_regions pcm rate rs mx mn n j)"
  using assms(3)
proof (induction rs arbitrary: lo)
  case (Cons r rs)
  obtain a b where r: "r = (a, b)" by (cases r)
  define here where "here = (let s = min a n; e = min b n in if e \<le> s then []
     else if e - s \<le> cap_with_overrun mx rate then [(s, e)] else silence_aware_split pcm rate s e mx mn j)"
  have out: "split_oversized_regions pcm rate (r # rs) mx mn n j = here @ split_oversized_regions pcm rate rs mx mn n j"
    by (simp add: split_oversized_regions_def here_def r)
  have ab: "lo \<le> a" "a \<le> b" "ordered b rs" using Cons.prems by (simp_all add: r)
  have here: "ordered lo here" "spans here = {a..<b} \<inter> {..<n}" "fits (min b n) (cap_with_overrun mx rate) here"
  proof -
    consider (skip) "min b n \<le> min a n" | (whole) "\<not> min b n \<le> min a n" "min b n - min a n \<le> cap_with_overrun mx rate"
      | (split) "\<not> min b n \<le> min a n" "\<not> min b n - min a n \<le> cap_with_overrun mx rate" by linarith
    then have "ordered lo here \<and> spans here = {a..<b} \<inter> {..<n} \<and> fits (min b n) (cap_with_overrun mx rate) here"
    proof cases
      case split
      then have "min a n = a" "a \<le> min b n" "here = split_loop pcm rate (min b n) mx mn (region_speech_level pcm a (min b n) rate) j a"
        by (auto simp: here_def Let_def silence_aware_split_def)
      moreover have "{a..<min b n} = {a..<b} \<inter> {..<n}" by auto
      ultimately show ?thesis
        using split_loop_tiles [OF assms(1,2), of a "min b n" pcm rate "region_speech_level pcm a (min b n) rate" j]
          ordered_mono [OF _ ab(1)] by simp
    qed (use ab in \<open>auto simp: here_def Let_def\<close>)
    then show "ordered lo here" "spans here = {a..<b} \<inter> {..<n}" "fits (min b n) (cap_with_overrun mx rate) here"
      by blast+
  qed
  have "last_end lo here \<le> b"
    using here(3) ab by (intro last_end_le) (auto simp: fits_def)
  then have "ordered (last_end lo here) (split_oversized_regions pcm rate rs mx mn n j)"
    using Cons.IH [OF ab(3)] ordered_mono by blast
  then show ?case
    using here Cons.IH [OF ab(3)] fits_mono [OF here(3), of n]
    unfolding out by (auto simp: ordered_append r)
qed (simp add: split_oversized_regions_def)

lemma merge_loop_phase:
  assumes "lo \<le> fst cur_r" and "fst cur_r \<le> snd cur_r" and "ordered (snd cur_r) rest"
  shows "ordered lo (fst (merge_loop turn mx gap cur_r last_c rest)) \<and>
    {fst cur_r..<snd cur_r} \<union> spans rest \<subseteq> spans (fst (merge_loop turn mx gap cur_r last_c rest))"
  using assms
proof (induction rest arbitrary: lo cur_r last_c)
  case Nil
  then show ?case by (cases cur_r) auto
next
  case (Cons r rest)
  obtain cs ce a b where eq: "cur_r = (cs, ce)" "r = (a, b)" by (cases cur_r; cases r)
  have ab: "lo \<le> cs" "cs \<le> ce" "ce \<le> a" "a \<le> b" "ordered b rest" using Cons.prems by (simp_all add: eq)
  show ?case
  proof (cases "b - cs \<le> mx \<and> a - ce \<le> gap \<and> \<not> turn last_c (a, b)")
    case True
    then show ?thesis using Cons.IH [of lo "(cs, b)" "(a, b)"] ab by (auto simp: eq)
  next
    case False
    have "max ce a = a" using ab by simp
    then show ?thesis
      using False Cons.IH [of ce "(a, b)" "(a, b)"] ab ordered_mono [of ce _ lo]
      by (auto simp: eq Let_def case_prod_beta simp del: de_Morgan_conj)
  qed
qed

lemma merge_adjacent_phase:
  "ordered 0 rs \<Longrightarrow> ordered 0 (fst (merge_adjacent_regions pcm rate rs mx gap j)) \<and>
   spans rs \<subseteq> spans (fst (merge_adjacent_regions pcm rate rs mx gap j))"
proof (cases rs)
  case (Cons r rest)
  assume "ordered 0 rs"
  then show ?thesis
    using Cons merge_loop_phase [of 0 r rest] by (cases r) (simp add: merge_adjacent_regions_def Let_def)
qed (simp add: merge_adjacent_regions_def)

lemma absorb_pass_phase:
  "ordered lo (out @ xs) \<Longrightarrow> proper (out @ xs) \<Longrightarrow> (\<forall>r \<in> set (out @ xs). snd r \<le> n) \<Longrightarrow>
   ordered lo (fst (absorb_pass m ok xs out c)) \<and> spans (out @ xs) \<subseteq> spans (fst (absorb_pass m ok xs out c)) \<and>
   proper (fst (absorb_pass m ok xs out c)) \<and> (\<forall>r \<in> set (fst (absorb_pass m ok xs out c)). snd r \<le> n)"
proof (induction xs out c rule: absorb_pass_induct [of _ ok m])
  case (Merge s e nx rest out c)
  obtain a b where nx: "nx = (a, b)" by (cases nx)
  have "s \<le> e" "e \<le> a" "a \<le> b" using Merge.prems(1) by (simp_all add: ordered_append nx)
  then show ?case using Merge by (auto simp: ordered_append nx)
next
  case (Into_Last s e rest out l c)
  obtain a b where l: "l = (a, b)" by (cases l)
  have "a \<le> b" "b \<le> s" "s \<le> e" using Into_Last.prems(1) by (simp_all add: ordered_append l)
  then show ?case using Into_Last by (auto simp: ordered_append l)
qed (auto simp: ordered_append)

lemma absorb_loop_phase:
  "ordered lo xs \<Longrightarrow> proper xs \<Longrightarrow> (\<forall>r \<in> set xs. snd r \<le> n) \<Longrightarrow>
   ordered lo (absorb_loop m ok xs) \<and> spans xs \<subseteq> spans (absorb_loop m ok xs) \<and>
   proper (absorb_loop m ok xs) \<and> (\<forall>r \<in> set (absorb_loop m ok xs). snd r \<le> n)"
proof (induction "length xs" arbitrary: xs rule: less_induct)
  case less
  let ?next = "fst (absorb_pass m ok xs [] False)"
  show ?case
  proof (cases "length xs \<le> 1")
    case True
    then show ?thesis using less.prems by (subst (1 2 3 4) absorb_loop.simps) simp
  next
    case False
    have p: "ordered lo ?next" "spans xs \<subseteq> spans ?next" "proper ?next" "\<forall>r \<in> set ?next. snd r \<le> n"
      using absorb_pass_phase [of lo "[]" xs n m ok False] less.prems by auto
    have "absorb_loop m ok xs = (if snd (absorb_pass m ok xs [] False) then absorb_loop m ok ?next else ?next)"
      using False by (subst absorb_loop.simps) (simp add: case_prod_beta)
    moreover have "snd (absorb_pass m ok xs [] False) \<Longrightarrow> length ?next < length xs"
      using absorb_pass_length [of m ok xs "[]" False] by simp
    ultimately show ?thesis
      using less.hyps [of ?next] p by (auto split: if_splits)
  qed
qed

lemma absorb_short_phase:
  assumes "ordered 0 rs" and "fits n cap rs"
  shows "ordered 0 (absorb_short_regions rs m mx gap n hard) \<and> spans rs \<subseteq> spans (absorb_short_regions rs m mx gap n hard)"
proof -
  have rs: "map (\<lambda>(s, e). (min s n, min e n)) rs = rs" "filter (\<lambda>(s, e). s < e) rs = rs" "proper rs" "\<forall>r \<in> set rs. snd r \<le> n"
    using assms(2) by (auto simp: fits_def proper_def filter_id_conv intro!: map_idI)
  let ?out = "absorb_loop m (absorbable mx gap hard) rs"
  have out: "ordered 0 ?out" "spans rs \<subseteq> spans ?out" "proper ?out"
    using absorb_loop_phase [OF assms(1) rs(3,4), of m "absorbable mx gap hard"] by auto
  moreover have "filter (\<lambda>(s, e). s < e) ?out = ?out" using out(3) by (auto simp: proper_def filter_id_conv)
  ultimately show ?thesis by (simp add: absorb_short_regions_def rs)
qed

text \<open>From regions in order, the plan's phases produce chunks that keep every sample of the regions.\<close>

lemma plan_regions_keeps:
  assumes "0 < mn" and "mn \<le> mx" and "ordered 0 rs0" and "pcm \<noteq> []"
  shows "plan_regions pcm rate mx mn j rs0 \<noteq> [] \<and> ordered 0 (plan_regions pcm rate mx mn j rs0) \<and>
    fits (length pcm) (cap_with_overrun mx rate) (plan_regions pcm rate mx mn j rs0) \<and>
    spans rs0 \<inter> {..<length pcm} \<subseteq> spans (plan_regions pcm rate mx mn j rs0)"
proof -
  define rs where "rs = (if rs0 = [] then [(0, length pcm)] else rs0)"
  define gap where "gap = ms_to_samples MAX_MERGE_GAP_MS rate"
  define r2 where "r2 = merge_adjacent_regions pcm rate rs mx gap j"
  define r3 where "r3 = split_oversized_regions pcm rate (fst r2) mx mn (length pcm) j"
  define r4 where "r4 = absorb_short_regions r3 mn mx gap (length pcm) (snd r2)"
  define r5 where "r5 = (if r4 = [] then silence_aware_split pcm rate 0 (length pcm) mx mn j else r4)"
  define r6 where "r6 = split_oversized_regions pcm rate r5 mx mn (length pcm) j"
  have plan: "plan_regions pcm rate mx mn j rs0 = (if r6 = [] then [(0, min (length pcm) mx)] else r6)"
    unfolding plan_regions_def Let_def r6_def r5_def r4_def r3_def r2_def gap_def rs_def case_prod_beta by (rule refl)
  have 1: "ordered 0 rs" "spans rs0 \<subseteq> spans rs" using assms(3) unfolding rs_def by auto
  have 2: "ordered 0 (fst r2)" "spans rs \<subseteq> spans (fst r2)"
    using merge_adjacent_phase [OF 1(1)] unfolding r2_def by auto
  have 3: "ordered 0 r3" "spans r3 = spans (fst r2) \<inter> {..<length pcm}" "fits (length pcm) (cap_with_overrun mx rate) r3"
    using split_oversized_phase [OF assms(1,2) 2(1)] unfolding r3_def by auto
  have 4: "ordered 0 r4" "spans r3 \<subseteq> spans r4"
    using absorb_short_phase [OF 3(1,3)] unfolding r4_def by auto
  have 5: "ordered 0 r5" "spans r3 \<subseteq> spans r5"
    using 4 split_loop_tiles [OF assms(1,2), of 0 "length pcm"] unfolding r5_def silence_aware_split_def by auto
  have 6: "ordered 0 r6" "spans r6 = spans r5 \<inter> {..<length pcm}" "fits (length pcm) (cap_with_overrun mx rate) r6"
    using split_oversized_phase [OF assms(1,2) 5(1)] unfolding r6_def by auto
  have keep: "spans rs0 \<inter> {..<length pcm} \<subseteq> spans r6" using 1(2) 2(2) 3(2) 5(2) 6(2) by blast
  show ?thesis
  proof (cases "r6 = []")
    case True
    then have "spans rs0 \<inter> {..<length pcm} = {}" using keep by simp
    then show ?thesis using True assms(1,2,4) by (simp add: plan cap_with_overrun_def min_def)
  qed (use 6 keep in \<open>simp add: plan\<close>)
qed



section \<open>Slices\<close>

lemma sample_time_rounding:
  assumes "0 < rate"
  shows "ms_to_samples (samples_to_ms a rate) rate \<le> a"
    and "1000 * (a - ms_to_samples (samples_to_ms a rate) rate) < rate + 1000"
proof -
  define m where "m = a * 1000 div rate"
  have m: "m * rate \<le> a * 1000" "a * 1000 < m * rate + rate"
    using assms dividend_less_div_times [of rate "a * 1000"] unfolding m_def by (simp_all add: add.commute)
  define n where "n = m * rate div 1000"
  have n: "n * 1000 \<le> m * rate" "m * rate < n * 1000 + 1000"
    unfolding n_def by (simp_all add: div_times_less_eq_dividend dividend_less_div_times)
  have eq: "ms_to_samples (samples_to_ms a rate) rate = n"
    using assms by (simp add: ms_to_samples_def samples_to_ms_def n_def m_def)
  show "ms_to_samples (samples_to_ms a rate) rate \<le> a" "1000 * (a - ms_to_samples (samples_to_ms a rate) rate) < rate + 1000"
    using m n unfolding eq by linarith+
qed

text \<open>
  Slicing a recording by the stored times of a chunk. Training export and re-transcription cut the
  same audio: the export has a slice exactly when re-transcription does not refuse, and it is the same
  slice; alignment data without offsets never yields the whole recording. And a chunk longer than one
  millisecond and one sample is found again: the slice starts and ends at most one millisecond plus one
  sample before the chunk does.
\<close>

theorem slices_agree_and_find_chunk:
  assumes "0 < rate" and "a < b" and "b \<le> length pcm" and "rate + 1000 \<le> 1000 * (b - a)"
    and "samples_to_ms b rate \<le> U32_MAX" and "from_alignment_json json = Some (build_source_meta a b rate idx count)"
  shows "slice_for_export parse x r al = (case slice_pcm_by_alignment parse x r al of Inl _ \<Rightarrow> None | Inr (s, _) \<Rightarrow> Some s) \<and>
    (parse js = None \<longrightarrow> slice_for_export parse x r (Some js) = None) \<and>
    (\<exists>a' b' key. slice_pcm_by_alignment from_alignment_json pcm rate (Some json) = Inr (slice a' b' pcm, Some key) \<and>
       a' < b' \<and> a' \<le> a \<and> 1000 * (a - a') < rate + 1000 \<and> b' \<le> b \<and> 1000 * (b - b') < rate + 1000)"
proof (intro conjI)
  show "slice_for_export parse x r al = (case slice_pcm_by_alignment parse x r al of Inl _ \<Rightarrow> None | Inr (s, _) \<Rightarrow> Some s)"
    by (auto simp: slice_for_export_def slice_pcm_by_alignment_def Let_def min_def split: option.split if_splits)
  show "parse js = None \<longrightarrow> slice_for_export parse x r (Some js) = None"
    by (simp add: slice_for_export_def)
  let ?a = "ms_to_samples (samples_to_ms a rate) rate" and ?b = "ms_to_samples (samples_to_ms b rate) rate"
  note ra = sample_time_rounding [OF assms(1), of a] and rb = sample_time_rounding [OF assms(1), of b]
  have ab: "?a < ?b" "?b \<le> length pcm" using ra rb assms(2,3,4) by linarith+
  have "samples_to_ms a rate \<le> samples_to_ms b rate"
    using assms(2) by (simp add: samples_to_ms_def div_le_mono)
  then have "slice_pcm_by_alignment from_alignment_json pcm rate (Some json) =
      Inr (slice ?a ?b pcm, Some (int (samples_to_ms a rate), int (samples_to_ms b rate)))"
    using ab assms(5,6) by (simp add: slice_pcm_by_alignment_def build_source_meta_def Let_def min_def)
  then show "\<exists>a' b' key. slice_pcm_by_alignment from_alignment_json pcm rate (Some json) = Inr (slice a' b' pcm, Some key) \<and>
       a' < b' \<and> a' \<le> a \<and> 1000 * (a - a') < rate + 1000 \<and> b' \<le> b \<and> 1000 * (b - b') < rate + 1000"
    using ab ra rb by blast
qed

theorem slices_agree_and_find_chunk_witness:
  "\<exists>a' b' key. slice_pcm_by_alignment (\<lambda>_. Some (build_source_meta 1 4 1000 0 1)) [1, 2, 3, 4, 5] 1000 (Some ''{}'') =
     Inr (slice a' b' [1, 2, 3, 4, 5], Some key) \<and> a' \<le> 1 \<and> b' \<le> 4"
proof -
  have "\<exists>a' b' key. slice_pcm_by_alignment (\<lambda>_. Some (build_source_meta 1 4 1000 0 1)) [1, 2, 3, 4, 5] 1000 (Some ''{}'') =
      Inr (slice a' b' [1, 2, 3, 4, 5], Some key) \<and> a' < b' \<and> a' \<le> 1 \<and> 1000 * (1 - a') < 1000 + 1000 \<and> b' \<le> 4 \<and>
      1000 * (4 - b') < 1000 + (1000 :: nat)"
    by (rule slices_agree_and_find_chunk [THEN conjunct2, THEN conjunct2, of 1000 1 4 "[1, 2, 3, 4, 5]"
          "\<lambda>_. Some (build_source_meta 1 4 1000 0 1)" "''{}''" 0 1])
      (simp_all add: samples_to_ms_def U32_MAX_def)
  then show ?thesis by blast
qed

end
