(* ===== verification/Dataset_Splits.thy ===== *)
theory Dataset_Splits
  imports Prelude Complex_Main "HOL-Library.Word" "HOL-Library.List_Lexorder" "HOL-Library.Multiset"
begin

unbundle bit_operations_syntax

text \<open>
  Train, validation and test splits of the dataset export (\<^verbatim>\<open>export.rs\<close>): the union-find over
  recordings and speakers, the grouping into leakage-safe units, the seeded shuffle and the greedy fill,
  and the two sanitisers of exported names and cells. Indexing out of range and a \<open>find\<close> that does not
  end have no result (\<open>None\<close>). The ratios and the duration targets are exact rationals, truncated as the
  cast to i64 truncates; the source computes them in f64. SHA-256 and \<open>char::is_alphanumeric\<close> are parameters.

  Shown here: the assignment always returns, assigns every segment exactly once, and never separates two
  segments of one recording, nor, if asked, of one speaker.
\<close>

section \<open>Union-find\<close>

record union_find =
  ids :: "utext \<rightharpoonup> nat"
  parent :: "nat list"
  rank :: "nat list"

definition new_union_find :: union_find where
  "new_union_find = \<lparr>ids = Map.empty, parent = [], rank = []\<rparr>"

definition node :: "utext \<Rightarrow> union_find \<Rightarrow> nat \<times> union_find" where
  "node key uf =
     (case ids uf key of
        Some i \<Rightarrow> (i, uf)
      | None \<Rightarrow>
          let i = length (parent uf)
          in (i, uf\<lparr>parent := parent uf @ [i], rank := rank uf @ [0], ids := (ids uf)(key \<mapsto> i)\<rparr>))"

partial_function (option) find_root :: "nat \<Rightarrow> nat list \<Rightarrow> (nat \<times> nat list) option" where
  "find_root x p =
     (if length p \<le> x \<or> length p \<le> p ! x then None
      else if p ! x \<noteq> x
      then let p' = p[x := p ! (p ! x)] in find_root (p' ! x) p'
      else Some (x, p))"

definition uf_find :: "nat \<Rightarrow> union_find \<Rightarrow> (nat \<times> union_find) option" where
  "uf_find x uf = map_option (\<lambda>(r, p). (r, uf\<lparr>parent := p\<rparr>)) (find_root x (parent uf))"

definition uf_union :: "nat \<Rightarrow> nat \<Rightarrow> union_find \<Rightarrow> union_find option" where
  "uf_union a b uf =
     Option.bind (uf_find a uf) (\<lambda>(ra, uf1).
     Option.bind (uf_find b uf1) (\<lambda>(rb, uf2).
       if ra = rb then Some uf2
       else if rank uf2 ! ra < rank uf2 ! rb then Some (uf2\<lparr>parent := (parent uf2)[ra := rb]\<rparr>)
       else if rank uf2 ! rb < rank uf2 ! ra then Some (uf2\<lparr>parent := (parent uf2)[rb := ra]\<rparr>)
       else Some (uf2\<lparr>parent := (parent uf2)[rb := ra], rank := (rank uf2)[ra := rank uf2 ! ra + 1]\<rparr>)))"

section \<open>Grouping\<close>

record split_segment =
  seg_id :: utext
  seg_audio_path :: utext
  seg_speaker_id :: "utext option"
  seg_duration_ms :: int

definition source_name :: "utext \<Rightarrow> utext" where
  "source_name path = rev (takeWhile (\<lambda>c. c \<noteq> 47 \<and> c \<noteq> 92) (rev path))"

definition is_generic_diarizer_label :: "utext \<Rightarrow> bool" where
  "is_generic_diarizer_label label \<longleftrightarrow>
     take 8 label = lit ''SPEAKER_'' \<and>
     (let digits = drop 8 label in digits \<noteq> [] \<and> list_all (\<lambda>b. 48 \<le> b \<and> b \<le> 57) digits)"

definition recording_key :: "split_segment \<Rightarrow> utext" where
  "recording_key seg = lit ''r:'' @ source_name (seg_audio_path seg)"

definition speaker_of :: "split_segment \<Rightarrow> utext" where
  "speaker_of seg = trim (case seg_speaker_id seg of None \<Rightarrow> [] | Some s \<Rightarrow> s)"

definition speaker_key :: "split_segment \<Rightarrow> utext" where
  "speaker_key seg =
     (if is_generic_diarizer_label (speaker_of seg)
      then lit ''s:'' @ source_name (seg_audio_path seg) @ lit '':'' @ speaker_of seg
      else lit ''s:'' @ speaker_of seg)"

definition link_segment :: "split_segment \<Rightarrow> union_find \<Rightarrow> union_find option" where
  "link_segment seg uf =
     (case node (recording_key seg) uf of (r, uf1) \<Rightarrow>
        if speaker_of seg = [] then Some uf1
        else case node (speaker_key seg) uf1 of (s, uf2) \<Rightarrow> uf_union r s uf2)"

fun link_segments :: "split_segment list \<Rightarrow> union_find \<Rightarrow> union_find option" where
  "link_segments [] uf = Some uf"
| "link_segments (seg # segs) uf = Option.bind (link_segment seg uf) (link_segments segs)"

definition component :: "split_segment \<Rightarrow> union_find \<Rightarrow> (nat \<times> union_find) option" where
  "component seg uf = (case node (recording_key seg) uf of (r, uf1) \<Rightarrow> uf_find r uf1)"

fun root_keys ::
  "split_segment list \<Rightarrow> (nat \<rightharpoonup> utext) \<Rightarrow> union_find \<Rightarrow> ((nat \<rightharpoonup> utext) \<times> union_find) option"
where
  "root_keys [] m uf = Some (m, uf)"
| "root_keys (seg # segs) m uf =
     Option.bind (component seg uf) (\<lambda>(root, uf1).
       let nm = source_name (seg_audio_path seg)
       in root_keys segs (m(root \<mapsto> (case m root of None \<Rightarrow> nm | Some k \<Rightarrow> if nm < k then nm else k))) uf1)"

text \<open>\<open>BTreeMap::entry(key).or_default().push(seg)\<close>: the groups stay sorted by key.\<close>

fun push_group :: "utext \<Rightarrow> 's \<Rightarrow> (utext \<times> 's list) list \<Rightarrow> (utext \<times> 's list) list" where
  "push_group key seg [] = [(key, [seg])]"
| "push_group key seg ((k, ss) # gs) =
     (if key = k then (k, ss @ [seg]) # gs
      else if key < k then (key, [seg]) # (k, ss) # gs
      else (k, ss) # push_group key seg gs)"

fun group_by_component ::
  "(nat \<rightharpoonup> utext) \<Rightarrow> split_segment list \<Rightarrow> (utext \<times> split_segment list) list \<Rightarrow> union_find \<Rightarrow>
   (utext \<times> split_segment list) list option"
where
  "group_by_component m [] gs uf = Some gs"
| "group_by_component m (seg # segs) gs uf =
     Option.bind (component seg uf) (\<lambda>(root, uf1).
     Option.bind (m root) (\<lambda>key. group_by_component m segs (push_group key seg gs) uf1))"

definition group_segments :: "bool \<Rightarrow> split_segment list \<Rightarrow> (utext \<times> split_segment list) list option" where
  "group_segments speaker_disjoint segs =
     (if speaker_disjoint then
        Option.bind (link_segments segs new_union_find) (\<lambda>uf.
        Option.bind (root_keys segs Map.empty uf) (\<lambda>(m, uf1).
        group_by_component m segs [] uf1))
      else Some (foldl (\<lambda>gs seg. push_group (source_name (seg_audio_path seg)) seg gs) [] segs))"

section \<open>Shuffle\<close>

definition splitmix64 :: "64 word \<Rightarrow> 64 word \<times> 64 word" where
  "splitmix64 st =
     (let st' = st + 0x9E3779B97F4A7C15;
          z1 = (st' XOR drop_bit 30 st') * 0xBF58476D1CE4E5B9;
          z2 = (z1 XOR drop_bit 27 z1) * 0x94D049BB133111EB
      in (z2 XOR drop_bit 31 z2, st'))"

definition swap :: "nat \<Rightarrow> nat \<Rightarrow> 'a list \<Rightarrow> 'a list" where
  "swap i j xs = xs[i := xs ! j, j := xs ! i]"

definition shuffle :: "64 word \<Rightarrow> 'a list \<Rightarrow> 'a list" where
  "shuffle seed keys =
     fst (foldl (\<lambda>(ks, st) i. case splitmix64 st of (z, st') \<Rightarrow> (swap i (unat z mod (i + 1)) ks, st'))
       (keys, seed XOR 0x9E3779B97F4A7C15) (rev [1..<length keys]))"

section \<open>Assignment\<close>

definition normal_ratios :: "rat \<Rightarrow> rat \<Rightarrow> rat \<Rightarrow> rat \<times> rat \<times> rat" where
  "normal_ratios tr vr te =
     (let total_r = tr + vr + te
      in if 0 < total_r then (tr / total_r, vr / total_r, te / total_r) else (8 / 10, 1 / 10, 1 / 10))"

definition as_i64_trunc :: "rat \<Rightarrow> int" where
  "as_i64_trunc q = (if 0 \<le> q then \<lfloor>q\<rfloor> else \<lceil>q\<rceil>)"

definition group_duration :: "split_segment list \<Rightarrow> int" where
  "group_duration ss = sum_list (map seg_duration_ms ss)"

text \<open>One step of the greedy fill: the split with the largest deficit, and the durations after it.\<close>

definition pick_split ::
  "int \<times> int \<times> int \<Rightarrow> int \<times> int \<times> int \<Rightarrow> int \<Rightarrow> string \<times> int \<times> int \<times> int"
where
  "pick_split target d dur =
     (case (target, d) of ((tt, tv, te), (dt, dv, de)) \<Rightarrow>
        let def_train = tt - dt; def_val = tv - dv; def_test = te - de
        in if def_val \<le> def_train \<and> def_test \<le> def_train then (''train'', dt + dur, dv, de)
           else if def_train \<le> def_val \<and> def_test \<le> def_val then (''validation'', dt, dv + dur, de)
           else (''test'', dt, dv, de + dur))"

fun fill_splits ::
  "int \<times> int \<times> int \<Rightarrow> (utext \<times> split_segment list) list \<Rightarrow> utext list \<Rightarrow> int \<times> int \<times> int \<Rightarrow>
   (utext \<times> string) list option"
where
  "fill_splits target gs [] d = Some []"
| "fill_splits target gs (key # keys) d =
     (case map_of gs key of
        None \<Rightarrow> None
      | Some segs \<Rightarrow>
          (case pick_split target d (group_duration segs) of
             (split, d') \<Rightarrow> map_option (\<lambda>out. map (\<lambda>seg. (seg_id seg, split)) segs @ out) (fill_splits target gs keys d')))"

definition assign_splits ::
  "split_segment list \<Rightarrow> rat \<Rightarrow> rat \<Rightarrow> rat \<Rightarrow> 64 word \<Rightarrow> bool \<Rightarrow> (utext \<times> string) list option"
where
  "assign_splits segs train_ratio val_ratio test_ratio seed speaker_disjoint =
     (case normal_ratios train_ratio val_ratio test_ratio of (tr, vr, te) \<Rightarrow>
        Option.bind (group_segments speaker_disjoint segs) (\<lambda>gs.
          let keys = shuffle seed (map fst gs);
              total = rat_of_int (sum_list (map seg_duration_ms segs));
              target = (as_i64_trunc (total * tr), as_i64_trunc (total * vr), as_i64_trunc (total * te));
              keys' = sort_key (\<lambda>k. - group_duration (case map_of gs k of None \<Rightarrow> [] | Some ss \<Rightarrow> ss)) keys
          in fill_splits target gs keys' (0, 0, 0)))"

section \<open>Exported names and cells\<close>

definition clean_name :: "(uchar \<Rightarrow> bool) \<Rightarrow> utext \<Rightarrow> utext" where
  "clean_name alnum s = map (\<lambda>c. if alnum c \<or> c = 95 \<or> c = 45 then c else 95) s"

definition sanitized_clip_filename ::
  "(uchar \<Rightarrow> bool) \<Rightarrow> (utext \<Rightarrow> utext) \<Rightarrow> utext \<Rightarrow> utext \<Rightarrow> utext"
where
  "sanitized_clip_filename alnum sha256_hex stem i =
     (let clean_id = clean_name alnum i
      in if clean_id = i then clean_name alnum stem @ [95] @ clean_id @ lit ''.wav''
         else clean_name alnum stem @ [95] @ clean_id @ [95] @ take 8 (sha256_hex i) @ lit ''.wav'')"

definition csv_safe_cell :: "utext \<Rightarrow> utext" where
  "csv_safe_cell v =
     (case v of
        [] \<Rightarrow> v
      | c # _ \<Rightarrow> if c \<in> {61, 43, 45, 64, 9, 13} then 39 # v else v)"

section \<open>Correctness of the union-find\<close>

definition forest :: "nat list \<Rightarrow> nat list \<Rightarrow> bool" where
  "forest p rk \<longleftrightarrow> length rk = length p \<and>
     (\<forall>x < length p. p ! x < length p \<and> (p ! x \<noteq> x \<longrightarrow> rk ! x < rk ! (p ! x)))"

inductive root_of :: "nat list \<Rightarrow> nat \<Rightarrow> nat \<Rightarrow> bool" for p where
  Root: "x < length p \<Longrightarrow> p ! x = x \<Longrightarrow> root_of p x x"
| Step: "x < length p \<Longrightarrow> p ! x \<noteq> x \<Longrightarrow> root_of p (p ! x) r \<Longrightarrow> root_of p x r"

lemma root_of_is_root: "root_of p x r \<Longrightarrow> r < length p \<and> p ! r = r"
  by (induction rule: root_of.induct) auto

lemma root_of_root: "p ! x = x \<Longrightarrow> root_of p x r \<longleftrightarrow> x < length p \<and> r = x"
  by (subst root_of.simps) auto

lemma root_of_step: "p ! x \<noteq> x \<Longrightarrow> root_of p x r \<longleftrightarrow> x < length p \<and> root_of p (p ! x) r"
  by (subst root_of.simps) auto

lemma root_of_unique: "root_of p x r \<Longrightarrow> root_of p x r' \<Longrightarrow> r' = r"
proof (induction rule: root_of.induct)
  case (Root x)
  then show ?case by (simp add: root_of_root)
next
  case (Step x r)
  then show ?case using root_of_step [of p x r'] by simp
qed

lemma root_exists: "forest p rk \<Longrightarrow> x < length p \<Longrightarrow> \<exists>r. root_of p x r"
proof (induction "Max (set rk) - rk ! x" arbitrary: x rule: less_induct)
  case less
  show ?case
  proof (cases "p ! x = x")
    case False
    have "p ! x < length p" "rk ! x < rk ! (p ! x)" "length rk = length p" using less.prems False by (auto simp: forest_def)
    moreover from this have "rk ! (p ! x) \<le> Max (set rk)" by simp
    ultimately have "\<exists>r. root_of p (p ! x) r" using less.hyps [of "p ! x"] less.prems by (metis diff_less_mono2 order_less_le_trans)
    then show ?thesis using less.prems False by (blast intro: root_of.Step)
  qed (use less.prems in \<open>blast intro: root_of.Root\<close>)
qed

lemma root_of_halving:
  assumes f: "forest p rk" and x: "x < length p" "p ! x \<noteq> x"
  shows "root_of p y r \<Longrightarrow> root_of (p[x := p ! (p ! x)]) y r"
proof (induction rule: root_of.induct)
  case (Root y)
  then show ?case using x by (cases "y = x") (simp_all add: root_of_root)
next
  case (Step y r)
  let ?p' = "p[x := p ! (p ! x)]"
  have parent: "p ! x < length p" "rk ! x < rk ! (p ! x)" using f x by (auto simp: forest_def)
  show ?case
  proof (cases "y = x")
    case False
    then show ?thesis using Step x by (simp add: root_of_step)
  next
    case True
    show ?thesis
    proof (cases "p ! (p ! x) = p ! x")
      case True
      then show ?thesis using Step \<open>y = x\<close> x by (simp add: root_of_step)
    next
      case False
      have grand: "rk ! (p ! x) < rk ! (p ! (p ! x))" using f parent False by (auto simp: forest_def)
      have "root_of ?p' (p ! (p ! x)) r"
        using Step.IH \<open>y = x\<close> x parent False root_of_step [of ?p' "p ! x" r] by simp
      moreover have "p ! (p ! x) \<noteq> x" using grand parent by auto
      ultimately show ?thesis using \<open>y = x\<close> x by (simp add: root_of_step)
    qed
  qed
qed

lemma forest_halving:
  assumes f: "forest p rk" and x: "x < length p" "p ! x \<noteq> x"
  shows "forest (p[x := p ! (p ! x)]) rk"
proof -
  have "rk ! x < rk ! (p ! x)" "rk ! (p ! x) \<le> rk ! (p ! (p ! x))" "p ! (p ! x) < length p"
    using f x unfolding forest_def by (metis less_or_eq_imp_le order_refl)+
  then have "(p[x := p ! (p ! x)]) ! y < length p \<and> ((p[x := p ! (p ! x)]) ! y \<noteq> y \<longrightarrow> rk ! y < rk ! ((p[x := p ! (p ! x)]) ! y))"
    if "y < length p" for y
    using f that by (cases "y = x") (simp_all add: forest_def)
  then show ?thesis using f by (simp add: forest_def)
qed

lemma find_root_returns:
  assumes "forest p rk" and "x < length p"
  shows "\<exists>r p'. find_root x p = Some (r, p') \<and> forest p' rk \<and> length p' = length p \<and> root_of p x r \<and>
    (\<forall>y r. root_of p y r \<longrightarrow> root_of p' y r)"
  using assms
proof (induction "Max (set rk) - rk ! x" arbitrary: x p rule: less_induct)
  case less
  have px: "p ! x < length p" and len: "length rk = length p" using less.prems by (auto simp: forest_def)
  show ?case
  proof (cases "p ! x = x")
    case True
    then show ?thesis using less.prems by (subst find_root.simps) (auto intro: root_of.Root)
  next
    case False
    let ?p' = "p[x := p ! (p ! x)]"
    have f': "forest ?p' rk" by (rule forest_halving [OF less.prems False])
    have g: "p ! (p ! x) < length p" "rk ! x < rk ! (p ! (p ! x))"
      using less.prems px False unfolding forest_def by (metis less_trans)+
    have "rk ! (p ! (p ! x)) \<le> Max (set rk)" using g len by simp
    then have "Max (set rk) - rk ! (p ! (p ! x)) < Max (set rk) - rk ! x" using g by linarith
    from less.hyps [OF _ f', of "p ! (p ! x)"] this g
    obtain r p'' where res: "find_root (p ! (p ! x)) ?p' = Some (r, p'')" "forest p'' rk" "length p'' = length p"
      "root_of ?p' (p ! (p ! x)) r" "\<forall>y r. root_of ?p' y r \<longrightarrow> root_of p'' y r" by auto
    have "find_root x p = Some (r, p'')"
      using res(1) less.prems False px by (subst find_root.simps) (simp add: Let_def)
    moreover have keep: "\<forall>y r. root_of p y r \<longrightarrow> root_of p'' y r"
      using root_of_halving [OF less.prems False] res(5) by blast
    moreover have "root_of p x r"
    proof -
      obtain r0 where r0: "root_of p x r0" using root_exists [OF less.prems] by blast
      have "p ! (p ! x) \<noteq> x" using g by auto
      then have "root_of ?p' x r" using res(4) less.prems by (simp add: root_of_step)
      then show ?thesis using root_of_unique [OF root_of_halving [OF less.prems False r0]] r0 by blast
    qed
    ultimately show ?thesis using res(2,3) by blast
  qed
qed

lemma root_of_link:
  assumes "ra < length p" "rb < length p" "p ! ra = ra" "p ! rb = rb" "ra \<noteq> rb"
  shows "root_of p y r \<Longrightarrow> root_of (p[rb := ra]) y (if r = rb then ra else r)"
proof (induction rule: root_of.induct)
  case (Root y)
  have ra: "root_of (p[rb := ra]) ra ra" using assms by (intro root_of.Root) simp_all
  show ?case
  proof (cases "y = rb")
    case True
    then show ?thesis using ra assms root_of_step [of "p[rb := ra]" rb ra] by simp
  next
    case False
    then show ?thesis using Root by (simp add: root_of.Root)
  qed
next
  case (Step y r)
  then have "y \<noteq> rb" using assms by auto
  then show ?case using Step root_of_step [of "p[rb := ra]" y "if r = rb then ra else r"] by simp
qed

lemma forest_link:
  assumes f: "forest p rk" and "ra < length p" "rb < length p" "p ! ra = ra" "p ! rb = rb" "ra \<noteq> rb"
    and rk: "rk ! rb < v" "rk ! ra \<le> v"
  shows "forest (p[rb := ra]) (rk[ra := v])"
proof -
  have len: "length rk = length p" using f by (simp add: forest_def)
  have "(p[rb := ra]) ! y < length p \<and>
      ((p[rb := ra]) ! y \<noteq> y \<longrightarrow> (rk[ra := v]) ! y < (rk[ra := v]) ! ((p[rb := ra]) ! y))" if y: "y < length p" for y
  proof (cases "y = rb")
    case True
    then show ?thesis using assms len by simp
  next
    case False
    have "p ! y < length p" "p ! y \<noteq> y \<Longrightarrow> rk ! y < rk ! (p ! y)" using f y by (simp_all add: forest_def)
    moreover have "(p[rb := ra]) ! y = p ! y" using False by simp
    moreover have "p ! y \<noteq> y \<Longrightarrow> y \<noteq> ra" using assms(4) by auto
    ultimately show ?thesis
      using rk(2) len assms(2) by (cases "p ! y = ra") (auto simp: nth_list_update)
  qed
  then show ?thesis using len by (simp add: forest_def)
qed

definition uf_ok :: "union_find \<Rightarrow> bool" where
  "uf_ok uf \<longleftrightarrow> forest (parent uf) (rank uf) \<and> (\<forall>k i. ids uf k = Some i \<longrightarrow> i < length (parent uf))"

definition same_root :: "union_find \<Rightarrow> nat \<Rightarrow> nat \<Rightarrow> bool" where
  "same_root uf x y \<longleftrightarrow> (\<exists>r. root_of (parent uf) x r \<and> root_of (parent uf) y r)"

text \<open>Later states of a union-find: keys keep their nodes and what is together stays together.\<close>

definition uf_grows :: "union_find \<Rightarrow> union_find \<Rightarrow> bool" where
  "uf_grows uf uf' \<longleftrightarrow> uf_ok uf' \<and> ids uf \<subseteq>\<^sub>m ids uf' \<and> (\<forall>x y. same_root uf x y \<longrightarrow> same_root uf' x y)"

lemma uf_grows_refl: "uf_ok uf \<Longrightarrow> uf_grows uf uf"
  by (simp add: uf_grows_def)

lemma uf_grows_trans: "uf_grows a b \<Longrightarrow> uf_grows b c \<Longrightarrow> uf_grows a c"
  unfolding uf_grows_def by (blast intro: map_le_trans)

lemma node_grows:
  assumes ok: "uf_ok uf"
  shows "uf_grows uf (snd (node k uf))" and "ids (snd (node k uf)) k = Some (fst (node k uf))"
proof -
  have "uf_grows uf (snd (node k uf)) \<and> ids (snd (node k uf)) k = Some (fst (node k uf))"
  proof (cases "ids uf k")
    case None
    let ?p = "parent uf" and ?n = "length (parent uf)"
    have keep: "root_of ?p x r \<Longrightarrow> root_of (?p @ [?n]) x r" for x r
    proof (induction rule: root_of.induct)
      case (Root x)
      then show ?case by (intro root_of.Root) (simp_all add: nth_append)
    next
      case (Step x r)
      then show ?case using root_of_step [of "?p @ [?n]" x r] by (simp add: nth_append)
    qed
    have "forest (?p @ [?n]) (rank uf @ [0])"
      using ok by (auto simp: uf_ok_def forest_def nth_append less_Suc_eq)
    moreover have "i < Suc ?n" if "((ids uf)(k \<mapsto> ?n)) k' = Some i" for k' i
      using ok that by (auto simp: uf_ok_def less_SucI split: if_splits)
    moreover have "ids uf \<subseteq>\<^sub>m (ids uf)(k \<mapsto> ?n)" using None by (auto simp: map_le_def)
    ultimately show ?thesis
      using None keep by (auto simp: node_def uf_grows_def uf_ok_def same_root_def Let_def simp del: fun_upd_apply) (blast | simp)+
  qed (use ok in \<open>simp add: node_def uf_grows_refl\<close>)
  then show "uf_grows uf (snd (node k uf))" "ids (snd (node k uf)) k = Some (fst (node k uf))" by auto
qed

lemma find_grows:
  assumes ok: "uf_ok uf" and x: "x < length (parent uf)"
  obtains r uf' where "uf_find x uf = Some (r, uf')" and "uf_grows uf uf'" and "ids uf' = ids uf" and "rank uf' = rank uf"
    and "length (parent uf') = length (parent uf)" and "root_of (parent uf) x r"
    and "\<And>y s. root_of (parent uf) y s \<Longrightarrow> root_of (parent uf') y s"
proof -
  obtain r p' where res: "find_root x (parent uf) = Some (r, p')" "forest p' (rank uf)" "length p' = length (parent uf)"
    "root_of (parent uf) x r" "\<forall>y r. root_of (parent uf) y r \<longrightarrow> root_of p' y r"
    using find_root_returns [of "parent uf" "rank uf" x] ok x by (auto simp: uf_ok_def)
  then show ?thesis
    using that [of r "uf\<lparr>parent := p'\<rparr>"] ok by (auto simp: uf_find_def uf_grows_def uf_ok_def same_root_def)
qed

lemma union_grows:
  assumes ok: "uf_ok uf" and a: "a < length (parent uf)" and b: "b < length (parent uf)"
  obtains uf' where "uf_union a b uf = Some uf'" and "uf_grows uf uf'" and "same_root uf' a b"
proof -
  obtain ra uf1 where f1: "uf_find a uf = Some (ra, uf1)" "uf_grows uf uf1" "length (parent uf1) = length (parent uf)"
    "root_of (parent uf) a ra" "\<And>y s. root_of (parent uf) y s \<Longrightarrow> root_of (parent uf1) y s"
    by (rule find_grows [OF ok a]) blast
  obtain rb uf2 where f2: "uf_find b uf1 = Some (rb, uf2)" "uf_grows uf1 uf2" "length (parent uf2) = length (parent uf1)"
    "root_of (parent uf1) b rb" "\<And>y s. root_of (parent uf1) y s \<Longrightarrow> root_of (parent uf2) y s"
    using find_grows [of uf1 b] f1(2,3) b by (metis uf_grows_def)
  have ra: "root_of (parent uf2) a ra" and rb: "root_of (parent uf2) b rb" using f1(4,5) f2(4,5) by blast+
  note roots = root_of_is_root [OF ra] root_of_is_root [OF rb]
  have g: "uf_grows uf uf2" by (rule uf_grows_trans [OF f1(2) f2(2)])
  then have f: "forest (parent uf2) (rank uf2)" by (simp add: uf_grows_def uf_ok_def)
  have linked: "uf_grows uf2 (uf2\<lparr>parent := (parent uf2)[y := x], rank := (rank uf2)[x := v]\<rparr>) \<and>
      same_root (uf2\<lparr>parent := (parent uf2)[y := x], rank := (rank uf2)[x := v]\<rparr>) a b"
    if xy: "{x, y} = {ra, rb}" "ra \<noteq> rb" and v: "rank uf2 ! y < v" "rank uf2 ! x \<le> v" for x y v
  proof -
    have l: "x < length (parent uf2)" "y < length (parent uf2)" "parent uf2 ! x = x" "parent uf2 ! y = y" "x \<noteq> y"
      using xy roots by (auto simp: doubleton_eq_iff)
    show ?thesis
      using root_of_link [OF l] forest_link [OF f l v] g root_of_link [OF l ra] root_of_link [OF l rb] xy
      by (auto simp: uf_grows_def uf_ok_def same_root_def doubleton_eq_iff)
  qed
  have id: "(rank uf2)[x := rank uf2 ! x] = rank uf2" for x by simp
  consider "ra = rb" | "ra \<noteq> rb" "rank uf2 ! ra < rank uf2 ! rb" | "ra \<noteq> rb" "rank uf2 ! rb < rank uf2 ! ra"
    | "ra \<noteq> rb" "rank uf2 ! ra = rank uf2 ! rb" by linarith
  then show ?thesis
  proof cases
    case 1
    then show ?thesis using that [of uf2] f1(1) f2(1) g ra rb by (auto simp: uf_union_def same_root_def)
  next
    case 2
    then show ?thesis
      using that linked [of rb ra "rank uf2 ! rb"] f1(1) f2(1) uf_grows_trans [OF g] by (simp add: uf_union_def insert_commute)
  next
    case 3
    then show ?thesis
      using that linked [of ra rb "rank uf2 ! ra"] f1(1) f2(1) uf_grows_trans [OF g] by (simp add: uf_union_def)
  next
    case 4
    then show ?thesis
      using that linked [of ra rb "rank uf2 ! ra + 1"] f1(1) f2(1) uf_grows_trans [OF g] by (simp add: uf_union_def)
  qed
qed

section \<open>Groups keep recordings and speakers together\<close>

definition linked :: "union_find \<Rightarrow> utext \<Rightarrow> utext \<Rightarrow> bool" where
  "linked uf k l \<longleftrightarrow> (\<exists>i j. ids uf k = Some i \<and> ids uf l = Some j \<and> same_root uf i j)"

text \<open>
  The interface of the union-find that the grouping relies on: keys name nodes, later states keep
  the nodes of the keys and what is together, and a union brings two nodes together.
\<close>

locale disjoint_sets =
  fixes invar :: "'u \<Rightarrow> bool"
    and key_node :: "'k \<Rightarrow> 'u \<Rightarrow> 'n \<times> 'u"
    and unite :: "'n \<Rightarrow> 'n \<Rightarrow> 'u \<Rightarrow> 'u option"
    and node_of :: "'u \<Rightarrow> 'k \<Rightarrow> 'n option"
    and same :: "'u \<Rightarrow> 'n \<Rightarrow> 'n \<Rightarrow> bool"
    and later :: "'u \<Rightarrow> 'u \<Rightarrow> bool"
  assumes later_trans: "later u v \<Longrightarrow> later v w \<Longrightarrow> later u w"
    and later_invar: "later u v \<Longrightarrow> invar v"
    and later_node: "later u v \<Longrightarrow> node_of u k = Some a \<Longrightarrow> node_of v k = Some a"
    and later_same: "later u v \<Longrightarrow> same u a b \<Longrightarrow> same v a b"
    and node_later: "invar u \<Longrightarrow> key_node k u = (a, v) \<Longrightarrow> later u v \<and> node_of v k = Some a"
    and unite_later: "invar u \<Longrightarrow> node_of u k = Some a \<Longrightarrow> node_of u l = Some b \<Longrightarrow>
      \<exists>v. unite a b u = Some v \<and> later u v \<and> same v a b"
begin

lemma later_linked:
  "later u v \<Longrightarrow> \<exists>a b. node_of u k = Some a \<and> node_of u l = Some b \<and> same u a b \<Longrightarrow>
   \<exists>a b. node_of v k = Some a \<and> node_of v l = Some b \<and> same v a b"
  using later_node later_same by blast

lemma unite_keys:
  assumes "invar u" and "key_node k u = (a, u1)" and "key_node l u1 = (b, u2)"
  shows "\<exists>u3. unite a b u2 = Some u3 \<and> later u u3 \<and> node_of u3 k = Some a \<and> node_of u3 l = Some b \<and> same u3 a b"
proof -
  have 1: "later u u1" "node_of u1 k = Some a" using node_later [OF assms(1,2)] by auto
  have 2: "later u1 u2" "node_of u2 l = Some b" using node_later [OF later_invar [OF 1(1)] assms(3)] by auto
  have k: "node_of u2 k = Some a" by (rule later_node [OF 2(1) 1(2)])
  obtain u3 where 3: "unite a b u2 = Some u3" "later u2 u3" "same u3 a b"
    using unite_later [OF later_invar [OF 2(1)] k 2(2)] by blast
  then show ?thesis
    using later_trans [OF later_trans [OF 1(1) 2(1)] 3(2)] later_node [OF 3(2)] k 2(2) by blast
qed

end

interpretation keyed_sets: disjoint_sets uf_ok node uf_union ids same_root uf_grows
proof (unfold_locales, goal_cases)
  case (1 u v w)
  then show ?case by (rule uf_grows_trans)
next
  case (3 u v k a)
  then show ?case unfolding uf_grows_def map_le_def by (metis domI)
next
  case (5 u k a v)
  then show ?case using node_grows [of u k] by simp
next
  case (6 u k a l b)
  then show ?case using union_grows [of u a b] unfolding uf_ok_def by metis
qed (simp_all add: uf_grows_def)

lemma link_segment_grows:
  assumes "uf_ok uf"
  obtains uf' where "link_segment seg uf = Some uf'" and "uf_grows uf uf'" and "ids uf' (recording_key seg) \<noteq> None"
    and "speaker_of seg \<noteq> [] \<Longrightarrow> linked uf' (recording_key seg) (speaker_key seg)"
proof -
  obtain r uf1 where n1: "node (recording_key seg) uf = (r, uf1)" by (cases "node (recording_key seg) uf")
  obtain q uf2 where n2: "node (speaker_key seg) uf1 = (q, uf2)" by (cases "node (speaker_key seg) uf1")
  obtain uf3 where 3: "uf_union r q uf2 = Some uf3" "uf_grows uf uf3" "ids uf3 (recording_key seg) = Some r"
    "ids uf3 (speaker_key seg) = Some q" "same_root uf3 r q"
    using keyed_sets.unite_keys [OF assms n1 n2] by blast
  show ?thesis
  proof (cases "speaker_of seg = []")
    case True
    then show ?thesis
      using that [of uf1] keyed_sets.node_later [OF assms n1] n1 by (simp add: link_segment_def)
  next
    case False
    then show ?thesis using that [of uf3] n1 n2 3 by (simp add: link_segment_def linked_def)
  qed
qed

lemma link_segments_grows:
  "uf_ok uf \<Longrightarrow> \<exists>uf'. link_segments segs uf = Some uf' \<and> uf_grows uf uf' \<and>
     (\<forall>seg \<in> set segs. ids uf' (recording_key seg) \<noteq> None \<and>
       (speaker_of seg \<noteq> [] \<longrightarrow> linked uf' (recording_key seg) (speaker_key seg)))"
proof (induction segs arbitrary: uf)
  case (Cons seg segs)
  obtain uf1 where 1: "link_segment seg uf = Some uf1" "uf_grows uf uf1" "ids uf1 (recording_key seg) \<noteq> None"
    "speaker_of seg \<noteq> [] \<Longrightarrow> linked uf1 (recording_key seg) (speaker_key seg)"
    by (rule link_segment_grows [OF Cons.prems]) blast
  obtain uf2 where 2: "link_segments segs uf1 = Some uf2" "uf_grows uf1 uf2"
    "\<forall>seg \<in> set segs. ids uf2 (recording_key seg) \<noteq> None \<and>
       (speaker_of seg \<noteq> [] \<longrightarrow> linked uf2 (recording_key seg) (speaker_key seg))"
    using Cons.IH [of uf1] 1(2) by (auto simp: uf_grows_def)
  then show ?case
    using 1 uf_grows_trans [OF 1(2) 2(2)] keyed_sets.later_linked [OF 2(2), folded linked_def] keyed_sets.later_node [OF 2(2)]
    by auto
qed (simp add: uf_grows_refl)

text \<open>The loops that follow only look nodes up; the roots stay those of \<open>uf0\<close>.\<close>

definition same_roots :: "union_find \<Rightarrow> union_find \<Rightarrow> bool" where
  "same_roots uf0 uf \<longleftrightarrow> uf_ok uf \<and> ids uf = ids uf0 \<and>
     (\<forall>y r. root_of (parent uf0) y r \<longrightarrow> root_of (parent uf) y r)"

definition has_root :: "union_find \<Rightarrow> utext \<Rightarrow> nat \<Rightarrow> bool" where
  "has_root uf k r \<longleftrightarrow> (\<exists>i. ids uf k = Some i \<and> root_of (parent uf) i r)"

lemma component_root:
  assumes same: "same_roots uf0 uf" and root: "has_root uf0 (recording_key seg) r"
  obtains uf' where "component seg uf = Some (r, uf')" and "same_roots uf0 uf'"
proof -
  obtain i where i: "ids uf (recording_key seg) = Some i" "root_of (parent uf) i r"
    using same root by (auto simp: same_roots_def has_root_def)
  have ok: "uf_ok uf" "i < length (parent uf)" using same i by (auto simp: same_roots_def uf_ok_def)
  obtain r' uf' where f: "uf_find i uf = Some (r', uf')" "uf_grows uf uf'" "ids uf' = ids uf" "root_of (parent uf) i r'"
    "\<And>y s. root_of (parent uf) y s \<Longrightarrow> root_of (parent uf') y s"
    by (rule find_grows [OF ok]) blast
  have "r' = r" by (rule root_of_unique [OF i(2) f(4)])
  then show ?thesis
    using that [of uf'] f i same by (auto simp: component_def node_def same_roots_def uf_grows_def)
qed

lemma root_keys_total:
  assumes "same_roots uf0 uf" and "\<forall>seg \<in> set segs. has_root uf0 (recording_key seg) (rt seg)"
  shows "\<exists>m' uf'. root_keys segs m uf = Some (m', uf') \<and> same_roots uf0 uf' \<and> dom m' = dom m \<union> rt ` set segs"
  using assms
proof (induction segs arbitrary: m uf)
  case (Cons seg segs)
  have root: "has_root uf0 (recording_key seg) (rt seg)" using Cons.prems(2) by simp
  obtain uf1 where 1: "component seg uf = Some (rt seg, uf1)" "same_roots uf0 uf1"
    by (rule component_root [OF Cons.prems(1) root])
  let ?nm = "source_name (seg_audio_path seg)"
  let ?m = "m(rt seg \<mapsto> (case m (rt seg) of None \<Rightarrow> ?nm | Some k \<Rightarrow> if ?nm < k then ?nm else k))"
  obtain m' uf' where "root_keys segs ?m uf1 = Some (m', uf')" "same_roots uf0 uf'" "dom m' = dom ?m \<union> rt ` set segs"
    using Cons.IH [OF 1(2), where m = ?m] Cons.prems(2) unfolding list.set ball_simps by blast
  then show ?case using 1 by (simp add: Let_def)
qed simp

lemma group_by_component_pure:
  assumes "same_roots uf0 uf" and "\<forall>seg \<in> set segs. has_root uf0 (recording_key seg) (rt seg)" and "rt ` set segs \<subseteq> dom m"
  shows "group_by_component m segs gs uf = Some (foldl (\<lambda>gs seg. push_group (the (m (rt seg))) seg gs) gs segs)"
  using assms
proof (induction segs arbitrary: gs uf)
  case (Cons seg segs)
  have root: "has_root uf0 (recording_key seg) (rt seg)" using Cons.prems(2) by simp
  obtain uf1 where 1: "component seg uf = Some (rt seg, uf1)" "same_roots uf0 uf1"
    by (rule component_root [OF Cons.prems(1) root])
  obtain k where "m (rt seg) = Some k" using Cons.prems(3) by auto
  then show ?case using 1 Cons.IH [OF 1(2)] Cons.prems(2,3) by simp
qed simp

text \<open>
  Whether two segments must end up in one split: the same recording, or, with speaker-disjoint splits,
  the same speaker by a label that is not a diarizer's.
\<close>

definition must_share :: "bool \<Rightarrow> split_segment \<Rightarrow> split_segment \<Rightarrow> bool" where
  "must_share speaker_disjoint s t \<longleftrightarrow>
     source_name (seg_audio_path s) = source_name (seg_audio_path t) \<or>
     speaker_disjoint \<and> speaker_of s = speaker_of t \<and> speaker_of s \<noteq> [] \<and> \<not> is_generic_diarizer_label (speaker_of s)"

lemma group_segments_key:
  "\<exists>K. group_segments speaker_disjoint segs = Some (foldl (\<lambda>gs seg. push_group (K seg) seg gs) [] segs) \<and>
     (\<forall>s \<in> set segs. \<forall>t \<in> set segs. must_share speaker_disjoint s t \<longrightarrow> K s = K t)"
proof (cases speaker_disjoint)
  case False
  then show ?thesis
    by (intro exI [of _ "\<lambda>s. source_name (seg_audio_path s)"]) (simp add: group_segments_def must_share_def)
next
  case True
  have "uf_ok new_union_find" by (simp add: uf_ok_def new_union_find_def forest_def)
  then obtain uf where uf: "link_segments segs new_union_find = Some uf" "uf_ok uf"
    and lk: "\<forall>seg \<in> set segs. ids uf (recording_key seg) \<noteq> None \<and>
       (speaker_of seg \<noteq> [] \<longrightarrow> linked uf (recording_key seg) (speaker_key seg))"
    using link_segments_grows [of new_union_find segs] by (auto simp: uf_grows_def)
  have "\<forall>seg \<in> set segs. \<exists>r. has_root uf (recording_key seg) r"
    using lk uf(2) root_exists unfolding has_root_def uf_ok_def by (metis not_None_eq)
  then obtain rt where rt: "\<forall>seg \<in> set segs. has_root uf (recording_key seg) (rt seg)" by metis
  have same: "same_roots uf uf" using uf(2) by (simp add: same_roots_def)
  obtain m uf1 where m: "root_keys segs Map.empty uf = Some (m, uf1)" "same_roots uf uf1" "rt ` set segs \<subseteq> dom m"
    using root_keys_total [OF same rt, of Map.empty] by auto
  have uniq: "has_root uf k r \<Longrightarrow> has_root uf k r' \<Longrightarrow> r' = r" for k r r'
    unfolding has_root_def using root_of_unique by fastforce
  have lroot: "has_root uf l r" if "linked uf k l" "has_root uf k r" for k l r
    using that root_of_unique unfolding linked_def has_root_def same_root_def by fastforce
  have "rt s = rt t" if "s \<in> set segs" "t \<in> set segs" "must_share True s t" for s t
  proof (cases "source_name (seg_audio_path s) = source_name (seg_audio_path t)")
    case True
    then have "recording_key s = recording_key t" by (simp add: recording_key_def)
    then show ?thesis using rt that(1,2) uniq by metis
  next
    case False
    then have "speaker_key s = speaker_key t" "speaker_of s \<noteq> []" "speaker_of t \<noteq> []"
      using that(3) by (auto simp: must_share_def speaker_key_def)
    then show ?thesis using lroot lk rt that(1,2) uniq by metis
  qed
  then show ?thesis
    using True uf(1) m(1) group_by_component_pure [OF m(2) rt m(3), of "[]"]
    by (intro exI [of _ "\<lambda>s. the (m (rt s))"]) (simp add: group_segments_def)
qed

section \<open>Every segment is assigned once\<close>

lemma push_group_keys: "fst ` set (push_group key seg gs) = insert key (fst ` set gs)"
  by (induction key seg gs rule: push_group.induct) auto

lemma push_group_sorted: "sorted_wrt (<) (map fst gs) \<Longrightarrow> sorted_wrt (<) (map fst (push_group key seg gs))"
proof (induction key seg gs rule: push_group.induct)
  case (2 key seg k ss gs)
  then show ?case
    using push_group_keys [of key seg gs]
    by (auto simp: image_iff set_eq_iff dest: order_less_trans) (metis fst_conv linorder_neqE)
qed simp

lemma push_group_mset: "mset (concat (map snd (push_group key seg gs))) = add_mset seg (mset (concat (map snd gs)))"
  by (induction key seg gs rule: push_group.induct) auto

lemma push_group_members:
  "(\<forall>(k, ss) \<in> set gs. \<forall>s \<in> set ss. K s = k) \<Longrightarrow> (\<forall>(k, ss) \<in> set (push_group (K seg) seg gs). \<forall>s \<in> set ss. K s = k)"
  by (induction "K seg" seg gs rule: push_group.induct) auto

lemma grouped:
  fixes K :: "'s \<Rightarrow> utext"
  defines "G \<equiv> foldl (\<lambda>gs seg. push_group (K seg) seg gs) []"
  shows "sorted_wrt (<) (map fst (G segs)) \<and> mset (concat (map snd (G segs))) = mset segs \<and>
    (\<forall>(k, ss) \<in> set (G segs). \<forall>s \<in> set ss. K s = k)"
  unfolding G_def
proof (induction segs rule: rev_induct)
  case (snoc x segs)
  then show ?case
    using push_group_members [of "foldl (\<lambda>gs seg. push_group (K seg) seg gs) [] segs" K x]
    by (simp add: push_group_sorted push_group_mset)
qed simp

lemma swap_mset: "i < length xs \<Longrightarrow> j < length xs \<Longrightarrow> mset (swap i j xs) = mset xs"
  using mset_swap [of j xs i] by (simp add: swap_def)

lemma shuffle_mset:
  fixes keys :: "'a list"
  shows "mset (shuffle seed keys) = mset keys"
proof -
  let ?f = "\<lambda>(ks, st) i. case splitmix64 st of (z, st') \<Rightarrow> (swap i (unat z mod (i + 1)) ks, st')"
  have "mset (fst (foldl ?f (ks, st) idxs)) = mset ks" if "\<forall>i \<in> set idxs. i < length ks" for ks :: "'a list" and st idxs
    using that
  proof (induction idxs arbitrary: ks st)
    case (Cons i idxs)
    obtain z st' where z: "splitmix64 st = (z, st')" by (cases "splitmix64 st")
    let ?ks = "swap i (unat z mod (i + 1)) ks"
    have "unat z mod (i + 1) < length ks" using Cons.prems by (auto intro: order_le_less_trans [of _ i] simp: less_Suc_eq_le [symmetric])
    then have ks: "mset ?ks = mset ks" using Cons.prems by (simp add: swap_mset)
    then have "length ?ks = length ks" by (rule mset_eq_length)
    then show ?case using Cons.IH [of ?ks st'] Cons.prems ks by (simp add: z)
  qed simp
  then show ?thesis by (simp add: shuffle_def)
qed

lemma pick_split_range: "fst (pick_split target d dur) \<in> {''train'', ''validation'', ''test''}"
  by (auto simp: pick_split_def Let_def split: prod.split)

lemma fill_splits_shape:
  assumes "distinct keys" and "set keys \<subseteq> dom (map_of gs)"
  shows "\<exists>\<sigma>. fill_splits target gs keys d = Some (concat (map (\<lambda>k. map (\<lambda>s. (seg_id s, \<sigma> k)) (the (map_of gs k))) keys)) \<and>
    (\<forall>k \<in> set keys. \<sigma> k \<in> {''train'', ''validation'', ''test''})"
  using assms
proof (induction keys arbitrary: d)
  case (Cons key keys)
  obtain ss where ss: "map_of gs key = Some ss" using Cons.prems(2) by auto
  obtain sp d' where pick: "pick_split target d (group_duration ss) = (sp, d')"
    by (cases "pick_split target d (group_duration ss)")
  obtain \<sigma> where \<sigma>: "fill_splits target gs keys d' = Some (concat (map (\<lambda>k. map (\<lambda>s. (seg_id s, \<sigma> k)) (the (map_of gs k))) keys))"
    "\<forall>k \<in> set keys. \<sigma> k \<in> {''train'', ''validation'', ''test''}"
    using Cons.IH [of d'] Cons.prems by auto
  let ?\<sigma> = "\<lambda>k. if k = key then sp else \<sigma> k"
  have "map (\<lambda>k. map (\<lambda>s. (seg_id s, ?\<sigma> k)) (the (map_of gs k))) keys =
      map (\<lambda>k. map (\<lambda>s. (seg_id s, \<sigma> k)) (the (map_of gs k))) keys"
    using Cons.prems(1) by (intro map_cong) auto
  then have "fill_splits target gs (key # keys) d =
      Some (concat (map (\<lambda>k. map (\<lambda>s. (seg_id s, ?\<sigma> k)) (the (map_of gs k))) (key # keys)))"
    using \<sigma>(1) by (simp only: fill_splits.simps ss option.simps pick prod.case list.map concat.simps) simp
  moreover have "\<forall>k \<in> set (key # keys). ?\<sigma> k \<in> {''train'', ''validation'', ''test''}"
    using \<sigma>(2) pick_split_range [of target d "group_duration ss"] pick by simp
  ultimately show ?case by (intro exI [of _ ?\<sigma>] conjI)
qed simp

lemma mset_concat_map: "mset (concat (map f xs)) = (\<Sum>x \<in># mset xs. mset (f x))"
  by (induction xs) simp_all

lemma assign_splits_shape:
  obtains \<sigma> :: "utext \<Rightarrow> string" and gs keys and K :: "split_segment \<Rightarrow> utext" where
    "assign_splits segs tr vr te seed speaker_disjoint =
       Some (concat (map (\<lambda>k. map (\<lambda>s. (seg_id s, \<sigma> k)) (the (map_of gs k))) keys))"
    and "mset keys = mset (map fst gs)" and "distinct (map fst gs)" and "mset (concat (map snd gs)) = mset segs"
    and "\<forall>(k, ss) \<in> set gs. \<forall>s \<in> set ss. K s = k"
    and "\<forall>s \<in> set segs. \<forall>t \<in> set segs. must_share speaker_disjoint s t \<longrightarrow> K s = K t"
    and "\<forall>k \<in> set keys. \<sigma> k \<in> {''train'', ''validation'', ''test''}"
proof -
  obtain K where K: "group_segments speaker_disjoint segs = Some (foldl (\<lambda>gs seg. push_group (K seg) seg gs) [] segs)"
    "\<forall>s \<in> set segs. \<forall>t \<in> set segs. must_share speaker_disjoint s t \<longrightarrow> K s = K t"
    using group_segments_key [of speaker_disjoint segs] by blast
  define gs where "gs = foldl (\<lambda>gs seg. push_group (K seg) seg gs) [] segs"
  have g: "sorted_wrt (<) (map fst gs)" "mset (concat (map snd gs)) = mset segs" "\<forall>(k, ss) \<in> set gs. \<forall>s \<in> set ss. K s = k"
    using grouped [of K segs] unfolding gs_def by auto
  obtain tr' vr' te' where ratios: "normal_ratios tr vr te = (tr', vr', te')" by (cases "normal_ratios tr vr te")
  define keys where "keys = sort_key (\<lambda>k. - group_duration (case map_of gs k of None \<Rightarrow> [] | Some ss \<Rightarrow> ss))
    (shuffle seed (map fst gs))"
  have keys: "mset keys = mset (map fst gs)" by (simp add: keys_def shuffle_mset)
  have dist: "distinct (map fst gs)" using g(1) by (simp add: strict_sorted_iff)
  have "distinct keys" "set keys = set (map fst gs)"
    using keys dist by (metis mset_eq_imp_distinct_iff) (rule mset_eq_setD [OF keys])
  then have "distinct keys" "set keys \<subseteq> dom (map_of gs)" by (simp_all add: dom_map_of_conv_image_fst)
  note shape = fill_splits_shape [OF this]
  obtain target where "assign_splits segs tr vr te seed speaker_disjoint = fill_splits target gs keys (0, 0, 0)"
    unfolding assign_splits_def ratios K(1) Let_def prod.case bind.bind_lunit gs_def [symmetric] keys_def [symmetric] by blast
  moreover obtain \<sigma> where
    "fill_splits target gs keys (0, 0, 0) = Some (concat (map (\<lambda>k. map (\<lambda>s. (seg_id s, \<sigma> k)) (the (map_of gs k))) keys))"
    "\<forall>k \<in> set keys. \<sigma> k \<in> {''train'', ''validation'', ''test''}"
    using shape [of target "(0, 0, 0)"] by blast
  ultimately show ?thesis using that [OF _ keys dist g(2,3) K(2)] by simp
qed

text \<open>
  C40. Dataset splits do not leak. The assignment always returns; it gives every segment of the export
  exactly one of the three splits; and two segments of the same recording, or, with speaker-disjoint
  splits, of the same identified speaker, are always in the same split, whatever the ratios and the seed.
\<close>

theorem splits_never_leak:
  assumes "distinct (map seg_id segs)"
  shows "\<exists>out. assign_splits segs tr vr te seed speaker_disjoint = Some out \<and>
    mset (map fst out) = mset (map seg_id segs) \<and> snd ` set out \<subseteq> {''train'', ''validation'', ''test''} \<and>
    (\<forall>s \<in> set segs. \<forall>t \<in> set segs. must_share speaker_disjoint s t \<longrightarrow>
       map_of out (seg_id s) = map_of out (seg_id t))"
proof -
  obtain \<sigma> :: "utext \<Rightarrow> string" and gs keys and K :: "split_segment \<Rightarrow> utext" where out: "assign_splits segs tr vr te seed speaker_disjoint =
       Some (concat (map (\<lambda>k. map (\<lambda>s. (seg_id s, \<sigma> k)) (the (map_of gs k))) keys))"
    and keys: "mset keys = mset (map fst gs)" and dist: "distinct (map fst gs)"
    and segs: "mset (concat (map snd gs)) = mset segs" and K: "\<forall>(k, ss) \<in> set gs. \<forall>s \<in> set ss. K s = k"
    and share: "\<forall>s \<in> set segs. \<forall>t \<in> set segs. must_share speaker_disjoint s t \<longrightarrow> K s = K t"
    and range: "\<forall>k \<in> set keys. \<sigma> k \<in> {''train'', ''validation'', ''test''}"
    by (rule assign_splits_shape [of segs tr vr te seed speaker_disjoint])
  let ?out = "concat (map (\<lambda>k. map (\<lambda>s. (seg_id s, \<sigma> k)) (the (map_of gs k))) keys)"
  have members: "map_of gs k = Some ss" if "(k, ss) \<in> set gs" for k ss using that dist by (rule map_of_is_SomeI [rotated])
  have "mset (map fst ?out) = (\<Sum>k \<in># mset keys. image_mset seg_id (mset (the (map_of gs k))))"
    by (simp add: mset_map mset_concat_map map_concat o_def)
  also have "\<dots> = (\<Sum>g \<in># mset gs. image_mset seg_id (mset (snd g)))"
    unfolding keys mset_map image_mset.compositionality
    by (rule arg_cong [of _ _ sum_mset], rule image_mset_cong) (auto simp: members)
  also have "\<dots> = mset (map seg_id (concat (map snd gs)))"
    by (simp add: map_concat o_def mset_concat_map)
  finally have ids: "mset (map fst ?out) = mset (map seg_id segs)" using segs by (simp flip: mset_map) (metis mset_map)
  have found: "map_of ?out (seg_id s) = Some (\<sigma> (K s))" if "s \<in> set segs" for s
  proof -
    have "s \<in> set (concat (map snd gs))" using that segs by (metis mset_eq_setD)
    then obtain k ss where g: "(k, ss) \<in> set gs" "s \<in> set ss" by auto
    have "k \<in> set keys" using g(1) mset_eq_setD [OF keys] by force
    then have "map (\<lambda>s. (seg_id s, \<sigma> k)) (the (map_of gs k)) \<in> set (map (\<lambda>k. map (\<lambda>s. (seg_id s, \<sigma> k)) (the (map_of gs k))) keys)"
      by (simp only: set_map) (rule imageI)
    moreover have "K s = k" using g K by auto
    then have "(seg_id s, \<sigma> (K s)) \<in> set (map (\<lambda>s. (seg_id s, \<sigma> k)) (the (map_of gs k)))"
      using g(2) members [OF g(1)] by simp
    ultimately have "(seg_id s, \<sigma> (K s)) \<in> set ?out" unfolding set_concat by (rule UN_I)
    moreover have "distinct (map fst ?out)" using mset_eq_imp_distinct_iff [OF ids] assms by blast
    ultimately show ?thesis by (rule map_of_is_SomeI [rotated])
  qed
  have "\<forall>s \<in> set segs. \<forall>t \<in> set segs. must_share speaker_disjoint s t \<longrightarrow>
      map_of ?out (seg_id s) = map_of ?out (seg_id t)"
    using share found by (simp del: set_concat map_concat)
  moreover have "snd ` set ?out \<subseteq> {''train'', ''validation'', ''test''}" using range by force
  ultimately show ?thesis using out ids by blast
qed

definition sample_clip :: "string \<Rightarrow> string \<Rightarrow> string \<Rightarrow> int \<Rightarrow> split_segment" where
  "sample_clip i path spk dur =
     \<lparr>seg_id = lit i, seg_audio_path = lit path, seg_speaker_id = Some (lit spk), seg_duration_ms = dur\<rparr>"

theorem splits_never_leak_witness:
  "\<exists>out. assign_splits [sample_clip ''1'' ''d/a.wav'' ''Ava'' 10, sample_clip ''2'' ''b.wav'' ''Ava'' 20] (8 / 10) (1 / 10) (1 / 10) 7 True = Some out \<and>
     map_of out (lit ''1'') = map_of out (lit ''2'')"
proof -
  let ?s = "sample_clip ''1'' ''d/a.wav'' ''Ava'' 10" and ?t = "sample_clip ''2'' ''b.wav'' ''Ava'' 20"
  have "speaker_of ?s = speaker_of ?t" "speaker_of ?s \<noteq> []" "\<not> is_generic_diarizer_label (speaker_of ?s)"
    by (simp_all add: speaker_of_def sample_clip_def trim_def trim_start_def trim_end_def lit_def is_whitespace_def
        is_generic_diarizer_label_def)
  then have "must_share True ?s ?t" by (simp add: must_share_def)
  then show ?thesis
    using splits_never_leak [of "[?s, ?t]" "8 / 10" "1 / 10" "1 / 10" 7 True] by (auto simp: sample_clip_def lit_def)
qed

section \<open>Names and cells\<close>

text \<open>A clip's file name is a single path component, and never dots only.\<close>

lemma sanitized_no_separator:
  assumes "\<not> alnum 47" and "\<not> alnum 92" and "47 \<notin> set (sha256_hex i)" and "92 \<notin> set (sha256_hex i)"
  shows "47 \<notin> set (sanitized_clip_filename alnum sha256_hex stem i) \<and> 92 \<notin> set (sanitized_clip_filename alnum sha256_hex stem i)"
proof -
  have clean: "47 \<notin> set (clean_name alnum s)" "92 \<notin> set (clean_name alnum s)" for s
    using assms(1,2) by (auto simp: clean_name_def)
  then have "clean_name alnum i = i \<Longrightarrow> 47 \<notin> set i \<and> 92 \<notin> set i" by metis
  then show ?thesis
    using assms(3,4) in_set_takeD [of _ 8 "sha256_hex i"] clean [of stem] clean [of i]
    by (auto simp: sanitized_clip_filename_def Let_def lit_def)
qed

text \<open>No exported cell starts with a character that a spreadsheet takes for a formula.\<close>

lemma csv_safe_cell_inert: "csv_safe_cell v = [] \<or> hd (csv_safe_cell v) \<notin> {61, 43, 45, 64, 9, 13}"
  by (auto simp: csv_safe_cell_def split: list.split)

end
