(* ===== verification/Json.thy ===== *)
theory Json
  imports Prelude
begin

text \<open>
  JSON documents as \<open>serde_json::Value\<close> presents them to the policy and alignment readers, and the
  accessors those readers call. The parser \<open>serde_json::from_str\<close> is a library of its own: the
  definitions that parse a document take it as an argument.
\<close>

datatype json =
    JNull
  | JBool bool
  | JInt int
  | JFloat
  | JString utext
  | JArray "json list"
  | JObject "(utext \<times> json) list"

definition json_get :: "utext \<Rightarrow> json \<Rightarrow> json option" where
  "json_get k v = (case v of JObject kvs \<Rightarrow> map_of kvs k | _ \<Rightarrow> None)"

definition json_as_str :: "json \<Rightarrow> utext option" where
  "json_as_str v = (case v of JString s \<Rightarrow> Some s | _ \<Rightarrow> None)"

definition json_as_array :: "json \<Rightarrow> json list option" where
  "json_as_array v = (case v of JArray xs \<Rightarrow> Some xs | _ \<Rightarrow> None)"

definition json_as_i64 :: "json \<Rightarrow> int option" where
  "json_as_i64 v = (case v of JInt i \<Rightarrow> if in_i64 i then Some i else None | _ \<Rightarrow> None)"

text \<open>\<open>map(as_str).collect::<Option<Vec<_>>>()\<close>: the texts of an array when every item is one.\<close>

fun all_strings :: "json list \<Rightarrow> utext list option" where
  "all_strings [] = Some []"
| "all_strings (v # vs) =
     (case json_as_str v of None \<Rightarrow> None | Some s \<Rightarrow> map_option ((#) s) (all_strings vs))"

lemma all_strings_eq_Some_iff: "all_strings vs = Some ss \<longleftrightarrow> vs = map JString ss"
proof (induction vs arbitrary: ss)
  case (Cons v vs)
  then show ?case by (cases v; cases ss) (auto simp: json_as_str_def)
qed auto

end
