(* ===== verification/Review_Pay.thy ===== *)
theory Review_Pay
  imports Json
begin

text \<open>
  The review compensation ledger (\<open>db/review.rs\<close>, the policy constants and the entitlement formula of
  \<open>db.rs\<close>, the tables and triggers of \<open>migrations/mod.rs\<close>): an append-only list of signed entries per
  reviewer and piece of audio, a credit for each judgement, the inverse entry for each undo, and the
  settlements that allocate contiguous ledger ranges to payouts.

  Columns are record fields; amounts are \<open>int\<close> with the \<open>i64\<close> range checks of the source written out.
  Random entry ids, the Unicode lower-casing table and the JSON parser are arguments. A transaction
  that returns an error is rolled back, so a failing operation yields no new state.
\<close>

section \<open>Policy and tables\<close>

definition REVIEW_PAY_POLICY_VERSION :: utext where
  "REVIEW_PAY_POLICY_VERSION = lit ''review-iqd-v1-2026-08-21''"

definition REVIEW_PAY_BASE_RATE_MICRO_IQD_PER_HOUR :: int where
  "REVIEW_PAY_BASE_RATE_MICRO_IQD_PER_HOUR = 18000000000"

definition REVIEW_PAY_EDIT_BPS :: int where "REVIEW_PAY_EDIT_BPS = 10000"

definition REVIEW_PAY_ACCEPT_BPS :: int where "REVIEW_PAY_ACCEPT_BPS = 1000"

definition REVIEW_PAY_REJECT_BPS :: int where "REVIEW_PAY_REJECT_BPS = 1000"

definition REVIEW_PAY_SKIP_BPS :: int where "REVIEW_PAY_SKIP_BPS = 0"

datatype pay_error = PayValidation string | PayOther string | PayDatabase string

record pay_policy =
  effective_after_event_id :: int
  base_rate_micro_iqd_per_hour :: int
  edit_basis_points :: int
  accept_basis_points :: int
  reject_basis_points :: int
  skip_basis_points :: int

record ledger_entry =
  le_id :: int
  le_entry_id :: utext
  le_entry_key :: utext
  le_policy_version :: utext
  le_review_event_id :: "int option"
  le_work_id :: utext
  le_identity_kind :: utext
  le_reviewer :: utext
  le_segment_id :: utext
  le_source :: utext
  le_action :: utext
  le_effective_decision :: utext
  le_decision_revision :: "int option"
  le_duration_ms :: int
  le_basis_points :: int
  le_entitlement :: int
  le_delta :: int
  le_corrected_entitlement :: int
  le_delta_corrected :: int
  le_reverses :: "utext option"

record pay_settlement =
  st_settlement_id :: utext
  st_policy_version :: utext
  st_reviewer :: utext
  st_from :: int
  st_through :: int
  st_allocated :: int
  st_payout_reference :: utext

record review_event =
  ev_id :: int
  ev_segment_id :: utext
  ev_reviewer :: utext
  ev_action :: utext
  ev_source :: utext
  ev_compensation_action :: "utext option"
  ev_served_revision :: "int option"
  ev_operation_id :: "utext option"

record review_segment =
  rs_id :: utext
  rs_raw_transcript :: utext
  rs_model_version_id :: "utext option"
  rs_audio_content_hash :: "utext option"
  rs_alignment_json :: "utext option"
  rs_duration_ms :: int
  rs_verified :: bool
  rs_human_decision :: "utext option"
  rs_reviewed_by :: "utext option"
  rs_verdict_transcript :: "utext option"
  rs_annotated_transcript :: "utext option"
  rs_review_revision :: int

record pay_tables =
  pay_policies :: "(utext \<times> pay_policy) list"
  ledger :: "ledger_entry list"
  settlements :: "pay_settlement list"
  review_events :: "review_event list"
  effect_events :: "(int \<times> int option) list"
  effect_cutoff :: "int option"
  segments :: "review_segment list"

section \<open>Prices and identities\<close>

definition review_pay_basis_points :: "utext \<Rightarrow> pay_error + int" where
  "review_pay_basis_points action =
     (if action = lit ''edit'' then Inr REVIEW_PAY_EDIT_BPS
      else if action = lit ''accept'' then Inr REVIEW_PAY_ACCEPT_BPS
      else if action = lit ''reject'' then Inr REVIEW_PAY_REJECT_BPS
      else if action = lit ''skip'' \<or> action = lit ''undo'' then Inr REVIEW_PAY_SKIP_BPS
      else Inl (PayValidation ''unsupported compensation action''))"

definition review_pay_entitlement_micro_iqd :: "int \<Rightarrow> int \<Rightarrow> pay_error + int" where
  "review_pay_entitlement_micro_iqd duration_ms basis_points =
     (if duration_ms < 0 \<or> \<not> (0 \<le> basis_points \<and> basis_points \<le> 10000)
      then Inl (PayValidation ''invalid compensation duration or basis points'')
      else
        let value = duration_ms * REVIEW_PAY_BASE_RATE_MICRO_IQD_PER_HOUR;
            numerator = value * basis_points;
            denominator = 3600000 * 10000
        in if \<not> in_i128 value \<or> \<not> in_i128 numerator
           then Inl (PayOther ''review compensation arithmetic overflow'')
           else if numerator mod denominator \<noteq> 0
           then Inl (PayOther ''review compensation policy does not produce exact integer micro-IQD'')
           else checked_i64 (PayOther ''review compensation exceeds the supported integer range'')
             (numerator div denominator))"

definition is_canonical_audio_content_hash :: "utext \<Rightarrow> bool" where
  "is_canonical_audio_content_hash value \<longleftrightarrow>
     length value = 64 \<and> list_all (\<lambda>c. (48 \<le> c \<and> c \<le> 57) \<or> (97 \<le> c \<and> c \<le> 102)) value"

definition canonical_source_span :: "(utext \<Rightarrow> json option) \<Rightarrow> utext option \<Rightarrow> (int \<times> int) option" where
  "canonical_source_span from_str alignment =
     Option.bind alignment (\<lambda>doc. Option.bind (from_str doc) (\<lambda>value.
       Option.bind (Option.bind (json_get (lit ''source_start_ms'') value) json_as_i64) (\<lambda>start_ms.
       Option.bind (Option.bind (json_get (lit ''source_end_ms'') value) json_as_i64) (\<lambda>end_ms.
         if 0 \<le> start_ms \<and> start_ms < end_ms then Some (start_ms, end_ms) else None))))"

definition source_span_matches_duration :: "int \<Rightarrow> int \<Rightarrow> int \<Rightarrow> bool" where
  "source_span_matches_duration start_ms end_ms duration_ms \<longleftrightarrow>
     0 \<le> start_ms \<and> start_ms < end_ms \<and> 0 < duration_ms \<and> \<bar>(end_ms - start_ms) - duration_ms\<bar> \<le> 1"

definition find_segment :: "utext \<Rightarrow> pay_tables \<Rightarrow> review_segment option" where
  "find_segment segment_id t = find (\<lambda>s. rs_id s = segment_id) (segments t)"

definition audio_work_id :: "utext \<Rightarrow> int \<Rightarrow> int \<Rightarrow> utext" where
  "audio_work_id hash start_ms end_ms =
     lit ''audio-segment-v1:'' @ hash @ lit '':'' @ lit (show_int start_ms) @ lit '':'' @ lit (show_int end_ms)"

definition compensation_audio_identity ::
  "(utext \<Rightarrow> json option) \<Rightarrow> utext \<Rightarrow> pay_tables \<Rightarrow> pay_error + (utext \<times> utext \<times> int)" where
  "compensation_audio_identity from_str segment_id t =
     (case find_segment segment_id t of
        None \<Rightarrow> Inl (PayDatabase ''query returned no rows'')
      | Some s \<Rightarrow>
          if rs_duration_ms s \<le> 0
          then Inl (PayValidation ''review compensation refused: non-positive duration'')
          else case rs_audio_content_hash s of
            None \<Rightarrow> Inl (PayValidation ''review compensation refused: no content hash and source span'')
          | Some hash \<Rightarrow>
              if \<not> is_canonical_audio_content_hash hash
              then Inl (PayValidation ''review compensation refused: no canonical PCM content hash'')
              else case canonical_source_span from_str (rs_alignment_json s) of
                None \<Rightarrow> Inl (PayValidation ''review compensation refused: no content hash and source span'')
              | Some (start_ms, end_ms) \<Rightarrow>
                  if \<not> source_span_matches_duration start_ms end_ms (rs_duration_ms s)
                  then Inl (PayValidation ''review compensation refused: source span disagrees'')
                  else Inr (audio_work_id hash start_ms end_ms,
                            lit ''audio_content_hash+source_span'', rs_duration_ms s))"

definition reviewer_work_id :: "utext \<Rightarrow> utext \<Rightarrow> utext" where
  "reviewer_work_id key audio =
     lit ''reviewer-work-v1:'' @ lit (show_nat (utf8_len key)) @ lit '':'' @ key @ lit '':'' @ audio"

definition verify_review_pay_policy :: "pay_tables \<Rightarrow> pay_error + int" where
  "verify_review_pay_policy t =
     (case map_of (pay_policies t) REVIEW_PAY_POLICY_VERSION of
        None \<Rightarrow> Inl (PayDatabase ''query returned no rows'')
      | Some r \<Rightarrow>
          if (base_rate_micro_iqd_per_hour r, edit_basis_points r, accept_basis_points r,
              reject_basis_points r, skip_basis_points r) \<noteq>
             (REVIEW_PAY_BASE_RATE_MICRO_IQD_PER_HOUR, REVIEW_PAY_EDIT_BPS, REVIEW_PAY_ACCEPT_BPS,
              REVIEW_PAY_REJECT_BPS, REVIEW_PAY_SKIP_BPS)
          then Inl (PayOther ''review compensation policy row disagrees with certified binary'')
          else Inr (effective_after_event_id r))"

section \<open>Reading and writing the ledger\<close>

text \<open>SQLite's \<open>SUM\<close> over an integer column fails as soon as a partial sum leaves the 64-bit range.\<close>

fun sql_sum :: "int \<Rightarrow> int list \<Rightarrow> pay_error + int" where
  "sql_sum acc [] = Inr acc"
| "sql_sum acc (x # xs) =
     (if in_i64 (acc + x) then sql_sum (acc + x) xs else Inl (PayDatabase ''integer overflow''))"

definition work_rows :: "utext \<Rightarrow> utext \<Rightarrow> pay_tables \<Rightarrow> ledger_entry list" where
  "work_rows policy work t =
     filter (\<lambda>e. le_policy_version e = policy \<and> le_work_id e = work) (ledger t)"

definition next_ledger_id :: "pay_tables \<Rightarrow> int" where
  "next_ledger_id t = foldr max (map le_id (ledger t)) 0 + 1"

text \<open>The trigger \<open>review_compensation_v60_served_revision_validate_insert\<close>.\<close>

definition keeps_served_revision :: "ledger_entry \<Rightarrow> pay_tables \<Rightarrow> bool" where
  "keeps_served_revision e t \<longleftrightarrow>
     (case le_review_event_id e of
        None \<Rightarrow> True
      | Some i \<Rightarrow>
          list_ex (\<lambda>v. ev_id v = i \<and> (case effect_cutoff t of None \<Rightarrow> False | Some c \<Rightarrow> c < ev_id v) \<and>
              (ev_source v = lit ''couch_spot_check'' \<or>
               ev_source v = lit ''couch'' \<and>
                 (case ev_compensation_action v of None \<Rightarrow> ev_action v | Some a \<Rightarrow> a) = lit ''skip''))
            (review_events t) \<longrightarrow>
          list_ex (\<lambda>v. ev_id v = i \<and> ev_served_revision v = le_decision_revision e) (review_events t))"

text \<open>The column checks, unique indexes and foreign keys of \<open>review_compensation_ledger\<close>.\<close>

definition ledger_row_ok :: "ledger_entry \<Rightarrow> pay_tables \<Rightarrow> bool" where
  "ledger_row_ok e t \<longleftrightarrow>
     le_entry_id e \<notin> set (map le_entry_id (ledger t)) \<and>
     le_entry_key e \<notin> set (map le_entry_key (ledger t)) \<and>
     (le_review_event_id e \<noteq> None \<longrightarrow>
        le_review_event_id e \<notin> set (map le_review_event_id (ledger t)) \<and>
        le_review_event_id e \<in> set (map (Some \<circ> ev_id) (review_events t))) \<and>
     (le_reverses e \<noteq> None \<longrightarrow>
        le_reverses e \<notin> set (map le_reverses (ledger t)) \<and>
        le_reverses e \<in> set (map (Some \<circ> le_entry_id) (ledger t))) \<and>
     le_policy_version e \<in> set (map fst (pay_policies t)) \<and>
     le_action e \<in> {lit ''accept'', lit ''edit'', lit ''reject'', lit ''skip'', lit ''undo''} \<and>
     0 \<le> le_duration_ms e \<and> 0 \<le> le_basis_points e \<and> le_basis_points e \<le> 10000 \<and>
     0 \<le> le_entitlement e \<and> 0 \<le> le_corrected_entitlement e \<and> keeps_served_revision e t"

definition insert_ledger :: "ledger_entry \<Rightarrow> pay_tables \<Rightarrow> pay_error + pay_tables" where
  "insert_ledger e t =
     (if ledger_row_ok e t then Inr (t\<lparr>ledger := ledger t @ [e\<lparr>le_id := next_ledger_id t\<rparr>]\<rparr>)
      else Inl (PayDatabase ''constraint failed''))"

definition corrected_entitlement_ms :: "utext \<Rightarrow> int \<Rightarrow> int \<Rightarrow> pay_error + int" where
  "corrected_entitlement_ms action duration_ms prior_corrected =
     (if action = lit ''edit'' then Inr duration_ms
      else if action = lit ''accept'' \<or> action = lit ''reject'' then Inr 0
      else if action = lit ''skip'' then Inr prior_corrected
      else Inl (PayValidation ''unsupported corrected-audio action''))"

definition append_review_compensation_entry ::
  "(utext \<Rightarrow> utext) \<Rightarrow> (utext \<Rightarrow> json option) \<Rightarrow> utext \<Rightarrow> utext \<Rightarrow> int option \<Rightarrow> utext \<Rightarrow> utext \<Rightarrow> utext \<Rightarrow>
   utext \<Rightarrow> utext \<Rightarrow> int option \<Rightarrow> pay_tables \<Rightarrow> pay_error + pay_tables" where
  "append_review_compensation_entry lower from_str uuid entry_key event segment_id reviewer source
       action effective revision t =
     and_then (review_pay_basis_points action) (\<lambda>basis_points.
     and_then (compensation_audio_identity from_str segment_id t) (\<lambda>(audio, kind, duration_ms).
     let key = lower (trim reviewer) in
     and_then (require (key \<noteq> []) (PayValidation ''review compensation requires a named reviewer'')) (\<lambda>_.
     let work = reviewer_work_id key audio; rows = work_rows REVIEW_PAY_POLICY_VERSION work t in
     and_then (sql_sum 0 (map le_delta rows)) (\<lambda>prior_entitlement.
     and_then (sql_sum 0 (map le_delta_corrected rows)) (\<lambda>prior_corrected.
     and_then (require (0 \<le> prior_corrected)
       (PayOther ''review compensation corrected-audio balance is negative'')) (\<lambda>_.
     and_then (review_pay_entitlement_micro_iqd duration_ms basis_points) (\<lambda>entitlement.
     and_then (if action = lit ''skip'' then Inr 0
               else checked_i64 (PayOther ''review compensation adjustment overflow'')
                 (entitlement - prior_entitlement)) (\<lambda>delta.
     and_then (corrected_entitlement_ms action duration_ms prior_corrected) (\<lambda>corrected.
     and_then (checked_i64 (PayOther ''corrected-audio adjustment overflow'')
               (corrected - prior_corrected)) (\<lambda>delta_corrected.
     insert_ledger
       \<lparr>le_id = 0, le_entry_id = uuid, le_entry_key = entry_key,
        le_policy_version = REVIEW_PAY_POLICY_VERSION, le_review_event_id = event, le_work_id = work,
        le_identity_kind = kind, le_reviewer = reviewer, le_segment_id = segment_id,
        le_source = source, le_action = action, le_effective_decision = effective,
        le_decision_revision = revision, le_duration_ms = duration_ms,
        le_basis_points = basis_points, le_entitlement = entitlement, le_delta = delta,
        le_corrected_entitlement = corrected, le_delta_corrected = delta_corrected,
        le_reverses = None\<rparr> t))))))))))"

definition append_review_compensation ::
  "(utext \<Rightarrow> utext) \<Rightarrow> (utext \<Rightarrow> json option) \<Rightarrow> utext \<Rightarrow> int \<Rightarrow> utext \<Rightarrow> utext \<Rightarrow> utext \<Rightarrow>
   utext \<Rightarrow> utext \<Rightarrow> int option \<Rightarrow> pay_tables \<Rightarrow> pay_error + pay_tables" where
  "append_review_compensation lower from_str uuid event segment_id reviewer source action effective revision t =
     and_then (verify_review_pay_policy t) (\<lambda>cutoff.
     and_then (require (cutoff < event)
       (PayOther ''new review event did not fall after policy cutoff'')) (\<lambda>_.
     append_review_compensation_entry lower from_str uuid
       (lit ''review-event:'' @ lit (show_int event)) (Some event) segment_id reviewer source action
       effective revision t))"

definition pool_entry_key :: "int \<Rightarrow> utext" where
  "pool_entry_key decision = lit ''pool-decision:'' @ lit (show_int decision)"

definition append_review_pool_compensation ::
  "(utext \<Rightarrow> utext) \<Rightarrow> (utext \<Rightarrow> json option) \<Rightarrow> utext \<Rightarrow> int \<Rightarrow> utext \<Rightarrow> utext \<Rightarrow> utext \<Rightarrow> int \<Rightarrow>
   pay_tables \<Rightarrow> pay_error + pay_tables" where
  "append_review_pool_compensation lower from_str uuid decision segment_id reviewer action revision t =
     and_then (require (0 < decision)
       (PayValidation ''pool compensation requires a committed pool decision id'')) (\<lambda>_.
     and_then (verify_review_pay_policy t) (\<lambda>_.
     append_review_compensation_entry lower from_str uuid (pool_entry_key decision) None segment_id
       reviewer (lit ''couch_pool'') action action (Some revision) t))"

section \<open>Undo\<close>

definition is_reversed :: "ledger_entry \<Rightarrow> pay_tables \<Rightarrow> bool" where
  "is_reversed e t \<longleftrightarrow> list_ex (\<lambda>r. le_reverses r = Some (le_entry_id e)) (ledger t)"

text \<open>\<open>ORDER BY id DESC LIMIT 1\<close>.\<close>

fun newest :: "ledger_entry list \<Rightarrow> ledger_entry option" where
  "newest [] = None"
| "newest (e # es) =
     (case newest es of None \<Rightarrow> Some e | Some f \<Rightarrow> if le_id e < le_id f then Some f else Some e)"

definition latest_unreversed ::
  "(ledger_entry \<Rightarrow> bool) \<Rightarrow> utext \<Rightarrow> utext \<Rightarrow> pay_tables \<Rightarrow> utext option" where
  "latest_unreversed candidate policy work t =
     map_option le_entry_id
       (newest (filter (\<lambda>e. candidate e \<and> le_reverses e = None \<and> \<not> is_reversed e t)
         (work_rows policy work t)))"

text \<open>The inverse entry of an original one: its signed deltas negated, nothing recomputed.\<close>

definition append_reversal ::
  "(ledger_entry \<Rightarrow> bool) \<Rightarrow> utext \<Rightarrow> utext \<Rightarrow> utext \<Rightarrow> ledger_entry \<Rightarrow> pay_tables \<Rightarrow> pay_error + pay_tables" where
  "append_reversal candidate uuid entry_key source orig t =
     and_then (require (latest_unreversed candidate (le_policy_version orig) (le_work_id orig) t =
                Some (le_entry_id orig))
       (PayValidation ''undo refused: a newer active entitlement mutation owns this work'')) (\<lambda>_.
     and_then (sql_sum 0 (map le_delta_corrected
                (work_rows (le_policy_version orig) (le_work_id orig) t))) (\<lambda>current_corrected.
     and_then (checked_i64 (PayOther ''reversal overflow'') (- le_delta orig)) (\<lambda>reversal_delta.
     and_then (checked_i64 (PayOther ''corrected-audio reversal overflow'') (- le_delta_corrected orig))
       (\<lambda>reversal_corrected.
     and_then (checked_i64 (PayOther ''corrected-audio reversal balance overflow'')
       (current_corrected + reversal_corrected)) (\<lambda>corrected.
     and_then (require (0 \<le> corrected) (PayOther ''reversal would produce a negative entitlement'')) (\<lambda>_.
     insert_ledger
       \<lparr>le_id = 0, le_entry_id = uuid, le_entry_key = entry_key,
        le_policy_version = le_policy_version orig, le_review_event_id = None,
        le_work_id = le_work_id orig, le_identity_kind = le_identity_kind orig,
        le_reviewer = le_reviewer orig, le_segment_id = le_segment_id orig, le_source = source,
        le_action = lit ''undo'', le_effective_decision = lit ''undo'',
        le_decision_revision = le_decision_revision orig, le_duration_ms = le_duration_ms orig,
        le_basis_points = 0, le_entitlement = 0, le_delta = reversal_delta,
        le_corrected_entitlement = corrected, le_delta_corrected = reversal_corrected,
        le_reverses = Some (le_entry_id orig)\<rparr> t))))))"

definition append_review_pool_compensation_reversal ::
  "utext \<Rightarrow> int \<Rightarrow> utext \<Rightarrow> pay_tables \<Rightarrow> pay_error + pay_tables" where
  "append_review_pool_compensation_reversal uuid decision operation_id t =
     and_then (verify_review_pay_policy t) (\<lambda>_.
     let reversal_key = lit ''undo:'' @ operation_id in
     if list_ex (\<lambda>e. le_entry_key e = reversal_key) (ledger t) then Inr t
     else case find (\<lambda>e. le_entry_key e = pool_entry_key decision \<and> le_reverses e = None) (ledger t) of
       None \<Rightarrow> Inr t
     | Some orig \<Rightarrow> append_reversal (\<lambda>_. True) uuid reversal_key (lit ''couch_pool_undo'') orig t)"

definition append_review_compensation_reversal_for_effect ::
  "utext \<Rightarrow> int \<Rightarrow> utext \<Rightarrow> pay_tables \<Rightarrow> pay_error + pay_tables" where
  "append_review_compensation_reversal_for_effect uuid effect_id operation_id t =
     and_then (verify_review_pay_policy t) (\<lambda>_.
     case Option.bind (map_of (effect_events t) effect_id) (\<lambda>event.
            find (\<lambda>e. event \<noteq> None \<and> le_review_event_id e = event \<and> le_reverses e = None) (ledger t)) of
       None \<Rightarrow> Inl (PayDatabase ''query returned no rows'')
     | Some orig \<Rightarrow>
         if le_decision_revision orig = None then Inl (PayDatabase ''invalid column type'')
         else if le_policy_version orig \<noteq> REVIEW_PAY_POLICY_VERSION \<or>
             le_identity_kind orig \<noteq> lit ''audio_content_hash+source_span'' \<or> le_duration_ms orig \<le> 0
         then Inl (PayValidation ''phone undo refused: original compensation identity is not canonical'')
         else append_reversal (\<lambda>e. le_review_event_id e \<noteq> None) uuid (lit ''undo:'' @ operation_id)
           (lit ''couch_undo'') orig t)"

section \<open>Settlements and the balance projection\<close>

definition reviewer_rows :: "utext \<Rightarrow> pay_tables \<Rightarrow> ledger_entry list" where
  "reviewer_rows reviewer t =
     filter (\<lambda>e. le_policy_version e = REVIEW_PAY_POLICY_VERSION \<and> eq_nocase (le_reviewer e) reviewer)
       (ledger t)"

definition reviewer_settlements :: "utext \<Rightarrow> pay_tables \<Rightarrow> pay_settlement list" where
  "reviewer_settlements reviewer t =
     filter (\<lambda>s. st_policy_version s = REVIEW_PAY_POLICY_VERSION \<and> eq_nocase (st_reviewer s) reviewer)
       (settlements t)"

definition settled_boundary :: "utext \<Rightarrow> pay_tables \<Rightarrow> int" where
  "settled_boundary reviewer t =
     (case map st_through (reviewer_settlements reviewer t) of [] \<Rightarrow> 0 | x # xs \<Rightarrow> foldr max xs x)"

definition range_rows :: "utext \<Rightarrow> int \<Rightarrow> int \<Rightarrow> pay_tables \<Rightarrow> ledger_entry list" where
  "range_rows reviewer from_id through_id t =
     filter (\<lambda>e. from_id < le_id e \<and> le_id e \<le> through_id) (reviewer_rows reviewer t)"

text \<open>The column checks and the trigger of \<open>review_compensation_settlements\<close>.\<close>

definition settlement_row_ok :: "pay_settlement \<Rightarrow> pay_tables \<Rightarrow> bool" where
  "settlement_row_ok s t \<longleftrightarrow>
     st_settlement_id s \<notin> set (map st_settlement_id (settlements t)) \<and>
     st_payout_reference s \<notin> set (map st_payout_reference (settlements t)) \<and>
     sql_trim (st_reviewer s) \<noteq> [] \<and> sql_trim (st_payout_reference s) \<noteq> [] \<and>
     0 \<le> st_from s \<and> st_from s < st_through s \<and>
     st_from s = settled_boundary (st_reviewer s) t \<and>
     st_through s \<le> foldr max (map le_id (filter (\<lambda>e. le_policy_version e = st_policy_version s) (ledger t))) 0 \<and>
     range_rows (st_reviewer s) (st_from s) (st_through s) t \<noteq> [] \<and>
     st_allocated s = sum_list (map le_delta (range_rows (st_reviewer s) (st_from s) (st_through s) t)) \<and>
     list_all (\<lambda>p. \<not> (st_policy_version p = st_policy_version s \<and> eq_nocase (st_reviewer p) (st_reviewer s) \<and>
        st_through p = st_through s)) (settlements t)"

definition record_review_compensation_settlement ::
  "utext \<Rightarrow> utext \<Rightarrow> int \<Rightarrow> utext \<Rightarrow> pay_tables \<Rightarrow> pay_error + (pay_settlement \<times> pay_tables)" where
  "record_review_compensation_settlement uuid reviewer_arg through_id payout_arg t =
     (let reviewer = trim reviewer_arg; payout_reference = trim payout_arg in
      and_then (require (reviewer \<noteq> [] \<and> payout_reference \<noteq> [])
        (PayValidation ''settlement requires reviewer and payout reference'')) (\<lambda>_.
      and_then (verify_review_pay_policy t) (\<lambda>_.
      case find (\<lambda>s. st_payout_reference s = payout_reference) (settlements t) of
        Some existing \<Rightarrow>
          if st_policy_version existing = REVIEW_PAY_POLICY_VERSION \<and>
             eq_nocase (st_reviewer existing) reviewer \<and> st_through existing = through_id
          then Inr (existing, t)
          else Inl (PayValidation ''payout reference is already bound to a different settlement'')
      | None \<Rightarrow>
          let from_id = settled_boundary reviewer t in
          if through_id \<le> from_id
          then Inl (PayValidation ''settlement boundary must exceed prior boundary'')
          else and_then (sql_sum 0 (map le_delta (range_rows reviewer from_id through_id t))) (\<lambda>allocated.
            if range_rows reviewer from_id through_id t = []
            then Inl (PayValidation ''settlement range contains no ledger entries for this reviewer'')
            else
              let s = \<lparr>st_settlement_id = uuid, st_policy_version = REVIEW_PAY_POLICY_VERSION,
                       st_reviewer = reviewer, st_from = from_id, st_through = through_id,
                       st_allocated = allocated, st_payout_reference = payout_reference\<rparr>
              in if settlement_row_ok s t then Inr (s, t\<lparr>settlements := settlements t @ [s]\<rparr>)
                 else Inl (PayDatabase ''constraint failed'')))))"

record pay_summary =
  earned_micro_iqd :: int
  corrected_audio_ms :: int
  settled_micro_iqd :: int
  outstanding_micro_iqd :: int
  legacy_events_pending_reconciliation :: nat
  fallback_identity_entries :: nat

text \<open>Corrected time per piece of work, in order of first appearance (\<open>GROUP BY canonical_work_id\<close>).\<close>

definition corrected_by_work :: "ledger_entry list \<Rightarrow> pay_error + int list" where
  "corrected_by_work rows =
     collect_ok (map (\<lambda>w. sql_sum 0 (map le_delta_corrected (filter (\<lambda>e. le_work_id e = w) rows)))
       (remdups (map le_work_id rows)))"

definition review_compensation_summary :: "utext \<Rightarrow> pay_tables \<Rightarrow> pay_error + pay_summary" where
  "review_compensation_summary reviewer t =
     and_then (verify_review_pay_policy t) (\<lambda>cutoff.
     let rows = reviewer_rows reviewer t in
     and_then (sql_sum 0 (map le_delta rows)) (\<lambda>earned.
     and_then (sql_sum 0 (map st_allocated (reviewer_settlements reviewer t))) (\<lambda>settled.
     and_then (checked_i64 (PayOther ''outstanding balance overflow'') (earned - settled)) (\<lambda>outstanding.
     and_then (corrected_by_work rows) (\<lambda>balances.
     and_then (sql_sum 0 balances) (\<lambda>corrected.
     and_then (require (list_all (\<lambda>x. 0 \<le> x) balances \<and> 0 \<le> corrected)
       (PayOther ''corrected-audio ledger has a negative balance'')) (\<lambda>_.
     Inr \<lparr>earned_micro_iqd = earned, corrected_audio_ms = corrected, settled_micro_iqd = settled,
          outstanding_micro_iqd = outstanding,
          legacy_events_pending_reconciliation =
            length (filter (\<lambda>v. ev_id v \<le> cutoff \<and> eq_nocase (ev_reviewer v) reviewer \<and>
              ev_action v \<in> {lit ''accept'', lit ''edit'', lit ''reject''}) (review_events t)),
          fallback_identity_entries =
            length (filter (\<lambda>e. le_identity_kind e = lit ''segment_id_fallback'') rows)\<rparr>)))))))"

section \<open>Basic facts\<close>

text \<open>The three kinds of entry keys never coincide.\<close>

lemma entry_keys_distinct [simp]:
  "lit ''review-event:'' @ x \<noteq> pool_entry_key d" "pool_entry_key d \<noteq> lit ''review-event:'' @ x"
  "lit ''undo:'' @ x \<noteq> pool_entry_key d" "pool_entry_key d \<noteq> lit ''undo:'' @ x"
  "lit ''undo:'' @ x \<noteq> lit ''review-event:'' @ y" "lit ''review-event:'' @ y \<noteq> lit ''undo:'' @ x"
  by (simp_all add: pool_entry_key_def lit_def)

lemma pool_entry_key_inj [simp]: "pool_entry_key a = pool_entry_key b \<longleftrightarrow> a = b"
  by (simp add: pool_entry_key_def)

lemma sql_sum_Inr: "sql_sum acc xs = Inr y \<Longrightarrow> y = acc + sum_list xs"
  by (induction acc xs rule: sql_sum.induct) (auto split: if_splits)

lemma priced_actions:
  "review_pay_basis_points action = Inr bps \<Longrightarrow> bps \<in> {0, 1000, 10000}"
  by (auto simp: review_pay_basis_points_def REVIEW_PAY_EDIT_BPS_def REVIEW_PAY_ACCEPT_BPS_def
      REVIEW_PAY_REJECT_BPS_def REVIEW_PAY_SKIP_BPS_def split: if_splits)

lemma keeps_served_revision_id [simp]:
  "keeps_served_revision (e\<lparr>le_id := i\<rparr>) t = keeps_served_revision e t"
  by (cases "le_review_event_id e") (simp_all add: keeps_served_revision_def)

lemma ledger_row_ok_id [simp]: "ledger_row_ok (e\<lparr>le_id := i\<rparr>) t = ledger_row_ok e t"
  by (simp add: ledger_row_ok_def)

lemma insert_ledger_Inr:
  "insert_ledger e t = Inr t' \<longleftrightarrow>
   ledger_row_ok e t \<and> t' = t\<lparr>ledger := ledger t @ [e\<lparr>le_id := next_ledger_id t\<rparr>]\<rparr>"
  by (auto simp: insert_ledger_def)

text \<open>What a successful credit appends.\<close>

definition is_credit :: "ledger_entry \<Rightarrow> pay_tables \<Rightarrow> bool" where
  "is_credit e t \<longleftrightarrow>
     ledger_row_ok e t \<and> le_id e = next_ledger_id t \<and> le_reverses e = None \<and>
     le_policy_version e = REVIEW_PAY_POLICY_VERSION \<and>
     le_action e \<in> {lit ''accept'', lit ''edit'', lit ''reject'', lit ''skip''} \<and>
     review_pay_entitlement_micro_iqd (le_duration_ms e) (le_basis_points e) = Inr (le_entitlement e) \<and>
     review_pay_basis_points (le_action e) = Inr (le_basis_points e) \<and>
     le_delta e = (if le_action e = lit ''skip'' then 0 else le_entitlement e -
       sum_list (map le_delta (work_rows REVIEW_PAY_POLICY_VERSION (le_work_id e) t))) \<and>
     le_delta_corrected e = le_corrected_entitlement e -
       sum_list (map le_delta_corrected (work_rows REVIEW_PAY_POLICY_VERSION (le_work_id e) t)) \<and>
     (le_action e = lit ''skip'' \<longrightarrow> le_delta_corrected e = 0)"

lemma corrected_entitlement_cases:
  assumes "corrected_entitlement_ms action d prior = Inr c"
  shows "action \<in> {lit ''accept'', lit ''edit'', lit ''reject'', lit ''skip''} \<and>
    (action = lit ''skip'' \<longrightarrow> c = prior)"
  using assms by (auto simp: corrected_entitlement_ms_def split: if_splits)

lemma append_entry_cases:
  assumes "append_review_compensation_entry lower from_str uuid key event segment_id reviewer source
    action effective revision t = Inr t'"
  obtains e where "t' = t\<lparr>ledger := ledger t @ [e]\<rparr>" and "is_credit e t"
    and "le_entry_key e = key" and "le_entry_id e = uuid" and "le_review_event_id e = event"
    and "le_reviewer e = reviewer" and "le_segment_id e = segment_id" and "le_action e = action"
proof -
  obtain bps audio kind d prior prior_c ent delta c dc where
    bps: "review_pay_basis_points action = Inr bps" and
    ident: "compensation_audio_identity from_str segment_id t = Inr (audio, kind, d)" and
    sums: "sql_sum 0 (map le_delta (work_rows REVIEW_PAY_POLICY_VERSION
        (reviewer_work_id (lower (trim reviewer)) audio) t)) = Inr prior"
      "sql_sum 0 (map le_delta_corrected (work_rows REVIEW_PAY_POLICY_VERSION
        (reviewer_work_id (lower (trim reviewer)) audio) t)) = Inr prior_c" and
    ent: "review_pay_entitlement_micro_iqd d bps = Inr ent" and
    delta: "(if action = lit ''skip'' then Inr 0 else checked_i64
        (PayOther ''review compensation adjustment overflow'') (ent - prior)) = Inr delta" and
    c: "corrected_entitlement_ms action d prior_c = Inr c" and
    dc: "dc = c - prior_c" and
    ins: "insert_ledger
       \<lparr>le_id = 0, le_entry_id = uuid, le_entry_key = key,
        le_policy_version = REVIEW_PAY_POLICY_VERSION, le_review_event_id = event,
        le_work_id = reviewer_work_id (lower (trim reviewer)) audio,
        le_identity_kind = kind, le_reviewer = reviewer, le_segment_id = segment_id,
        le_source = source, le_action = action, le_effective_decision = effective,
        le_decision_revision = revision, le_duration_ms = d,
        le_basis_points = bps, le_entitlement = ent, le_delta = delta,
        le_corrected_entitlement = c, le_delta_corrected = dc, le_reverses = None\<rparr> t = Inr t'"
    using assms unfolding append_review_compensation_entry_def Let_def and_then_eq_Inr_iff
    by (auto simp: and_then_eq_Inr_iff)
  show thesis
    using ins corrected_entitlement_cases [OF c] bps ent delta dc sums [THEN sql_sum_Inr]
    unfolding insert_ledger_Inr
    by (intro that [where e = "\<lparr>le_id = next_ledger_id t, le_entry_id = uuid, le_entry_key = key,
        le_policy_version = REVIEW_PAY_POLICY_VERSION, le_review_event_id = event,
        le_work_id = reviewer_work_id (lower (trim reviewer)) audio,
        le_identity_kind = kind, le_reviewer = reviewer, le_segment_id = segment_id,
        le_source = source, le_action = action, le_effective_decision = effective,
        le_decision_revision = revision, le_duration_ms = d,
        le_basis_points = bps, le_entitlement = ent, le_delta = delta,
        le_corrected_entitlement = c, le_delta_corrected = dc, le_reverses = None\<rparr>"])
      (auto simp: is_credit_def ledger_row_ok_def keeps_served_revision_def split: if_splits)
qed

lemma append_reversal_cases:
  assumes "append_reversal candidate uuid key source orig t = Inr t'"
  obtains r where "t' = t\<lparr>ledger := ledger t @ [r]\<rparr>" and "ledger_row_ok r t"
    and "le_id r = next_ledger_id t" and "le_reverses r = Some (le_entry_id orig)"
    and "le_policy_version r = le_policy_version orig" and "le_work_id r = le_work_id orig"
    and "le_delta r = - le_delta orig" and "le_delta_corrected r = - le_delta_corrected orig"
    and "le_entry_key r = key" and "le_entry_id r = uuid" and "le_review_event_id r = None"
    and "le_reviewer r = le_reviewer orig"
    and "latest_unreversed candidate (le_policy_version orig) (le_work_id orig) t = Some (le_entry_id orig)"
proof -
  obtain r where "insert_ledger r t = Inr t'" and "le_reverses r = Some (le_entry_id orig)"
    and "le_policy_version r = le_policy_version orig" and "le_work_id r = le_work_id orig"
    and "le_delta r = - le_delta orig" and "le_delta_corrected r = - le_delta_corrected orig"
    and "le_entry_key r = key" and "le_entry_id r = uuid" and "le_review_event_id r = None"
    and "le_reviewer r = le_reviewer orig"
    and "latest_unreversed candidate (le_policy_version orig) (le_work_id orig) t = Some (le_entry_id orig)"
    using assms unfolding append_reversal_def by (fastforce simp: and_then_eq_Inr_iff)
  then show thesis
    unfolding insert_ledger_Inr by (intro that [where r = "r\<lparr>le_id := next_ledger_id t\<rparr>"]) auto
qed

section \<open>The ledger invariant\<close>

text \<open>
  The active credits of a piece of work are its entries that are not undone. They form a stack: each
  brings the money balance to its own entitlement (a skip leaves it alone) and the corrected-time
  balance to its own corrected entitlement.
\<close>

definition active_credits :: "utext \<Rightarrow> pay_tables \<Rightarrow> ledger_entry list" where
  "active_credits work t =
     filter (\<lambda>e. le_reverses e = None \<and> \<not> is_reversed e t) (work_rows REVIEW_PAY_POLICY_VERSION work t)"

fun credit_chain :: "int \<Rightarrow> int \<Rightarrow> ledger_entry list \<Rightarrow> bool" where
  "credit_chain b c [] \<longleftrightarrow> True"
| "credit_chain b c (e # es) \<longleftrightarrow>
     le_delta e = (if le_action e = lit ''skip'' then 0 else le_entitlement e - b) \<and>
     le_delta_corrected e = le_corrected_entitlement e - c \<and>
     (le_action e = lit ''skip'' \<longrightarrow> le_delta_corrected e = 0) \<and>
     0 \<le> le_entitlement e \<and> 0 \<le> le_corrected_entitlement e \<and>
     credit_chain (b + le_delta e) (c + le_delta_corrected e) es"

text \<open>The balance a reviewer is owed for a piece of work: that of the last credit that is no skip.\<close>

definition owed :: "ledger_entry list \<Rightarrow> int" where
  "owed es = (case filter (\<lambda>e. le_action e \<noteq> lit ''skip'') (rev es) of [] \<Rightarrow> 0 | e # _ \<Rightarrow> le_entitlement e)"

definition corrected_time :: "ledger_entry list \<Rightarrow> int" where
  "corrected_time es = (case rev es of [] \<Rightarrow> 0 | e # _ \<Rightarrow> le_corrected_entitlement e)"

definition ledger_ok :: "pay_tables \<Rightarrow> bool" where
  "ledger_ok t \<longleftrightarrow>
     sorted_wrt (<) (map le_id (ledger t)) \<and> distinct (map le_entry_id (ledger t)) \<and>
     (\<forall>e \<in> set (ledger t). le_policy_version e = REVIEW_PAY_POLICY_VERSION) \<and>
     (\<forall>r \<in> set (ledger t). \<forall>x. le_reverses r = Some x \<longrightarrow> x \<in> le_entry_id ` set (ledger t)) \<and>
     (\<forall>work. credit_chain 0 0 (active_credits work t) \<and>
        sum_list (map le_delta (work_rows REVIEW_PAY_POLICY_VERSION work t)) =
          sum_list (map le_delta (active_credits work t)) \<and>
        sum_list (map le_delta_corrected (work_rows REVIEW_PAY_POLICY_VERSION work t)) =
          sum_list (map le_delta_corrected (active_credits work t)))"

lemma credit_chain_append:
  "credit_chain b c (xs @ ys) \<longleftrightarrow> credit_chain b c xs \<and>
     credit_chain (b + sum_list (map le_delta xs)) (c + sum_list (map le_delta_corrected xs)) ys"
  by (induction xs arbitrary: b c) (auto simp: add.assoc)

lemma owed_snoc [simp]:
  "owed (es @ [e]) = (if le_action e = lit ''skip'' then owed es else le_entitlement e)"
  by (simp add: owed_def)

lemma corrected_time_snoc [simp]: "corrected_time (es @ [e]) = le_corrected_entitlement e"
  by (simp add: corrected_time_def)

lemma credit_chain_balances:
  assumes "credit_chain 0 0 es"
  shows "sum_list (map le_delta es) = owed es \<and>
    sum_list (map le_delta_corrected es) = corrected_time es \<and> 0 \<le> owed es \<and> 0 \<le> corrected_time es"
  using assms
proof (induction es rule: rev_induct)
  case (snoc e es)
  then show ?case by (auto simp: credit_chain_append)
qed (simp_all add: owed_def corrected_time_def)

lemma next_ledger_id_greater: "e \<in> set (ledger t) \<Longrightarrow> le_id e < next_ledger_id t"
proof -
  have "x \<in> set xs \<Longrightarrow> x \<le> foldr max xs 0" for x :: int and xs
    by (induction xs) auto
  then show "e \<in> set (ledger t) \<Longrightarrow> le_id e < next_ledger_id t"
    by (fastforce simp: next_ledger_id_def)
qed

lemma newest_sorted:
  "sorted_wrt (<) (map le_id es) \<Longrightarrow> newest es = (if es = [] then None else Some (last es))"
proof (induction es)
  case (Cons e es)
  then show ?case by (cases es) auto
qed simp

lemma work_rows_append:
  "work_rows policy work (t\<lparr>ledger := ledger t @ [e]\<rparr>) = work_rows policy work t @
     (if le_policy_version e = policy \<and> le_work_id e = work then [e] else [])"
  by (simp add: work_rows_def)

lemma is_reversed_append:
  "is_reversed f (t\<lparr>ledger := ledger t @ [e]\<rparr>) \<longleftrightarrow>
     is_reversed f t \<or> le_reverses e = Some (le_entry_id f)"
  by (auto simp: is_reversed_def)

lemma work_rows_subset: "e \<in> set (work_rows policy work t) \<Longrightarrow> e \<in> set (ledger t)"
  by (simp add: work_rows_def)

text \<open>A new credit is not yet undone: its identifier is fresh.\<close>

lemma fresh_not_reversed:
  assumes "ledger_ok t" and "ledger_row_ok e t"
  shows "\<not> is_reversed e t"
proof
  assume "is_reversed e t"
  then obtain r where "r \<in> set (ledger t)" and "le_reverses r = Some (le_entry_id e)"
    by (auto simp: is_reversed_def list_ex_iff)
  then have "le_entry_id e \<in> le_entry_id ` set (ledger t)"
    using assms(1) unfolding ledger_ok_def by blast
  then show False using assms(2) by (simp add: ledger_row_ok_def)
qed

lemma active_credits_push:
  assumes "ledger_ok t" and "ledger_row_ok e t" and "le_reverses e = None"
    and "le_policy_version e = REVIEW_PAY_POLICY_VERSION"
  shows "active_credits work (t\<lparr>ledger := ledger t @ [e]\<rparr>) =
    active_credits work t @ (if le_work_id e = work then [e] else [])"
  using fresh_not_reversed [OF assms(1,2)] assms(3,4)
  by (simp add: active_credits_def work_rows_append is_reversed_append)

lemma ledger_ok_credit:
  assumes ok: "ledger_ok t" and "is_credit e t"
  shows "ledger_ok (t\<lparr>ledger := ledger t @ [e]\<rparr>)"
proof -
  have credit: "ledger_row_ok e t" "le_reverses e = None" "le_id e = next_ledger_id t"
    "le_policy_version e = REVIEW_PAY_POLICY_VERSION"
    using assms(2) by (simp_all add: is_credit_def)
  have chain: "credit_chain (sum_list (map le_delta (active_credits (le_work_id e) t)))
      (sum_list (map le_delta_corrected (active_credits (le_work_id e) t))) [e]"
    using assms unfolding ledger_ok_def is_credit_def ledger_row_ok_def by auto
  show ?thesis
    using ok chain credit(2-4) next_ledger_id_greater [of _ t] credit(1)
    unfolding ledger_ok_def active_credits_push [OF ok credit(1,2,4)]
    by (auto simp: sorted_wrt_append credit_chain_append work_rows_append ledger_row_ok_def
        simp del: credit_chain.simps(2))
qed

text \<open>The entry an undo names is the top of its stack when no active credit of the work is newer.\<close>

lemma latest_is_top:
  assumes ok: "ledger_ok t" and "orig \<in> set (ledger t)"
    and "latest_unreversed (\<lambda>_. True) (le_policy_version orig) (le_work_id orig) t = Some (le_entry_id orig)"
  shows "active_credits (le_work_id orig) t \<noteq> [] \<and> last (active_credits (le_work_id orig) t) = orig"
proof -
  let ?es = "active_credits (le_work_id orig) t"
  have sorted: "sorted_wrt (<) (map le_id ?es)"
    using ok unfolding ledger_ok_def active_credits_def work_rows_def filter_filter sorted_wrt_map
    by (blast intro: sorted_wrt_filter)
  have "le_policy_version orig = REVIEW_PAY_POLICY_VERSION"
    using ok assms(2) by (simp add: ledger_ok_def)
  then have "map_option le_entry_id (newest ?es) = Some (le_entry_id orig)"
    using assms(3) by (simp add: latest_unreversed_def active_credits_def)
  then have top: "?es \<noteq> []" "le_entry_id (last ?es) = le_entry_id orig"
    by (auto simp: newest_sorted [OF sorted] split: if_splits)
  have "last ?es \<in> set (ledger t)"
    using last_in_set [OF top(1)] by (auto simp: active_credits_def work_rows_def)
  then have "last ?es = orig"
    using top(2) assms(2) ok by (auto simp: ledger_ok_def distinct_map inj_on_def)
  then show ?thesis using top(1) by simp
qed

lemma active_credits_pop:
  assumes ok: "ledger_ok t" and orig: "orig \<in> set (ledger t)"
    and top: "active_credits (le_work_id orig) t \<noteq> []" "last (active_credits (le_work_id orig) t) = orig"
    and r: "le_reverses r = Some (le_entry_id orig)"
  shows "active_credits work (t\<lparr>ledger := ledger t @ [r]\<rparr>) =
    (if le_work_id orig = work then butlast (active_credits work t) else active_credits work t)"
proof -
  have inj: "f \<in> set (ledger t) \<Longrightarrow> le_entry_id orig = le_entry_id f \<longleftrightarrow> f = orig" for f
    using ok orig by (auto simp: ledger_ok_def distinct_map inj_on_def)
  have "active_credits work (t\<lparr>ledger := ledger t @ [r]\<rparr>) = filter (\<lambda>f. f \<noteq> orig) (active_credits work t)"
    using r by (auto simp: active_credits_def work_rows_append is_reversed_append work_rows_def inj
        intro!: filter_cong)
  moreover have "filter (\<lambda>f. f \<noteq> orig) (active_credits work t) = active_credits work t"
    if "le_work_id orig \<noteq> work"
    using that by (intro filter_True) (auto simp: active_credits_def work_rows_def)
  moreover have "filter (\<lambda>f. f \<noteq> orig) (active_credits (le_work_id orig) t) =
    butlast (active_credits (le_work_id orig) t)"
  proof -
    let ?es = "active_credits (le_work_id orig) t"
    have "distinct (map le_entry_id (ledger t))" using ok by (simp add: ledger_ok_def)
    then have "distinct ?es"
      by (auto simp: active_credits_def work_rows_def distinct_map)
    moreover obtain ys where ys: "?es = ys @ [orig]" using top by (metis append_butlast_last_id)
    ultimately have "\<forall>f \<in> set ys. f \<noteq> orig" by auto
    then show ?thesis unfolding ys by (simp add: filter_True)
  qed
  ultimately show ?thesis by auto
qed

lemma ledger_ok_pop:
  assumes ok: "ledger_ok t" and orig: "orig \<in> set (ledger t)"
    and top: "active_credits (le_work_id orig) t \<noteq> []" "last (active_credits (le_work_id orig) t) = orig"
    and r: "le_reverses r = Some (le_entry_id orig)" "ledger_row_ok r t" "le_id r = next_ledger_id t"
      "le_policy_version r = le_policy_version orig" "le_work_id r = le_work_id orig"
      "le_delta r = - le_delta orig" "le_delta_corrected r = - le_delta_corrected orig"
  shows "ledger_ok (t\<lparr>ledger := ledger t @ [r]\<rparr>)"
proof -
  let ?es = "active_credits (le_work_id orig) t"
  have policy: "le_policy_version r = REVIEW_PAY_POLICY_VERSION"
    using ok orig r(4) by (simp add: ledger_ok_def)
  have split: "?es = butlast ?es @ [orig]" using top by (metis append_butlast_last_id)
  have chain: "credit_chain 0 0 (butlast ?es @ [orig])"
    using ok split unfolding ledger_ok_def by metis
  have sums: "sum_list (map f ?es) = sum_list (map f (butlast ?es)) + f orig" for f :: "ledger_entry \<Rightarrow> int"
    by (subst split) simp
  have head: "sorted_wrt (<) (map le_id (ledger t @ [r]))" "distinct (map le_entry_id (ledger t @ [r]))"
    "\<forall>e \<in> set (ledger t @ [r]). le_policy_version e = REVIEW_PAY_POLICY_VERSION"
    "\<forall>f \<in> set (ledger t @ [r]). \<forall>x. le_reverses f = Some x \<longrightarrow> x \<in> le_entry_id ` set (ledger t @ [r])"
    using ok orig r(1-3) policy next_ledger_id_greater [of _ t]
    by (auto simp: ledger_ok_def ledger_row_ok_def sorted_wrt_append)
  have "credit_chain 0 0 (active_credits work (t\<lparr>ledger := ledger t @ [r]\<rparr>)) \<and>
      sum_list (map le_delta (work_rows REVIEW_PAY_POLICY_VERSION work (t\<lparr>ledger := ledger t @ [r]\<rparr>))) =
        sum_list (map le_delta (active_credits work (t\<lparr>ledger := ledger t @ [r]\<rparr>))) \<and>
      sum_list (map le_delta_corrected (work_rows REVIEW_PAY_POLICY_VERSION work (t\<lparr>ledger := ledger t @ [r]\<rparr>))) =
        sum_list (map le_delta_corrected (active_credits work (t\<lparr>ledger := ledger t @ [r]\<rparr>)))" for work
    using ok chain sums [of le_delta] sums [of le_delta_corrected] r(5-7) policy
    unfolding active_credits_pop [OF ok orig top r(1)] ledger_ok_def
    by (auto simp: work_rows_append credit_chain_append)
  with head show ?thesis unfolding ledger_ok_def by simp
qed

text \<open>Changes of other tables leave the ledger's balances alone.\<close>

lemma ledger_ok_cong: "ledger t' = ledger t \<Longrightarrow> ledger_ok t' = ledger_ok t"
  by (simp add: ledger_ok_def active_credits_def work_rows_def is_reversed_def)

lemma active_credits_cong: "ledger t' = ledger t \<Longrightarrow> active_credits work t' = active_credits work t"
  by (simp add: active_credits_def work_rows_def is_reversed_def)

section \<open>Operations of the ledger\<close>

datatype pay_op =
    Credit utext int utext utext utext utext utext "int option"
  | Pool_Credit utext int utext utext utext int
  | Pool_Undo utext int utext
  | Phone_Undo utext int utext
  | Settle utext utext int utext

fun pay_step ::
  "(utext \<Rightarrow> utext) \<Rightarrow> (utext \<Rightarrow> json option) \<Rightarrow> pay_op \<Rightarrow> pay_tables \<Rightarrow> pay_error + pay_tables" where
  "pay_step lower from_str (Credit uuid event segment_id reviewer source action effective revision) t =
     append_review_compensation lower from_str uuid event segment_id reviewer source action effective revision t"
| "pay_step lower from_str (Pool_Credit uuid decision segment_id reviewer action revision) t =
     append_review_pool_compensation lower from_str uuid decision segment_id reviewer action revision t"
| "pay_step lower from_str (Pool_Undo uuid decision operation_id) t =
     append_review_pool_compensation_reversal uuid decision operation_id t"
| "pay_step lower from_str (Phone_Undo uuid effect_id operation_id) t =
     append_review_compensation_reversal_for_effect uuid effect_id operation_id t"
| "pay_step lower from_str (Settle uuid reviewer through_id payout) t =
     and_then (record_review_compensation_settlement uuid reviewer through_id payout t) (\<lambda>(s, t'). Inr t')"

lemma credit_step_cases:
  assumes "append_review_compensation lower from_str uuid event segment_id reviewer source action effective revision t = Inr t'"
  obtains e where "t' = t\<lparr>ledger := ledger t @ [e]\<rparr>" "is_credit e t" "le_review_event_id e = Some event"
    "le_entry_key e = lit ''review-event:'' @ lit (show_int event)" "le_action e = action" "le_reviewer e = reviewer"
  using assms unfolding append_review_compensation_def
  by (auto simp: and_then_eq_Inr_iff elim!: append_entry_cases)

lemma pool_credit_cases:
  assumes "append_review_pool_compensation lower from_str uuid decision segment_id reviewer action revision t = Inr t'"
  obtains e where "t' = t\<lparr>ledger := ledger t @ [e]\<rparr>" "is_credit e t" "le_review_event_id e = None"
    "le_entry_key e = pool_entry_key decision" "le_action e = action" "le_reviewer e = reviewer"
  using assms unfolding append_review_pool_compensation_def
  by (auto simp: and_then_eq_Inr_iff elim!: append_entry_cases)

lemma pool_undo_cases:
  assumes "append_review_pool_compensation_reversal uuid decision operation_id t = Inr t'"
  obtains (unchanged) "t' = t"
      "(\<exists>e \<in> set (ledger t). le_entry_key e = lit ''undo:'' @ operation_id) \<or>
       (\<forall>e \<in> set (ledger t). le_entry_key e = pool_entry_key decision \<longrightarrow> le_reverses e \<noteq> None)"
  | (undone) orig where "orig \<in> set (ledger t)" "le_entry_key orig = pool_entry_key decision"
      "le_reverses orig = None"
      "append_reversal (\<lambda>_. True) uuid (lit ''undo:'' @ operation_id) (lit ''couch_pool_undo'') orig t = Inr t'"
  using assms unfolding append_review_pool_compensation_reversal_def Let_def and_then_eq_Inr_iff
  by (auto simp: find_None_iff list_ex_iff split: if_splits option.splits dest!: find_SomeD)

lemma phone_undo_cases:
  assumes "append_review_compensation_reversal_for_effect uuid effect_id operation_id t = Inr t'"
  obtains orig event where "map_of (effect_events t) effect_id = Some (Some event)"
    "orig \<in> set (ledger t)" "le_review_event_id orig = Some event" "le_reverses orig = None"
    "append_reversal (\<lambda>e. le_review_event_id e \<noteq> None) uuid (lit ''undo:'' @ operation_id)
       (lit ''couch_undo'') orig t = Inr t'"
  using assms unfolding append_review_compensation_reversal_for_effect_def and_then_eq_Inr_iff
  by (auto simp: bind_eq_Some_conv split: if_splits option.splits dest!: find_SomeD)

section \<open>The work identity\<close>

lemma reviewer_work_id_inj: "reviewer_work_id k a = reviewer_work_id k' a' \<longleftrightarrow> k = k' \<and> a = a'"
proof
  assume "reviewer_work_id k a = reviewer_work_id k' a'"
  then have "lit (show_nat (utf8_len k)) @ 58 # (k @ 58 # a) = lit (show_nat (utf8_len k')) @ 58 # (k' @ 58 # a')"
    by (simp add: reviewer_work_id_def) (simp add: lit_def)
  then have "utf8_len k = utf8_len k'" "k @ 58 # a = k' @ 58 # a'"
    by (simp_all add: split_at_colon)
  then show "k = k' \<and> a = a'" using utf8_prefix_eq by blast
qed simp

lemma audio_work_id_inj:
  assumes "length h = 64" and "length h' = 64"
  shows "audio_work_id h s e = audio_work_id h' s' e' \<longleftrightarrow> h = h' \<and> s = s' \<and> e = e'"
proof
  assume "audio_work_id h s e = audio_work_id h' s' e'"
  then have "h @ 58 # (lit (show_int s) @ 58 # lit (show_int e)) = h' @ 58 # (lit (show_int s') @ 58 # lit (show_int e'))"
    by (simp add: audio_work_id_def) (simp add: lit_def)
  then show "h = h' \<and> s = s' \<and> e = e'" using assms by (simp add: split_at_colon)
qed simp

text \<open>
  The key that decides whether two judgements are the same paid work separates reviewers and
  audio windows: two keys are equal exactly when the folded reviewer name, the audio content hash and
  the two source endpoints are equal, whatever characters (colons included) the name contains.
\<close>
theorem work_identity_exact:
  assumes "is_canonical_audio_content_hash h" and "is_canonical_audio_content_hash h'"
  shows "reviewer_work_id k (audio_work_id h s e) = reviewer_work_id k' (audio_work_id h' s' e') \<longleftrightarrow>
    k = k' \<and> h = h' \<and> s = s' \<and> e = e'"
  using assms unfolding is_canonical_audio_content_hash_def
  by (simp add: reviewer_work_id_inj audio_work_id_inj)

theorem work_identity_exact_witness:
  "reviewer_work_id (lit ''a:1'') (audio_work_id (replicate 64 97) 0 5) \<noteq>
   reviewer_work_id (lit ''a'') (audio_work_id (replicate 64 97) 0 5)"
  using work_identity_exact [of "replicate 64 97" "replicate 64 97" "lit ''a:1''" 0 5 "lit ''a''" 0 5]
  by (simp add: is_canonical_audio_content_hash_def list_all_length)

section \<open>Prices\<close>

text \<open>
  A judgement is priced exactly: for every priced action and every duration a 64-bit integer can
  hold, the entitlement is half the duration times the action's basis points (5000 micro-dinar per
  millisecond for an edit, 500 for an accept or reject, nothing for a skip), never rounded; the only
  failure is a result that leaves the 64-bit range, and the 128-bit intermediate never overflows.
\<close>
theorem entitlement_exact:
  assumes "review_pay_basis_points action = Inr bps" and "0 \<le> d" and "in_i64 d"
  shows "review_pay_entitlement_micro_iqd d bps =
    (if d * (bps div 2) < 2 ^ 63 then Inr (d * (bps div 2))
     else Inl (PayOther ''review compensation exceeds the supported integer range''))"
proof -
  have bps: "bps = 0 \<or> bps = 1000 \<or> bps = 10000" using priced_actions [OF assms(1)] by simp
  have "d < 9223372036854775808" using assms(3) by (simp add: in_i64_def)
  then have range: "in_i128 (d * 18000000000)" "in_i128 (d * 18000000000 * bps)"
    using assms(2) bps by (auto simp: in_i128_def)
  have quotient: "d * 18000000000 * bps = (d * (bps div 2)) * 36000000000" using bps by auto
  have "0 \<le> d * (bps div 2)" using assms(2) bps by auto
  then show ?thesis
    using range assms(2) bps unfolding review_pay_entitlement_micro_iqd_def Let_def
      REVIEW_PAY_BASE_RATE_MICRO_IQD_PER_HOUR_def
    by (auto simp: quotient checked_i64_def in_i64_def)
qed

theorem entitlement_exact_witness:
  "review_pay_entitlement_micro_iqd 1000 10000 = Inr 5000000"
  using entitlement_exact [of "lit ''edit''" 10000 1000]
  by (simp add: review_pay_basis_points_def REVIEW_PAY_EDIT_BPS_def in_i64_def)

section \<open>Balances of a reachable ledger\<close>

text \<open>
  The phone's undo looks for the newest active credit among those with a review event only. The
  entry it undoes is the newest of all when no pool credit of the same work was recorded after it.
\<close>

definition undoes_newest :: "pay_op \<Rightarrow> pay_tables \<Rightarrow> bool" where
  "undoes_newest x t \<longleftrightarrow>
     (case x of
        Phone_Undo uuid effect_id operation_id \<Rightarrow>
          (case Option.bind (map_of (effect_events t) effect_id) (\<lambda>event.
             find (\<lambda>e. event \<noteq> None \<and> le_review_event_id e = event \<and> le_reverses e = None) (ledger t)) of
             None \<Rightarrow> True
           | Some orig \<Rightarrow> latest_unreversed (\<lambda>_. True) (le_policy_version orig) (le_work_id orig) t =
               Some (le_entry_id orig))
      | _ \<Rightarrow> True)"

inductive pay_reachable ::
  "(utext \<Rightarrow> utext) \<Rightarrow> (utext \<Rightarrow> json option) \<Rightarrow> pay_tables \<Rightarrow> bool" for lower from_str where
  fresh: "ledger t = [] \<Longrightarrow> settlements t = [] \<Longrightarrow> pay_reachable lower from_str t"
| step: "pay_reachable lower from_str t \<Longrightarrow> undoes_newest x t \<Longrightarrow> pay_step lower from_str x t = Inr t' \<Longrightarrow>
    pay_reachable lower from_str t'"

lemma settle_cases:
  assumes "record_review_compensation_settlement uuid reviewer through_id payout t = Inr (s, t')"
  obtains (replay) "t' = t" "s \<in> set (settlements t)" "st_payout_reference s = trim payout"
      "st_policy_version s = REVIEW_PAY_POLICY_VERSION" "eq_nocase (st_reviewer s) (trim reviewer)"
      "st_through s = through_id"
  | (new) "t' = t\<lparr>settlements := settlements t @ [s]\<rparr>" "settlement_row_ok s t"
      "st_policy_version s = REVIEW_PAY_POLICY_VERSION" "st_payout_reference s = trim payout"
      "st_reviewer s = trim reviewer" "st_through s = through_id"
      "find (\<lambda>s. st_payout_reference s = trim payout) (settlements t) = None"
proof (cases "find (\<lambda>s. st_payout_reference s = trim payout) (settlements t)")
  case None
  show thesis
    using assms None unfolding record_review_compensation_settlement_def Let_def
    by (intro new) (auto simp: and_then_eq_Inr_iff split: if_splits)
next
  case (Some p)
  show thesis
    using assms Some find_SomeD [OF Some] unfolding record_review_compensation_settlement_def Let_def
    by (intro replay) (auto simp: and_then_eq_Inr_iff split: if_splits)
qed

lemma ledger_ok_reversal:
  assumes "ledger_ok t" and "orig \<in> set (ledger t)"
    and "latest_unreversed (\<lambda>_. True) (le_policy_version orig) (le_work_id orig) t = Some (le_entry_id orig)"
    and "append_reversal candidate uuid key source orig t = Inr t'"
  shows "ledger_ok t'"
  using assms(4)
proof (cases rule: append_reversal_cases)
  case (1 r)
  show ?thesis
    using ledger_ok_pop [OF assms(1,2)] latest_is_top [OF assms(1-3)] 1 by blast
qed

lemma ledger_ok_step:
  assumes ok: "ledger_ok t" and "undoes_newest x t" and "pay_step lower from_str x t = Inr t'"
  shows "ledger_ok t'"
proof (cases x)
  case Credit
  then show ?thesis using assms ledger_ok_credit by (auto elim!: credit_step_cases)
next
  case Pool_Credit
  then show ?thesis using assms ledger_ok_credit by (auto elim!: pool_credit_cases)
next
  case (Pool_Undo uuid decision operation_id)
  then have "append_review_pool_compensation_reversal uuid decision operation_id t = Inr t'"
    using assms(3) by simp
  then show ?thesis
  proof (cases rule: pool_undo_cases)
    case (undone orig)
    then have "latest_unreversed (\<lambda>_. True) (le_policy_version orig) (le_work_id orig) t = Some (le_entry_id orig)"
      by (auto elim!: append_reversal_cases)
    then show ?thesis using ledger_ok_reversal [OF ok] undone by blast
  qed (use ok in simp)
next
  case (Phone_Undo uuid effect_id operation_id)
  then have "append_review_compensation_reversal_for_effect uuid effect_id operation_id t = Inr t'"
    using assms(3) by simp
  then show ?thesis
    using assms(2) Phone_Undo ledger_ok_reversal [OF ok]
    unfolding append_review_compensation_reversal_for_effect_def undoes_newest_def
    by (auto simp: and_then_eq_Inr_iff bind_eq_Some_conv split: if_splits option.splits dest!: find_SomeD)
next
  case Settle
  then show ?thesis
    using assms by (auto simp: and_then_eq_Inr_iff elim!: settle_cases intro: ledger_ok_cong [THEN iffD2])
qed

lemma ledger_ok_empty: "ledger t = [] \<Longrightarrow> ledger_ok t"
  by (simp add: ledger_ok_def active_credits_def work_rows_def)

lemma pay_reachable_ok: "pay_reachable lower from_str t \<Longrightarrow> ledger_ok t"
  by (induction rule: pay_reachable.induct) (auto intro: ledger_ok_empty ledger_ok_step)


text \<open>A table with two rows cut from the same audio window, for concrete runs.\<close>

definition sample_span :: "utext \<Rightarrow> json option" where
  "sample_span doc = Some (JObject [(lit ''source_start_ms'', JInt 0), (lit ''source_end_ms'', JInt 1000)])"

definition sample_row :: "string \<Rightarrow> review_segment" where
  "sample_row i =
     \<lparr>rs_id = lit i, rs_raw_transcript = lit ''draft'', rs_model_version_id = None,
      rs_audio_content_hash = Some (replicate 64 97), rs_alignment_json = Some [], rs_duration_ms = 1000,
      rs_verified = True, rs_human_decision = Some (lit ''accept''), rs_reviewed_by = Some (lit ''sara''),
      rs_verdict_transcript = None, rs_annotated_transcript = None, rs_review_revision = 1\<rparr>"

definition sample_event :: review_event where
  "sample_event =
     \<lparr>ev_id = 1, ev_segment_id = lit ''s1'', ev_reviewer = lit ''sara'', ev_action = lit ''accept'',
      ev_source = lit ''couch'', ev_compensation_action = None, ev_served_revision = Some 0,
      ev_operation_id = None\<rparr>"

definition sample_pay :: pay_tables where
  "sample_pay =
     \<lparr>pay_policies = [(REVIEW_PAY_POLICY_VERSION,
        \<lparr>effective_after_event_id = 0, base_rate_micro_iqd_per_hour = 18000000000,
         edit_basis_points = 10000, accept_basis_points = 1000, reject_basis_points = 1000,
         skip_basis_points = 0\<rparr>)],
      ledger = [], settlements = [], review_events = [sample_event], effect_events = [(1, Some 1)],
      effect_cutoff = None, segments = [sample_row ''s1'', sample_row ''s2'']\<rparr>"

definition sample_work :: utext where
  "sample_work = reviewer_work_id (lit ''sara'') (audio_work_id (replicate 64 97) 0 1000)"

definition sample_credit :: "int \<Rightarrow> string \<Rightarrow> utext \<Rightarrow> int option \<Rightarrow> string \<Rightarrow> string \<Rightarrow> string \<Rightarrow> int option \<Rightarrow>
    int \<Rightarrow> int \<Rightarrow> int \<Rightarrow> int \<Rightarrow> int \<Rightarrow> ledger_entry" where
  "sample_credit i uuid key event segment source action revision bps ent delta c dc =
     \<lparr>le_id = i, le_entry_id = lit uuid, le_entry_key = key, le_policy_version = REVIEW_PAY_POLICY_VERSION,
      le_review_event_id = event, le_work_id = sample_work,
      le_identity_kind = lit ''audio_content_hash+source_span'', le_reviewer = lit ''sara'',
      le_segment_id = lit segment, le_source = lit source, le_action = lit action,
      le_effective_decision = lit action, le_decision_revision = revision, le_duration_ms = 1000,
      le_basis_points = bps, le_entitlement = ent, le_delta = delta, le_corrected_entitlement = c,
      le_delta_corrected = dc, le_reverses = None\<rparr>"

lemma sample_identity:
  "segment \<in> {lit ''s1'', lit ''s2''} \<Longrightarrow> segments t = [sample_row ''s1'', sample_row ''s2''] \<Longrightarrow>
   compensation_audio_identity sample_span segment t =
     Inr (audio_work_id (replicate 64 97) 0 1000, lit ''audio_content_hash+source_span'', 1000)"
  by (auto simp: compensation_audio_identity_def find_segment_def sample_row_def canonical_source_span_def
      sample_span_def json_get_def json_as_i64_def in_i64_def source_span_matches_duration_def
      is_canonical_audio_content_hash_def list_all_length)

lemma sample_policy: "pay_policies t = pay_policies sample_pay \<Longrightarrow> verify_review_pay_policy t = Inr 0"
  by (simp add: verify_review_pay_policy_def sample_pay_def REVIEW_PAY_BASE_RATE_MICRO_IQD_PER_HOUR_def
      REVIEW_PAY_EDIT_BPS_def REVIEW_PAY_ACCEPT_BPS_def REVIEW_PAY_REJECT_BPS_def REVIEW_PAY_SKIP_BPS_def)

lemma sample_pay_segments [simp]: "segments sample_pay = [sample_row ''s1'', sample_row ''s2'']"
  by (simp add: sample_pay_def)

lemma trim_sara: "trim (lit ''sara'') = lit ''sara''"
  by (simp add: trim_def trim_start_def trim_end_def lit_def is_whitespace_def)

lemmas sample_simps = trim_sara review_pay_basis_points_def REVIEW_PAY_EDIT_BPS_def REVIEW_PAY_ACCEPT_BPS_def
  review_pay_entitlement_micro_iqd_def REVIEW_PAY_BASE_RATE_MICRO_IQD_PER_HOUR_def in_i64_def in_i128_def
  checked_i64_def corrected_entitlement_ms_def insert_ledger_def ledger_row_ok_def keeps_served_revision_def
  next_ledger_id_def work_rows_def sample_work_def require_def Let_def

definition sample_accept :: ledger_entry where
  "sample_accept = sample_credit 1 ''e1'' (lit ''review-event:'' @ lit (show_int 1)) (Some 1) ''s1'' ''couch''
     ''accept'' (Some 0) 1000 500000 500000 0 0"

definition sample_edit :: ledger_entry where
  "sample_edit = sample_credit 2 ''e2'' (pool_entry_key 7) None ''s2'' ''couch_pool'' ''edit'' (Some 1)
     10000 5000000 4500000 1000 1000"

lemma sample_phone_credit:
  "append_review_compensation id sample_span (lit ''e1'') 1 (lit ''s1'') (lit ''sara'') (lit ''couch'')
     (lit ''accept'') (lit ''accept'') (Some 0) sample_pay = Inr (sample_pay\<lparr>ledger := [sample_accept]\<rparr>)"
  by (simp add: append_review_compensation_def append_review_compensation_entry_def sample_policy sample_identity)
    (simp add: sample_simps sample_accept_def sample_credit_def sample_event_def sample_pay_def)

lemma sample_pool_credit:
  "append_review_pool_compensation id sample_span (lit ''e2'') 7 (lit ''s2'') (lit ''sara'') (lit ''edit'') 1
     (sample_pay\<lparr>ledger := [sample_accept]\<rparr>) = Inr (sample_pay\<lparr>ledger := [sample_accept, sample_edit]\<rparr>)"
  by (simp add: append_review_pool_compensation_def append_review_compensation_entry_def sample_policy sample_identity)
    (simp add: sample_simps sample_accept_def sample_edit_def sample_credit_def sample_event_def sample_pay_def)

definition sample_paid :: pay_tables where
  "sample_paid = sample_pay\<lparr>ledger := [sample_accept, sample_edit]\<rparr>"

lemma sample_paid_reachable: "pay_reachable id sample_span sample_paid"
proof -
  have "pay_reachable id sample_span sample_pay" by (rule fresh) (simp_all add: sample_pay_def)
  from step [OF this, where x = "Credit (lit ''e1'') 1 (lit ''s1'') (lit ''sara'') (lit ''couch'')
      (lit ''accept'') (lit ''accept'') (Some 0)"]
  have "pay_reachable id sample_span (sample_pay\<lparr>ledger := [sample_accept]\<rparr>)"
    by (simp add: undoes_newest_def sample_phone_credit)
  from step [OF this, where x = "Pool_Credit (lit ''e2'') 7 (lit ''s2'') (lit ''sara'') (lit ''edit'') 1"]
  show ?thesis by (simp add: undoes_newest_def sample_pool_credit sample_paid_def)
qed


definition sample_undo :: ledger_entry where
  "sample_undo = sample_accept\<lparr>le_id := 3, le_entry_id := lit ''e3'', le_entry_key := lit ''undo:'' @ lit ''op'',
     le_review_event_id := None, le_source := lit ''couch_undo'', le_action := lit ''undo'',
     le_effective_decision := lit ''undo'', le_basis_points := 0, le_entitlement := 0, le_delta := - 500000,
     le_corrected_entitlement := 1000, le_delta_corrected := 0, le_reverses := Some (lit ''e1'')\<rparr>"

lemma sample_phone_undo:
  "append_review_compensation_reversal_for_effect (lit ''e3'') 1 (lit ''op'')
     (sample_pay\<lparr>ledger := [sample_accept, sample_edit]\<rparr>) =
   Inr (sample_pay\<lparr>ledger := [sample_accept, sample_edit, sample_undo]\<rparr>)"
  by (simp add: append_review_compensation_reversal_for_effect_def sample_policy)
    (simp add: sample_simps append_reversal_def latest_unreversed_def is_reversed_def
      sample_accept_def sample_edit_def sample_undo_def sample_credit_def sample_pay_def)


section \<open>Settlements\<close>

definition settlements_ok :: "pay_tables \<Rightarrow> bool" where
  "settlements_ok t \<longleftrightarrow> (\<forall>e \<in> set (ledger t). 0 < le_id e) \<and>
     (\<forall>r. 0 \<le> settled_boundary r t \<and> settled_boundary r t < next_ledger_id t \<and>
        sum_list (map st_allocated (reviewer_settlements r t)) =
          sum_list (map le_delta (filter (\<lambda>e. le_id e \<le> settled_boundary r t) (reviewer_rows r t))))"

lemma foldr_max_le_iff: "foldr max xs x \<le> (b :: int) \<longleftrightarrow> x \<le> b \<and> (\<forall>y \<in> set xs. y \<le> b)"
  by (induction xs) auto

lemma settled_boundary_snoc:
  "settled_boundary r (t\<lparr>settlements := settlements t @ [s]\<rparr>) =
     (if st_policy_version s = REVIEW_PAY_POLICY_VERSION \<and> eq_nocase (st_reviewer s) r
      then if reviewer_settlements r t = [] then st_through s else max (st_through s) (settled_boundary r t)
      else settled_boundary r t)"
proof -
  have "foldr max (ys @ [y]) x = max y (foldr max ys x)" for ys and x y :: int
    by (induction ys) auto
  then show ?thesis
    by (auto simp: settled_boundary_def reviewer_settlements_def split: list.splits)
qed

lemma reviewer_rows_cong: "eq_nocase r r' \<Longrightarrow> reviewer_rows r t = reviewer_rows r' t"
  by (simp add: reviewer_rows_def eq_nocase_def)

lemma reviewer_settlements_cong: "eq_nocase r r' \<Longrightarrow> reviewer_settlements r t = reviewer_settlements r' t"
  by (simp add: reviewer_settlements_def eq_nocase_def)

lemma settled_boundary_cong: "eq_nocase r r' \<Longrightarrow> settled_boundary r t = settled_boundary r' t"
  by (simp add: settled_boundary_def reviewer_settlements_cong)

lemma sum_list_split_range:
  fixes f :: "'a \<Rightarrow> int"
  assumes "a \<le> b"
  shows "sum_list (map f (filter (\<lambda>e. g e \<le> b) xs)) =
    sum_list (map f (filter (\<lambda>e. g e \<le> a) xs)) + sum_list (map f (filter (\<lambda>e. a < g e \<and> g e \<le> (b :: int)) xs))"
  using assms by (induction xs) auto

lemma settlements_ok_append:
  assumes "settlements_ok t" and "le_id e = next_ledger_id t"
  shows "settlements_ok (t\<lparr>ledger := ledger t @ [e]\<rparr>)"
proof -
  have boundary: "settled_boundary r (t\<lparr>ledger := ledger t @ [e]\<rparr>) = settled_boundary r t" for r
    by (simp add: settled_boundary_def reviewer_settlements_def)
  have "0 < next_ledger_id t" using foldr_max_le_iff [of "map le_id (ledger t)" 0 "-1"]
    by (simp add: next_ledger_id_def not_le [symmetric])
  moreover have "next_ledger_id t \<le> next_ledger_id (t\<lparr>ledger := ledger t @ [e]\<rparr>)"
    using foldr_max_le_iff [of "map le_id (ledger t)" 0 "foldr max (map le_id (ledger t)) (max (le_id e) 0)"]
      foldr_max_le_iff [of "map le_id (ledger t)" "max (le_id e) 0" "foldr max (map le_id (ledger t)) (max (le_id e) 0)"]
    by (simp add: next_ledger_id_def)
  moreover have "filter (\<lambda>f. le_id f \<le> settled_boundary r t) (reviewer_rows r (t\<lparr>ledger := ledger t @ [e]\<rparr>)) =
      filter (\<lambda>f. le_id f \<le> settled_boundary r t) (reviewer_rows r t)" for r
  proof -
    have "settled_boundary r t < le_id e" using assms by (simp add: settlements_ok_def)
    then show ?thesis by (simp add: reviewer_rows_def)
  qed
  moreover have "reviewer_settlements r (t\<lparr>ledger := ledger t @ [e]\<rparr>) = reviewer_settlements r t" for r
    by (simp add: reviewer_settlements_def)
  ultimately show ?thesis
    using assms unfolding settlements_ok_def boundary by (auto intro: less_le_trans)
qed

lemma settlements_ok_settle:
  assumes ok: "settlements_ok t" and s: "settlement_row_ok s t" "st_policy_version s = REVIEW_PAY_POLICY_VERSION"
  shows "settlements_ok (t\<lparr>settlements := settlements t @ [s]\<rparr>)"
proof -
  let ?t = "t\<lparr>settlements := settlements t @ [s]\<rparr>"
  have rows: "reviewer_rows r ?t = reviewer_rows r t" "next_ledger_id ?t = next_ledger_id t" for r
    by (simp_all add: reviewer_rows_def next_ledger_id_def)
  have through: "settled_boundary (st_reviewer s) t < st_through s" "st_through s < next_ledger_id t"
    using s(1) foldr_max_le_iff [of "map le_id (filter (\<lambda>e. le_policy_version e = st_policy_version s) (ledger t))"
        0 "foldr max (map le_id (ledger t)) 0"] foldr_max_le_iff [of "map le_id (ledger t)" 0 "foldr max (map le_id (ledger t)) 0"]
    by (auto simp: settlement_row_ok_def next_ledger_id_def)
  have "0 \<le> settled_boundary r ?t \<and> settled_boundary r ?t < next_ledger_id t \<and>
      sum_list (map st_allocated (reviewer_settlements r ?t)) =
        sum_list (map le_delta (filter (\<lambda>e. le_id e \<le> settled_boundary r ?t) (reviewer_rows r t)))" for r
  proof (cases "eq_nocase (st_reviewer s) r")
    case True
    then have boundary: "settled_boundary r t = settled_boundary (st_reviewer s) t"
      using settled_boundary_cong by simp
    have new: "settled_boundary r ?t = st_through s"
      using through(1) boundary True s(2) by (simp add: settled_boundary_snoc)
    have "st_allocated s = sum_list (map le_delta (filter (\<lambda>e. settled_boundary r t < le_id e \<and>
        le_id e \<le> st_through s) (reviewer_rows r t)))"
      using s(1) boundary reviewer_rows_cong [OF True] by (simp add: settlement_row_ok_def range_rows_def)
    moreover have "reviewer_settlements r ?t = reviewer_settlements r t @ [s]"
      using True s(2) by (simp add: reviewer_settlements_def)
    moreover have "sum_list (map st_allocated (reviewer_settlements r t)) =
        sum_list (map le_delta (filter (\<lambda>e. le_id e \<le> settled_boundary r t) (reviewer_rows r t)))"
      "0 \<le> settled_boundary r t"
      using ok by (simp_all add: settlements_ok_def)
    moreover have "settled_boundary r t \<le> st_through s" using through(1) boundary by simp
    ultimately show ?thesis
      using through sum_list_split_range [of "settled_boundary r t" "st_through s" le_delta le_id "reviewer_rows r t"]
      unfolding new by simp
  next
    case False
    then have "settled_boundary r ?t = settled_boundary r t" by (simp add: settled_boundary_snoc)
    moreover have "reviewer_settlements r ?t = reviewer_settlements r t"
      using False by (simp add: reviewer_settlements_def)
    ultimately show ?thesis using ok by (simp add: settlements_ok_def)
  qed
  then show ?thesis using ok unfolding settlements_ok_def rows by simp
qed

lemma append_reversal_id:
  "append_reversal candidate uuid key source orig t = Inr t' \<Longrightarrow>
   \<exists>r. t' = t\<lparr>ledger := ledger t @ [r]\<rparr> \<and> le_id r = next_ledger_id t"
  by (erule append_reversal_cases) blast

lemma settlements_ok_step:
  assumes ok: "settlements_ok t" and "pay_step lower from_str x t = Inr t'"
  shows "settlements_ok t'"
proof (cases x)
  case (Settle uuid reviewer through_id payout)
  then show ?thesis
    using assms by (auto simp: and_then_eq_Inr_iff elim!: settle_cases intro: settlements_ok_settle)
next
  case (Pool_Undo uuid decision operation_id)
  then have "append_review_pool_compensation_reversal uuid decision operation_id t = Inr t'"
    using assms(2) by simp
  then show ?thesis
    by (cases rule: pool_undo_cases)
      (use ok settlements_ok_append in \<open>auto dest!: append_reversal_id\<close>)
next
  case (Phone_Undo uuid effect_id operation_id)
  then have "append_review_compensation_reversal_for_effect uuid effect_id operation_id t = Inr t'"
    using assms(2) by simp
  then show ?thesis
    by (cases rule: phone_undo_cases)
      (use settlements_ok_append [OF ok] in \<open>auto dest!: append_reversal_id\<close>)
next
  case Credit
  then show ?thesis
    using assms(2) settlements_ok_append [OF ok] by (auto simp: is_credit_def elim!: credit_step_cases)
next
  case Pool_Credit
  then show ?thesis
    using assms(2) settlements_ok_append [OF ok] by (auto simp: is_credit_def elim!: pool_credit_cases)
qed

lemma settlements_ok_empty: "ledger t = [] \<Longrightarrow> settlements t = [] \<Longrightarrow> settlements_ok t"
  by (simp add: settlements_ok_def settled_boundary_def reviewer_settlements_def reviewer_rows_def next_ledger_id_def)

lemma pay_reachable_settlements: "pay_reachable lower from_str t \<Longrightarrow> settlements_ok t"
  by (induction rule: pay_reachable.induct) (auto intro: settlements_ok_empty settlements_ok_step)

lemma sum_list_split_boundary:
  fixes f :: "'a \<Rightarrow> int"
  shows "sum_list (map f xs) = sum_list (map f (filter (\<lambda>e. g e \<le> (b :: int)) xs)) +
    sum_list (map f (filter (\<lambda>e. b < g e) xs))"
  by (induction xs) auto


text \<open>
  Recording a payout is idempotent: repeating a settlement that succeeded, with the same
  reviewer, boundary and payout reference, returns the original settlement and changes nothing.
\<close>
theorem settlement_replay:
  assumes "record_review_compensation_settlement uuid reviewer through_id payout t = Inr (s, t')"
  shows "record_review_compensation_settlement uuid' reviewer through_id payout t' = Inr (s, t')"
proof -
  have policy: "verify_review_pay_policy (t\<lparr>settlements := x\<rparr>) = verify_review_pay_policy t" for x
    by (simp add: verify_review_pay_policy_def)
  have snoc: "find P xs = None \<Longrightarrow> P x \<Longrightarrow> find P (xs @ [x]) = Some x" for P and xs :: "pay_settlement list" and x
    by (induction xs) (auto split: if_splits)
  from assms show ?thesis
  proof (cases rule: settle_cases)
    case replay
    then show ?thesis
      using assms find_None_iff [of "\<lambda>s. st_payout_reference s = trim payout" "settlements t"]
      unfolding record_review_compensation_settlement_def Let_def
      by (auto simp: and_then_eq_Inr_iff split: option.splits if_splits)
  next
    case new
    then show ?thesis
      using assms snoc [OF new(7), of s] unfolding record_review_compensation_settlement_def Let_def
      by (auto simp: and_then_eq_Inr_iff policy split: if_splits)
  qed
qed

definition sample_settlement :: pay_settlement where
  "sample_settlement =
     \<lparr>st_settlement_id = lit ''u'', st_policy_version = REVIEW_PAY_POLICY_VERSION, st_reviewer = lit ''sara'',
      st_from = 0, st_through = 1, st_allocated = 500000, st_payout_reference = lit ''p1''\<rparr>"

lemma trim_p1: "trim (lit ''p1'') = lit ''p1''"
  by (simp add: trim_def trim_start_def trim_end_def lit_def is_whitespace_def)

lemma sql_trim_samples: "sql_trim (lit ''sara'') \<noteq> []" "sql_trim (lit ''p1'') \<noteq> []"
  by (simp_all add: sql_trim_def lit_def)

lemma sample_reviewer_rows: "reviewer_rows (lit ''sara'') sample_paid = [sample_accept, sample_edit]"
  by (simp add: reviewer_rows_def sample_paid_def sample_accept_def sample_edit_def sample_credit_def)

lemma sample_range: "range_rows (lit ''sara'') 0 1 sample_paid = [sample_accept]"
  unfolding range_rows_def sample_reviewer_rows
  by (simp add: sample_accept_def sample_edit_def sample_credit_def)

lemma sample_settle:
  "record_review_compensation_settlement (lit ''u'') (lit ''sara'') 1 (lit ''p1'') sample_paid =
   Inr (sample_settlement, sample_paid\<lparr>settlements := [sample_settlement]\<rparr>)"
proof -
  have none: "settlements sample_paid = []" by (simp add: sample_paid_def sample_pay_def)
  have boundary: "settled_boundary (lit ''sara'') sample_paid = 0"
    by (simp add: settled_boundary_def reviewer_settlements_def none)
  have allocated: "sql_sum 0 (map le_delta [sample_accept]) = Inr 500000"
    by (simp add: sample_accept_def sample_credit_def in_i64_def)
  have "settlement_row_ok sample_settlement sample_paid"
    unfolding settlement_row_ok_def none
    by (simp add: sample_settlement_def sample_range boundary sql_trim_samples)
      (simp add: sample_paid_def sample_accept_def sample_edit_def sample_credit_def)
  moreover have "verify_review_pay_policy sample_paid = Inr 0"
    by (rule sample_policy) (simp add: sample_paid_def)
  ultimately show ?thesis
    using allocated
    by (simp add: record_review_compensation_settlement_def trim_sara trim_p1 none boundary sample_range
        Let_def require_def sample_settlement_def [symmetric])
qed

theorem settlement_replay_witness:
  "record_review_compensation_settlement (lit ''v'') (lit ''sara'') 1 (lit ''p1'')
     (sample_paid\<lparr>settlements := [sample_settlement]\<rparr>) =
   Inr (sample_settlement, sample_paid\<lparr>settlements := [sample_settlement]\<rparr>)"
  by (rule settlement_replay [OF sample_settle])

definition sample_summary :: pay_summary where
  "sample_summary = \<lparr>earned_micro_iqd = 5000000, corrected_audio_ms = 1000, settled_micro_iqd = 500000,
     outstanding_micro_iqd = 4500000, legacy_events_pending_reconciliation = 0, fallback_identity_entries = 0\<rparr>"

lemma sample_summarise:
  "review_compensation_summary (lit ''sara'') (sample_paid\<lparr>settlements := [sample_settlement]\<rparr>) = Inr sample_summary"
proof -
  let ?t = "sample_paid\<lparr>settlements := [sample_settlement]\<rparr>"
  have "reviewer_rows (lit ''sara'') ?t = [sample_accept, sample_edit]"
    using sample_reviewer_rows by (simp add: reviewer_rows_def)
  moreover have "reviewer_settlements (lit ''sara'') ?t = [sample_settlement]"
    by (simp add: reviewer_settlements_def sample_settlement_def)
  moreover have "verify_review_pay_policy ?t = Inr 0"
    by (rule sample_policy) (simp add: sample_paid_def)
  ultimately show ?thesis
    by (simp add: review_compensation_summary_def Let_def corrected_by_work_def sample_accept_def sample_edit_def
        sample_credit_def sample_settlement_def in_i64_def require_def checked_i64_def sample_summary_def)
      (simp add: sample_paid_def sample_pay_def sample_event_def)
qed


section \<open>Undo gives back exactly what a credit took\<close>

lemma is_credit_fresh: "is_credit e t \<Longrightarrow> f \<in> set (ledger t) \<Longrightarrow> le_entry_key f \<noteq> le_entry_key e"
  unfolding is_credit_def ledger_row_ok_def by (metis image_set imageI)

lemma active_credits_credit:
  assumes "ledger_ok t" and "is_credit e t"
  shows "active_credits work (t\<lparr>ledger := ledger t @ [e]\<rparr>) =
    active_credits work t @ (if le_work_id e = work then [e] else [])"
  using active_credits_push [OF assms(1)] assms(2) by (simp add: is_credit_def)

lemma pool_undo_pops:
  assumes "ledger_ok t" and "orig \<in> set (ledger t)"
    and "append_reversal (\<lambda>_. True) uuid key source orig t = Inr t'"
  shows "active_credits work t' =
    (if le_work_id orig = work then butlast (active_credits work t) else active_credits work t)"
  using assms(3)
proof (cases rule: append_reversal_cases)
  case (1 r)
  then show ?thesis
    using active_credits_pop [OF assms(1,2)] latest_is_top [OF assms(1,2)] by simp
qed


definition sample_pool_undo :: ledger_entry where
  "sample_pool_undo = sample_edit\<lparr>le_id := 3, le_entry_id := lit ''e3'', le_entry_key := lit ''undo:'' @ lit ''op'',
     le_source := lit ''couch_pool_undo'', le_action := lit ''undo'',
     le_effective_decision := lit ''undo'', le_basis_points := 0, le_entitlement := 0, le_delta := - 4500000,
     le_corrected_entitlement := 0, le_delta_corrected := - 1000, le_reverses := Some (lit ''e2'')\<rparr>"

lemma sample_pool_undone:
  "append_review_pool_compensation_reversal (lit ''e3'') 7 (lit ''op'')
     (sample_pay\<lparr>ledger := [sample_accept, sample_edit]\<rparr>) =
   Inr (sample_pay\<lparr>ledger := [sample_accept, sample_edit, sample_pool_undo]\<rparr>)"
  by (simp add: append_review_pool_compensation_reversal_def sample_policy)
    (simp add: sample_simps append_reversal_def latest_unreversed_def is_reversed_def
      sample_accept_def sample_edit_def sample_pool_undo_def sample_credit_def sample_pay_def)


section \<open>The interface to the review pool\<close>

text \<open>
  What the recorder of pool decisions relies on: a successful credit opens exactly one new account
  entry for its decision, an undo under a new operation closes it, and nothing else moves.
\<close>

locale credit_book =
  fixes credit :: "'c \<Rightarrow> 's \<Rightarrow> 'e + 's"
    and decision :: "'c \<Rightarrow> 'd"
    and undo :: "'u \<Rightarrow> 'd \<Rightarrow> 'x \<Rightarrow> 's \<Rightarrow> 'e + 's"
    and invar :: "'s \<Rightarrow> bool"
    and opened :: "'s \<Rightarrow> 'd set"
    and credited :: "'s \<Rightarrow> 'd set"
    and used :: "'s \<Rightarrow> 'x set"
  assumes credit_invar: "invar s \<Longrightarrow> credit c s = Inr s' \<Longrightarrow> invar s'"
    and undo_invar: "invar s \<Longrightarrow> undo u d x s = Inr s' \<Longrightarrow> invar s'"
    and credit_opens: "invar s \<Longrightarrow> credit c s = Inr s' \<Longrightarrow> decision c \<notin> credited s \<and>
      credited s' = insert (decision c) (credited s) \<and> opened s' = insert (decision c) (opened s) \<and> used s' = used s"
    and undo_closes: "invar s \<Longrightarrow> undo u d x s = Inr s' \<Longrightarrow> x \<notin> used s \<Longrightarrow>
      credited s' = credited s \<and> opened s' = opened s - {d} \<and> used s' \<subseteq> insert x (used s)"
    and opened_credited: "invar s \<Longrightarrow> opened s \<subseteq> credited s"
begin

text \<open>A client whose paid decisions are the open accounts keeps them so.\<close>

definition mirrors :: "'d set \<Rightarrow> 'd set \<Rightarrow> 's \<Rightarrow> bool" where
  "mirrors paid recorded s \<longleftrightarrow> invar s \<and> opened s = paid \<and> credited s \<subseteq> recorded"

lemma mirrors_credit:
  assumes "mirrors paid recorded s" and "credit c s = Inr s'"
  shows "mirrors (insert (decision c) paid) (insert (decision c) recorded) s' \<and> decision c \<notin> paid \<and> used s' = used s"
  using assms credit_invar [of s c s'] credit_opens [of s c s'] opened_credited [of s]
  unfolding mirrors_def by blast

lemma mirrors_undo:
  assumes "mirrors paid recorded s" and "undo u d x s = Inr s'" and "x \<notin> used s"
  shows "mirrors (paid - {d}) recorded s' \<and> used s' \<subseteq> insert x (used s)"
  using assms undo_invar [of s u d x s'] undo_closes [of s u d x s'] unfolding mirrors_def by blast

end

definition credited_decisions :: "pay_tables \<Rightarrow> int set" where
  "credited_decisions t = {d. \<exists>e \<in> set (ledger t). le_entry_key e = pool_entry_key d}"

definition open_decisions :: "pay_tables \<Rightarrow> int set" where
  "open_decisions t = {d. \<exists>e \<in> set (ledger t). le_entry_key e = pool_entry_key d \<and> \<not> is_reversed e t}"

definition undo_operations :: "pay_tables \<Rightarrow> utext set" where
  "undo_operations t = {x. \<exists>e \<in> set (ledger t). le_entry_key e = lit ''undo:'' @ x}"

definition book_ok :: "pay_tables \<Rightarrow> bool" where
  "book_ok t \<longleftrightarrow> ledger_ok t \<and> distinct (map le_entry_key (ledger t)) \<and>
     (\<forall>e \<in> set (ledger t). \<forall>d. le_entry_key e = pool_entry_key d \<longrightarrow> le_reverses e = None)"

type_synonym pool_credit = "utext \<times> int \<times> utext \<times> utext \<times> utext \<times> int"

fun pool_credit_step ::
  "(utext \<Rightarrow> utext) \<Rightarrow> (utext \<Rightarrow> json option) \<Rightarrow> pool_credit \<Rightarrow> pay_tables \<Rightarrow> pay_error + pay_tables" where
  "pool_credit_step lower from_str (uuid, d, segment_id, reviewer, action, revision) t =
     append_review_pool_compensation lower from_str uuid d segment_id reviewer action revision t"

lemma pool_credit_effect:
  assumes ok: "book_ok t" and "pool_credit_step lower from_str c t = Inr t'"
  shows "book_ok t' \<and> fst (snd c) \<notin> credited_decisions t \<and>
    credited_decisions t' = insert (fst (snd c)) (credited_decisions t) \<and>
    open_decisions t' = insert (fst (snd c)) (open_decisions t) \<and> undo_operations t' = undo_operations t"
proof -
  obtain uuid d segment_id reviewer action revision where c: "c = (uuid, d, segment_id, reviewer, action, revision)"
    by (metis surj_pair)
  obtain e where t': "t' = t\<lparr>ledger := ledger t @ [e]\<rparr>" and credit: "is_credit e t"
    and key: "le_entry_key e = pool_entry_key d"
    using assms(2) unfolding c pool_credit_step.simps by (rule pool_credit_cases)
  have e: "ledger_row_ok e t" "le_reverses e = None" using credit by (simp_all add: is_credit_def)
  have live: "\<not> is_reversed e t'"
    using fresh_not_reversed [of t e] e ok t' by (simp add: book_ok_def is_reversed_append)
  have same: "is_reversed f t' = is_reversed f t" for f using t' e(2) by (simp add: is_reversed_append)
  have fresh: "f \<in> set (ledger t) \<Longrightarrow> le_entry_key f \<noteq> pool_entry_key d" for f
    using is_credit_fresh [OF credit] key by metis
  have "book_ok t'"
    using ok e ledger_ok_credit [OF _ credit] t' by (simp add: book_ok_def ledger_row_ok_def)
  moreover have "d \<notin> credited_decisions t" using fresh by (auto simp: credited_decisions_def)
  moreover have "credited_decisions t' = insert d (credited_decisions t)"
    using t' key by (auto simp: credited_decisions_def)
  moreover have "open_decisions t' = insert d (open_decisions t)"
    using live key unfolding open_decisions_def same by (auto simp: t')
  moreover have "undo_operations t' = undo_operations t"
    using key by (auto simp: undo_operations_def t')
  ultimately show ?thesis using c by simp
qed

lemma pool_undo_effect:
  assumes ok: "book_ok t" and "append_review_pool_compensation_reversal uuid d x t = Inr t'"
    and new: "x \<notin> undo_operations t"
  shows "book_ok t' \<and> credited_decisions t' = credited_decisions t \<and>
    open_decisions t' = open_decisions t - {d} \<and> undo_operations t' \<subseteq> insert x (undo_operations t)"
  using assms(2)
proof (cases rule: pool_undo_cases)
  case unchanged
  then have "d \<notin> open_decisions t"
    using ok new by (auto simp: book_ok_def open_decisions_def undo_operations_def)
  then show ?thesis using ok unchanged(1) by auto
next
  case (undone orig)
  from undone(4) show ?thesis
  proof (cases rule: append_reversal_cases)
    case (1 r)
    have same: "f \<in> set (ledger t) \<Longrightarrow> le_entry_id orig = le_entry_id f \<longleftrightarrow> f = orig" for f
      using ok undone(1) by (auto simp: book_ok_def ledger_ok_def distinct_map inj_on_def)
    have only: "f \<in> set (ledger t) \<Longrightarrow> le_entry_key f = pool_entry_key d \<longleftrightarrow> f = orig" for f
      using ok undone(1,2) by (auto simp: book_ok_def distinct_map inj_on_def)
    have key: "le_entry_key r \<noteq> pool_entry_key d'" for d' using 1(9) by simp
    have live: "f \<in> set (ledger t) \<Longrightarrow> is_reversed f t' \<longleftrightarrow> is_reversed f t \<or> f = orig" for f
      using same 1(1,4) by (simp add: is_reversed_append)
    have "ledger_ok t'"
      using ledger_ok_reversal [OF _ undone(1) 1(13) undone(4)] ok by (simp add: book_ok_def)
    then have "book_ok t'"
      using ok 1(1,2) key by (simp add: book_ok_def ledger_row_ok_def)
    moreover have "credited_decisions t' = credited_decisions t"
      using key by (auto simp: credited_decisions_def 1(1))
    moreover have "open_decisions t' = open_decisions t - {d}"
    proof -
      have "open_decisions t' = {c. \<exists>e \<in> set (ledger t). le_entry_key e = pool_entry_key c \<and> \<not> is_reversed e t'}"
        using key by (auto simp: open_decisions_def 1(1))
      also have "\<dots> = open_decisions t - {d}"
        using only live undone(2) unfolding open_decisions_def by auto
      finally show ?thesis .
    qed
    moreover have "undo_operations t' \<subseteq> insert x (undo_operations t)"
      using 1(9) by (auto simp: undo_operations_def 1(1))
    ultimately show ?thesis by blast
  qed
qed

lemma pool_undo_ok:
  assumes "book_ok t" and "append_review_pool_compensation_reversal uuid d x t = Inr t'"
  shows "book_ok t'"
proof (cases "x \<in> undo_operations t")
  case True
  then have "t' = t"
    using assms(2) by (auto simp: append_review_pool_compensation_reversal_def and_then_eq_Inr_iff
        undo_operations_def list_ex_iff Let_def split: if_splits)
  then show ?thesis using assms(1) by simp
qed (use pool_undo_effect [OF assms] in blast)

interpretation pool_book: credit_book "pool_credit_step lower from_str" "fst \<circ> snd"
  append_review_pool_compensation_reversal book_ok open_decisions credited_decisions undo_operations
proof unfold_locales
  fix s s' u d x and c :: pool_credit
  assume ok: "book_ok s"
  show "open_decisions s \<subseteq> credited_decisions s"
    by (auto simp: open_decisions_def credited_decisions_def)
  show "pool_credit_step lower from_str c s = Inr s' \<Longrightarrow> book_ok s'"
    "pool_credit_step lower from_str c s = Inr s' \<Longrightarrow> (fst \<circ> snd) c \<notin> credited_decisions s \<and>
      credited_decisions s' = insert ((fst \<circ> snd) c) (credited_decisions s) \<and>
      open_decisions s' = insert ((fst \<circ> snd) c) (open_decisions s) \<and> undo_operations s' = undo_operations s"
    using pool_credit_effect [OF ok, of lower from_str c s'] by simp_all
  assume undo: "append_review_pool_compensation_reversal u d x s = Inr s'"
  show "book_ok s'" by (rule pool_undo_ok [OF ok undo])
  show "x \<notin> undo_operations s \<Longrightarrow> credited_decisions s' = credited_decisions s \<and>
      open_decisions s' = open_decisions s - {d} \<and> undo_operations s' \<subseteq> insert x (undo_operations s)"
    using pool_undo_effect [OF ok undo] by blast
qed

end
