(* ===== verification/Review_Consensus.thy ===== *)
theory Review_Consensus
  imports Review_Pay "HOL-Library.List_Lexorder" "HOL-Library.Multiset"
begin

text \<open>
  How the verdicts of several reviewers become one decision (\<open>review_pool.rs\<close>: reviewer keys, outcomes,
  the evidence digest and \<open>derive_resolution\<close>; \<open>review_pool/trust.rs\<close>: the trust policy).

  A \<open>HashMap\<close> is an association list in its iteration order, which Rust leaves unspecified: the
  lemmas show that no result depends on it. Texts are lists of scalar values, whose lexicographic
  order is the byte order of their UTF-8 encodings. SHA-256, Unicode composition (NFC) and the JSON
  parser are arguments. Errors are the fixed part of their message.
\<close>

section \<open>Reviewers and outcomes\<close>

type_synonym pool_error = string

definition DESKTOP_REVIEWER_KEY :: utext where
  "DESKTOP_REVIEWER_KEY = lit ''@desktop-owner''"

definition reviewer_key :: "utext option \<Rightarrow> utext" where
  "reviewer_key value =
     (case value of
        None \<Rightarrow> DESKTOP_REVIEWER_KEY
      | Some name \<Rightarrow> if trim name = [] then DESKTOP_REVIEWER_KEY else map ascii_lower (trim name))"

definition valid_lower_sha256 :: "utext \<Rightarrow> bool" where
  "valid_lower_sha256 value \<longleftrightarrow>
     length value = 64 \<and> list_all (\<lambda>c. (48 \<le> c \<and> c \<le> 57) \<or> (97 \<le> c \<and> c \<le> 102)) value"

datatype review_outcome = Retain utext | Reject

fun final_action :: "review_outcome \<Rightarrow> utext" where
  "final_action (Retain _) = lit ''retain''"
| "final_action Reject = lit ''reject''"

fun final_transcript :: "review_outcome \<Rightarrow> utext option" where
  "final_transcript (Retain s) = Some s"
| "final_transcript Reject = None"

fun digest_value :: "review_outcome \<Rightarrow> utext" where
  "digest_value (Retain s) = lit ''retain:'' @ s"
| "digest_value Reject = lit ''reject''"

record judgement_evidence =
  je_reviewer :: utext
  je_evidence_id :: utext
  je_outcome :: review_outcome

record owner_adjudication =
  oa_final_outcome :: review_outcome
  oa_evidence_sha256 :: utext

datatype derived_resolution =
    Pending
  | NeedsThird
  | OwnerConflict
  | Resolved review_outcome "utext list" bool

type_synonym judgements = "(utext \<times> judgement_evidence) list"

record segment_reviewers =
  judged :: judgements
  seen :: "utext set"

definition canonical_verbatim_text :: "(utext \<Rightarrow> utext) \<Rightarrow> utext \<Rightarrow> utext" where
  "canonical_verbatim_text nfc value = trim (nfc value)"

definition outcome_from_action ::
  "(utext \<Rightarrow> utext) \<Rightarrow> utext \<Rightarrow> utext option \<Rightarrow> pool_error + review_outcome option" where
  "outcome_from_action nfc action transcript =
     (if action \<in> {lit ''accept'', lit ''edit'', lit ''human_accept'', lit ''human_edit''} then
        (case map_option (canonical_verbatim_text nfc) transcript of
           Some s \<Rightarrow> if s = [] then Inl ''retained review evidence has no non-blank verbatim transcript''
                     else Inr (Some (Retain s))
         | None \<Rightarrow> Inl ''retained review evidence has no non-blank verbatim transcript'')
      else if action \<in> {lit ''reject'', lit ''human_reject''} then Inr (Some Reject)
      else if action = lit ''skip'' then Inr None
      else Inl ''unknown review-pool evidence action'')"

section \<open>The evidence digest\<close>

text \<open>UTF-8 encoding, \<open>u64::to_be_bytes\<close> and the lower-case hexadecimal rendering of bytes.\<close>

definition utf8_char :: "uchar \<Rightarrow> nat list" where
  "utf8_char c =
     (if c < 0x80 then [c]
      else if c < 0x800 then [192 + c div 64, 128 + c mod 64]
      else if c < 0x10000 then [224 + c div 4096, 128 + c div 64 mod 64, 128 + c mod 64]
      else [240 + c div 262144, 128 + c div 4096 mod 64, 128 + c div 64 mod 64, 128 + c mod 64])"

definition as_bytes :: "utext \<Rightarrow> nat list" where
  "as_bytes s = concat (map utf8_char s)"

primrec be_bytes :: "nat \<Rightarrow> nat \<Rightarrow> nat list" where
  "be_bytes 0 n = []"
| "be_bytes (Suc k) n = be_bytes k (n div 256) @ [n mod 256]"

definition to_be_bytes :: "nat \<Rightarrow> nat list" where
  "to_be_bytes n = be_bytes 8 n"

definition hex_digit :: "nat \<Rightarrow> uchar" where
  "hex_digit d = (if d < 10 then 48 + d else 87 + d)"

definition to_hex :: "nat list \<Rightarrow> utext" where
  "to_hex bytes = concat (map (\<lambda>b. [hex_digit (b div 16), hex_digit (b mod 16)]) bytes)"

definition hash_field :: "nat list \<Rightarrow> nat list" where
  "hash_field value = to_be_bytes (length value) @ value"

definition evidence_fields :: "judgement_evidence \<Rightarrow> utext list" where
  "evidence_fields e = [je_reviewer e, je_evidence_id e, digest_value (je_outcome e)]"

definition ordered_evidence :: "judgements \<Rightarrow> judgement_evidence list" where
  "ordered_evidence js = sort_key je_reviewer (map snd js)"

definition evidence_preimage :: "utext \<Rightarrow> judgements \<Rightarrow> nat list" where
  "evidence_preimage segment_id js =
     concat (map (hash_field \<circ> as_bytes) (segment_id # concat (map evidence_fields (ordered_evidence js))))"

definition evidence_sha256 :: "(nat list \<Rightarrow> nat list) \<Rightarrow> utext \<Rightarrow> judgements \<Rightarrow> utext" where
  "evidence_sha256 sha256 segment_id js = to_hex (sha256 (evidence_preimage segment_id js))"

section \<open>The trust policy\<close>

record trust_policy =
  tp_owner :: "utext option"
  tp_trusted :: "utext set"

definition default_policy_trust :: trust_policy where
  "default_policy_trust = \<lparr>tp_owner = None, tp_trusted = {}\<rparr>"

definition policy_owner :: "json \<Rightarrow> pool_error + utext option" where
  "policy_owner value =
     (case json_get (lit ''owner'') value of
        None \<Rightarrow> Inr None
      | Some JNull \<Rightarrow> Inr None
      | Some (JString name) \<Rightarrow> if trim name \<noteq> [] then Inr (Some (reviewer_key (Some name)))
                             else Inl ''owner must be a reviewer name''
      | Some _ \<Rightarrow> Inl ''owner must be a reviewer name'')"

definition policy_trusted :: "json \<Rightarrow> pool_error + utext list" where
  "policy_trusted value =
     (case json_get (lit ''trusted'') value of
        None \<Rightarrow> Inr []
      | Some JNull \<Rightarrow> Inr []
      | Some (JArray items) \<Rightarrow>
          (case all_strings items of None \<Rightarrow> Inl ''trusted must contain only reviewer names''
           | Some names \<Rightarrow> Inr names)
      | Some _ \<Rightarrow> Inl ''trusted must be a list of reviewer names'')"

definition parse_trust :: "(utext \<Rightarrow> json option) \<Rightarrow> utext \<Rightarrow> pool_error + trust_policy" where
  "parse_trust from_str text_arg =
     (case from_str text_arg of
        None \<Rightarrow> Inl ''not valid JSON''
      | Some value \<Rightarrow>
          and_then (policy_owner value) (\<lambda>owner.
          and_then (policy_trusted value) (\<lambda>names.
          let trusted = set (map (\<lambda>name. reviewer_key (Some name)) (filter (\<lambda>name. trim name \<noteq> []) names)) in
          if (case owner of None \<Rightarrow> False | Some key \<Rightarrow> key \<in> trusted)
          then Inl ''the owner must not also be listed as trusted''
          else Inr \<lparr>tp_owner = owner, tp_trusted = trusted\<rparr>)))"

datatype file_read = File_Missing | File_Unreadable | File_Text utext

definition load_trust :: "(utext \<Rightarrow> json option) \<Rightarrow> file_read \<Rightarrow> trust_policy" where
  "load_trust from_str file =
     (case file of
        File_Text s \<Rightarrow> (case parse_trust from_str s of Inl _ \<Rightarrow> default_policy_trust | Inr policy \<Rightarrow> policy)
      | _ \<Rightarrow> default_policy_trust)"

definition trusted_evidence :: "trust_policy \<Rightarrow> judgements \<Rightarrow> judgement_evidence list" where
  "trusted_evidence policy js = map snd (filter (\<lambda>(k, _). k \<in> tp_trusted policy) js)"

definition resolve_trusted :: "judgement_evidence list \<Rightarrow> derived_resolution option" where
  "resolve_trusted trusted =
     (case trusted of
        [] \<Rightarrow> None
      | e # _ \<Rightarrow>
          if list_ex (\<lambda>x. je_outcome x \<noteq> je_outcome e) trusted then Some OwnerConflict
          else Some (Resolved (je_outcome e)
            (map je_reviewer (sort_key (\<lambda>x. map ascii_lower (je_reviewer x)) trusted)) False))"

definition resolve_trust :: "trust_policy \<Rightarrow> judgements \<Rightarrow> derived_resolution option" where
  "resolve_trust policy js =
     (case Option.bind (tp_owner policy) (map_of js) of
        Some e \<Rightarrow> Some (Resolved (je_outcome e) [je_reviewer e] False)
      | None \<Rightarrow> resolve_trusted (trusted_evidence policy js))"

definition authorizes :: "trust_policy \<Rightarrow> utext list \<Rightarrow> bool" where
  "authorizes policy names =
     list_ex (\<lambda>key. tp_owner policy = Some key \<or> key \<in> tp_trusted policy)
       (map (\<lambda>name. reviewer_key (Some name)) names)"

definition authority_class :: "trust_policy \<Rightarrow> utext list \<Rightarrow> utext" where
  "authority_class policy names =
     (let keys = map (\<lambda>name. reviewer_key (Some name)) names in
      if list_ex (\<lambda>key. tp_owner policy = Some key) keys then lit ''owner''
      else if length keys = 1 \<and> keys ! 0 \<in> tp_trusted policy then lit ''trusted''
      else if 2 \<le> length keys then lit ''consensus''
      else lit ''single'')"

definition is_owner :: "trust_policy \<Rightarrow> utext \<Rightarrow> bool" where
  "is_owner policy key \<longleftrightarrow> tp_owner policy = Some key"

definition permits_fresh_opinion ::
  "trust_policy \<Rightarrow> derived_resolution \<Rightarrow> segment_reviewers option \<Rightarrow> utext \<Rightarrow> bool" where
  "permits_fresh_opinion policy resolution coverage reviewer =
     (if (case coverage of None \<Rightarrow> False | Some c \<Rightarrow> reviewer \<in> seen c) then False
      else case resolution of
        Resolved _ _ _ \<Rightarrow> False
      | OwnerConflict \<Rightarrow> is_owner policy reviewer \<and>
          (case coverage of None \<Rightarrow> 0 | Some c \<Rightarrow> length (judged c)) < 3
      | _ \<Rightarrow> True)"

section \<open>Resolution\<close>

fun push_outcome ::
  "review_outcome \<Rightarrow> utext \<Rightarrow> (review_outcome \<times> utext list) list \<Rightarrow> (review_outcome \<times> utext list) list" where
  "push_outcome v name [] = [(v, [name])]"
| "push_outcome v name ((w, names) # rest) =
     (if v = w then (w, names @ [name]) # rest else (w, names) # push_outcome v name rest)"

definition outcomes_of :: "judgements \<Rightarrow> (review_outcome \<times> utext list) list" where
  "outcomes_of js = fold (\<lambda>e. push_outcome (je_outcome e) (je_reviewer e)) (map snd js) []"

definition matching_outcomes :: "judgements \<Rightarrow> (review_outcome \<times> utext list) list" where
  "matching_outcomes js =
     sort_key (\<lambda>entry. digest_value (fst entry))
       (map (\<lambda>(v, names). (v, sort_key (map ascii_lower) names))
         (filter (\<lambda>(v, names). 2 \<le> length names) (outcomes_of js)))"

definition derive_resolution ::
  "(nat list \<Rightarrow> nat list) \<Rightarrow> trust_policy \<Rightarrow> utext \<Rightarrow> segment_reviewers option \<Rightarrow> owner_adjudication list option \<Rightarrow>
   derived_resolution \<times> utext" where
  "derive_resolution sha256 policy segment_id reviewers adjudications =
     (let js = (case reviewers of None \<Rightarrow> [] | Some r \<Rightarrow> judged r);
          digest = evidence_sha256 sha256 segment_id js in
      case Option.bind adjudications (find (\<lambda>row. oa_evidence_sha256 row = digest)) of
        Some adjudication \<Rightarrow> (Resolved (oa_final_outcome adjudication) [] True, digest)
      | None \<Rightarrow>
          (case resolve_trust policy js of
             Some resolution \<Rightarrow> (resolution, digest)
           | None \<Rightarrow>
               (case matching_outcomes js of
                  (v, names) # _ \<Rightarrow> (Resolved v names False, digest)
                | [] \<Rightarrow>
                    (if length js \<le> 1 then Pending
                     else if length js = 2 then NeedsThird
                     else OwnerConflict, digest))))"

record segment_resolution =
  sr_segment_id :: utext
  sr_voice_name :: utext
  sr_status :: utext
  sr_final_action :: "utext option"
  sr_final_transcript :: "utext option"
  sr_evidence_sha256 :: utext
  sr_reviewer_count :: nat
  sr_agreeing_reviewers :: "utext list"

fun resolution_view ::
  "derived_resolution \<Rightarrow> utext \<times> utext option \<times> utext option \<times> utext list" where
  "resolution_view Pending = (lit ''pending'', None, None, [])"
| "resolution_view NeedsThird = (lit ''needsThirdReview'', None, None, [])"
| "resolution_view OwnerConflict = (lit ''ownerConflict'', None, None, [])"
| "resolution_view (Resolved v names owner) =
     (if owner then lit ''ownerResolved'' else lit ''resolved'', Some (final_action v), final_transcript v, names)"

definition describe_resolution ::
  "(nat list \<Rightarrow> nat list) \<Rightarrow> trust_policy \<Rightarrow> utext \<Rightarrow> utext \<Rightarrow> segment_reviewers option \<Rightarrow>
   owner_adjudication list option \<Rightarrow> segment_resolution" where
  "describe_resolution sha256 policy segment_id voice reviewers adjudications =
     (let reviewer_count = (case reviewers of None \<Rightarrow> 0 | Some r \<Rightarrow> length (judged r));
          (resolution, digest) = derive_resolution sha256 policy segment_id reviewers adjudications;
          (status, action, transcript, names) = resolution_view resolution
      in \<lparr>sr_segment_id = segment_id, sr_voice_name = voice, sr_status = status, sr_final_action = action,
          sr_final_transcript = transcript, sr_evidence_sha256 = digest, sr_reviewer_count = reviewer_count,
          sr_agreeing_reviewers = names\<rparr>)"

record pool_summary =
  total_clips :: nat
  resolved_clips :: nat
  needs_first_or_second_review :: nat
  needs_third_review :: nat
  owner_conflicts :: nat

definition count_resolution :: "segment_resolution \<Rightarrow> pool_summary \<Rightarrow> pool_summary" where
  "count_resolution row s =
     (if sr_status row \<in> {lit ''resolved'', lit ''ownerResolved''} then s\<lparr>resolved_clips := resolved_clips s + 1\<rparr>
      else if sr_status row = lit ''needsThirdReview'' then s\<lparr>needs_third_review := needs_third_review s + 1\<rparr>
      else if sr_status row = lit ''ownerConflict'' then s\<lparr>owner_conflicts := owner_conflicts s + 1\<rparr>
      else s\<lparr>needs_first_or_second_review := needs_first_or_second_review s + 1\<rparr>)"

definition resolution_summary :: "segment_resolution list \<Rightarrow> pool_summary" where
  "resolution_summary rows =
     fold count_resolution rows
       \<lparr>total_clips = length rows, resolved_clips = 0, needs_first_or_second_review = 0,
        needs_third_review = 0, owner_conflicts = 0\<rparr>"

section \<open>Collecting judgements\<close>

definition entry_of :: "(utext \<Rightarrow> segment_reviewers option) \<Rightarrow> utext \<Rightarrow> segment_reviewers" where
  "entry_of result segment_id = (case result segment_id of None \<Rightarrow> \<lparr>judged = [], seen = {}\<rparr> | Some r \<Rightarrow> r)"

definition insert_judgement ::
  "(utext \<Rightarrow> utext) \<Rightarrow> utext \<Rightarrow> utext \<Rightarrow> utext \<Rightarrow> utext \<Rightarrow> utext option \<Rightarrow>
   (utext \<Rightarrow> segment_reviewers option) \<Rightarrow> pool_error + (utext \<Rightarrow> segment_reviewers option)" where
  "insert_judgement nfc segment_id reviewer evidence_id action transcript result =
     (let key = reviewer_key (Some reviewer);
          entry = entry_of result segment_id;
          entry1 = entry\<lparr>seen := insert key (seen entry)\<rparr> in
      and_then (outcome_from_action nfc action transcript) (\<lambda>found.
      case found of
        None \<Rightarrow> Inr (result(segment_id \<mapsto> entry1))
      | Some v \<Rightarrow>
          if map_of (judged entry1) key \<noteq> None
          then Inl ''review pool segment has duplicate effective evidence from one reviewer''
          else Inr (result(segment_id \<mapsto>
            entry1\<lparr>judged := judged entry1 @
              [(key, \<lparr>je_reviewer = trim reviewer, je_evidence_id = evidence_id, je_outcome = v\<rparr>)]\<rparr>))))"

section \<open>Well-formed judgements\<close>

lemma trim_end_start: "trim_start (trim s) = trim s"
proof (cases "trim s")
  case (Cons c cs)
  have "trim s = rev (dropWhile is_whitespace (rev (trim_start s)))"
    by (simp add: trim_def trim_end_def)
  moreover obtain z where "trim_start s = rev (dropWhile is_whitespace (rev (trim_start s))) @ z"
    by (metis dropWhile_eq_drop rev_append rev_rev_ident takeWhile_dropWhile_id)
  ultimately have "hd (trim_start s) = c" using Cons by (metis append_Cons list.sel(1))
  moreover have "trim_start s \<noteq> []" using Cons by (auto simp: trim_def trim_end_def)
  ultimately have "\<not> is_whitespace c" using hd_dropWhile [of is_whitespace s] by (simp add: trim_start_def)
  then show ?thesis using Cons by (simp add: trim_start_def)
qed (simp add: trim_start_def)

lemma trim_idem [simp]: "trim (trim s) = trim s"
proof -
  have "trim_end (trim s) = trim s" by (simp add: trim_def trim_end_def)
  then show ?thesis by (subst trim_def) (simp add: trim_end_start)
qed

lemma reviewer_key_trim [simp]: "reviewer_key (Some (trim name)) = reviewer_key (Some name)"
  by (simp add: reviewer_key_def)

definition evidence_ok :: "utext \<times> judgement_evidence \<Rightarrow> bool" where
  "evidence_ok j \<longleftrightarrow> fst j = reviewer_key (Some (je_reviewer (snd j))) \<and> trim (je_reviewer (snd j)) = je_reviewer (snd j) \<and>
     (case je_outcome (snd j) of Retain s \<Rightarrow> s \<noteq> [] \<and> trim s = s | Reject \<Rightarrow> True)"

definition judgements_ok :: "judgements \<Rightarrow> bool" where
  "judgements_ok js \<longleftrightarrow> distinct (map fst js) \<and> list_all evidence_ok js"

lemma key_of_folded_name:
  assumes "evidence_ok j" and "evidence_ok j'"
    and "map ascii_lower (je_reviewer (snd j)) = map ascii_lower (je_reviewer (snd j'))"
  shows "fst j = fst j'"
proof -
  have "je_reviewer (snd j) = [] \<longleftrightarrow> je_reviewer (snd j') = []" using assms(3) by (metis map_is_Nil_conv)
  then show ?thesis using assms by (simp add: evidence_ok_def reviewer_key_def)
qed

lemma judgements_ok_inj:
  assumes "judgements_ok js"
  shows "inj_on (\<lambda>e. map ascii_lower (je_reviewer e)) (set (map snd js))" and "distinct (map snd js)"
proof -
  have same: "j = j'" if "j \<in> set js" "j' \<in> set js"
    "map ascii_lower (je_reviewer (snd j)) = map ascii_lower (je_reviewer (snd j'))" for j j'
    using that assms key_of_folded_name [of j j']
    by (auto simp: judgements_ok_def list_all_iff distinct_map dest: inj_onD)
  then show "inj_on (\<lambda>e. map ascii_lower (je_reviewer e)) (set (map snd js))"
    by (auto simp: inj_on_def)
  have "inj_on snd (set js)" by (rule inj_onI) (rule same, simp_all)
  then show "distinct (map snd js)"
    using assms by (auto simp: judgements_ok_def distinct_map)
qed

lemma judgements_ok_reviewers_inj:
  "judgements_ok js \<Longrightarrow> inj_on je_reviewer (set (map snd js))"
  using judgements_ok_inj(1) by (fastforce simp: inj_on_def)

section \<open>The iteration order does not matter\<close>

lemma sort_key_perm:
  assumes "mset xs = mset ys" and "inj_on f (set xs)"
  shows "sort_key f xs = sort_key f ys"
proof (rule sort_key_inj_key_eq [OF _ assms(2)])
  show "mset xs = mset (sort_key f ys)" using assms(1) by simp
qed simp

lemma ordered_evidence_perm:
  "judgements_ok js \<Longrightarrow> mset js = mset js' \<Longrightarrow> ordered_evidence js = ordered_evidence js'"
  unfolding ordered_evidence_def
  by (rule sort_key_perm [OF _ judgements_ok_reviewers_inj]) simp_all

lemma map_of_perm:
  assumes "judgements_ok js" and "mset js = mset js'"
  shows "map_of js = map_of js'"
proof -
  have "mset (map fst js) = mset (map fst js')" using assms(2) by simp
  then have "distinct (map fst js')" using assms(1) by (metis judgements_ok_def mset_eq_imp_distinct_iff)
  moreover have "distinct (map fst js)" using assms(1) by (simp add: judgements_ok_def)
  ultimately show ?thesis using map_of_inject_set mset_eq_setD [OF assms(2)] by blast
qed

lemma trusted_evidence_perm:
  "mset js = mset js' \<Longrightarrow> mset (trusted_evidence policy js) = mset (trusted_evidence policy js')"
  by (simp add: trusted_evidence_def)

lemma resolve_trusted_perm:
  assumes perm: "mset es = mset es'" and inj: "inj_on (\<lambda>e. map ascii_lower (je_reviewer e)) (set es)"
  shows "resolve_trusted es = resolve_trusted es'"
proof (cases es)
  case Nil
  then show ?thesis using perm by (simp add: resolve_trusted_def)
next
  case (Cons e tl)
  then obtain e' tl' where Cons': "es' = e' # tl'" using perm by (cases es') auto
  have sets: "set es = set es'" using perm by (rule mset_eq_setD)
  have mem: "e \<in> set es" "e' \<in> set es" using Cons Cons' sets by (metis list.set_intros(1))+
  have ex: "list_ex (\<lambda>x. je_outcome x \<noteq> je_outcome e) es \<longleftrightarrow> list_ex (\<lambda>x. je_outcome x \<noteq> je_outcome e') es'"
    unfolding list_ex_iff sets [symmetric] using mem by metis
  have same: "\<not> list_ex (\<lambda>x. je_outcome x \<noteq> je_outcome e) es \<Longrightarrow> je_outcome e' = je_outcome e"
    unfolding list_ex_iff using mem(2) by metis
  have head: "resolve_trusted xs = (if list_ex (\<lambda>x. je_outcome x \<noteq> je_outcome y) xs then Some OwnerConflict
      else Some (Resolved (je_outcome y)
        (map je_reviewer (sort_key (\<lambda>x. map ascii_lower (je_reviewer x)) xs)) False))"
    if "xs = y # ys" for xs y ys
    using that by (simp add: resolve_trusted_def)
  show ?thesis
    unfolding head [OF Cons] head [OF Cons'] sort_key_perm [OF perm inj] using ex same by auto
qed

lemma resolve_trust_perm:
  assumes "judgements_ok js" and "mset js = mset js'"
  shows "resolve_trust policy js = resolve_trust policy js'"
proof -
  have "inj_on (\<lambda>e. map ascii_lower (je_reviewer e)) (set (trusted_evidence policy js))"
    using judgements_ok_inj(1) [OF assms(1)]
    by (rule inj_on_subset) (auto simp: trusted_evidence_def)
  from resolve_trusted_perm [OF trusted_evidence_perm [OF assms(2)] this] show ?thesis
    unfolding resolve_trust_def map_of_perm [OF assms] by (simp split: option.split)
qed

text \<open>The outcome table: for each outcome, the reviewers who gave it.\<close>

lemma push_outcome_map_of:
  "map_of (push_outcome v name A) =
     (map_of A)(v \<mapsto> (case map_of A v of None \<Rightarrow> [name] | Some names \<Rightarrow> names @ [name]))"
  by (induction v name A rule: push_outcome.induct) (auto split: option.splits)

lemma push_outcome_keys: "fst ` set (push_outcome v name A) = insert v (fst ` set A)"
  by (induction v name A rule: push_outcome.induct) auto

lemma push_outcome_distinct: "distinct (map fst A) \<Longrightarrow> distinct (map fst (push_outcome v name A))"
  by (induction v name A rule: push_outcome.induct) (auto simp: push_outcome_keys)

definition supporters :: "review_outcome \<Rightarrow> judgements \<Rightarrow> utext list" where
  "supporters v js = map je_reviewer (filter (\<lambda>e. je_outcome e = v) (map snd js))"

lemma outcomes_of_spec:
  "distinct (map fst (outcomes_of js)) \<and>
   map_of (outcomes_of js) v = (if supporters v js = [] then None else Some (supporters v js))"
proof (induction js arbitrary: v rule: rev_induct)
  case (snoc j js)
  then show ?case
    by (auto simp: outcomes_of_def push_outcome_distinct push_outcome_map_of supporters_def split: if_splits)
qed (simp add: outcomes_of_def supporters_def)

lemma supporters_perm: "mset js = mset js' \<Longrightarrow> mset (supporters v js) = mset (supporters v js')"
  by (simp add: supporters_def)

lemma supporters_inj:
  assumes "judgements_ok js"
  shows "inj_on (map ascii_lower) (set (supporters v js))" and "distinct (supporters v js)"
proof -
  show "inj_on (map ascii_lower) (set (supporters v js))"
    unfolding supporters_def set_map [of je_reviewer]
    by (rule inj_on_imageI, unfold comp_def, rule inj_on_subset [OF judgements_ok_inj(1) [OF assms]]) auto
  have "inj_on je_reviewer (set (filter (\<lambda>e. je_outcome e = v) (map snd js)))"
    using judgements_ok_reviewers_inj [OF assms] by (rule inj_on_subset) auto
  then show "distinct (supporters v js)"
    using judgements_ok_inj(2) [OF assms] by (simp add: supporters_def distinct_map)
qed

lemma matching_entries:
  "(v, names) \<in> set (matching_outcomes js) \<longleftrightarrow>
     2 \<le> length (supporters v js) \<and> names = sort_key (map ascii_lower) (supporters v js)"
proof -
  have "(v, ns) \<in> set (outcomes_of js) \<longleftrightarrow> supporters v js = ns \<and> ns \<noteq> []" for v ns
    using outcomes_of_spec [of js v] map_of_eq_Some_iff [of "outcomes_of js" v ns]
    by (auto split: if_splits)
  then show ?thesis by (force simp: matching_outcomes_def)
qed

lemma digest_value_inj: "digest_value v = digest_value w \<longleftrightarrow> v = w"
  by (cases v; cases w) (simp_all add: lit_def)

lemma matching_distinct: "distinct (map fst (matching_outcomes js))"
proof -
  let ?A = "filter (\<lambda>(v, names). 2 \<le> length names) (outcomes_of js)"
  have "distinct (map fst ?A)" using outcomes_of_spec [of js] by (simp add: distinct_map_filter)
  then have "distinct (map fst (map (\<lambda>(v, names). (v, sort_key (map ascii_lower) names)) ?A))"
    by (simp add: comp_def case_prod_unfold)
  moreover have "mset (map fst (sort_key f xs)) = mset (map fst xs)"
    for f :: "review_outcome \<times> utext list \<Rightarrow> utext" and xs by simp
  ultimately show ?thesis unfolding matching_outcomes_def by (metis mset_eq_imp_distinct_iff)
qed


lemma matching_perm:
  assumes "judgements_ok js" and "mset js = mset js'"
  shows "matching_outcomes js = matching_outcomes js'"
proof -
  have count: "length (supporters v js) = length (supporters v js')" for v
    using supporters_perm [OF assms(2), of v] by (metis size_mset)
  have names: "sort_key (map ascii_lower) (supporters v js) = sort_key (map ascii_lower) (supporters v js')" for v
    by (rule sort_key_perm [OF supporters_perm [OF assms(2)] supporters_inj(1) [OF assms(1)]])
  have "set (matching_outcomes js) = set (matching_outcomes js')"
    by (auto simp: matching_entries count names)
  moreover have "distinct (matching_outcomes js)" "distinct (matching_outcomes js')"
    using matching_distinct [of js] matching_distinct [of js'] by (simp_all add: distinct_map)
  ultimately have "mset (matching_outcomes js) = mset (matching_outcomes js')"
    by (simp add: set_eq_iff_mset_eq_distinct)
  moreover have "inj_on (\<lambda>entry. digest_value (fst entry)) (set (matching_outcomes js))"
    using matching_distinct [of js] by (auto simp: inj_on_def distinct_map digest_value_inj)
  ultimately have "sort_key (\<lambda>entry. digest_value (fst entry)) (matching_outcomes js) =
      sort_key (\<lambda>entry. digest_value (fst entry)) (matching_outcomes js')"
    by (rule sort_key_perm)
  moreover have "sort_key (\<lambda>entry. digest_value (fst entry)) (matching_outcomes js) = matching_outcomes js" for js
    unfolding matching_outcomes_def by (rule sort_key_id_if_sorted) simp
  ultimately show ?thesis by simp
qed

text \<open>
  C21. A clip's resolution, its agreeing reviewers and its evidence digest are functions of the set of
  verdicts: whatever order the hash map hands the judgements out in, \<open>derive_resolution\<close> returns the
  same result, so two reads of one database, or two runs of the program, never disagree.
\<close>
theorem resolution_order_free:
  assumes "judgements_ok js" and "mset js = mset js'"
  shows "derive_resolution sha256 policy segment_id (Some \<lparr>judged = js, seen = s\<rparr>) adjudications =
    derive_resolution sha256 policy segment_id (Some \<lparr>judged = js', seen = s'\<rparr>) adjudications"
proof -
  have count: "length js = length js'" using assms(2) by (metis size_mset)
  have digest: "evidence_sha256 sha256 segment_id js = evidence_sha256 sha256 segment_id js'"
    by (simp add: evidence_sha256_def evidence_preimage_def ordered_evidence_perm [OF assms])
  show ?thesis
    unfolding derive_resolution_def option.case segment_reviewers.select_convs Let_def
      count digest resolve_trust_perm [OF assms] matching_perm [OF assms] ..
qed

section \<open>What a resolution rests on\<close>

definition verdict_by :: "utext \<Rightarrow> review_outcome \<Rightarrow> judgements \<Rightarrow> bool" where
  "verdict_by key v js \<longleftrightarrow> (\<exists>e. map_of js key = Some e \<and> je_outcome e = v)"

lemma supporters_card:
  assumes "judgements_ok js"
  shows "length (supporters v js) = card {key. verdict_by key v js}"
proof -
  have dist: "distinct (map fst js)" using assms by (simp add: judgements_ok_def)
  have "{key. verdict_by key v js} = set (map fst (filter (\<lambda>j. je_outcome (snd j) = v) js))"
    using map_of_eq_Some_iff [OF dist] by (force simp: verdict_by_def)
  moreover have "distinct (map fst (filter (\<lambda>j. je_outcome (snd j) = v) js))"
    using dist by (rule distinct_map_filter)
  ultimately have "card {key. verdict_by key v js} = length (filter (\<lambda>j. je_outcome (snd j) = v) js)"
    using distinct_card by fastforce
  then show ?thesis by (simp add: supporters_def filter_map comp_def)
qed

lemma trusted_evidence_iff:
  assumes "judgements_ok js"
  shows "e \<in> set (trusted_evidence policy js) \<longleftrightarrow> (\<exists>key \<in> tp_trusted policy. map_of js key = Some e)"
  using assms map_of_eq_Some_iff [of js] by (force simp: trusted_evidence_def judgements_ok_def)

lemma resolve_trusted_cases:
  assumes "resolve_trusted es = Some r"
  obtains (conflict) "r = OwnerConflict" "\<exists>e \<in> set es. \<exists>f \<in> set es. je_outcome e \<noteq> je_outcome f"
  | (agree) v where "r = Resolved v (map je_reviewer (sort_key (\<lambda>x. map ascii_lower (je_reviewer x)) es)) False"
      "es \<noteq> []" "\<forall>e \<in> set es. je_outcome e = v"
  using assms by (cases es) (auto simp: resolve_trusted_def list_ex_iff split: if_splits)

definition judgements_of :: "segment_reviewers option \<Rightarrow> judgements" where
  "judgements_of reviewers = (case reviewers of None \<Rightarrow> [] | Some r \<Rightarrow> judged r)"

lemma derive_resolution_cases:
  obtains (adjudicated) row where "row \<in> set (case adjudications of None \<Rightarrow> [] | Some rows \<Rightarrow> rows)"
      "oa_evidence_sha256 row = evidence_sha256 sha segment_id (judgements_of reviewers)"
      "fst (derive_resolution sha policy segment_id reviewers adjudications) = Resolved (oa_final_outcome row) [] True"
  | (by_owner) key e where "tp_owner policy = Some key" "map_of (judgements_of reviewers) key = Some e"
      "fst (derive_resolution sha policy segment_id reviewers adjudications) =
         Resolved (je_outcome e) [je_reviewer e] False"
  | (by_trusted) r where "resolve_trusted (trusted_evidence policy (judgements_of reviewers)) = Some r"
      "fst (derive_resolution sha policy segment_id reviewers adjudications) = r"
  | (by_two) v names rest where "trusted_evidence policy (judgements_of reviewers) = []"
      "matching_outcomes (judgements_of reviewers) = (v, names) # rest"
      "fst (derive_resolution sha policy segment_id reviewers adjudications) = Resolved v names False"
  | (undecided) "trusted_evidence policy (judgements_of reviewers) = []"
      "matching_outcomes (judgements_of reviewers) = []"
      "fst (derive_resolution sha policy segment_id reviewers adjudications) =
        (if length (judgements_of reviewers) \<le> 1 then Pending
         else if length (judgements_of reviewers) = 2 then NeedsThird else OwnerConflict)"
proof -
  let ?js = "judgements_of reviewers"
  let ?found = "Option.bind adjudications (find (\<lambda>row. oa_evidence_sha256 row = evidence_sha256 sha segment_id ?js))"
  have unfold: "fst (derive_resolution sha policy segment_id reviewers adjudications) =
      (case ?found of Some a \<Rightarrow> Resolved (oa_final_outcome a) [] True
       | None \<Rightarrow> (case resolve_trust policy ?js of Some r \<Rightarrow> r
         | None \<Rightarrow> (case matching_outcomes ?js of (v, names) # _ \<Rightarrow> Resolved v names False
           | [] \<Rightarrow> if length ?js \<le> 1 then Pending else if length ?js = 2 then NeedsThird else OwnerConflict)))"
    by (simp add: derive_resolution_def judgements_of_def Let_def split: option.split list.split)
  show thesis
  proof (cases ?found)
    case (Some a)
    then obtain rows where "adjudications = Some rows" and
      "find (\<lambda>row. oa_evidence_sha256 row = evidence_sha256 sha segment_id ?js) rows = Some a"
      by (auto simp: bind_eq_Some_conv)
    from this(1) find_SomeD [OF this(2)]
    have "a \<in> set (case adjudications of None \<Rightarrow> [] | Some rows \<Rightarrow> rows)"
      "oa_evidence_sha256 a = evidence_sha256 sha segment_id ?js" by simp_all
    moreover have "fst (derive_resolution sha policy segment_id reviewers adjudications) =
        Resolved (oa_final_outcome a) [] True" unfolding unfold Some by simp
    ultimately show thesis by (rule adjudicated)
  next
    case none: None
    show thesis
    proof (cases "Option.bind (tp_owner policy) (map_of ?js)")
      case (Some e)
      then show thesis
        using by_owner by (auto simp: unfold none resolve_trust_def bind_eq_Some_conv)
    next
      case no_owner: None
      then have trust: "resolve_trust policy ?js = resolve_trusted (trusted_evidence policy ?js)"
        by (simp add: resolve_trust_def)
      show thesis
      proof (cases "resolve_trusted (trusted_evidence policy ?js)")
        case (Some r)
        then show thesis by (intro by_trusted) (simp_all add: unfold none trust)
      next
        case None
        then have no_trust: "trusted_evidence policy ?js = []"
          by (auto simp: resolve_trusted_def split: list.splits if_splits)
        show thesis
        proof (cases "matching_outcomes ?js")
          case Nil
          then show thesis by (intro undecided no_trust) (simp_all add: unfold none trust None)
        next
          case (Cons p rest)
          then show thesis
            by (cases p, intro by_two [OF no_trust]) (auto simp: unfold none trust None)
        qed
      qed
    qed
  qed
qed

text \<open>
  C20. A clip is decided only on the authority the review canon names: a decision by \<open>derive_resolution\<close>
  is the owner's recorded adjudication of exactly this evidence, or the owner's own verdict, or the
  common verdict of every trusted reviewer who judged, or a verdict given by at least two different
  people; a single verdict of anyone else never decides.
\<close>
theorem decision_needs_authority:
  assumes "judgements_ok (judgements_of reviewers)"
    and "fst (derive_resolution sha256 policy segment_id reviewers adjudications) = Resolved v names owner"
  shows "(owner \<and> (\<exists>rows. adjudications = Some rows \<and> (\<exists>row \<in> set rows. oa_final_outcome row = v \<and>
            oa_evidence_sha256 row = evidence_sha256 sha256 segment_id (judgements_of reviewers)))) \<or>
    (\<not> owner \<and> ((\<exists>key. tp_owner policy = Some key \<and> verdict_by key v (judgements_of reviewers)) \<or>
       (\<exists>key \<in> tp_trusted policy. verdict_by key v (judgements_of reviewers)) \<and>
         (\<forall>key \<in> tp_trusted policy. \<forall>w. verdict_by key w (judgements_of reviewers) \<longrightarrow> w = v) \<or>
       2 \<le> card {key. verdict_by key v (judgements_of reviewers)}))"
proof (cases rule: derive_resolution_cases
    [where sha = sha256 and policy = policy and segment_id = segment_id and reviewers = reviewers
       and adjudications = adjudications])
  case (adjudicated row)
  then show ?thesis using assms(2) by (auto split: option.splits)
next
  case (by_owner key e)
  then show ?thesis using assms(2) by (auto simp: verdict_by_def)
next
  case (by_trusted r)
  from by_trusted(1) show ?thesis
  proof (cases rule: resolve_trusted_cases)
    case conflict
    then show ?thesis using assms(2) by_trusted(2) by simp
  next
    case (agree w)
    have w: "w = v" "\<not> owner" using agree(1) assms(2) by_trusted(2) by simp_all
    obtain e where "e \<in> set (trusted_evidence policy (judgements_of reviewers))"
      using agree(2) by (meson last_in_set)
    then have "\<exists>key \<in> tp_trusted policy. verdict_by key v (judgements_of reviewers)"
      using agree(3) w(1) trusted_evidence_iff [OF assms(1)] unfolding verdict_by_def by blast
    moreover have "\<forall>key \<in> tp_trusted policy. \<forall>w. verdict_by key w (judgements_of reviewers) \<longrightarrow> w = v"
      using agree(3) w(1) trusted_evidence_iff [OF assms(1)] unfolding verdict_by_def by blast
    ultimately show ?thesis using w by blast
  qed
next
  case (by_two w ns rest)
  then have "2 \<le> length (supporters w (judgements_of reviewers))"
    using matching_entries [of w ns "judgements_of reviewers"] by simp
  then show ?thesis using assms by_two(3) supporters_card [OF assms(1)] by auto
next
  case undecided
  then show ?thesis using assms(2) by (simp split: if_splits)
qed


definition sample_verdict :: "string \<Rightarrow> review_outcome \<Rightarrow> utext \<times> judgement_evidence" where
  "sample_verdict name v =
     (map ascii_lower (lit name), \<lparr>je_reviewer = lit name, je_evidence_id = lit ''pool:1'', je_outcome = v\<rparr>)"

lemma sample_verdicts_ok:
  "judgements_ok [sample_verdict ''Sara'' Reject, sample_verdict ''Hemn'' Reject]"
  "judgements_ok [sample_verdict ''Hemn'' Reject, sample_verdict ''Sara'' Reject]"
  by (simp_all add: judgements_ok_def evidence_ok_def sample_verdict_def reviewer_key_def lit_def trim_def
      trim_start_def trim_end_def is_whitespace_def ascii_lower_def)

theorem resolution_order_free_witness:
  "derive_resolution id default_policy_trust (lit ''c1'')
     (Some \<lparr>judged = [sample_verdict ''Sara'' Reject, sample_verdict ''Hemn'' Reject], seen = {}\<rparr>) None =
   derive_resolution id default_policy_trust (lit ''c1'')
     (Some \<lparr>judged = [sample_verdict ''Hemn'' Reject, sample_verdict ''Sara'' Reject], seen = {}\<rparr>) None"
  by (rule resolution_order_free [OF sample_verdicts_ok(1)]) simp

lemma sort_key_single: "sort_key f [x] = [x]"
  by simp

lemma sample_two_resolve:
  "fst (derive_resolution id default_policy_trust (lit ''c1'')
     (Some \<lparr>judged = [sample_verdict ''Sara'' Reject, sample_verdict ''Hemn'' Reject], seen = {}\<rparr>) None) =
   Resolved Reject (sort_key (map ascii_lower) [lit ''Sara'', lit ''Hemn'']) False"
  by (simp add: derive_resolution_def resolve_trust_def default_policy_trust_def trusted_evidence_def
      resolve_trusted_def matching_outcomes_def outcomes_of_def sample_verdict_def Let_def sort_key_single
      del: sort_key_simps)

theorem decision_needs_authority_witness:
  "2 \<le> card {key. verdict_by key Reject [sample_verdict ''Sara'' Reject, sample_verdict ''Hemn'' Reject]}"
  using decision_needs_authority [of "Some \<lparr>judged = [sample_verdict ''Sara'' Reject, sample_verdict ''Hemn'' Reject], seen = {}\<rparr>"
      id default_policy_trust "lit ''c1''" None, OF _ sample_two_resolve]
  by (simp add: judgements_of_def sample_verdicts_ok default_policy_trust_def)

text \<open>
  When the policy's owner has judged a clip and has recorded no adjudication of this evidence,
  the clip is decided by the owner's verdict alone, whatever the other reviewers said.
\<close>
theorem owner_verdict_decides:
  assumes "tp_owner policy = Some key" and "map_of (judged r) key = Some e"
    and "find (\<lambda>row. oa_evidence_sha256 row = evidence_sha256 sha256 segment_id (judged r)) rows = None"
  shows "fst (derive_resolution sha256 policy segment_id (Some r) (Some rows)) =
    Resolved (je_outcome e) [je_reviewer e] False"
  using assms by (simp add: derive_resolution_def resolve_trust_def)

theorem owner_verdict_decides_witness:
  "fst (derive_resolution id \<lparr>tp_owner = Some (map ascii_lower (lit ''sara'')), tp_trusted = {}\<rparr> (lit ''c1'')
     (Some \<lparr>judged = [sample_verdict ''sara'' Reject, sample_verdict ''hemn'' (Retain (lit ''a''))], seen = {}\<rparr>) (Some [])) =
   Resolved Reject [lit ''sara''] False"
proof -
  let ?r = "\<lparr>judged = [sample_verdict ''sara'' Reject, sample_verdict ''hemn'' (Retain (lit ''a''))], seen = {}\<rparr>"
  have "map_of (judged ?r) (map ascii_lower (lit ''sara'')) = Some (snd (sample_verdict ''sara'' Reject))"
    by (simp add: sample_verdict_def)
  then have "fst (derive_resolution id \<lparr>tp_owner = Some (map ascii_lower (lit ''sara'')), tp_trusted = {}\<rparr> (lit ''c1'')
      (Some ?r) (Some [])) = Resolved (je_outcome (snd (sample_verdict ''sara'' Reject)))
        [je_reviewer (snd (sample_verdict ''sara'' Reject))] False"
    by (rule owner_verdict_decides [rotated]) simp_all
  moreover have "je_outcome (snd (sample_verdict ''sara'' Reject)) = Reject"
    "je_reviewer (snd (sample_verdict ''sara'' Reject)) = lit ''sara''"
    by (simp_all add: sample_verdict_def)
  ultimately show ?thesis by metis
qed

section \<open>Authority of the exported names\<close>

lemma key_of_judge:
  assumes "judgements_ok js" and "map_of js key = Some e"
  shows "reviewer_key (Some (je_reviewer e)) = key"
proof -
  have "evidence_ok (key, e)"
    using assms(1) map_of_SomeD [OF assms(2)] unfolding judgements_ok_def list_all_iff by blast
  then show ?thesis by (simp add: evidence_ok_def)
qed

text \<open>
  The authority class written into an export is never \<^verbatim>\<open>single\<close>: for every clip decided by
  verdicts, the reviewers named as agreeing are the owner, one trusted reviewer, or at least two
  people.
\<close>
theorem decided_class_never_single:
  assumes ok: "judgements_ok (judgements_of reviewers)"
    and res: "fst (derive_resolution sha256 policy segment_id reviewers adjudications) = Resolved v names False"
  shows "authority_class policy names \<in> {lit ''owner'', lit ''trusted'', lit ''consensus''}"
proof (cases rule: derive_resolution_cases
    [where sha = sha256 and policy = policy and segment_id = segment_id and reviewers = reviewers
       and adjudications = adjudications])
  case (by_owner key e)
  then have "names = [je_reviewer e]" using res by simp
  then show ?thesis using by_owner(1) key_of_judge [OF ok by_owner(2)] by (simp add: authority_class_def Let_def)
next
  case (by_trusted r)
  let ?es = "trusted_evidence policy (judgements_of reviewers)"
  from by_trusted(1) show ?thesis
  proof (cases rule: resolve_trusted_cases)
    case (agree w)
    have names: "names = map je_reviewer (sort_key (\<lambda>x. map ascii_lower (je_reviewer x)) ?es)"
      using res by_trusted(2) agree(1) by simp
    show ?thesis
    proof (cases "length ?es = 1")
      case True
      then obtain e where e: "?es = [e]" by (cases ?es) auto
      then obtain key where "key \<in> tp_trusted policy" "map_of (judgements_of reviewers) key = Some e"
        using trusted_evidence_iff [OF ok, of e policy] by auto
      then show ?thesis using key_of_judge [OF ok] names e by (simp add: authority_class_def Let_def)
    next
      case False
      then have "2 \<le> length names" using names agree(2) by (cases ?es rule: list.exhaust) (auto simp: Suc_le_eq)
      then show ?thesis by (simp add: authority_class_def Let_def)
    qed
  qed (use res by_trusted(2) in simp)
next
  case (by_two w ns rest)
  then have "2 \<le> length names"
    using matching_entries [of w ns "judgements_of reviewers"] res by auto
  then show ?thesis by (simp add: authority_class_def Let_def)
qed (use res in \<open>simp_all split: if_splits\<close>)

theorem decided_class_never_single_witness:
  "authority_class default_policy_trust (sort_key (map ascii_lower) [lit ''Sara'', lit ''Hemn'']) \<in>
     {lit ''owner'', lit ''trusted'', lit ''consensus''}"
  using decided_class_never_single [OF _ sample_two_resolve] by (simp add: judgements_of_def sample_verdicts_ok)

section \<open>A broken policy file trusts nobody\<close>

text \<open>
  C22. A trust policy file that is missing, unreadable or refused by the parser can never make one
  verdict final: under the policy loaded from it, every clip decided by verdicts has two different
  people behind it.
\<close>
theorem broken_policy_needs_two:
  assumes "doc = File_Missing \<or> doc = File_Unreadable \<or> (\<exists>s. doc = File_Text s \<and> \<not> is_ok (parse_trust from_str s))"
    and "judgements_ok (judgements_of reviewers)"
    and "fst (derive_resolution sha256 (load_trust from_str doc) segment_id reviewers adjudications) = Resolved v names False"
  shows "2 \<le> card {key. verdict_by key v (judgements_of reviewers)}"
proof -
  have "load_trust from_str doc = default_policy_trust"
    using assms(1)
    by (cases doc) (simp_all add: load_trust_def is_ok_iff split: sum.split)
  then show ?thesis using decision_needs_authority [OF assms(2,3)] by (simp add: default_policy_trust_def)
qed


theorem broken_policy_needs_two_witness:
  "2 \<le> card {key. verdict_by key Reject (judgements_of
     (Some \<lparr>judged = [sample_verdict ''Sara'' Reject, sample_verdict ''Hemn'' Reject], seen = {}\<rparr>))}"
proof (rule broken_policy_needs_two)
  show "fst (derive_resolution id (load_trust (\<lambda>_. None) File_Missing) (lit ''c1'')
      (Some \<lparr>judged = [sample_verdict ''Sara'' Reject, sample_verdict ''Hemn'' Reject], seen = {}\<rparr>) None) =
    Resolved Reject (sort_key (map ascii_lower) [lit ''Sara'', lit ''Hemn'']) False"
    using sample_two_resolve by (simp add: load_trust_def)
qed (simp_all add: judgements_of_def sample_verdicts_ok)

section \<open>At most three opinions\<close>

text \<open>Where a further opinion is permitted, fewer than three have been given.\<close>

lemma permitted_below_three:
  assumes "permits_fresh_opinion policy
      (fst (derive_resolution sha256 policy segment_id (Some r) adjudications)) (Some r) key"
  shows "length (judged r) < 3 \<and> key \<notin> seen r"
proof (cases rule: derive_resolution_cases
    [where sha = sha256 and policy = policy and segment_id = segment_id and reviewers = "Some r"
       and adjudications = adjudications])
  case (by_trusted x)
  from by_trusted(1) show ?thesis
    by (cases rule: resolve_trusted_cases)
      (use assms by_trusted(2) in \<open>auto simp: permits_fresh_opinion_def split: if_splits\<close>)
next
  case undecided
  then show ?thesis
    using assms by (auto simp: permits_fresh_opinion_def judgements_of_def split: if_splits)
qed (use assms in \<open>auto simp: permits_fresh_opinion_def split: if_splits\<close>)

text \<open>Three verdicts cannot contain two different majorities, so the order by digest value is never a tie-break.\<close>

lemma supporters_disjoint:
  "v \<noteq> w \<Longrightarrow> length (supporters v js) + length (supporters w js) \<le> length js"
  by (induction js) (auto simp: supporters_def)

lemma one_majority:
  assumes "length js \<le> 3"
  shows "length (matching_outcomes js) \<le> 1"
proof (rule ccontr)
  assume "\<not> ?thesis"
  then obtain p q rest where two: "matching_outcomes js = p # q # rest"
    by (cases "matching_outcomes js"; cases "tl (matching_outcomes js)") auto
  have "fst p \<noteq> fst q" using matching_distinct [of js] two by simp
  moreover have "2 \<le> length (supporters (fst p) js)" "2 \<le> length (supporters (fst q) js)"
    using matching_entries [of "fst p" "snd p" js] matching_entries [of "fst q" "snd q" js] two by simp_all
  ultimately show False using supporters_disjoint [of "fst p" "fst q" js] assms by simp
qed

section \<open>Judgements read from the tables are well formed\<close>

definition coverage_ok :: "segment_reviewers \<Rightarrow> bool" where
  "coverage_ok r \<longleftrightarrow> judgements_ok (judged r) \<and> fst ` set (judged r) \<subseteq> seen r"

definition result_ok :: "(utext \<Rightarrow> segment_reviewers option) \<Rightarrow> bool" where
  "result_ok result \<longleftrightarrow> (\<forall>i r. result i = Some r \<longrightarrow> coverage_ok r)"

lemma outcome_from_action_ok:
  assumes "outcome_from_action nfc action transcript = Inr (Some v)"
  shows "case v of Retain s \<Rightarrow> s \<noteq> [] \<and> trim s = s | Reject \<Rightarrow> True"
  using assms
  by (auto simp: outcome_from_action_def canonical_verbatim_text_def split: if_splits option.splits)

lemma judgements_ok_snoc:
  assumes "judgements_ok js" and "map_of js (reviewer_key (Some name)) = None"
    and "case v of Retain s \<Rightarrow> s \<noteq> [] \<and> trim s = s | Reject \<Rightarrow> True"
  shows "judgements_ok (js @ [(reviewer_key (Some name), \<lparr>je_reviewer = trim name, je_evidence_id = i, je_outcome = v\<rparr>)])"
  using assms by (auto simp: judgements_ok_def evidence_ok_def map_of_eq_None_iff)

lemma insert_judgement_cases:
  assumes "insert_judgement nfc segment_id reviewer evidence_id action transcript result = Inr result'"
  obtains (skipped) "outcome_from_action nfc action transcript = Inr None"
      "result' = result(segment_id \<mapsto> (entry_of result segment_id)
        \<lparr>seen := insert (reviewer_key (Some reviewer)) (seen (entry_of result segment_id))\<rparr>)"
  | (judgement) v where "outcome_from_action nfc action transcript = Inr (Some v)"
      "map_of (judged (entry_of result segment_id)) (reviewer_key (Some reviewer)) = None"
      "result' = result(segment_id \<mapsto> (entry_of result segment_id)
        \<lparr>seen := insert (reviewer_key (Some reviewer)) (seen (entry_of result segment_id)),
         judged := judged (entry_of result segment_id) @ [(reviewer_key (Some reviewer),
           \<lparr>je_reviewer = trim reviewer, je_evidence_id = evidence_id, je_outcome = v\<rparr>)]\<rparr>)"
proof (cases "outcome_from_action nfc action transcript")
  case (Inl e)
  then show thesis using assms by (simp add: insert_judgement_def Let_def)
next
  case (Inr found)
  show thesis
  proof (cases found)
    case None
    then show thesis using assms Inr by (intro skipped) (simp_all add: insert_judgement_def Let_def)
  next
    case (Some v)
    then show thesis
      using assms Inr by (intro judgement) (auto simp: insert_judgement_def Let_def split: if_splits)
  qed
qed

lemma entry_of_ok: "result_ok result \<Longrightarrow> coverage_ok (entry_of result i)"
  by (auto simp: entry_of_def result_ok_def coverage_ok_def judgements_ok_def split: option.splits)

lemma insert_judgement_ok:
  assumes ok: "result_ok result"
    and "insert_judgement nfc segment_id reviewer evidence_id action transcript result = Inr result'"
  shows "result_ok result'"
  using assms(2)
proof (cases rule: insert_judgement_cases)
  case skipped
  then show ?thesis
    using ok entry_of_ok [OF ok, of segment_id] by (auto simp: result_ok_def coverage_ok_def)
next
  case (judgement v)
  have "judgements_ok (judged (entry_of result segment_id))"
    using entry_of_ok [OF ok] by (simp add: coverage_ok_def)
  from judgements_ok_snoc [OF this judgement(2) outcome_from_action_ok [OF judgement(1)]] show ?thesis
    using judgement(3) ok entry_of_ok [OF ok, of segment_id] by (auto simp: result_ok_def coverage_ok_def)
qed


section \<open>The digest covers exactly the evidence\<close>

lemma div_mod_64: "(c :: nat) div 64 = d div 64 \<Longrightarrow> c mod 64 = d mod 64 \<Longrightarrow> c = d"
  by (metis div_mult_mod_eq)

lemma div_4096: "(c :: nat) div 4096 = c div 64 div 64" "(c :: nat) div 262144 = c div 64 div 64 div 64"
  by (simp_all add: div_mult2_eq [symmetric])

lemma utf8_char_prefix:
  assumes "utf8_char c @ xs = utf8_char d @ ys" and "c < 0x110000" and "d < 0x110000"
  shows "c = d \<and> xs = ys"
proof -
  have lead: "c div 64 < 32" if "c < 0x800" for c :: nat using that by (simp add: less_mult_imp_div_less)
  have lead3: "c div 4096 < 16" if "c < 0x10000" for c :: nat using that by (simp add: less_mult_imp_div_less)
  show ?thesis
    using assms lead [of c] lead [of d] lead3 [of c] lead3 [of d] div_mod_64 [of c d]
      div_mod_64 [of "c div 64" "d div 64"] div_mod_64 [of "c div 64 div 64" "d div 64 div 64"]
    by (auto simp: utf8_char_def div_4096 split: if_splits)
qed

definition scalars :: "utext \<Rightarrow> bool" where
  "scalars s \<longleftrightarrow> list_all (\<lambda>c. c < 0x110000) s"

lemma utf8_char_nonempty: "utf8_char c \<noteq> []"
  by (simp add: utf8_char_def)

lemma as_bytes_inj: "scalars s \<Longrightarrow> scalars t \<Longrightarrow> as_bytes s = as_bytes t \<Longrightarrow> s = t"
proof (induction s arbitrary: t)
  case Nil
  then show ?case by (cases t) (auto simp: as_bytes_def utf8_char_nonempty)
next
  case (Cons c s)
  then obtain d t' where t: "t = d # t'" by (cases t) (auto simp: as_bytes_def utf8_char_nonempty)
  have "utf8_char c @ as_bytes s = utf8_char d @ as_bytes t'"
    using Cons.prems(3) t by (simp add: as_bytes_def)
  from utf8_char_prefix [OF this] have "c = d \<and> as_bytes s = as_bytes t'"
    using Cons.prems(1,2) t by (simp add: scalars_def)
  then show ?case using Cons.IH [of t'] Cons.prems(1,2) t by (simp add: scalars_def)
qed

lemma be_bytes_value: "foldl (\<lambda>a b. 256 * a + b) 0 (be_bytes k n) = n mod 256 ^ k"
  by (induction k arbitrary: n) (simp_all add: mod_mult2_eq)

lemma to_be_bytes_inj:
  assumes "to_be_bytes m = to_be_bytes n" and "m < 2 ^ 64" and "n < 2 ^ 64"
  shows "m = n"
proof -
  have "m mod 256 ^ 8 = n mod 256 ^ 8"
    using assms(1) be_bytes_value [of 8 m] be_bytes_value [of 8 n] by (simp only: to_be_bytes_def)
  then show ?thesis using assms(2,3) by simp
qed

lemma length_to_be_bytes [simp]: "length (to_be_bytes n) = 8"
proof -
  have "length (be_bytes k n) = k" for k by (induction k arbitrary: n) simp_all
  then show ?thesis by (simp add: to_be_bytes_def)
qed

lemma hash_field_nonempty [simp]: "hash_field v \<noteq> []"
  using length_to_be_bytes [of "length v"] by (auto simp: hash_field_def simp del: length_to_be_bytes)

lemma hash_field_prefix:
  assumes "hash_field v @ xs = hash_field w @ ys" and "length v < 2 ^ 64" and "length w < 2 ^ 64"
  shows "v = w \<and> xs = ys"
proof -
  have "to_be_bytes (length v) = to_be_bytes (length w)" "v @ xs = w @ ys"
    using assms(1) by (simp_all add: hash_field_def append_eq_append_conv)
  then show ?thesis using to_be_bytes_inj assms(2,3) by (metis append_eq_append_conv)
qed

definition field_ok :: "utext \<Rightarrow> bool" where
  "field_ok s \<longleftrightarrow> scalars s \<and> length (as_bytes s) < 2 ^ 64"

lemma framed_inj:
  "list_all field_ok xs \<Longrightarrow> list_all field_ok ys \<Longrightarrow>
   concat (map (hash_field \<circ> as_bytes) xs) = concat (map (hash_field \<circ> as_bytes) ys) \<Longrightarrow> xs = ys"
proof (induction xs arbitrary: ys)
  case Nil
  then show ?case by (cases ys) auto
next
  case (Cons x xs)
  obtain y ys' where ys: "ys = y # ys'" using Cons.prems(3) by (cases ys) simp_all
  have "hash_field (as_bytes x) @ concat (map (hash_field \<circ> as_bytes) xs) =
      hash_field (as_bytes y) @ concat (map (hash_field \<circ> as_bytes) ys')"
    using Cons.prems(3) ys by (simp add: comp_def)
  from hash_field_prefix [OF this] have same: "as_bytes x = as_bytes y"
      "concat (map (hash_field \<circ> as_bytes) xs) = concat (map (hash_field \<circ> as_bytes) ys')"
    using Cons.prems(1,2) ys by (simp_all add: field_ok_def)
  have "x = y" using as_bytes_inj [OF _ _ same(1)] Cons.prems(1,2) ys by (simp add: field_ok_def)
  moreover have "xs = ys'" using Cons.IH [OF _ _ same(2)] Cons.prems(1,2) ys by simp
  ultimately show ?case using ys by simp
qed

lemma evidence_fields_inj: "evidence_fields e = evidence_fields f \<Longrightarrow> e = f"
  by (cases e; cases f) (simp add: evidence_fields_def digest_value_inj)

lemma concat_fields_inj: "concat (map evidence_fields xs) = concat (map evidence_fields ys) \<Longrightarrow> xs = ys"
proof (induction xs arbitrary: ys)
  case (Cons x xs)
  then obtain y ys' where ys: "ys = y # ys'" by (cases ys) (auto simp: evidence_fields_def)
  then have "evidence_fields x @ concat (map evidence_fields xs) = evidence_fields y @ concat (map evidence_fields ys')"
    using Cons.prems by simp
  moreover have "length (evidence_fields x) = length (evidence_fields y)" by (simp add: evidence_fields_def)
  ultimately have "evidence_fields x = evidence_fields y" "concat (map evidence_fields xs) = concat (map evidence_fields ys')"
    by (simp_all add: append_eq_append_conv)
  then show ?case using Cons.IH evidence_fields_inj ys by blast
qed (auto simp: evidence_fields_def)

lemma to_hex_inj:
  assumes "to_hex xs = to_hex ys" and "list_all (\<lambda>b. b < 256) xs" and "list_all (\<lambda>b. b < 256) ys"
  shows "xs = ys"
  using assms
proof (induction xs arbitrary: ys)
  case Nil
  then show ?case by (cases ys) (auto simp: to_hex_def)
next
  case (Cons x xs)
  then obtain y ys' where ys: "ys = y # ys'" by (cases ys) (auto simp: to_hex_def)
  have digit: "hex_digit a = hex_digit b \<Longrightarrow> a < 16 \<Longrightarrow> b < 16 \<Longrightarrow> a = b" for a b
    by (auto simp: hex_digit_def split: if_splits)
  have "hex_digit (x div 16) = hex_digit (y div 16)" "hex_digit (x mod 16) = hex_digit (y mod 16)" "to_hex xs = to_hex ys'"
    using Cons.prems(1) ys by (simp_all add: to_hex_def)
  moreover have "x div 16 < 16" "y div 16 < 16" using Cons.prems(2,3) ys by (simp_all add: less_mult_imp_div_less)
  ultimately have "x div 16 = y div 16" "x mod 16 = y mod 16" using digit by simp_all
  then have "x = y" by (metis div_mult_mod_eq)
  then show ?case using Cons.IH [of ys'] Cons.prems(2,3) ys \<open>to_hex xs = to_hex ys'\<close> by simp
qed

text \<open>
  C23. An owner adjudication binds exactly the evidence it was made over: if SHA-256 does not collide
  on the two encodings, equal digests mean the same clip and the same list of reviewers, evidence ids
  and outcomes; no verdict can be added, changed or moved to another clip under an old digest.
\<close>
theorem digest_binds_evidence:
  assumes "evidence_sha256 sha256 i js = evidence_sha256 sha256 i' js'"
    and bytes: "\<forall>x. list_all (\<lambda>b. b < 256) (sha256 x)"
    and no_collision: "sha256 (evidence_preimage i js) = sha256 (evidence_preimage i' js') \<longrightarrow>
      evidence_preimage i js = evidence_preimage i' js'"
    and fields: "list_all field_ok (i # concat (map evidence_fields (ordered_evidence js)))"
      "list_all field_ok (i' # concat (map evidence_fields (ordered_evidence js')))"
  shows "i = i' \<and> mset (map snd js) = mset (map snd js')"
proof -
  have "sha256 (evidence_preimage i js) = sha256 (evidence_preimage i' js')"
    using assms(1) bytes to_hex_inj unfolding evidence_sha256_def by blast
  then have "evidence_preimage i js = evidence_preimage i' js'" using no_collision by blast
  then have same: "i # concat (map evidence_fields (ordered_evidence js)) =
      i' # concat (map evidence_fields (ordered_evidence js'))"
    unfolding evidence_preimage_def by (rule framed_inj [OF fields])
  then have "ordered_evidence js = ordered_evidence js'" using concat_fields_inj by blast
  then have "mset (map snd js) = mset (map snd js')" unfolding ordered_evidence_def by (metis mset_sort)
  then show ?thesis using same by simp
qed


theorem digest_binds_evidence_witness:
  "lit ''c1'' = lit ''c1'' \<and> mset (map snd [sample_verdict ''Sara'' Reject, sample_verdict ''Hemn'' Reject]) =
     mset (map snd [sample_verdict ''Hemn'' Reject, sample_verdict ''Sara'' Reject])"
proof (rule digest_binds_evidence [of "map (\<lambda>b. b mod 256)"])
  let ?js = "[sample_verdict ''Sara'' Reject, sample_verdict ''Hemn'' Reject]"
  let ?js' = "[sample_verdict ''Hemn'' Reject, sample_verdict ''Sara'' Reject]"
  have same: "ordered_evidence ?js = ordered_evidence ?js'"
    by (rule ordered_evidence_perm [OF sample_verdicts_ok(1)]) simp
  then show "evidence_sha256 (map (\<lambda>b. b mod 256)) (lit ''c1'') ?js = evidence_sha256 (map (\<lambda>b. b mod 256)) (lit ''c1'') ?js'"
    "map (\<lambda>b. b mod 256) (evidence_preimage (lit ''c1'') ?js) = map (\<lambda>b. b mod 256) (evidence_preimage (lit ''c1'') ?js') \<longrightarrow>
      evidence_preimage (lit ''c1'') ?js = evidence_preimage (lit ''c1'') ?js'"
    by (simp_all add: evidence_sha256_def evidence_preimage_def)
  have "set (ordered_evidence ?js) = set (map snd ?js)" by (simp only: ordered_evidence_def set_sort)
  moreover have "field_ok (lit ''c1'')" "\<forall>e \<in> set (map snd ?js). list_all field_ok (evidence_fields e)"
    by (simp_all add: evidence_fields_def sample_verdict_def field_ok_def scalars_def lit_def as_bytes_def utf8_char_def)
  ultimately have "list_all field_ok (lit ''c1'' # concat (map evidence_fields (ordered_evidence ?js)))"
    by (auto simp: list_all_iff)
  with same show "list_all field_ok (lit ''c1'' # concat (map evidence_fields (ordered_evidence ?js)))"
    "list_all field_ok (lit ''c1'' # concat (map evidence_fields (ordered_evidence ?js')))" by simp_all
qed (simp add: list_all_iff)

end
