(* ===== verification/Review_Pool.thy ===== *)
theory Review_Pool
  imports Review_Consensus
begin

text \<open>
  The review pool: second opinions on clips that already carry one verdict (\<open>review_pool.rs\<close>,
  \<open>review_pool/family.rs\<close>, \<open>review_pool/trust.rs\<close>, the playback consumption of \<open>db/core.rs\<close>, and the
  tables, views and triggers of \<open>migrations/mod.rs\<close> at schema version 71).

  A table is the list of its rows; a view is a function of the tables. An \<open>INSERT\<close> succeeds when the
  column checks, the keys and the triggers of its table hold. A transaction that ends in an error is
  rolled back, so that a failing operation yields no new state; the switch of the synchronous mode
  around it does not touch the tables. Ids are the next free integer, as \<open>AUTOINCREMENT\<close> assigns them to
  tables whose rows are never deleted. SHA-256, NFC, Unicode lower-casing, the JSON readers, the uuid
  parser, the trust policy in force and the build's commit hash are the fields of \<open>pool_env\<close>.
\<close>

section \<open>Tables\<close>

record pool_env =
  pe_nfc :: "utext \<Rightarrow> utext"
  pe_sha256 :: "nat list \<Rightarrow> nat list"
  pe_lower :: "utext \<Rightarrow> utext"
  pe_from_str :: "utext \<Rightarrow> json option"
  pe_json_extract :: "utext \<Rightarrow> utext \<Rightarrow> int option option"
  pe_uuid :: "utext \<Rightarrow> utext option"
  pe_policy :: trust_policy
  pe_git_sha :: utext

record pool_member =
  pm_pool_id :: utext
  pm_segment_id :: utext
  pm_voice_name :: utext
  pm_raw_transcript :: utext
  pm_model_version_id :: utext
  pm_audio_content_hash :: utext
  pm_source_start_ms :: int
  pm_source_end_ms :: int
  pm_duration_ms :: int

record pool_decision =
  pd_id :: int
  pd_pool_id :: utext
  pd_segment_id :: utext
  pd_reviewer :: utext
  pd_action :: utext
  pd_submitted_transcript :: "utext option"
  pd_served_transcript :: utext
  pd_served_revision :: int
  pd_audio_content_hash :: "utext option"
  pd_source_start_ms :: "int option"
  pd_source_end_ms :: "int option"
  pd_duration_ms :: int
  pd_requested_action :: utext
  pd_requested_transcript :: utext
  pd_operation_id :: utext
  pd_payload_hash :: utext
  pd_app_git_sha :: utext
  pd_playback_guard :: utext
  pd_created_at_ms :: int

record pool_reversal =
  pr_decision_id :: int
  pr_operation_id :: utext
  pr_reviewer :: utext
  pr_created_at_ms :: int

record adjudication_row =
  ad_id :: int
  ad_pool_id :: utext
  ad_segment_id :: utext
  ad_final_action :: utext
  ad_final_transcript :: "utext option"
  ad_evidence_sha256 :: utext
  ad_operation_id :: utext
  ad_app_git_sha :: utext
  ad_created_at_ms :: int

record legacy_decision =
  ld_id :: int
  ld_segment_id :: utext
  ld_reviewer :: utext
  ld_action :: utext
  ld_submitted_transcript :: "utext option"
  ld_operation_id :: utext

record reopen_member =
  rm_round_seq :: int
  rm_segment_id :: utext
  rm_pool_decision_floor :: int
  rm_adjudication_floor :: int
  rm_review_event_floor :: int
  rm_target_revision :: int

record playback_session =
  ps_receipt_id :: utext
  ps_surface :: utext
  ps_segment_id :: utext
  ps_segment_revision :: int
  ps_audio_content_hash :: utext
  ps_reviewer :: "utext option"
  ps_source_start_ms :: int
  ps_source_end_ms :: int

record playback_receipt =
  pb_session_id :: "utext option"
  pb_policy_version :: int
  pb_segment_id :: utext
  pb_segment_revision :: int
  pb_audio_fingerprint :: utext
  pb_reviewer :: "utext option"
  pb_source_start_ms :: "int option"
  pb_source_end_ms :: "int option"
  pb_played_ms :: int
  pb_clip_duration_ms :: int

record playback_consumption =
  pc_receipt_id :: utext
  pc_namespace :: utext
  pc_operation_id :: utext
  pc_reviewer :: utext
  pc_segment_id :: utext
  pc_created_at_ms :: int

text \<open>
  \<open>pt_exclusions\<close> holds (pool, retired clip, canonical clip); \<open>pt_other_operations\<close> the operation ids of
  the human-decision effects, the review flags and their reversals.
\<close>

record pool_tables =
  pt_pay :: pay_tables
  pt_registry :: "utext option"
  pt_members :: "pool_member list"
  pt_exclusions :: "(utext \<times> utext \<times> utext) list"
  pt_certificates :: "(utext \<times> utext) list"
  pt_decisions :: "pool_decision list"
  pt_reversals :: "pool_reversal list"
  pt_adjudications :: "adjudication_row list"
  pt_legacy :: "legacy_decision list"
  pt_legacy_reversals :: "(int \<times> utext) list"
  pt_reopen :: "reopen_member list"
  pt_other_operations :: "utext list"
  pt_sessions :: "playback_session list"
  pt_receipts :: "playback_receipt list"
  pt_intervals :: "(utext \<times> int \<times> int) list"
  pt_consumptions :: "playback_consumption list"

record review_pool =
  rp_pool_id :: utext
  rp_member_ids :: "utext list"

definition pool_contains :: "review_pool \<Rightarrow> utext \<Rightarrow> bool" where
  "pool_contains pool segment_id \<longleftrightarrow> segment_id \<in> set (rp_member_ids pool)"

record pool_decision_input =
  pi_segment_id :: utext
  pi_reviewer :: utext
  pi_action :: utext
  pi_submitted_transcript :: "utext option"
  pi_served_transcript :: utext
  pi_served_revision :: int
  pi_audio_content_hash :: "utext option"
  pi_source_start_ms :: "int option"
  pi_source_end_ms :: "int option"
  pi_duration_ms :: int
  pi_requested_action :: utext
  pi_requested_transcript :: utext
  pi_operation_id :: utext
  pi_payload_hash :: utext
  pi_created_at_ms :: int
  pi_playback_authority :: "utext option"

record owner_adjudication_input =
  ai_segment_id :: utext
  ai_final_action :: utext
  ai_final_transcript :: "utext option"
  ai_operation_id :: utext
  ai_created_at_ms :: int

section \<open>Views\<close>

definition current_reopen :: "utext \<Rightarrow> pool_tables \<Rightarrow> reopen_member option" where
  "current_reopen segment_id t =
     find (\<lambda>m. rm_segment_id m = segment_id \<and>
        list_all (\<lambda>n. \<not> (rm_segment_id n = segment_id \<and> rm_round_seq m < rm_round_seq n)) (pt_reopen t)) (pt_reopen t)"

definition round_floor :: "(reopen_member \<Rightarrow> int) \<Rightarrow> utext \<Rightarrow> pool_tables \<Rightarrow> int" where
  "round_floor floor segment_id t = (case current_reopen segment_id t of None \<Rightarrow> 0 | Some m \<Rightarrow> floor m)"

definition pool_reversed :: "int \<Rightarrow> pool_tables \<Rightarrow> bool" where
  "pool_reversed i t \<longleftrightarrow> list_ex (\<lambda>r. pr_decision_id r = i) (pt_reversals t)"

definition effective_pool_decisions :: "pool_tables \<Rightarrow> pool_decision list" where
  "effective_pool_decisions t =
     filter (\<lambda>d. \<not> pool_reversed (pd_id d) t \<and> round_floor rm_pool_decision_floor (pd_segment_id d) t < pd_id d)
       (pt_decisions t)"

definition effective_legacy_decisions :: "pool_tables \<Rightarrow> legacy_decision list" where
  "effective_legacy_decisions t =
     filter (\<lambda>d. \<not> list_ex (\<lambda>r. fst r = ld_id d) (pt_legacy_reversals t) \<and>
        current_reopen (ld_segment_id d) t = None) (pt_legacy t)"

section \<open>Coverage\<close>

type_synonym coverage_row = "utext \<times> utext \<times> utext \<times> utext \<times> utext option"

text \<open>\<open>NULLIF(TRIM(value), '')\<close>.\<close>

definition nonblank :: "utext option \<Rightarrow> utext option" where
  "nonblank value = (case value of None \<Rightarrow> None | Some s \<Rightarrow> if sql_trim s = [] then None else Some (sql_trim s))"

definition retaining_actions :: "utext set" where
  "retaining_actions = {lit ''accept'', lit ''edit'', lit ''human_accept'', lit ''human_edit''}"

definition canonical_transcript :: "review_segment \<Rightarrow> utext \<Rightarrow> utext option" where
  "canonical_transcript s action =
     (if action \<in> retaining_actions then
        (case nonblank (rs_verdict_transcript s) of
           Some v \<Rightarrow> Some v
         | None \<Rightarrow> (case nonblank (rs_annotated_transcript s) of Some v \<Rightarrow> Some v | None \<Rightarrow> Some (rs_raw_transcript s)))
      else None)"

definition desktop_reviewer :: "utext option \<Rightarrow> utext" where
  "desktop_reviewer reviewed_by = (case reviewed_by of None \<Rightarrow> DESKTOP_REVIEWER_KEY | Some r \<Rightarrow> r)"

definition canonical_row :: "pool_tables \<Rightarrow> pool_member \<Rightarrow> coverage_row option" where
  "canonical_row t m =
     (case find_segment (pm_segment_id m) (pt_pay t) of
        None \<Rightarrow> None
      | Some s \<Rightarrow>
          (case rs_human_decision s of
             None \<Rightarrow> None
           | Some action \<Rightarrow>
               if rs_verified s \<and> action \<in> retaining_actions \<union> {lit ''reject'', lit ''human_reject''} \<and>
                  current_reopen (rs_id s) t = None
               then Some (pm_segment_id m, desktop_reviewer (rs_reviewed_by s),
                 lit ''canonical:'' @ lit (show_int (rs_review_revision s)), action, canonical_transcript s action)
               else None))"

definition pool_row :: "pool_decision \<Rightarrow> coverage_row" where
  "pool_row d = (pd_segment_id d, pd_reviewer d, lit ''pool:'' @ lit (show_int (pd_id d)), pd_action d,
     pd_submitted_transcript d)"

definition legacy_row :: "legacy_decision \<Rightarrow> coverage_row" where
  "legacy_row d = (ld_segment_id d, ld_reviewer d, lit ''legacy:'' @ lit (show_int (ld_id d)), ld_action d,
     ld_submitted_transcript d)"

definition is_member :: "utext \<Rightarrow> pool_tables \<Rightarrow> bool" where
  "is_member segment_id t \<longleftrightarrow> list_ex (\<lambda>m. pm_segment_id m = segment_id) (pt_members t)"

definition wanted :: "utext set option \<Rightarrow> utext \<Rightarrow> bool" where
  "wanted ids segment_id = (case ids of None \<Rightarrow> True | Some A \<Rightarrow> segment_id \<in> A)"

definition coverage_rows :: "utext set option \<Rightarrow> pool_tables \<Rightarrow> coverage_row list" where
  "coverage_rows ids t =
     filter (\<lambda>row. wanted ids (fst row))
       (List.map_filter (canonical_row t) (pt_members t) @
        map pool_row (effective_pool_decisions t) @
        map legacy_row (filter (\<lambda>d. is_member (ld_segment_id d) t) (effective_legacy_decisions t)))"

fun insert_rows ::
  "(utext \<Rightarrow> utext) \<Rightarrow> coverage_row list \<Rightarrow> (utext \<Rightarrow> segment_reviewers option) \<Rightarrow>
   pool_error + (utext \<Rightarrow> segment_reviewers option)" where
  "insert_rows nfc [] result = Inr result"
| "insert_rows nfc ((segment_id, reviewer, evidence_id, action, transcript) # rows) result =
     and_then (insert_judgement nfc segment_id reviewer evidence_id action transcript result) (insert_rows nfc rows)"

definition reviewer_sets_for_ids ::
  "pool_env \<Rightarrow> utext set option \<Rightarrow> pool_tables \<Rightarrow> pool_error + (utext \<Rightarrow> segment_reviewers option)" where
  "reviewer_sets_for_ids env ids t = insert_rows (pe_nfc env) (coverage_rows ids t) Map.empty"

definition reviewer_sets :: "pool_env \<Rightarrow> pool_tables \<Rightarrow> pool_error + (utext \<Rightarrow> segment_reviewers option)" where
  "reviewer_sets env t = reviewer_sets_for_ids env None t"

definition stored_outcome :: "pool_env \<Rightarrow> utext \<Rightarrow> utext option \<Rightarrow> pool_error + review_outcome" where
  "stored_outcome env action transcript =
     (if action = lit ''retain'' then
        (case map_option (canonical_verbatim_text (pe_nfc env)) transcript of
           Some s \<Rightarrow> if s = [] then Inl ''owner adjudication has no retained transcript'' else Inr (Retain s)
         | None \<Rightarrow> Inl ''owner adjudication has no retained transcript'')
      else if action = lit ''reject'' \<and> transcript = None then Inr Reject
      else Inl ''owner adjudication has invalid outcome evidence'')"

fun push_adjudications ::
  "pool_env \<Rightarrow> adjudication_row list \<Rightarrow> (utext \<Rightarrow> owner_adjudication list option) \<Rightarrow>
   pool_error + (utext \<Rightarrow> owner_adjudication list option)" where
  "push_adjudications env [] result = Inr result"
| "push_adjudications env (a # rows) result =
     and_then (stored_outcome env (ad_final_action a) (ad_final_transcript a)) (\<lambda>v.
     push_adjudications env rows (result(ad_segment_id a \<mapsto>
       (case result (ad_segment_id a) of None \<Rightarrow> [] | Some xs \<Rightarrow> xs) @
         [\<lparr>oa_final_outcome = v, oa_evidence_sha256 = ad_evidence_sha256 a\<rparr>])))"

definition owner_adjudications_for_ids ::
  "pool_env \<Rightarrow> utext set option \<Rightarrow> pool_tables \<Rightarrow> pool_error + (utext \<Rightarrow> owner_adjudication list option)" where
  "owner_adjudications_for_ids env ids t =
     push_adjudications env
       (sort_key (\<lambda>a. - ad_id a)
         (filter (\<lambda>a. wanted ids (ad_segment_id a) \<and>
            round_floor rm_adjudication_floor (ad_segment_id a) t < ad_id a) (pt_adjudications t))) Map.empty"

definition resolution_of ::
  "pool_env \<Rightarrow> utext \<Rightarrow> (utext \<Rightarrow> segment_reviewers option) \<Rightarrow> (utext \<Rightarrow> owner_adjudication list option) \<Rightarrow>
   derived_resolution \<times> utext" where
  "resolution_of env segment_id reviewers adjudications =
     derive_resolution (pe_sha256 env) (pe_policy env) segment_id (reviewers segment_id) (adjudications segment_id)"

definition is_decided :: "pool_env \<Rightarrow> utext \<Rightarrow> pool_tables \<Rightarrow> pool_error + bool" where
  "is_decided env segment_id t =
     and_then (reviewer_sets_for_ids env (Some {segment_id}) t) (\<lambda>reviewers.
     and_then (owner_adjudications_for_ids env (Some {segment_id}) t) (\<lambda>adjudications.
     Inr (case fst (resolution_of env segment_id reviewers adjudications) of
            Resolved _ _ _ \<Rightarrow> True | _ \<Rightarrow> False)))"

section \<open>Duplicate families\<close>

definition family_edges :: "pool_tables \<Rightarrow> (utext \<times> utext) set" where
  "family_edges t =
     set (map (\<lambda>(_, retired, canonical). (canonical, retired))
       (filter (\<lambda>(pool_id, _, _). pt_registry t = Some pool_id) (pt_exclusions t)))"

definition family :: "utext \<Rightarrow> pool_tables \<Rightarrow> utext set" where
  "family segment_id t = (family_edges t)\<^sup>* `` {segment_id}"

definition family_coverage ::
  "pool_env \<Rightarrow> utext \<Rightarrow> pool_tables \<Rightarrow> pool_error + ((utext \<Rightarrow> segment_reviewers option) \<times> utext set)" where
  "family_coverage env segment_id t =
     and_then (reviewer_sets_for_ids env (Some (family segment_id t)) t) (\<lambda>reviewers.
     Inr (reviewers, (\<Union>i \<in> family segment_id t. seen (entry_of reviewers i))))"

definition reviewer_already_saw :: "pool_env \<Rightarrow> utext \<Rightarrow> utext \<Rightarrow> pool_tables \<Rightarrow> pool_error + bool" where
  "reviewer_already_saw env segment_id reviewer t =
     and_then (family_coverage env segment_id t) (\<lambda>(_, exposed). Inr (reviewer_key (Some reviewer) \<in> exposed))"

definition require_unseen_pool_family :: "pool_env \<Rightarrow> utext \<Rightarrow> utext \<Rightarrow> pool_tables \<Rightarrow> pool_error + unit" where
  "require_unseen_pool_family env segment_id reviewer t =
     (if \<not> list_ex (\<lambda>m. pm_segment_id m = segment_id \<and> pt_registry t = Some (pm_pool_id m)) (pt_members t)
      then Inr ()
      else if list_ex (\<lambda>(_, retired, _). retired = segment_id) (pt_exclusions t)
      then Inl ''E_REVIEW_FAMILY_RETIRED''
      else and_then (family_coverage env segment_id t) (\<lambda>(_, exposed).
        require (reviewer_key (Some reviewer) \<notin> exposed) ''E_REVIEW_FAMILY_ALREADY_SEEN''))"

definition may_review :: "pool_env \<Rightarrow> utext \<Rightarrow> utext \<Rightarrow> pool_tables \<Rightarrow> pool_error + bool" where
  "may_review env segment_id reviewer t =
     and_then (reviewer_sets_for_ids env (Some {segment_id}) t) (\<lambda>reviewers.
     and_then (owner_adjudications_for_ids env (Some {segment_id}) t) (\<lambda>adjudications.
     let key = reviewer_key (Some reviewer) in
     if permits_fresh_opinion (pe_policy env) (fst (resolution_of env segment_id reviewers adjudications))
          (reviewers segment_id) key
     then and_then (reviewer_already_saw env segment_id key t) (\<lambda>saw. Inr (\<not> saw))
     else Inr False))"

section \<open>Playback authority\<close>

definition DESKTOP_PLAYBACK_POLICY_VERSION :: int where
  "DESKTOP_PLAYBACK_POLICY_VERSION = 4"

text \<open>A source endpoint of a clip as SQLite's \<open>json_extract\<close> reads it: \<open>None\<close> for a malformed document.\<close>

definition alignment_ms :: "pool_env \<Rightarrow> string \<Rightarrow> review_segment \<Rightarrow> int option option" where
  "alignment_ms env key s =
     (case rs_alignment_json s of None \<Rightarrow> Some None | Some doc \<Rightarrow> pe_json_extract env doc (lit key))"

text \<open>
  The row of the \<open>EXISTS\<close> query. The coverage threshold 0.85 is the exact fraction; a clip of duration
  zero makes the ratio \<open>NULL\<close>, which fails the comparison.
\<close>

definition authority_matches ::
  "pool_env \<Rightarrow> utext \<Rightarrow> int \<Rightarrow> utext \<Rightarrow> int \<Rightarrow> int \<Rightarrow> utext option \<Rightarrow> utext \<Rightarrow> pool_tables \<Rightarrow>
   playback_receipt \<Rightarrow> playback_session \<Rightarrow> review_segment \<Rightarrow> bool" where
  "authority_matches env segment_id revision content_hash source_start source_end reviewer receipt_id t
       receipt session s \<longleftrightarrow>
     pb_session_id receipt = Some receipt_id \<and> ps_receipt_id session = receipt_id \<and> rs_id s = pb_segment_id receipt \<and>
     pb_policy_version receipt = DESKTOP_PLAYBACK_POLICY_VERSION \<and>
     pb_segment_id receipt = segment_id \<and> pb_segment_revision receipt = revision \<and>
     pb_audio_fingerprint receipt = content_hash \<and> pb_reviewer receipt = reviewer \<and>
     pb_source_start_ms receipt = Some source_start \<and> pb_source_end_ms receipt = Some source_end \<and>
     pb_clip_duration_ms receipt = rs_duration_ms s \<and>
     pb_played_ms receipt =
       sum_list (map (\<lambda>(_, a, b). b - a) (filter (\<lambda>(i, _, _). i = receipt_id) (pt_intervals t))) \<and>
     0 < pb_clip_duration_ms receipt \<and> 85 * pb_clip_duration_ms receipt \<le> 100 * pb_played_ms receipt \<and>
     ps_segment_id session = rs_id s \<and> ps_segment_revision session = rs_review_revision s \<and>
     Some (ps_audio_content_hash session) = rs_audio_content_hash s \<and>
     alignment_ms env ''$.source_start_ms'' s = Some (Some (ps_source_start_ms session)) \<and>
     alignment_ms env ''$.source_end_ms'' s = Some (Some (ps_source_end_ms session))"

definition has_sufficient_playback_evidence ::
  "pool_env \<Rightarrow> utext \<Rightarrow> int \<Rightarrow> utext \<Rightarrow> int \<Rightarrow> int \<Rightarrow> utext option \<Rightarrow> utext \<Rightarrow> pool_tables \<Rightarrow> bool" where
  "has_sufficient_playback_evidence env segment_id revision content_hash source_start source_end reviewer receipt_id t \<longleftrightarrow>
     pe_uuid env receipt_id \<noteq> None \<and> is_canonical_audio_content_hash content_hash \<and>
     0 \<le> source_start \<and> source_start < source_end \<and>
     list_ex (\<lambda>receipt. list_ex (\<lambda>session. list_ex (\<lambda>s.
         authority_matches env segment_id revision content_hash source_start source_end reviewer receipt_id t
           receipt session s) (segments (pt_pay t))) (pt_sessions t)) (pt_receipts t)"

text \<open>The keys, checks and trigger of \<open>playback_authority_consumptions_v4\<close>.\<close>

definition consumption_row_ok :: "playback_consumption \<Rightarrow> pool_tables \<Rightarrow> bool" where
  "consumption_row_ok c t \<longleftrightarrow>
     pc_receipt_id c \<notin> set (map pc_receipt_id (pt_consumptions t)) \<and>
     pc_operation_id c \<notin> set (map pc_operation_id (pt_consumptions t)) \<and>
     pc_namespace c \<in> {lit ''canonical'', lit ''spot_check'', lit ''independent''} \<and>
     sql_trim (pc_reviewer c) \<noteq> [] \<and> 0 < pc_created_at_ms c \<and>
     pc_segment_id c \<in> set (map rs_id (segments (pt_pay t))) \<and>
     list_ex (\<lambda>session. ps_receipt_id session = pc_receipt_id c \<and> ps_surface session = lit ''couch'' \<and>
        (case ps_reviewer session of None \<Rightarrow> False | Some r \<Rightarrow> eq_nocase r (pc_reviewer c)) \<and>
        ps_segment_id session = pc_segment_id c \<and>
        list_ex (\<lambda>receipt. pb_session_id receipt = Some (ps_receipt_id session) \<and> pb_policy_version receipt = 4 \<and>
          pb_segment_id receipt = pc_segment_id c) (pt_receipts t)) (pt_sessions t)"

definition consume_couch_playback_authority ::
  "pool_env \<Rightarrow> utext \<Rightarrow> utext \<Rightarrow> utext \<Rightarrow> utext \<Rightarrow> utext \<Rightarrow> int \<Rightarrow> pool_tables \<Rightarrow> pay_error + pool_tables" where
  "consume_couch_playback_authority env receipt_id namespace operation_id reviewer segment_id created_at t =
     (if namespace \<notin> {lit ''canonical'', lit ''spot_check'', lit ''independent''} \<or>
         pe_uuid env receipt_id = None \<or> pe_uuid env operation_id = None \<or> trim reviewer = [] \<or>
         trim segment_id = [] \<or> created_at \<le> 0
      then Inl (PayValidation ''Couch playback consumption identity is invalid'')
      else case find (\<lambda>c. pc_receipt_id c = receipt_id \<or> pc_operation_id c = operation_id) (pt_consumptions t) of
        Some c \<Rightarrow>
          if pc_namespace c = namespace \<and> pc_operation_id c = operation_id \<and>
             eq_nocase (pc_reviewer c) reviewer \<and> pc_segment_id c = segment_id
          then Inr t
          else Inl (PayValidation ''E_PLAYBACK_RECEIPT_CONSUMED'')
      | None \<Rightarrow>
          let c = \<lparr>pc_receipt_id = receipt_id, pc_namespace = namespace, pc_operation_id = operation_id,
                   pc_reviewer = reviewer, pc_segment_id = segment_id, pc_created_at_ms = created_at\<rparr>
          in if consumption_row_ok c t then Inr (t\<lparr>pt_consumptions := pt_consumptions t @ [c]\<rparr>)
             else Inl (PayDatabase ''constraint failed''))"

definition consume_authority_for_pool_decision ::
  "pool_env \<Rightarrow> utext \<Rightarrow> utext \<Rightarrow> utext \<Rightarrow> int \<Rightarrow> utext \<Rightarrow> int \<Rightarrow> int \<Rightarrow> utext \<Rightarrow> int \<Rightarrow> pool_tables \<Rightarrow> pay_error + pool_tables" where
  "consume_authority_for_pool_decision env receipt_id reviewer segment_id revision content_hash
       source_start source_end operation_id created_at t =
     and_then (require (has_sufficient_playback_evidence env segment_id revision content_hash source_start source_end
         (Some reviewer) receipt_id t) (PayValidation ''E_NO_PLAYBACK_EVIDENCE'')) (\<lambda>_.
     consume_couch_playback_authority env receipt_id (lit ''independent'') operation_id reviewer segment_id created_at t)"

section \<open>Constraints of the decision tables\<close>

text \<open>The text form of an operation id that every table checks: a lower-case hyphenated uuid.\<close>

definition operation_id_ok :: "utext \<Rightarrow> bool" where
  "operation_id_ok s \<longleftrightarrow>
     s = map ascii_lower (sql_trim s) \<and> length s = 36 \<and> s ! 8 = 45 \<and> s ! 13 = 45 \<and> s ! 18 = 45 \<and> s ! 23 = 45 \<and>
     length (filter (\<lambda>c. c \<noteq> 45) s) = 32 \<and>
     list_all (\<lambda>c. (48 \<le> c \<and> c \<le> 57) \<or> (97 \<le> c \<and> c \<le> 102)) (filter (\<lambda>c. c \<noteq> 45) s)"

definition lower_hex :: "nat \<Rightarrow> utext \<Rightarrow> bool" where
  "lower_hex n s \<longleftrightarrow> length s = n \<and> list_all (\<lambda>c. (48 \<le> c \<and> c \<le> 57) \<or> (97 \<le> c \<and> c \<le> 102)) s"

definition reviewer_name_ok :: "utext \<Rightarrow> bool" where
  "reviewer_name_ok r \<longleftrightarrow> r = sql_trim r \<and> 1 \<le> length r \<and> length r \<le> 80"

definition next_decision_id :: "pool_tables \<Rightarrow> int" where
  "next_decision_id t = foldr max (map pd_id (pt_decisions t)) 0 + 1"

definition decision_columns_ok :: "pool_decision \<Rightarrow> pool_tables \<Rightarrow> bool" where
  "decision_columns_ok d t \<longleftrightarrow>
     reviewer_name_ok (pd_reviewer d) \<and>
     pd_action d \<in> {lit ''accept'', lit ''edit'', lit ''reject'', lit ''skip''} \<and>
     sql_trim (pd_served_transcript d) \<noteq> [] \<and> 0 \<le> pd_served_revision d \<and> 0 \<le> pd_duration_ms d \<and>
     pd_requested_action d \<in> {lit ''accept'', lit ''edit'', lit ''bad'', lit ''skip''} \<and>
     operation_id_ok (pd_operation_id d) \<and> pd_operation_id d \<notin> set (map pd_operation_id (pt_decisions t)) \<and>
     lower_hex 64 (pd_payload_hash d) \<and> lower_hex 40 (pd_app_git_sha d) \<and>
     pd_playback_guard d = lit ''content-hash-raw-counter-v3'' \<and> 0 < pd_created_at_ms d \<and>
     list_ex (\<lambda>m. pm_pool_id m = pd_pool_id d \<and> pm_segment_id m = pd_segment_id d) (pt_members t) \<and>
     pd_segment_id d \<in> set (map rs_id (segments (pt_pay t)))"

text \<open>The clip still is what the member row froze; \<open>None\<close> when the alignment document is malformed.\<close>

definition member_unchanged :: "pool_env \<Rightarrow> review_segment \<Rightarrow> pool_member \<Rightarrow> bool option" where
  "member_unchanged env s m =
     (if \<not> (rs_verified s \<and> rs_human_decision s \<in> {Some (lit ''accept''), Some (lit ''edit''), Some (lit ''reject'')} \<and>
            rs_raw_transcript s = pm_raw_transcript m \<and>
            (case rs_model_version_id s of None \<Rightarrow> [] | Some v \<Rightarrow> v) = pm_model_version_id m \<and>
            rs_audio_content_hash s = Some (pm_audio_content_hash m))
      then Some False
      else Option.bind (alignment_ms env ''$.source_start_ms'' s) (\<lambda>a.
        Option.bind (alignment_ms env ''$.source_end_ms'' s) (\<lambda>b.
        Some (a = Some (pm_source_start_ms m) \<and> b = Some (pm_source_end_ms m) \<and> rs_duration_ms s = pm_duration_ms m))))"

text \<open>\<open>review_pool_decision_validate_insert\<close>.\<close>

definition decision_transcript_ok :: "pool_decision \<Rightarrow> bool" where
  "decision_transcript_ok d \<longleftrightarrow>
     (pd_action d \<in> {lit ''accept'', lit ''edit''} \<longrightarrow> nonblank (pd_submitted_transcript d) \<noteq> None) \<and>
     (pd_action d \<in> {lit ''reject'', lit ''skip''} \<longrightarrow> pd_submitted_transcript d = None)"

definition decision_identity_ok :: "pool_decision \<Rightarrow> bool" where
  "decision_identity_ok d \<longleftrightarrow>
     pd_action d \<noteq> lit ''skip'' \<longrightarrow>
       (case (pd_audio_content_hash d, pd_source_start_ms d, pd_source_end_ms d) of
          (Some hash, Some a, Some b) \<Rightarrow> lower_hex 64 hash \<and> 0 \<le> a \<and> a < b
        | _ \<Rightarrow> False)"

definition decision_matches_member :: "pool_env \<Rightarrow> pool_decision \<Rightarrow> pool_tables \<Rightarrow> bool" where
  "decision_matches_member env d t \<longleftrightarrow>
     list_ex (\<lambda>m. pm_pool_id m = pd_pool_id d \<and> pm_segment_id m = pd_segment_id d \<and>
       list_ex (\<lambda>s. rs_id s = pm_segment_id m \<and> member_unchanged env s m = Some True \<and>
         pd_served_transcript d = sql_trim (pm_raw_transcript m) \<and> pd_duration_ms d = pm_duration_ms m \<and>
         (pd_action d = lit ''skip'' \<or>
          pd_audio_content_hash d = Some (pm_audio_content_hash m) \<and>
          pd_source_start_ms d = Some (pm_source_start_ms m) \<and> pd_source_end_ms d = Some (pm_source_end_ms m)))
         (segments (pt_pay t))) (pt_members t)"

definition sql_name :: "utext \<Rightarrow> utext" where
  "sql_name r = map ascii_lower (sql_trim r)"

definition decision_independent :: "pool_decision \<Rightarrow> pool_tables \<Rightarrow> bool" where
  "decision_independent d t \<longleftrightarrow>
     \<not> list_ex (\<lambda>s. rs_id s = pd_segment_id d \<and> sql_name (desktop_reviewer (rs_reviewed_by s)) = sql_name (pd_reviewer d) \<and>
         current_reopen (pd_segment_id d) t = None) (segments (pt_pay t)) \<and>
     \<not> list_ex (\<lambda>p. pd_pool_id p = pd_pool_id d \<and> pd_segment_id p = pd_segment_id d \<and>
         eq_nocase (pd_reviewer p) (pd_reviewer d)) (effective_pool_decisions t) \<and>
     \<not> list_ex (\<lambda>p. ld_segment_id p = pd_segment_id d \<and> eq_nocase (ld_reviewer p) (pd_reviewer d))
         (effective_legacy_decisions t) \<and>
     \<not> list_ex (\<lambda>v. ev_operation_id v = Some (pd_operation_id d)) (review_events (pt_pay t)) \<and>
     \<not> list_ex (\<lambda>p. ld_operation_id p = pd_operation_id d) (pt_legacy t)"

text \<open>\<open>review_pool_v63_decision_terminal_guard\<close> and \<open>review_pool_v64_excluded_decision_guard\<close>.\<close>

definition voice_certified :: "utext \<Rightarrow> utext \<Rightarrow> pool_tables \<Rightarrow> bool" where
  "voice_certified pool_id segment_id t \<longleftrightarrow>
     list_ex (\<lambda>m. pm_pool_id m = pool_id \<and> pm_segment_id m = segment_id \<and>
       (pm_pool_id m, pm_voice_name m) \<in> set (pt_certificates t)) (pt_members t)"

definition judging_names :: "utext \<Rightarrow> pool_tables \<Rightarrow> utext list" where
  "judging_names segment_id t = remdups
     (map (\<lambda>s. sql_name (desktop_reviewer (rs_reviewed_by s)))
        (filter (\<lambda>s. rs_id s = segment_id \<and> rs_verified s \<and>
           rs_human_decision s \<in> {Some (lit ''accept''), Some (lit ''edit''), Some (lit ''reject'')} \<and>
           current_reopen (rs_id s) t = None) (segments (pt_pay t))) @
      map (\<lambda>d. sql_name (ld_reviewer d))
        (filter (\<lambda>d. ld_segment_id d = segment_id \<and> ld_action d \<noteq> lit ''skip'') (effective_legacy_decisions t)) @
      map (\<lambda>d. sql_name (pd_reviewer d))
        (filter (\<lambda>d. pd_segment_id d = segment_id \<and> pd_action d \<noteq> lit ''skip'') (effective_pool_decisions t)))"

definition decision_not_terminal :: "pool_decision \<Rightarrow> pool_tables \<Rightarrow> bool" where
  "decision_not_terminal d t \<longleftrightarrow>
     \<not> voice_certified (pd_pool_id d) (pd_segment_id d) t \<and>
     (pd_action d \<noteq> lit ''skip'' \<longrightarrow> length (judging_names (pd_segment_id d) t) < 3)"

definition is_excluded :: "utext \<Rightarrow> utext \<Rightarrow> pool_tables \<Rightarrow> bool" where
  "is_excluded pool_id segment_id t \<longleftrightarrow>
     list_ex (\<lambda>(p, retired, _). p = pool_id \<and> retired = segment_id) (pt_exclusions t)"

definition decision_row_ok :: "pool_env \<Rightarrow> pool_decision \<Rightarrow> pool_tables \<Rightarrow> bool" where
  "decision_row_ok env d t \<longleftrightarrow>
     decision_columns_ok d t \<and> decision_transcript_ok d \<and> decision_identity_ok d \<and>
     decision_matches_member env d t \<and> decision_independent d t \<and> decision_not_terminal d t \<and>
     \<not> is_excluded (pd_pool_id d) (pd_segment_id d) t"

text \<open>The columns and triggers of \<open>review_pool_reversals\<close>.\<close>

definition reversal_row_ok :: "pool_reversal \<Rightarrow> pool_tables \<Rightarrow> bool" where
  "reversal_row_ok r t \<longleftrightarrow>
     pr_decision_id r \<notin> set (map pr_decision_id (pt_reversals t)) \<and>
     pr_operation_id r \<notin> set (map pr_operation_id (pt_reversals t)) \<and> operation_id_ok (pr_operation_id r) \<and>
     reviewer_name_ok (pr_reviewer r) \<and> 0 < pr_created_at_ms r \<and>
     list_ex (\<lambda>d. pd_id d = pr_decision_id r \<and> eq_nocase (pd_reviewer d) (pr_reviewer r)) (pt_decisions t) \<and>
     \<not> list_ex (\<lambda>d. pd_id d = pr_decision_id r \<and> voice_certified (pd_pool_id d) (pd_segment_id d) t) (pt_decisions t)"

text \<open>The columns and triggers of \<open>review_pool_owner_adjudications\<close>.\<close>

definition adjudication_row_ok :: "adjudication_row \<Rightarrow> pool_tables \<Rightarrow> bool" where
  "adjudication_row_ok a t \<longleftrightarrow>
     ad_final_action a \<in> {lit ''retain'', lit ''reject''} \<and> lower_hex 64 (ad_evidence_sha256 a) \<and>
     operation_id_ok (ad_operation_id a) \<and> ad_operation_id a \<notin> set (map ad_operation_id (pt_adjudications t)) \<and>
     lower_hex 40 (ad_app_git_sha a) \<and> 0 < ad_created_at_ms a \<and>
     list_ex (\<lambda>m. pm_pool_id m = ad_pool_id a \<and> pm_segment_id m = ad_segment_id a) (pt_members t) \<and>
     (ad_final_action a = lit ''retain'' \<longrightarrow> nonblank (ad_final_transcript a) \<noteq> None) \<and>
     (ad_final_action a = lit ''reject'' \<longrightarrow> ad_final_transcript a = None) \<and>
     \<not> voice_certified (ad_pool_id a) (ad_segment_id a) t \<and> \<not> is_excluded (ad_pool_id a) (ad_segment_id a) t"

section \<open>Operations\<close>

definition canonical_uuid :: "pool_env \<Rightarrow> utext \<Rightarrow> pool_error + unit" where
  "canonical_uuid env value =
     (case pe_uuid env value of
        None \<Rightarrow> Inl ''must be a canonical UUID''
      | Some hyphenated \<Rightarrow> require (hyphenated = value) ''must be a lowercase hyphenated UUID'')"

definition operation_collides :: "utext \<Rightarrow> bool \<Rightarrow> pool_tables \<Rightarrow> bool" where
  "operation_collides operation_id reversal t \<longleftrightarrow>
     list_ex (\<lambda>v. ev_operation_id v = Some operation_id) (review_events (pt_pay t)) \<or>
     operation_id \<in> set (pt_other_operations t) \<or>
     operation_id \<in> set (map ld_operation_id (pt_legacy t)) \<or>
     operation_id \<in> set (map snd (pt_legacy_reversals t)) \<or>
     reversal \<and> operation_id \<in> set (map pd_operation_id (pt_decisions t)) \<or>
     \<not> reversal \<and> operation_id \<in> set (map pr_operation_id (pt_reversals t))"

definition require_pool_operation_namespace :: "utext \<Rightarrow> bool \<Rightarrow> pool_tables \<Rightarrow> pool_error + unit" where
  "require_pool_operation_namespace operation_id reversal t =
     require (\<not> operation_collides operation_id reversal t) ''E_REVIEW_OPERATION_NAMESPACE_COLLISION''"

definition map_err :: "'f \<Rightarrow> 'e + 'a \<Rightarrow> 'f + 'a" where
  "map_err f r = (case r of Inl _ \<Rightarrow> Inl f | Inr x \<Rightarrow> Inr x)"

definition decision_input_ok :: "pool_decision_input \<Rightarrow> pool_error + unit" where
  "decision_input_ok i =
     and_then (require (valid_lower_sha256 (pi_payload_hash i) \<and> 0 < pi_created_at_ms i \<and>
         0 \<le> pi_served_revision i \<and> 0 < pi_duration_ms i \<and> trim (pi_reviewer i) \<noteq> [])
       ''review pool decision contains invalid identity or timing evidence'') (\<lambda>_.
     require
       (pi_action i \<in> {lit ''accept'', lit ''edit''} \<and>
          (case pi_submitted_transcript i of None \<Rightarrow> False | Some s \<Rightarrow> trim s \<noteq> []) \<or>
        pi_action i \<in> {lit ''reject'', lit ''skip''} \<and> pi_submitted_transcript i = None)
       ''review pool decision action/transcript is invalid'')"

text \<open>The part of the transaction that asks whether this reviewer may still judge this clip.\<close>

definition require_open_clip :: "pool_env \<Rightarrow> pool_decision_input \<Rightarrow> pool_tables \<Rightarrow> pool_error + unit" where
  "require_open_clip env i t =
     (let reviewer = reviewer_key (Some (pi_reviewer i)) in
      and_then (require_pool_operation_namespace (pi_operation_id i) False t) (\<lambda>_.
      and_then (require_unseen_pool_family env (pi_segment_id i) (pi_reviewer i) t) (\<lambda>_.
      and_then (reviewer_sets env t) (\<lambda>reviewers.
      and_then (owner_adjudications_for_ids env None t) (\<lambda>adjudications.
      let now = reviewers (pi_segment_id i) in
      if (case now of None \<Rightarrow> False | Some state \<Rightarrow> reviewer \<in> seen state)
      then Inl ''review pool decision is duplicated for this reviewer''
      else case fst (resolution_of env (pi_segment_id i) reviewers adjudications) of
        Resolved _ _ _ \<Rightarrow> Inl ''review pool clip is already resolved''
      | OwnerConflict \<Rightarrow>
          require (permits_fresh_opinion (pe_policy env) OwnerConflict now reviewer)
            ''review pool clip requires owner adjudication''
      | _ \<Rightarrow> Inr ())))))"

text \<open>The row that \<open>INSERT ... SELECT\<close> builds from the clip and its member row, if the clip is as it was served.\<close>

definition served_row ::
  "pool_env \<Rightarrow> review_pool \<Rightarrow> pool_decision_input \<Rightarrow> review_segment \<Rightarrow> pool_member \<Rightarrow> pool_tables \<Rightarrow> pool_decision" where
  "served_row env pool i s m t =
     (let skip = (pi_action i = lit ''skip'') in
      \<lparr>pd_id = next_decision_id t, pd_pool_id = rp_pool_id pool, pd_segment_id = rs_id s,
       pd_reviewer = sql_trim (pi_reviewer i), pd_action = pi_action i,
       pd_submitted_transcript = pi_submitted_transcript i,
       pd_served_transcript = trim (pi_served_transcript i), pd_served_revision = pi_served_revision i,
       pd_audio_content_hash = (if skip then None else Some (pm_audio_content_hash m)),
       pd_source_start_ms = (if skip then None else Some (pm_source_start_ms m)),
       pd_source_end_ms = (if skip then None else Some (pm_source_end_ms m)),
       pd_duration_ms = pm_duration_ms m, pd_requested_action = pi_requested_action i,
       pd_requested_transcript = pi_requested_transcript i, pd_operation_id = pi_operation_id i,
       pd_payload_hash = pi_payload_hash i, pd_app_git_sha = pe_git_sha env,
       pd_playback_guard = lit ''content-hash-raw-counter-v3'', pd_created_at_ms = pi_created_at_ms i\<rparr>)"

definition still_served ::
  "pool_env \<Rightarrow> pool_decision_input \<Rightarrow> review_segment \<Rightarrow> pool_member \<Rightarrow> bool option" where
  "still_served env i s m =
     (if rs_review_revision s = pi_served_revision i \<and>
         sql_trim (pm_raw_transcript m) = trim (pi_served_transcript i) \<and> pm_duration_ms m = pi_duration_ms i \<and>
         (pi_action i = lit ''skip'' \<or>
          pi_audio_content_hash i = Some (pm_audio_content_hash m) \<and>
          pi_source_start_ms i = Some (pm_source_start_ms m) \<and> pi_source_end_ms i = Some (pm_source_end_ms m))
      then member_unchanged env s m else Some False)"

definition insert_decision ::
  "pool_env \<Rightarrow> review_pool \<Rightarrow> pool_decision_input \<Rightarrow> pool_tables \<Rightarrow> pool_error + (pool_decision option \<times> pool_tables)" where
  "insert_decision env pool i t =
     (case (find_segment (pi_segment_id i) (pt_pay t),
            find (\<lambda>m. pm_segment_id m = pi_segment_id i \<and> pm_pool_id m = rp_pool_id pool) (pt_members t)) of
        (Some s, Some m) \<Rightarrow>
          (case still_served env i s m of
             None \<Rightarrow> Inl ''review pool decision cannot be written''
           | Some False \<Rightarrow> Inr (None, t)
           | Some True \<Rightarrow>
               let d = served_row env pool i s m t in
               if decision_row_ok env d t then Inr (Some d, t\<lparr>pt_decisions := pt_decisions t @ [d]\<rparr>)
               else Inl ''review pool decision cannot be written'')
      | _ \<Rightarrow> Inr (None, t))"

definition pay_decision ::
  "pool_env \<Rightarrow> utext \<Rightarrow> pool_decision_input \<Rightarrow> pool_decision \<Rightarrow> pool_tables \<Rightarrow> pool_error + pool_tables" where
  "pay_decision env uuid i d t =
     (case pi_playback_authority i of
        None \<Rightarrow> Inl ''E_NO_PLAYBACK_EVIDENCE''
      | Some authority \<Rightarrow>
          (case (pi_audio_content_hash i, pi_source_start_ms i, pi_source_end_ms i) of
             (Some content_hash, Some source_start, Some source_end) \<Rightarrow>
               and_then (map_err ''review pool playback authority cannot be consumed''
                 (consume_authority_for_pool_decision env authority (pi_reviewer i) (pi_segment_id i)
                    (pi_served_revision i) content_hash source_start source_end (pi_operation_id i)
                    (pi_created_at_ms i) t)) (\<lambda>t1.
               and_then (map_err ''review pool compensation cannot be written''
                 (append_review_pool_compensation (pe_lower env) (pe_from_str env) uuid (pd_id d)
                    (pi_segment_id i) (pi_reviewer i) (pi_action i) (pi_served_revision i) (pt_pay t1))) (\<lambda>pay.
               Inr (t1\<lparr>pt_pay := pay\<rparr>)))
           | _ \<Rightarrow> Inl ''review pool decision is missing the audio identity its playback proof binds''))"

definition record_decision ::
  "pool_env \<Rightarrow> utext \<Rightarrow> review_pool \<Rightarrow> pool_decision_input \<Rightarrow> pool_tables \<Rightarrow> pool_error + (int option \<times> pool_tables)" where
  "record_decision env uuid pool i t =
     and_then (require (pool_contains pool (pi_segment_id i)) ''decision is outside the active review pool'') (\<lambda>_.
     and_then (canonical_uuid env (pi_operation_id i)) (\<lambda>_.
     and_then (decision_input_ok i) (\<lambda>_.
     and_then (require_open_clip env i t) (\<lambda>_.
     and_then (insert_decision env pool i t) (\<lambda>(written, t1).
     case written of
       None \<Rightarrow> Inr (None, t1)
     | Some d \<Rightarrow>
         if pi_action i = lit ''skip'' then Inr (Some (pd_id d), t1)
         else and_then (pay_decision env uuid i d t1) (\<lambda>t2. Inr (Some (pd_id d), t2)))))))"

definition requested_outcome :: "pool_env \<Rightarrow> owner_adjudication_input \<Rightarrow> pool_error + review_outcome" where
  "requested_outcome env i =
     (if ai_final_action i = lit ''retain'' then
        (case map_option (canonical_verbatim_text (pe_nfc env)) (ai_final_transcript i) of
           Some s \<Rightarrow> if s = [] then Inl ''retained owner adjudication requires a transcript'' else Inr (Retain s)
         | None \<Rightarrow> Inl ''retained owner adjudication requires a transcript'')
      else if ai_final_action i = lit ''reject'' \<and> ai_final_transcript i = None then Inr Reject
      else Inl ''owner adjudication must be retain+text or reject without text'')"

definition replayed_outcome :: "pool_env \<Rightarrow> adjudication_row \<Rightarrow> pool_error + review_outcome" where
  "replayed_outcome env a =
     (if ad_final_action a = lit ''retain''
      then Inr (Retain (canonical_verbatim_text (pe_nfc env)
        (case ad_final_transcript a of None \<Rightarrow> [] | Some s \<Rightarrow> s)))
      else if ad_final_action a = lit ''reject'' then Inr Reject
      else Inl ''stored owner adjudication receipt is invalid'')"

definition next_adjudication_id :: "pool_tables \<Rightarrow> int" where
  "next_adjudication_id t = foldr max (map ad_id (pt_adjudications t)) 0 + 1"

definition record_owner_adjudication ::
  "pool_env \<Rightarrow> review_pool \<Rightarrow> owner_adjudication_input \<Rightarrow> pool_tables \<Rightarrow> pool_error + (int \<times> pool_tables)" where
  "record_owner_adjudication env pool i t =
     and_then (require (pool_contains pool (ai_segment_id i)) ''owner adjudication is outside the active review pool'') (\<lambda>_.
     and_then (canonical_uuid env (ai_operation_id i)) (\<lambda>_.
     and_then (require (0 < ai_created_at_ms i) ''owner adjudication timestamp is invalid'') (\<lambda>_.
     and_then (requested_outcome env i) (\<lambda>v.
     case find (\<lambda>a. ad_operation_id a = ai_operation_id i) (pt_adjudications t) of
       Some a \<Rightarrow>
         and_then (replayed_outcome env a) (\<lambda>w.
         if w = v then Inr (ad_id a, t)
         else Inl ''owner adjudication operation id is already bound to another outcome'')
     | None \<Rightarrow>
         and_then (reviewer_sets env t) (\<lambda>reviewers.
         and_then (owner_adjudications_for_ids env None t) (\<lambda>adjudications.
         case resolution_of env (ai_segment_id i) reviewers adjudications of (resolution, digest) \<Rightarrow>
         if resolution \<noteq> OwnerConflict
         then Inl ''owner adjudication is allowed only after three distinct outcomes''
         else
           let a = \<lparr>ad_id = next_adjudication_id t, ad_pool_id = rp_pool_id pool, ad_segment_id = ai_segment_id i,
                    ad_final_action = final_action v, ad_final_transcript = final_transcript v,
                    ad_evidence_sha256 = digest, ad_operation_id = ai_operation_id i,
                    ad_app_git_sha = pe_git_sha env, ad_created_at_ms = ai_created_at_ms i\<rparr>
           in if adjudication_row_ok a t
              then Inr (ad_id a, t\<lparr>pt_adjudications := pt_adjudications t @ [a]\<rparr>)
              else Inl ''owner adjudication cannot be written''))))))"

definition find_operation :: "utext \<Rightarrow> pool_tables \<Rightarrow> pool_decision option" where
  "find_operation operation_id t = find (\<lambda>d. pd_operation_id d = operation_id) (pt_decisions t)"

text \<open>\<open>ORDER BY id DESC LIMIT 1\<close>.\<close>

fun newest_decision :: "pool_decision list \<Rightarrow> pool_decision option" where
  "newest_decision [] = None"
| "newest_decision (d # ds) =
     (case newest_decision ds of None \<Rightarrow> Some d | Some e \<Rightarrow> if pd_id d < pd_id e then Some e else Some d)"

definition latest_decision :: "utext \<Rightarrow> utext \<Rightarrow> pool_tables \<Rightarrow> pool_decision option" where
  "latest_decision pool_id reviewer t =
     newest_decision (filter (\<lambda>d. pd_pool_id d = pool_id \<and> eq_nocase (pd_reviewer d) reviewer)
       (effective_pool_decisions t))"

definition write_reversal ::
  "pool_env \<Rightarrow> utext \<Rightarrow> pool_reversal \<Rightarrow> pool_tables \<Rightarrow> pool_error + pool_tables" where
  "write_reversal env uuid r t =
     and_then (require (reversal_row_ok r t) ''review pool reversal cannot be written'') (\<lambda>_.
     and_then (map_err ''review pool compensation cannot be reversed''
       (append_review_pool_compensation_reversal uuid (pr_decision_id r) (pr_operation_id r) (pt_pay t))) (\<lambda>pay.
     Inr (t\<lparr>pt_reversals := pt_reversals t @ [r], pt_pay := pay\<rparr>)))"

definition reverse_decision ::
  "pool_env \<Rightarrow> utext \<Rightarrow> review_pool \<Rightarrow> int \<Rightarrow> utext \<Rightarrow> utext \<Rightarrow> int \<Rightarrow> pool_tables \<Rightarrow> pool_error + pool_tables" where
  "reverse_decision env uuid pool decision_id reviewer operation_id created_at t =
     and_then (canonical_uuid env operation_id) (\<lambda>_.
     case find (\<lambda>r. pr_decision_id r = decision_id) (pt_reversals t) of
       Some r \<Rightarrow>
         if pr_operation_id r = operation_id \<and> eq_nocase (pr_reviewer r) reviewer then Inr t
         else Inl ''review pool decision already has another reversal identity''
     | None \<Rightarrow>
         and_then (require_pool_operation_namespace operation_id True t) (\<lambda>_.
         if list_ex (\<lambda>d. pd_id d = decision_id \<and> pd_pool_id d = rp_pool_id pool \<and>
              eq_nocase (pd_reviewer d) reviewer) (pt_decisions t)
         then write_reversal env uuid
           \<lparr>pr_decision_id = decision_id, pr_operation_id = operation_id, pr_reviewer = reviewer,
            pr_created_at_ms = created_at\<rparr> t
         else Inl ''review pool reversal target is missing or belongs to another reviewer''))"

definition reverse_decision_addressed ::
  "pool_env \<Rightarrow> utext \<Rightarrow> review_pool \<Rightarrow> int \<Rightarrow> utext \<Rightarrow> utext \<Rightarrow> utext \<Rightarrow> int \<Rightarrow> pool_tables \<Rightarrow>
   pool_error + (utext option \<times> pool_tables)" where
  "reverse_decision_addressed env uuid pool decision_id reviewer decision_operation reversal_operation created_at t =
     (if decision_id \<le> 0 \<or> created_at \<le> 0 then Inr (None, t)
      else
        and_then (canonical_uuid env decision_operation) (\<lambda>_.
        and_then (canonical_uuid env reversal_operation) (\<lambda>_.
        if decision_operation = reversal_operation then Inr (None, t)
        else case find (\<lambda>d. pd_id d = decision_id \<and> pd_pool_id d = rp_pool_id pool \<and>
                 eq_nocase (pd_reviewer d) reviewer) (pt_decisions t) of
          None \<Rightarrow> Inr (None, t)
        | Some d \<Rightarrow>
            if pd_operation_id d \<noteq> decision_operation then Inr (None, t)
            else if map_option pd_id (newest_decision (filter (\<lambda>e. pd_pool_id e = rp_pool_id pool \<and>
                   eq_nocase (pd_reviewer e) reviewer) (pt_decisions t))) \<noteq> Some decision_id
            then Inr (None, t)
            else case find (\<lambda>r. pr_decision_id r = decision_id) (pt_reversals t) of
              Some r \<Rightarrow>
                Inr (if pr_operation_id r = reversal_operation \<and> eq_nocase (pr_reviewer r) reviewer
                     then Some (pd_segment_id d) else None, t)
            | None \<Rightarrow>
                and_then (require_pool_operation_namespace reversal_operation True t) (\<lambda>_.
                and_then (write_reversal env uuid
                  \<lparr>pr_decision_id = decision_id, pr_operation_id = reversal_operation, pr_reviewer = reviewer,
                   pr_created_at_ms = created_at\<rparr> t) (\<lambda>t1.
                Inr (Some (pd_segment_id d), t1))))))"

section \<open>What a coverage read returns\<close>

fun row_outcome :: "(utext \<Rightarrow> utext) \<Rightarrow> coverage_row \<Rightarrow> pool_error + review_outcome option" where
  "row_outcome nfc (_, _, _, action, transcript) = outcome_from_action nfc action transcript"

fun row_key :: "coverage_row \<Rightarrow> utext" where
  "row_key (_, reviewer, _, _, _) = reviewer_key (Some reviewer)"

fun judgement_of :: "(utext \<Rightarrow> utext) \<Rightarrow> coverage_row \<Rightarrow> (utext \<times> judgement_evidence) option" where
  "judgement_of nfc (_, reviewer, evidence_id, action, transcript) =
     (case outcome_from_action nfc action transcript of
        Inr (Some v) \<Rightarrow> Some (reviewer_key (Some reviewer),
          \<lparr>je_reviewer = trim reviewer, je_evidence_id = evidence_id, je_outcome = v\<rparr>)
      | _ \<Rightarrow> None)"

definition rows_of :: "utext \<Rightarrow> coverage_row list \<Rightarrow> coverage_row list" where
  "rows_of segment_id rows = filter (\<lambda>row. fst row = segment_id) rows"

definition row_judgements :: "(utext \<Rightarrow> utext) \<Rightarrow> utext \<Rightarrow> coverage_row list \<Rightarrow> judgements" where
  "row_judgements nfc segment_id rows = List.map_filter (judgement_of nfc) (rows_of segment_id rows)"

text \<open>Every row has a known action with its transcript, and nobody judges one clip twice.\<close>

definition readable :: "(utext \<Rightarrow> utext) \<Rightarrow> coverage_row list \<Rightarrow> bool" where
  "readable nfc rows \<longleftrightarrow>
     (\<forall>row \<in> set rows. is_ok (row_outcome nfc row)) \<and> (\<forall>i. distinct (map fst (row_judgements nfc i rows)))"

definition cover :: "(utext \<Rightarrow> utext) \<Rightarrow> coverage_row list \<Rightarrow> utext \<Rightarrow> segment_reviewers option" where
  "cover nfc rows segment_id =
     (if rows_of segment_id rows = [] then None
      else Some \<lparr>judged = row_judgements nfc segment_id rows, seen = row_key ` set (rows_of segment_id rows)\<rparr>)"

lemma map_filter_append [simp]: "List.map_filter f (xs @ ys) = List.map_filter f xs @ List.map_filter f ys"
  by (simp add: List.map_filter_def)

lemma rows_of_append [simp]: "rows_of i (xs @ ys) = rows_of i xs @ rows_of i ys"
  by (simp add: rows_of_def)

lemma rows_of_single: "rows_of i [row] = (if fst row = i then [row] else [])"
  by (simp add: rows_of_def)

lemma row_judgements_append [simp]:
  "row_judgements nfc i (xs @ ys) = row_judgements nfc i xs @ row_judgements nfc i ys"
  by (simp add: row_judgements_def)

lemma entry_of_cover [simp]:
  "entry_of (cover nfc rows) i =
     \<lparr>judged = row_judgements nfc i rows, seen = row_key ` set (rows_of i rows)\<rparr>"
  by (simp add: entry_of_def cover_def row_judgements_def List.map_filter_def)

lemma row_judgements_single:
  "row_judgements nfc i [row] =
     (if fst row = i then (case judgement_of nfc row of None \<Rightarrow> [] | Some j \<Rightarrow> [j]) else [])"
  by (simp add: row_judgements_def rows_of_single List.map_filter_def split: option.split)

lemma judgement_of_key: "judgement_of nfc row = Some j \<Longrightarrow> fst j = row_key row"
  by (cases row) (auto split: sum.splits option.splits)

lemma judgement_of_None_iff: "judgement_of nfc row = None \<longleftrightarrow> (\<forall>v. row_outcome nfc row \<noteq> Inr (Some v))"
  by (cases row) (auto split: sum.splits option.splits)

lemma readable_snoc:
  "readable nfc (rows @ [row]) \<longleftrightarrow> readable nfc rows \<and> is_ok (row_outcome nfc row) \<and>
     (judgement_of nfc row \<noteq> None \<longrightarrow> row_key row \<notin> fst ` set (row_judgements nfc (fst row) rows))"
proof (cases "judgement_of nfc row")
  case (Some j)
  have "distinct (map fst (row_judgements nfc i (rows @ [row]))) \<longleftrightarrow> distinct (map fst (row_judgements nfc i rows)) \<and>
      (fst row = i \<longrightarrow> row_key row \<notin> fst ` set (row_judgements nfc (fst row) rows))" for i
    using judgement_of_key [OF Some] Some by (cases "fst row = i") (auto simp: row_judgements_single)
  then show ?thesis using Some by (simp add: readable_def) blast
next
  case None
  then have "row_judgements nfc i [row] = []" for i by (simp add: row_judgements_single)
  then show ?thesis using None by (auto simp: readable_def)
qed

lemma readable_appendD: "readable nfc (xs @ ys) \<Longrightarrow> readable nfc xs"
  by (auto simp: readable_def)

lemma insert_judgement_cover:
  fixes row :: coverage_row
  assumes "row = (segment_id, reviewer, evidence_id, action, transcript)" and "readable nfc rows"
  shows "insert_judgement nfc segment_id reviewer evidence_id action transcript (cover nfc rows) = Inr m \<longleftrightarrow>
    readable nfc (rows @ [row]) \<and> m = cover nfc (rows @ [row])"
proof (cases "outcome_from_action nfc action transcript")
  case (Inl e)
  then show ?thesis using assms by (simp add: insert_judgement_def readable_snoc Let_def)
next
  case (Inr found)
  have cover': "cover nfc (rows @ [row]) = (cover nfc rows)(segment_id \<mapsto>
      \<lparr>judged = row_judgements nfc segment_id rows @ (case judgement_of nfc row of None \<Rightarrow> [] | Some j \<Rightarrow> [j]),
       seen = insert (reviewer_key (Some reviewer)) (row_key ` set (rows_of segment_id rows))\<rparr>)"
    using assms(1) by (auto simp: cover_def fun_eq_iff rows_of_single row_judgements_single split: option.split)
  have keys: "map_of (row_judgements nfc segment_id rows) k = None \<longleftrightarrow> k \<notin> fst ` set (row_judgements nfc segment_id rows)" for k
    by (simp add: map_of_eq_None_iff)
  show ?thesis
  proof (cases found)
    case None
    then show ?thesis
      using Inr assms unfolding cover' readable_snoc
      by (auto simp: insert_judgement_def Let_def)
  next
    case (Some v)
    then show ?thesis
      using Inr assms keys [of "reviewer_key (Some reviewer)"] unfolding cover' readable_snoc
      by (auto simp: insert_judgement_def Let_def image_iff)
  qed
qed

lemma insert_rows_cover:
  "readable nfc done \<Longrightarrow>
   insert_rows nfc rows (cover nfc done) = Inr m \<longleftrightarrow> readable nfc (done @ rows) \<and> m = cover nfc (done @ rows)"
proof (induction rows arbitrary: "done")
  case (Cons row rows)
  obtain segment_id reviewer evidence_id action transcript
    where row: "row = (segment_id, reviewer, evidence_id, action, transcript)" by (metis surj_pair)
  have later: "readable nfc (done @ row # rows) \<Longrightarrow> readable nfc (done @ [row])"
    using readable_appendD [of nfc "done @ [row]" rows] by simp
  show ?case
    using insert_judgement_cover [OF row Cons.prems] Cons.IH [of "done @ [row]"] later
    by (auto simp: row and_then_eq_Inr_iff)
qed auto

lemma reviewer_sets_for_ids_eq:
  "reviewer_sets_for_ids env ids t = Inr m \<longleftrightarrow>
     readable (pe_nfc env) (coverage_rows ids t) \<and> m = cover (pe_nfc env) (coverage_rows ids t)"
proof -
  have "cover (pe_nfc env) [] = Map.empty" by (simp add: cover_def fun_eq_iff rows_of_def)
  then show ?thesis
    using insert_rows_cover [of "pe_nfc env" "[]" "coverage_rows ids t" m]
    by (simp add: reviewer_sets_for_ids_def readable_def row_judgements_def rows_of_def List.map_filter_def)
qed

lemma judgement_of_ok: "judgement_of nfc row = Some j \<Longrightarrow> evidence_ok j"
  by (cases row) (auto simp: evidence_ok_def outcome_from_action_ok split: sum.splits option.splits)

lemma row_judgements_members:
  "j \<in> set (row_judgements nfc i rows) \<longleftrightarrow> (\<exists>row \<in> set (rows_of i rows). judgement_of nfc row = Some j)"
  by (force simp: row_judgements_def List.map_filter_def)

lemma readable_judgements_ok: "readable nfc rows \<Longrightarrow> judgements_ok (row_judgements nfc i rows)"
  using judgement_of_ok by (auto simp: judgements_ok_def list_all_iff readable_def row_judgements_members)

lemma judged_are_seen: "fst ` set (row_judgements nfc i rows) \<subseteq> row_key ` set (rows_of i rows)"
proof
  fix k assume "k \<in> fst ` set (row_judgements nfc i rows)"
  then obtain j row where "row \<in> set (rows_of i rows)" "judgement_of nfc row = Some j" "k = fst j"
    by (auto simp: row_judgements_members)
  then show "k \<in> row_key ` set (rows_of i rows)" using judgement_of_key by (metis imageI)
qed

lemma row_judgements_mset:
  assumes "mset xs = mset ys"
  shows "mset (row_judgements nfc i xs) = mset (row_judgements nfc i ys)"
proof -
  have "mset (row_judgements nfc i zs) = image_mset (the \<circ> judgement_of nfc)
      (filter_mset (\<lambda>row. fst row = i \<and> judgement_of nfc row \<noteq> None) (mset zs))" for zs
    by (simp add: row_judgements_def rows_of_def List.map_filter_def)
  then show ?thesis using assms by simp
qed

lemma readable_mset:
  assumes "mset xs = mset ys"
  shows "readable nfc xs \<longleftrightarrow> readable nfc ys"
proof -
  have "mset (map fst (row_judgements nfc i xs)) = mset (map fst (row_judgements nfc i ys))" for i
    using row_judgements_mset [OF assms] by (metis mset_map)
  moreover have "set xs = set ys" using assms by (metis set_mset_mset)
  ultimately show ?thesis unfolding readable_def by (metis mset_eq_imp_distinct_iff)
qed

text \<open>
  C15. Whatever the tables hold, a coverage read that succeeds returns well-formed evidence: for every clip it
  mentions, each judgement is filed under the normalized key of the reviewer who made it, retained
  transcripts are trimmed and non-blank, nobody appears twice, everyone who judged also counts as
  having seen the clip, and a read for given clips mentions no other.
\<close>
theorem coverage_well_formed:
  assumes "reviewer_sets_for_ids env ids t = Inr m" and "m i = Some r"
  shows "judgements_ok (judged r) \<and> fst ` set (judged r) \<subseteq> seen r \<and> wanted ids i"
proof -
  let ?rows = "coverage_rows ids t"
  have m: "readable (pe_nfc env) ?rows" "cover (pe_nfc env) ?rows i = Some r"
    using assms by (auto simp: reviewer_sets_for_ids_eq)
  then have "rows_of i ?rows \<noteq> []" by (auto simp: cover_def)
  then have "wanted ids i" by (auto simp: rows_of_def coverage_rows_def filter_empty_conv)
  moreover have "r = \<lparr>judged = row_judgements (pe_nfc env) i ?rows, seen = row_key ` set (rows_of i ?rows)\<rparr>"
    using m(2) by (simp add: cover_def split: if_splits)
  ultimately show ?thesis
    using readable_judgements_ok [OF m(1), of i] judged_are_seen [of "pe_nfc env" i ?rows] by simp
qed

section \<open>Reading one clip and reading the whole pool\<close>

lemma coverage_rows_Some: "coverage_rows (Some A) t = filter (\<lambda>row. fst row \<in> A) (coverage_rows None t)"
  by (simp add: coverage_rows_def wanted_def)

lemma rows_of_wanted:
  "i \<in> A \<Longrightarrow> rows_of i (coverage_rows (Some A) t) = rows_of i (coverage_rows None t)"
  unfolding coverage_rows_Some rows_of_def filter_filter by (rule filter_cong) auto

lemma readable_filter: "readable nfc rows \<Longrightarrow> readable nfc (filter (\<lambda>row. fst row \<in> A) rows)"
proof -
  assume r: "readable nfc rows"
  have "row_judgements nfc i (filter (\<lambda>row. fst row \<in> A) rows) = (if i \<in> A then row_judgements nfc i rows else [])" for i
    by (auto simp: row_judgements_def rows_of_def List.map_filter_def intro!: arg_cong [where f = "map _"] filter_cong)
  then show ?thesis using r by (auto simp: readable_def)
qed

lemma reviewer_sets_restricted:
  assumes "reviewer_sets env t = Inr m"
  obtains m' where "reviewer_sets_for_ids env (Some A) t = Inr m'" and "\<And>i. i \<in> A \<Longrightarrow> m' i = m i"
proof (rule that)
  show "reviewer_sets_for_ids env (Some A) t = Inr (cover (pe_nfc env) (coverage_rows (Some A) t))"
    using assms readable_filter [of "pe_nfc env" "coverage_rows None t" A]
    by (simp add: reviewer_sets_def reviewer_sets_for_ids_eq coverage_rows_Some)
  show "i \<in> A \<Longrightarrow> cover (pe_nfc env) (coverage_rows (Some A) t) i = m i" for i
    using assms rows_of_wanted [of i A t]
    by (simp add: reviewer_sets_def reviewer_sets_for_ids_eq cover_def row_judgements_def)
qed

lemma push_adjudications_restricted:
  assumes "push_adjudications env rows m0 = Inr m" and "\<And>i. i \<in> A \<Longrightarrow> m0' i = m0 i"
  shows "\<exists>m'. push_adjudications env (filter (\<lambda>a. ad_segment_id a \<in> A) rows) m0' = Inr m' \<and> (\<forall>i \<in> A. m' i = m i)"
  using assms
proof (induction rows arbitrary: m0 m0')
  case (Cons a rows)
  from Cons.prems(1) obtain v where v: "stored_outcome env (ad_final_action a) (ad_final_transcript a) = Inr v"
    and rest: "push_adjudications env rows (m0(ad_segment_id a \<mapsto>
       (case m0 (ad_segment_id a) of None \<Rightarrow> [] | Some xs \<Rightarrow> xs) @
         [\<lparr>oa_final_outcome = v, oa_evidence_sha256 = ad_evidence_sha256 a\<rparr>])) = Inr m"
    by (auto simp: and_then_eq_Inr_iff)
  show ?case
  proof (cases "ad_segment_id a \<in> A")
    case True
    let ?m = "m0'(ad_segment_id a \<mapsto> (case m0' (ad_segment_id a) of None \<Rightarrow> [] | Some xs \<Rightarrow> xs) @
         [\<lparr>oa_final_outcome = v, oa_evidence_sha256 = ad_evidence_sha256 a\<rparr>])"
    have "\<exists>m'. push_adjudications env (filter (\<lambda>a. ad_segment_id a \<in> A) rows) ?m = Inr m' \<and> (\<forall>i \<in> A. m' i = m i)"
      by (rule Cons.IH [OF rest]) (use True Cons.prems(2) in auto)
    then show ?thesis using True v by simp
  next
    case False
    have "\<exists>m'. push_adjudications env (filter (\<lambda>a. ad_segment_id a \<in> A) rows) m0' = Inr m' \<and> (\<forall>i \<in> A. m' i = m i)"
      by (rule Cons.IH [OF rest]) (use False Cons.prems(2) in auto)
    then show ?thesis using False by simp
  qed
qed simp

lemma owner_adjudications_restricted:
  assumes "owner_adjudications_for_ids env None t = Inr m"
  obtains m' where "owner_adjudications_for_ids env (Some A) t = Inr m'" and "\<And>i. i \<in> A \<Longrightarrow> m' i = m i"
proof -
  define rows where "rows = filter (\<lambda>a. round_floor rm_adjudication_floor (ad_segment_id a) t < ad_id a) (pt_adjudications t)"
  have "filter (\<lambda>a. ad_segment_id a \<in> A \<and> round_floor rm_adjudication_floor (ad_segment_id a) t < ad_id a) (pt_adjudications t) =
      filter (\<lambda>a. ad_segment_id a \<in> A) rows"
    by (auto simp: rows_def intro!: filter_cong)
  then have only: "owner_adjudications_for_ids env (Some A) t =
      push_adjudications env (filter (\<lambda>a. ad_segment_id a \<in> A) (sort_key (\<lambda>a. - ad_id a) rows)) Map.empty"
    by (simp add: owner_adjudications_for_ids_def wanted_def filter_sort)
  have all: "push_adjudications env (sort_key (\<lambda>a. - ad_id a) rows) Map.empty = Inr m"
    using assms by (simp add: owner_adjudications_for_ids_def wanted_def rows_def)
  from push_adjudications_restricted [OF all, of A Map.empty] show thesis
    unfolding only [symmetric] using that by blast
qed

text \<open>
  C16. The cheap per-request reads decide as the pool-wide ones do: whenever the whole pool's coverage and
  adjudications can be read, asking for one clip alone succeeds and reports it decided exactly when
  the pool-wide resolution, which export and the queue use, is a final one.
\<close>
theorem per_clip_read_agrees:
  assumes "reviewer_sets env t = Inr reviewers" and "owner_adjudications_for_ids env None t = Inr adjudications"
  shows "is_decided env i t = Inr (\<exists>v names owner. fst (resolution_of env i reviewers adjudications) = Resolved v names owner)"
proof -
  obtain r a where r: "reviewer_sets_for_ids env (Some {i}) t = Inr r" "r i = reviewers i"
    and a: "owner_adjudications_for_ids env (Some {i}) t = Inr a" "a i = adjudications i"
    using reviewer_sets_restricted [OF assms(1), of "{i}"] owner_adjudications_restricted [OF assms(2), of "{i}"]
    by (metis singletonI)
  show ?thesis
    by (cases "fst (resolution_of env i reviewers adjudications)")
      (use r a in \<open>simp_all add: is_decided_def resolution_of_def\<close>)
qed

end
