(* ===== verification/Pool_Ledger.thy ===== *)
theory Pool_Ledger
  imports Review_Pool
begin

text \<open>
  What the review pool guarantees over time: every judgement it accepts is paid exactly once and backed by its
  own listen, a reversal takes judgement and pay back together, and a recorded judgement changes the
  coverage of its clip by exactly one verdict. The pool's four writing operations interleave with the other
  writers of the database, which are described by what they keep of the pool's tables (\<open>others_keep\<close>).
\<close>

section \<open>Names\<close>

lemma trim_spaces:
  assumes "\<forall>c \<in> set z. is_whitespace c"
  shows "trim (z @ v) = trim v" and "trim (v @ z) = trim v"
proof -
  have front: "dropWhile is_whitespace (z @ w) = dropWhile is_whitespace w" for w
    using assms by (simp add: dropWhile_append2)
  then show "trim (z @ v) = trim v" by (simp add: trim_def trim_start_def)
  have tail: "dropWhile is_whitespace (rev z @ w) = dropWhile is_whitespace w" for w
    by (rule dropWhile_append2) (use assms in simp)
  show "trim (v @ z) = trim v"
  proof (cases "\<forall>c \<in> set v. is_whitespace c")
    case True
    then have "dropWhile is_whitespace v = []" "dropWhile is_whitespace (v @ z) = []"
      using assms by (auto simp: dropWhile_eq_Nil_conv)
    then show ?thesis by (simp only: trim_def trim_start_def)
  next
    case False
    then obtain x where x: "x \<in> set v" "\<not> is_whitespace x" by blast
    have "dropWhile is_whitespace (v @ z) = dropWhile is_whitespace v @ z"
      using x by (metis dropWhile_append1)
    then show ?thesis by (simp add: trim_def trim_start_def trim_end_def tail)
  qed
qed

lemma sql_trim_split: obtains a b where "s = a @ sql_trim s @ b" and "\<forall>c \<in> set (a @ b). is_whitespace c"
proof -
  define u where "u = dropWhile (\<lambda>c. c = (32::nat)) s"
  define a where "a = takeWhile (\<lambda>c. c = (32::nat)) s"
  define b where "b = rev (takeWhile (\<lambda>c. c = (32::nat)) (rev u))"
  have "s = a @ u" by (simp add: a_def u_def)
  moreover have "rev u = rev b @ rev (sql_trim s)" by (simp add: b_def u_def sql_trim_def)
  then have "u = sql_trim s @ b" by (metis rev_append rev_rev_ident)
  moreover have "\<forall>c \<in> set a. c = 32" "\<forall>c \<in> set b. c = 32"
    by (auto simp: a_def b_def dest: set_takeWhileD)
  ultimately show thesis using that [of a b] by (metis UnE is_whitespace_space set_append)
qed

lemma trim_sql_trim [simp]: "trim (sql_trim s) = trim s"
proof -
  obtain a b where s: "s = a @ sql_trim s @ b" and ws: "\<forall>c \<in> set (a @ b). is_whitespace c"
    by (rule sql_trim_split)
  have "trim s = trim (sql_trim s @ b)" using trim_spaces(1) [of a "sql_trim s @ b"] s ws by simp
  also have "\<dots> = trim (sql_trim s)" using ws by (intro trim_spaces(2)) simp
  finally show ?thesis by simp
qed

lemma reviewer_key_sql_trim [simp]: "reviewer_key (Some (sql_trim r)) = reviewer_key (Some r)"
  by (simp add: reviewer_key_def)

lemma whitespace_ascii_lower [simp]: "is_whitespace (ascii_lower c) = is_whitespace c"
  by (auto simp: ascii_lower_def is_whitespace_def)

lemma trim_ascii_lower: "trim (map ascii_lower s) = map ascii_lower (trim s)"
  by (simp add: trim_def trim_start_def trim_end_def dropWhile_map o_def rev_map)

lemma reviewer_key_nocase: "eq_nocase a b \<Longrightarrow> reviewer_key (Some a) = reviewer_key (Some b)"
  unfolding eq_nocase_def reviewer_key_def by (simp add: trim_ascii_lower [symmetric]) (metis map_is_Nil_conv trim_ascii_lower)

lemma member_below_foldr_max: "x \<in> set xs \<Longrightarrow> (x :: int) \<le> foldr max xs b"
  by (induction xs) auto

lemma next_decision_id_fresh: "d \<in> set (pt_decisions t) \<Longrightarrow> pd_id d < next_decision_id t"
  using member_below_foldr_max [of "pd_id d" "map pd_id (pt_decisions t)" 0] by (simp add: next_decision_id_def)

lemma foldr_max_mono: "(a :: int) \<le> b \<Longrightarrow> foldr max xs a \<le> foldr max xs b"
  by (induction xs) (auto simp: max_def)

lemma foldr_max_ge: "(b :: int) \<le> foldr max xs b"
  by (induction xs) auto

lemma next_decision_id_append:
  "pt_decisions t' = pt_decisions t @ ds \<Longrightarrow> next_decision_id t \<le> next_decision_id t'"
  unfolding next_decision_id_def
  using foldr_max_mono [OF foldr_max_ge [of 0 "map pd_id ds"], of "map pd_id (pt_decisions t)"] by simp

lemma map_err_Inr [simp]: "map_err f r = Inr x \<longleftrightarrow> r = Inr x"
  by (simp add: map_err_def split: sum.split)

lemma insert_decision_cases:
  assumes "insert_decision env pool i t = Inr (written, t1)"
  obtains (stale) "written = None" "t1 = t"
  | (inserted) s m where "find_segment (pi_segment_id i) (pt_pay t) = Some s" "still_served env i s m = Some True"
      "written = Some (served_row env pool i s m t)" "decision_row_ok env (served_row env pool i s m t) t"
      "t1 = t\<lparr>pt_decisions := pt_decisions t @ [served_row env pool i s m t]\<rparr>"
proof (cases "find_segment (pi_segment_id i) (pt_pay t)")
  case None
  then show thesis using assms by (intro stale) (simp_all add: insert_decision_def)
next
  case (Some s)
  show thesis
  proof (cases "find (\<lambda>m. pm_segment_id m = pi_segment_id i \<and> pm_pool_id m = rp_pool_id pool) (pt_members t)")
    case None
    then show thesis using assms Some by (intro stale) (simp_all add: insert_decision_def)
  next
    case member: (Some m)
    show thesis
    proof (cases "still_served env i s m = Some True")
      case True
      then show thesis
        using assms Some member by (intro inserted [of s m]) (simp_all add: insert_decision_def Let_def split: if_splits)
    next
      case False
      then show thesis
        using assms Some member by (intro stale) (auto simp: insert_decision_def split: option.splits bool.splits)
    qed
  qed
qed

lemma record_decision_cases:
  assumes "record_decision env uuid pool i t = Inr (res, t')"
  obtains (stale) "res = None" "t' = t"
  | (recorded) d s m t1 where "d = served_row env pool i s m t" "res = Some (pd_id d)"
      "decision_input_ok i = Inr ()" "require_open_clip env i t = Inr ()"
      "find_segment (pi_segment_id i) (pt_pay t) = Some s" "still_served env i s m = Some True"
      "decision_row_ok env d t" "t1 = t\<lparr>pt_decisions := pt_decisions t @ [d]\<rparr>"
      "if pi_action i = lit ''skip'' then t' = t1 else pay_decision env uuid i d t1 = Inr t'"
proof -
  from assms obtain written t1 where ok: "decision_input_ok i = Inr ()" "require_open_clip env i t = Inr ()"
    and ins: "insert_decision env pool i t = Inr (written, t1)"
    and rest: "(case written of None \<Rightarrow> Inr (None, t1)
      | Some d \<Rightarrow> if pi_action i = lit ''skip'' then Inr (Some (pd_id d), t1)
         else and_then (pay_decision env uuid i d t1) (\<lambda>t2. Inr (Some (pd_id d), t2))) = Inr (res, t')"
    by (auto simp: record_decision_def and_then_eq_Inr_iff)
  from ins show thesis
  proof (cases rule: insert_decision_cases)
    case stale
    then show thesis using rest by (intro that(1)) auto
  next
    case (inserted s m)
    then show thesis
      using rest ok by (intro that(2) [of _ s m t1]) (auto simp: and_then_eq_Inr_iff split: if_splits)
  qed
qed

lemma served_row_simps [simp]:
  "pd_id (served_row env pool i s m t) = next_decision_id t"
  "pd_segment_id (served_row env pool i s m t) = rs_id s"
  "pd_reviewer (served_row env pool i s m t) = sql_trim (pi_reviewer i)"
  "pd_action (served_row env pool i s m t) = pi_action i"
  "pd_submitted_transcript (served_row env pool i s m t) = pi_submitted_transcript i"
  "pd_operation_id (served_row env pool i s m t) = pi_operation_id i"
  "pd_pool_id (served_row env pool i s m t) = rp_pool_id pool"
  by (simp_all add: served_row_def Let_def)

lemma consume_cases:
  assumes "consume_couch_playback_authority env receipt_id namespace operation_id reviewer segment_id created_at t = Inr t'"
  obtains c where "c \<in> set (pt_consumptions t')" "pc_operation_id c = operation_id" "pc_segment_id c = segment_id"
      "eq_nocase (pc_reviewer c) reviewer" "pc_namespace c = namespace"
      "t' = t \<or> consumption_row_ok c t \<and> t' = t\<lparr>pt_consumptions := pt_consumptions t @ [c]\<rparr>"
proof (cases "find (\<lambda>c. pc_receipt_id c = receipt_id \<or> pc_operation_id c = operation_id) (pt_consumptions t)")
  case (Some c)
  then have "c \<in> set (pt_consumptions t)" by (metis find_SomeD)
  with Some show thesis
    using assms by (intro that [of c]) (auto simp: consume_couch_playback_authority_def split: if_splits)
next
  case None
  let ?c = "\<lparr>pc_receipt_id = receipt_id, pc_namespace = namespace, pc_operation_id = operation_id,
    pc_reviewer = reviewer, pc_segment_id = segment_id, pc_created_at_ms = created_at\<rparr>"
  have "consumption_row_ok ?c t \<and> t' = t\<lparr>pt_consumptions := pt_consumptions t @ [?c]\<rparr>"
    using assms None by (simp add: consume_couch_playback_authority_def Let_def split: if_splits)
  then show thesis by (intro that [of ?c]) auto
qed

lemma pay_decision_cases:
  assumes "pay_decision env uuid i d t = Inr t'"
  obtains authority t1 pay where "pi_playback_authority i = Some authority"
      "consume_couch_playback_authority env authority (lit ''independent'') (pi_operation_id i) (pi_reviewer i)
         (pi_segment_id i) (pi_created_at_ms i) t = Inr t1"
      "append_review_pool_compensation (pe_lower env) (pe_from_str env) uuid (pd_id d) (pi_segment_id i)
         (pi_reviewer i) (pi_action i) (pi_served_revision i) (pt_pay t1) = Inr pay"
      "t' = t1\<lparr>pt_pay := pay\<rparr>"
  using assms
  by (auto simp: pay_decision_def consume_authority_for_pool_decision_def and_then_eq_Inr_iff split: option.splits)


section \<open>Every judgement is paid once and backed by its own listen\<close>

definition paid_decisions :: "pool_tables \<Rightarrow> int set" where
  "paid_decisions t = {pd_id d |d. d \<in> set (pt_decisions t) \<and> pd_action d \<noteq> lit ''skip'' \<and> \<not> pool_reversed (pd_id d) t}"

definition listens :: "playback_consumption \<Rightarrow> pool_decision \<Rightarrow> bool" where
  "listens c d \<longleftrightarrow> pc_operation_id c = pd_operation_id d \<and> pc_segment_id c = pd_segment_id d \<and>
     reviewer_key (Some (pc_reviewer c)) = reviewer_key (Some (pd_reviewer d))"

definition consumptions_ok :: "pool_tables \<Rightarrow> bool" where
  "consumptions_ok t \<longleftrightarrow> distinct (map pc_receipt_id (pt_consumptions t)) \<and> distinct (map pc_operation_id (pt_consumptions t))"

definition undo_ids :: "pool_tables \<Rightarrow> utext set" where
  "undo_ids t = set (map pr_operation_id (pt_reversals t)) \<union> set (pt_other_operations t)"

text \<open>A reopen round holds only decisions that existed when it was recorded (\<open>review_reopen_member_validate\<close>).\<close>

definition floors_ok :: "pool_tables \<Rightarrow> bool" where
  "floors_ok t \<longleftrightarrow> (\<forall>m \<in> set (pt_reopen t). rm_pool_decision_floor m < next_decision_id t)"

lemma floors_ok_append:
  "floors_ok t \<Longrightarrow> pt_decisions t' = pt_decisions t @ ds \<Longrightarrow> pt_reopen t' = pt_reopen t \<Longrightarrow> floors_ok t'"
  using next_decision_id_append [of t' t ds] by (fastforce simp: floors_ok_def)

definition pool_ok :: "pool_tables \<Rightarrow> bool" where
  "pool_ok t \<longleftrightarrow> floors_ok t \<and> consumptions_ok t \<and> distinct (map pd_id (pt_decisions t)) \<and>
     distinct (map pd_operation_id (pt_decisions t)) \<and>
     pr_decision_id ` set (pt_reversals t) \<subseteq> pd_id ` set (pt_decisions t) \<and>
     (\<forall>d \<in> set (pt_decisions t). pd_action d \<noteq> lit ''skip'' \<longrightarrow> (\<exists>c \<in> set (pt_consumptions t). listens c d)) \<and>
     pool_book.mirrors (paid_decisions t) (pd_id ` set (pt_decisions t)) (pt_pay t) \<and>
     undo_operations (pt_pay t) \<subseteq> undo_ids t"

text \<open>
  What the other writers of the database keep of the pool's tables: decisions and reversals are
  append-only and written by the pool alone, consumptions are never changed, credits of pool decisions
  are neither opened nor closed, and an undo entry belongs to a recorded operation.
\<close>

definition others_keep :: "pool_tables \<Rightarrow> pool_tables \<Rightarrow> bool" where
  "others_keep t t' \<longleftrightarrow>
     pt_decisions t' = pt_decisions t \<and> pt_reversals t' = pt_reversals t \<and> floors_ok t' \<and>
     set (pt_consumptions t) \<subseteq> set (pt_consumptions t') \<and> consumptions_ok t' \<and>
     set (pt_other_operations t) \<subseteq> set (pt_other_operations t') \<and>
     book_ok (pt_pay t') \<and> open_decisions (pt_pay t') = open_decisions (pt_pay t) \<and>
     credited_decisions (pt_pay t') = credited_decisions (pt_pay t) \<and>
     undo_operations (pt_pay t') \<subseteq> undo_operations (pt_pay t) \<union> set (pt_other_operations t')"

lemma pool_ok_others: "pool_ok t \<Longrightarrow> others_keep t t' \<Longrightarrow> pool_ok t'"
proof -
  assume ok: "pool_ok t" and keep: "others_keep t t'"
  have "paid_decisions t' = paid_decisions t" "undo_ids t \<subseteq> undo_ids t'"
    using keep by (auto simp: others_keep_def paid_decisions_def pool_reversed_def undo_ids_def)
  then show "pool_ok t'"
    using ok keep unfolding pool_ok_def others_keep_def pool_book.mirrors_def undo_ids_def by (auto 0 3)
qed

lemma pool_reversed_decisions [simp]: "pool_reversed x (t\<lparr>pt_decisions := ds\<rparr>) = pool_reversed x t"
  by (simp add: pool_reversed_def)

lemma decision_row_okD:
  assumes "decision_row_ok env d t"
  shows "pd_operation_id d \<notin> set (map pd_operation_id (pt_decisions t))"
    and "pd_action d \<in> {lit ''accept'', lit ''edit'', lit ''reject'', lit ''skip''}" and "pd_segment_id d = i \<Longrightarrow> is_member i t"
  using assms by (auto simp: decision_row_ok_def decision_columns_ok_def is_member_def list_ex_iff)

lemma find_segment_id: "find_segment i t = Some s \<Longrightarrow> rs_id s = i"
  by (auto simp: find_segment_def dest: find_SomeD)

text \<open>Adding a decision: the shape of the tables afterwards, with its credit and its consumption if it is paid.\<close>

lemma decision_added:
  assumes ok: "pool_ok t" and fresh: "pd_id d = next_decision_id t"
    and row: "decision_row_ok env d t" and skip: "pd_action d = lit ''skip''"
  shows "pool_ok (t\<lparr>pt_decisions := pt_decisions t @ [d]\<rparr>)"
proof -
  have new: "pd_id d \<notin> pd_id ` set (pt_decisions t)"
    using next_decision_id_fresh fresh by fastforce
  have "paid_decisions (t\<lparr>pt_decisions := pt_decisions t @ [d]\<rparr>) = paid_decisions t"
    using skip by (auto simp: paid_decisions_def)
  then show ?thesis
    using ok new decision_row_okD(1) [OF row] skip
      floors_ok_append [of t "t\<lparr>pt_decisions := pt_decisions t @ [d]\<rparr>" "[d]"]
    by (auto simp: pool_ok_def consumptions_ok_def undo_ids_def pool_book.mirrors_def)
qed

lemma decision_paid:
  assumes ok: "pool_ok t" and d: "d = served_row env pool i s m t" and seg: "rs_id s = pi_segment_id i"
    and row: "decision_row_ok env d t"
    and act: "pi_action i \<noteq> lit ''skip''" and pay: "pay_decision env uuid i d (t\<lparr>pt_decisions := pt_decisions t @ [d]\<rparr>) = Inr t'"
  shows "pool_ok t'"
proof -
  have new: "pd_id d \<notin> pd_id ` set (pt_decisions t)"
    using next_decision_id_fresh d by fastforce
  from pay obtain authority t1 book
    where consume: "consume_couch_playback_authority env authority (lit ''independent'') (pi_operation_id i) (pi_reviewer i)
         (pi_segment_id i) (pi_created_at_ms i) (t\<lparr>pt_decisions := pt_decisions t @ [d]\<rparr>) = Inr t1"
      and credit: "append_review_pool_compensation (pe_lower env) (pe_from_str env) uuid (pd_id d) (pi_segment_id i)
         (pi_reviewer i) (pi_action i) (pi_served_revision i) (pt_pay t1) = Inr book"
      and t': "t' = t1\<lparr>pt_pay := book\<rparr>"
    by (rule pay_decision_cases)
  from consume obtain c where c: "c \<in> set (pt_consumptions t1)" "pc_operation_id c = pi_operation_id i"
      "pc_segment_id c = pi_segment_id i" "eq_nocase (pc_reviewer c) (pi_reviewer i)"
    and t1: "t1 = t\<lparr>pt_decisions := pt_decisions t @ [d]\<rparr> \<or> consumption_row_ok c (t\<lparr>pt_decisions := pt_decisions t @ [d]\<rparr>) \<and>
      t1 = t\<lparr>pt_decisions := pt_decisions t @ [d], pt_consumptions := pt_consumptions t @ [c]\<rparr>"
    by (rule consume_cases) auto
  have same: "pt_pay t1 = pt_pay t" "pt_decisions t1 = pt_decisions t @ [d]" "pt_reversals t1 = pt_reversals t"
    "pt_other_operations t1 = pt_other_operations t" "set (pt_consumptions t) \<subseteq> set (pt_consumptions t1)"
    "pt_reopen t1 = pt_reopen t"
    using t1 by auto
  have floors: "floors_ok t'" using ok floors_ok_append [of t t' "[d]"] by (simp add: pool_ok_def t' same)
  have cons: "consumptions_ok t1" using ok t1 by (auto simp: pool_ok_def consumptions_ok_def consumption_row_ok_def)
  have "listens c d" using c d seg reviewer_key_nocase [OF c(4)] by (simp add: listens_def)
  then have backed: "\<forall>x \<in> set (pt_decisions t @ [d]). pd_action x \<noteq> lit ''skip'' \<longrightarrow> (\<exists>c \<in> set (pt_consumptions t1). listens c x)"
    using ok same(5) c(1) by (simp add: pool_ok_def) blast
  have "pool_credit_step (pe_lower env) (pe_from_str env)
      (uuid, pd_id d, pi_segment_id i, pi_reviewer i, pi_action i, pi_served_revision i) (pt_pay t) = Inr book"
    using credit same(1) by simp
  from pool_book.mirrors_credit [OF _ this] ok
  have book: "pool_book.mirrors (insert (pd_id d) (paid_decisions t)) (insert (pd_id d) (pd_id ` set (pt_decisions t))) book"
      "undo_operations book = undo_operations (pt_pay t)"
    by (auto simp: pool_ok_def)
  have "\<not> pool_reversed (pd_id d) t" using ok new unfolding pool_ok_def pool_reversed_def list_ex_iff by (metis imageI subsetD)
  moreover have "pd_action d \<noteq> lit ''skip''" using act d by simp
  ultimately have "paid_decisions t' = insert (pd_id d) (paid_decisions t)"
    unfolding paid_decisions_def pool_reversed_def t' by (simp add: same) blast
  then show ?thesis
    using ok new decision_row_okD(1) [OF row] cons backed book floors
    by (simp add: pool_ok_def t' same undo_ids_def consumptions_ok_def) blast
qed

lemma pool_ok_record:
  assumes ok: "pool_ok t" and "record_decision env uuid pool i t = Inr (res, t')"
  shows "pool_ok t'"
  using assms(2)
proof (cases rule: record_decision_cases)
  case (recorded d s m t1)
  show ?thesis
  proof (cases "pi_action i = lit ''skip''")
    case True
    then show ?thesis using decision_added [OF ok _ recorded(7)] recorded(1,8,9) by simp
  next
    case False
    show ?thesis
      by (rule decision_paid [OF ok recorded(1) find_segment_id [OF recorded(5)] recorded(7) False])
        (use recorded(8,9) False in simp)
  qed
qed (use ok in simp)

lemma write_reversal_cases:
  assumes "write_reversal env uuid r t = Inr t'"
  obtains pay where "reversal_row_ok r t"
    "append_review_pool_compensation_reversal uuid (pr_decision_id r) (pr_operation_id r) (pt_pay t) = Inr pay"
    "t' = t\<lparr>pt_reversals := pt_reversals t @ [r], pt_pay := pay\<rparr>"
  using assms by (auto simp: write_reversal_def and_then_eq_Inr_iff)

lemma pool_ok_reversal:
  assumes ok: "pool_ok t" and free: "\<not> operation_collides (pr_operation_id r) True t"
    and done_by: "write_reversal env uuid r t = Inr t'"
  shows "pool_ok t'"
  using done_by
proof (cases rule: write_reversal_cases)
  case (1 pay)
  have new: "pr_operation_id r \<notin> undo_operations (pt_pay t)"
    using ok free 1(1) by (auto simp: pool_ok_def undo_ids_def operation_collides_def reversal_row_ok_def)
  have target: "pr_decision_id r \<in> pd_id ` set (pt_decisions t)"
    using 1(1) unfolding reversal_row_ok_def list_ex_iff by (metis image_eqI)
  have "paid_decisions t' = paid_decisions t - {pr_decision_id r}"
    by (auto simp: paid_decisions_def pool_reversed_def 1(3))
  moreover have "pool_book.mirrors (paid_decisions t) (pd_id ` set (pt_decisions t)) (pt_pay t)"
    using ok by (simp add: pool_ok_def)
  note pool_book.mirrors_undo [OF this 1(2) new]
  ultimately show ?thesis
    using ok target floors_ok_append [of t t' "[]"] by (auto simp: pool_ok_def 1(3) undo_ids_def consumptions_ok_def)
qed


datatype pool_op =
    Record utext review_pool pool_decision_input
  | Adjudicate review_pool owner_adjudication_input
  | Reverse utext review_pool int utext utext int
  | Reverse_Addressed utext review_pool int utext utext utext int

fun pool_step :: "pool_env \<Rightarrow> pool_op \<Rightarrow> pool_tables \<Rightarrow> pool_error + pool_tables" where
  "pool_step env (Record uuid pool i) t = and_then (record_decision env uuid pool i t) (\<lambda>(_, t'). Inr t')"
| "pool_step env (Adjudicate pool i) t = and_then (record_owner_adjudication env pool i t) (\<lambda>(_, t'). Inr t')"
| "pool_step env (Reverse uuid pool d r x now) t = reverse_decision env uuid pool d r x now t"
| "pool_step env (Reverse_Addressed uuid pool d r x y now) t =
     and_then (reverse_decision_addressed env uuid pool d r x y now t) (\<lambda>(_, t'). Inr t')"

inductive pool_reachable :: "pool_env \<Rightarrow> pool_tables \<Rightarrow> bool" for env where
  fresh: "pt_decisions t = [] \<Longrightarrow> pt_reversals t = [] \<Longrightarrow> floors_ok t \<Longrightarrow> consumptions_ok t \<Longrightarrow> book_ok (pt_pay t) \<Longrightarrow>
    credited_decisions (pt_pay t) = {} \<Longrightarrow> undo_operations (pt_pay t) \<subseteq> set (pt_other_operations t) \<Longrightarrow> pool_reachable env t"
| pool: "pool_reachable env t \<Longrightarrow> pool_step env x t = Inr t' \<Longrightarrow> pool_reachable env t'"
| others: "pool_reachable env t \<Longrightarrow> others_keep t t' \<Longrightarrow> pool_reachable env t'"

lemma adjudication_cases:
  assumes "record_owner_adjudication env pool i t = Inr (res, t')"
  obtains "t' = t" | a where "t' = t\<lparr>pt_adjudications := pt_adjudications t @ [a]\<rparr>"
proof (cases "find (\<lambda>a. ad_operation_id a = ai_operation_id i) (pt_adjudications t)")
  case None
  then show thesis
    using assms that(2) by (auto simp: record_owner_adjudication_def and_then_eq_Inr_iff Let_def case_prod_beta split: if_splits)
next
  case (Some a)
  then show thesis
    using assms that(1) by (auto simp: record_owner_adjudication_def and_then_eq_Inr_iff split: if_splits)
qed

lemma reverse_cases:
  assumes "reverse_decision env uuid pool d reviewer x now t = Inr t'"
  obtains "t' = t" "pool_reversed d t"
  | r where "r = \<lparr>pr_decision_id = d, pr_operation_id = x, pr_reviewer = reviewer, pr_created_at_ms = now\<rparr>"
      "\<not> operation_collides (pr_operation_id r) True t" "write_reversal env uuid r t = Inr t'"
proof (cases "find (\<lambda>r. pr_decision_id r = d) (pt_reversals t)")
  case None
  then show thesis
    using assms that(2) by (auto simp: reverse_decision_def and_then_eq_Inr_iff require_pool_operation_namespace_def split: if_splits)
next
  case (Some r)
  then have "pool_reversed d t" by (auto simp: pool_reversed_def list_ex_iff dest: find_SomeD)
  then show thesis
    using assms Some that(1) by (auto simp: reverse_decision_def and_then_eq_Inr_iff split: if_splits)
qed

lemma reverse_addressed_cases:
  assumes "reverse_decision_addressed env uuid pool d reviewer y x now t = Inr (res, t')"
  obtains "t' = t"
  | r where "r = \<lparr>pr_decision_id = d, pr_operation_id = x, pr_reviewer = reviewer, pr_created_at_ms = now\<rparr>"
      "\<not> operation_collides (pr_operation_id r) True t" "write_reversal env uuid r t = Inr t'"
  using assms that
  by (auto simp: reverse_decision_addressed_def and_then_eq_Inr_iff require_pool_operation_namespace_def
      split: if_splits option.splits)

lemma pool_ok_step: "pool_ok t \<Longrightarrow> pool_step env x t = Inr t' \<Longrightarrow> pool_ok t'"
proof (cases x)
  case (Record uuid pool i)
  assume "pool_ok t" "pool_step env x t = Inr t'"
  then show "pool_ok t'" using Record pool_ok_record [of t env uuid pool i] by (auto simp: and_then_eq_Inr_iff)
next
  case (Adjudicate pool i)
  assume ok: "pool_ok t" and "pool_step env x t = Inr t'"
  then obtain res where "record_owner_adjudication env pool i t = Inr (res, t')"
    using Adjudicate by (auto simp: and_then_eq_Inr_iff)
  then show "pool_ok t'"
    by (cases rule: adjudication_cases)
      (use ok floors_ok_append [of t t' "[]"] in
        \<open>simp_all add: pool_ok_def consumptions_ok_def paid_decisions_def pool_reversed_def undo_ids_def\<close>)
next
  case (Reverse uuid pool d r y now)
  assume ok: "pool_ok t" and "pool_step env x t = Inr t'"
  then have "reverse_decision env uuid pool d r y now t = Inr t'" using Reverse by simp
  then show "pool_ok t'" by (cases rule: reverse_cases) (use ok pool_ok_reversal [OF ok] in blast)+
next
  case (Reverse_Addressed uuid pool d r y z now)
  assume ok: "pool_ok t" and "pool_step env x t = Inr t'"
  then obtain res where "reverse_decision_addressed env uuid pool d r y z now t = Inr (res, t')"
    using Reverse_Addressed by (auto simp: and_then_eq_Inr_iff)
  then show "pool_ok t'" by (cases rule: reverse_addressed_cases) (use ok pool_ok_reversal [OF ok] in blast)+
qed

lemma pool_reachable_ok: "pool_reachable env t \<Longrightarrow> pool_ok t"
proof (induction rule: pool_reachable.induct)
  case (fresh t)
  moreover have "open_decisions (pt_pay t) \<subseteq> credited_decisions (pt_pay t)"
    by (auto simp: open_decisions_def credited_decisions_def)
  ultimately show ?case
    by (auto simp: pool_ok_def paid_decisions_def undo_ids_def pool_book.mirrors_def)
qed (blast intro: pool_ok_step pool_ok_others)+


text \<open>
  C14. One listen authorizes one judgement: in every reachable state each judgement has a consumed playback
  receipt of the same reviewer for the same clip, and two judgements never share a receipt.
\<close>
theorem one_listen_per_judgement:
  assumes "pool_reachable env t"
  shows "\<exists>receipt. inj_on receipt {d \<in> set (pt_decisions t). pd_action d \<noteq> lit ''skip''} \<and>
    (\<forall>d \<in> set (pt_decisions t). pd_action d \<noteq> lit ''skip'' \<longrightarrow>
       (\<exists>c \<in> set (pt_consumptions t). pc_receipt_id c = receipt d \<and> listens c d))"
proof -
  have ok: "pool_ok t" by (rule pool_reachable_ok [OF assms])
  define consumed where "consumed d = (SOME c. c \<in> set (pt_consumptions t) \<and> listens c d)" for d
  have consumed: "consumed d \<in> set (pt_consumptions t) \<and> listens (consumed d) d"
    if "d \<in> set (pt_decisions t)" "pd_action d \<noteq> lit ''skip''" for d
    unfolding consumed_def by (rule someI_ex) (use ok that in \<open>auto simp: pool_ok_def\<close>)
  have "inj_on (pc_receipt_id \<circ> consumed) {d \<in> set (pt_decisions t). pd_action d \<noteq> lit ''skip''}"
  proof (rule inj_onI)
    fix d e assume d: "d \<in> {d \<in> set (pt_decisions t). pd_action d \<noteq> lit ''skip''}"
      and e: "e \<in> {d \<in> set (pt_decisions t). pd_action d \<noteq> lit ''skip''}"
      and eq: "(pc_receipt_id \<circ> consumed) d = (pc_receipt_id \<circ> consumed) e"
    have "consumed d = consumed e"
      using ok consumed [of d] consumed [of e] d e eq
      by (auto simp: pool_ok_def consumptions_ok_def distinct_map dest: inj_onD)
    then have "pd_operation_id d = pd_operation_id e"
      using consumed [of d] consumed [of e] d e by (auto simp: listens_def)
    then show "d = e" using ok d e by (auto simp: pool_ok_def distinct_map dest: inj_onD)
  qed
  then show ?thesis using consumed by (intro exI [of _ "pc_receipt_id \<circ> consumed"]) auto
qed

section \<open>What a recorded judgement does to the coverage\<close>

lemma coverage_rows_cong:
  assumes "segments (pt_pay t') = segments (pt_pay t)" "pt_members t' = pt_members t" "pt_decisions t' = pt_decisions t"
    "pt_reversals t' = pt_reversals t" "pt_reopen t' = pt_reopen t" "pt_legacy t' = pt_legacy t"
    "pt_legacy_reversals t' = pt_legacy_reversals t"
  shows "coverage_rows ids t' = coverage_rows ids t"
proof -
  have round: "current_reopen i t' = current_reopen i t" for i using assms by (simp add: current_reopen_def)
  have "canonical_row t' = canonical_row t"
    unfolding fun_eq_iff canonical_row_def find_segment_def round using assms by simp
  moreover have "effective_pool_decisions t' = effective_pool_decisions t"
    using assms by (simp add: effective_pool_decisions_def pool_reversed_def round_floor_def round)
  moreover have "effective_legacy_decisions t' = effective_legacy_decisions t"
    using assms by (simp add: effective_legacy_decisions_def round)
  ultimately show ?thesis using assms by (simp add: coverage_rows_def is_member_def)
qed

lemma coverage_rows_decision:
  assumes "\<not> pool_reversed (pd_id d) t" and "round_floor rm_pool_decision_floor (pd_segment_id d) t < pd_id d"
  obtains xs ys where "coverage_rows None t = xs @ ys"
    and "coverage_rows None (t\<lparr>pt_decisions := pt_decisions t @ [d]\<rparr>) = xs @ pool_row d # ys"
proof -
  let ?t = "t\<lparr>pt_decisions := pt_decisions t @ [d]\<rparr>"
  have round: "current_reopen i ?t = current_reopen i t" for i by (simp add: current_reopen_def)
  have "canonical_row ?t = canonical_row t"
    unfolding fun_eq_iff canonical_row_def round by simp
  moreover have "effective_pool_decisions ?t = effective_pool_decisions t @ [d]"
    using assms by (simp add: effective_pool_decisions_def round_floor_def round)
  moreover have "effective_legacy_decisions ?t = effective_legacy_decisions t"
    by (simp add: effective_legacy_decisions_def round)
  ultimately show thesis
    using that [of "List.map_filter (canonical_row t) (pt_members t) @ map pool_row (effective_pool_decisions t)"
      "map legacy_row (filter (\<lambda>d. is_member (ld_segment_id d) t) (effective_legacy_decisions t))"]
    by (simp add: coverage_rows_def wanted_def is_member_def)
qed

lemma permits_unseen: "permits_fresh_opinion policy resolution c key \<Longrightarrow> c = Some r \<Longrightarrow> key \<notin> seen r"
  by (auto simp: permits_fresh_opinion_def)

lemma permits_undecided [simp]: "\<not> permits_fresh_opinion policy (Resolved v names owner) c key"
  by (simp add: permits_fresh_opinion_def)

lemma find_append_None: "find P xs = None \<Longrightarrow> find P (xs @ ys) = find P ys"
  by (induction xs) (auto split: if_splits)

lemma open_clip_cases:
  assumes "require_open_clip env i t = Inr ()"
  obtains reviewers adjudications where "reviewer_sets env t = Inr reviewers"
    "owner_adjudications_for_ids env None t = Inr adjudications"
    "permits_fresh_opinion (pe_policy env) (fst (resolution_of env (pi_segment_id i) reviewers adjudications))
       (reviewers (pi_segment_id i)) (reviewer_key (Some (pi_reviewer i)))"
    "\<not> operation_collides (pi_operation_id i) False t"
proof -
  from assms obtain reviewers adjudications where *: "reviewer_sets env t = Inr reviewers"
    "owner_adjudications_for_ids env None t = Inr adjudications" "\<not> operation_collides (pi_operation_id i) False t"
    and res: "(if (case reviewers (pi_segment_id i) of None \<Rightarrow> False | Some state \<Rightarrow> reviewer_key (Some (pi_reviewer i)) \<in> seen state)
      then Inl ''review pool decision is duplicated for this reviewer''
      else case fst (resolution_of env (pi_segment_id i) reviewers adjudications) of
        Resolved _ _ _ \<Rightarrow> Inl ''review pool clip is already resolved''
      | OwnerConflict \<Rightarrow>
          require (permits_fresh_opinion (pe_policy env) OwnerConflict (reviewers (pi_segment_id i)) (reviewer_key (Some (pi_reviewer i))))
            ''review pool clip requires owner adjudication''
      | _ \<Rightarrow> Inr ()) = Inr ()"
    by (auto simp: require_open_clip_def Let_def and_then_eq_Inr_iff require_pool_operation_namespace_def)
  have "permits_fresh_opinion (pe_policy env) (fst (resolution_of env (pi_segment_id i) reviewers adjudications))
       (reviewers (pi_segment_id i)) (reviewer_key (Some (pi_reviewer i)))"
    using res by (cases "fst (resolution_of env (pi_segment_id i) reviewers adjudications)")
      (auto simp: permits_fresh_opinion_def split: if_splits)
  with * show thesis using that by blast
qed

lemma recorded_outcome_ok:
  assumes law: "\<forall>s. trim s \<noteq> [] \<longrightarrow> trim (nfc s) \<noteq> []" and "decision_input_ok i = Inr ()" and "pi_action i \<noteq> lit ''skip''"
  shows "\<exists>v. outcome_from_action nfc (pi_action i) (pi_submitted_transcript i) = Inr (Some v)"
  using assms by (auto simp: decision_input_ok_def and_then_eq_Inr_iff outcome_from_action_def
      canonical_verbatim_text_def split: option.splits)

text \<open>A recorded judgement adds one row to the coverage, and its author had not seen the clip.\<close>

lemma judgement_row:
  assumes ok: "pool_ok t" and rec: "record_decision env uuid pool i t = Inr (Some n, t')"
    and act: "pi_action i \<noteq> lit ''skip''"
  obtains d xs ys where "coverage_rows None t = xs @ ys" "coverage_rows None t' = xs @ pool_row d # ys"
    and "pd_segment_id d = pi_segment_id i" "pd_reviewer d = sql_trim (pi_reviewer i)" "pd_action d = pi_action i"
    and "pd_submitted_transcript d = pi_submitted_transcript i" "decision_input_ok i = Inr ()" "require_open_clip env i t = Inr ()"
  using rec
proof (cases rule: record_decision_cases)
  case (recorded d s m t1)
  have new: "pd_id d \<notin> pd_id ` set (pt_decisions t)"
    using next_decision_id_fresh recorded(1) by fastforce
  have live: "\<not> pool_reversed (pd_id d) t"
    using ok new unfolding pool_ok_def pool_reversed_def list_ex_iff by (metis imageI subsetD)
  have pos: "0 < next_decision_id t" using foldr_max_ge [of 0] by (simp add: next_decision_id_def)
  have floor: "round_floor rm_pool_decision_floor (pd_segment_id d) t < pd_id d"
    using ok pos recorded(1) by (auto simp: pool_ok_def floors_ok_def round_floor_def current_reopen_def
        dest: find_SomeD split: option.split)
  have "pay_decision env uuid i d t1 = Inr t'" using recorded(9) act by simp
  then obtain authority t2 book where pay:
      "consume_couch_playback_authority env authority (lit ''independent'') (pi_operation_id i) (pi_reviewer i)
         (pi_segment_id i) (pi_created_at_ms i) t1 = Inr t2"
      "append_review_pool_compensation (pe_lower env) (pe_from_str env) uuid (pd_id d) (pi_segment_id i)
         (pi_reviewer i) (pi_action i) (pi_served_revision i) (pt_pay t2) = Inr book" "t' = t2\<lparr>pt_pay := book\<rparr>"
    by (rule pay_decision_cases)
  have "segments book = segments (pt_pay t2)"
    using pay(2) by (rule pool_credit_cases) simp
  moreover have "t2 = t1 \<or> (\<exists>c. t2 = t1\<lparr>pt_consumptions := pt_consumptions t1 @ [c]\<rparr>)"
    using pay(1) by (rule consume_cases) blast
  ultimately have "coverage_rows None t' = coverage_rows None t1"
    using pay(3) by (intro coverage_rows_cong) auto
  then obtain xs ys where "coverage_rows None t = xs @ ys" "coverage_rows None t' = xs @ pool_row d # ys"
    using coverage_rows_decision [OF live floor] recorded(8) by metis
  then show thesis
    using recorded(1,3,4) find_segment_id [OF recorded(5)] by (intro that [of xs ys d]) simp_all
qed simp

text \<open>The coverage of a recorded judgement: one judgement more on its clip, nothing else.\<close>

lemma judgement_covered:
  assumes ok: "pool_ok t" and law: "\<forall>s. trim s \<noteq> [] \<longrightarrow> trim (pe_nfc env s) \<noteq> []"
    and rec: "record_decision env uuid pool i t = Inr (Some n, t')" and act: "pi_action i \<noteq> lit ''skip''"
    and before: "reviewer_sets env t = Inr before"
  obtains after j where "reviewer_sets env t' = Inr after"
    and "fst j = reviewer_key (Some (pi_reviewer i))"
    and "mset (judged (entry_of after (pi_segment_id i))) = add_mset j (mset (judged (entry_of before (pi_segment_id i))))"
    and "\<And>k. k \<noteq> pi_segment_id i \<Longrightarrow> after k = before k"
proof -
  let ?rows = "coverage_rows None t" and ?rows' = "coverage_rows None t'" and ?nfc = "pe_nfc env"
  obtain d xs ys where xs: "?rows = xs @ ys" "?rows' = xs @ pool_row d # ys"
    and d: "pd_segment_id d = pi_segment_id i" "pd_reviewer d = sql_trim (pi_reviewer i)" "pd_action d = pi_action i"
      "pd_submitted_transcript d = pi_submitted_transcript i"
    and input: "decision_input_ok i = Inr ()" and open_clip: "require_open_clip env i t = Inr ()"
    by (rule judgement_row [OF ok rec act])
  have rows': "mset ?rows' = mset (?rows @ [pool_row d])" using xs by simp
  obtain reviewers adjudications where sets: "reviewer_sets env t = Inr reviewers"
    and may: "permits_fresh_opinion (pe_policy env) (fst (resolution_of env (pi_segment_id i) reviewers adjudications))
       (reviewers (pi_segment_id i)) (reviewer_key (Some (pi_reviewer i)))"
    using open_clip by (rule open_clip_cases)
  have readable: "readable ?nfc ?rows" and bef: "before = cover ?nfc ?rows"
    using before by (simp_all add: reviewer_sets_def reviewer_sets_for_ids_eq)
  have unseen: "reviewer_key (Some (pi_reviewer i)) \<notin> row_key ` set (rows_of (pi_segment_id i) ?rows)"
  proof (cases "rows_of (pi_segment_id i) ?rows = []")
    case False
    have "reviewers = before" using sets before by simp
    then show ?thesis using permits_unseen [OF may] bef False by (simp add: cover_def)
  qed simp
  obtain v where v: "outcome_from_action ?nfc (pi_action i) (pi_submitted_transcript i) = Inr (Some v)"
    using recorded_outcome_ok [OF law input act] by blast
  have row: "row_key (pool_row d) = reviewer_key (Some (pi_reviewer i))" "is_ok (row_outcome ?nfc (pool_row d))"
    "fst (pool_row d) = pi_segment_id i"
    using v d by (simp_all add: pool_row_def)
  obtain j where j: "judgement_of ?nfc (pool_row d) = Some j"
    using v d by (simp add: pool_row_def)
  have "readable ?nfc ?rows'"
    using readable row unseen judged_are_seen [of ?nfc "pi_segment_id i" ?rows]
    unfolding readable_mset [OF rows'] readable_snoc by auto
  then have after: "reviewer_sets env t' = Inr (cover ?nfc ?rows')"
    by (simp add: reviewer_sets_def reviewer_sets_for_ids_eq)
  have judged: "mset (row_judgements ?nfc (pi_segment_id i) ?rows') = add_mset j (mset (row_judgements ?nfc (pi_segment_id i) ?rows))"
    using row_judgements_mset [OF rows', of ?nfc "pi_segment_id i"] row(3) j by (simp add: row_judgements_single)
  show thesis
  proof (rule that [OF after])
    show "fst j = reviewer_key (Some (pi_reviewer i))" using judgement_of_key [OF j] row(1) by simp
    show "mset (judged (entry_of (cover ?nfc ?rows') (pi_segment_id i))) = add_mset j (mset (judged (entry_of before (pi_segment_id i))))"
      using judged bef by simp
    fix k assume "k \<noteq> pi_segment_id i"
    then have "rows_of k ?rows' = rows_of k ?rows" using xs row(3) by (simp add: rows_of_def)
    then show "cover ?nfc ?rows' k = before k" using bef by (simp add: cover_def row_judgements_def)
  qed
qed


text \<open>
  C13. A recorded judgement counts exactly once and never reopens a settled clip: when \<open>record_decision\<close> accepts a
  verdict in a reachable state, the clip was not resolved and its author had not seen it; afterwards the coverage
  can still be read, the clip has exactly the old judgements and this one, at most three in all, and no
  other clip is affected. The normalization of a non-blank text is assumed non-blank.
\<close>
theorem judgement_counts_once:
  assumes reach: "pool_reachable env t" and law: "\<forall>s. trim s \<noteq> [] \<longrightarrow> trim (pe_nfc env s) \<noteq> []"
    and rec: "record_decision env uuid pool i t = Inr (Some n, t')" and act: "pi_action i \<noteq> lit ''skip''"
  shows "\<exists>before after adjudications j. reviewer_sets env t = Inr before \<and> reviewer_sets env t' = Inr after \<and>
    owner_adjudications_for_ids env None t = Inr adjudications \<and>
    (\<forall>v names owner. fst (resolution_of env (pi_segment_id i) before adjudications) \<noteq> Resolved v names owner) \<and>
    fst j = reviewer_key (Some (pi_reviewer i)) \<and> fst j \<notin> seen (entry_of before (pi_segment_id i)) \<and>
    mset (judged (entry_of after (pi_segment_id i))) = add_mset j (mset (judged (entry_of before (pi_segment_id i)))) \<and>
    length (judged (entry_of after (pi_segment_id i))) \<le> 3 \<and>
    (\<forall>k. k \<noteq> pi_segment_id i \<longrightarrow> after k = before k)"
proof -
  have open_clip: "require_open_clip env i t = Inr ()"
    using rec by (cases rule: record_decision_cases) auto
  obtain before adjudications where bef: "reviewer_sets env t = Inr before"
    and adj: "owner_adjudications_for_ids env None t = Inr adjudications"
    and may: "permits_fresh_opinion (pe_policy env) (fst (resolution_of env (pi_segment_id i) before adjudications))
       (before (pi_segment_id i)) (reviewer_key (Some (pi_reviewer i)))"
    using open_clip by (rule open_clip_cases)
  obtain after j where aft: "reviewer_sets env t' = Inr after" and j: "fst j = reviewer_key (Some (pi_reviewer i))"
    and judged: "mset (judged (entry_of after (pi_segment_id i))) = add_mset j (mset (judged (entry_of before (pi_segment_id i))))"
    and other: "\<And>k. k \<noteq> pi_segment_id i \<Longrightarrow> after k = before k"
    using judgement_covered [OF pool_reachable_ok [OF reach] law rec act bef] by metis
  have below: "length (judged (entry_of before (pi_segment_id i))) < 3 \<and>
      reviewer_key (Some (pi_reviewer i)) \<notin> seen (entry_of before (pi_segment_id i))"
  proof (cases "before (pi_segment_id i)")
    case (Some r)
    then show ?thesis
      using permitted_below_three [OF may [unfolded resolution_of_def Some]] by (simp add: entry_of_def)
  qed (simp add: entry_of_def)
  have "length (judged (entry_of after (pi_segment_id i))) = Suc (length (judged (entry_of before (pi_segment_id i))))"
    using arg_cong [OF judged, of size] by simp
  then have "length (judged (entry_of after (pi_segment_id i))) \<le> 3" using below by simp
  moreover have "fst (resolution_of env (pi_segment_id i) before adjudications) \<noteq> Resolved v names owner" for v names owner
    using may permits_undecided by metis
  ultimately show ?thesis
    using bef aft adj j judged other below
    by (intro exI [of _ before] exI [of _ after] exI [of _ adjudications] exI [of _ j]) simp
qed

text \<open>
  C17. Reversing a judgement is idempotent and takes it out of the coverage: after a successful
  \<open>reverse_decision\<close> the decision is no longer effective and its credit is not open, and the same request,
  repeated, succeeds and changes nothing.
\<close>
theorem reversal_replay:
  assumes reach: "pool_reachable env t" and rev: "reverse_decision env uuid pool n reviewer x now t = Inr t'"
  shows "n \<notin> pd_id ` set (effective_pool_decisions t') \<and> n \<notin> open_decisions (pt_pay t') \<and>
    reverse_decision env uuid' pool n reviewer x now' t' = Inr t'"
proof -
  have uuid: "canonical_uuid env x = Inr ()" using rev by (auto simp: reverse_decision_def and_then_eq_Inr_iff)
  have "\<exists>r. find (\<lambda>r. pr_decision_id r = n) (pt_reversals t') = Some r \<and> pr_operation_id r = x \<and> eq_nocase (pr_reviewer r) reviewer"
  proof (cases "find (\<lambda>r. pr_decision_id r = n) (pt_reversals t)")
    case (Some r)
    then show ?thesis using rev uuid by (auto simp: reverse_decision_def split: if_splits)
  next
    case None
    let ?r = "\<lparr>pr_decision_id = n, pr_operation_id = x, pr_reviewer = reviewer, pr_created_at_ms = now\<rparr>"
    have "write_reversal env uuid ?r t = Inr t'"
      using rev uuid None by (auto simp: reverse_decision_def and_then_eq_Inr_iff split: if_splits)
    then have "pt_reversals t' = pt_reversals t @ [?r]" by (rule write_reversal_cases) simp
    then show ?thesis using None by (simp add: find_append_None)
  qed
  then obtain r where r: "find (\<lambda>r. pr_decision_id r = n) (pt_reversals t') = Some r" "pr_operation_id r = x"
    "eq_nocase (pr_reviewer r) reviewer" by blast
  then have "pool_reversed n t'" by (auto simp: pool_reversed_def list_ex_iff dest: find_SomeD)
  moreover have "pool_reachable env t'" using pool_reachable.pool [OF reach, of "Reverse uuid pool n reviewer x now"] rev by simp
  then have "open_decisions (pt_pay t') = paid_decisions t'"
    using pool_reachable_ok by (auto simp: pool_ok_def pool_book.mirrors_def)
  ultimately show ?thesis
    using r uuid by (auto simp: effective_pool_decisions_def paid_decisions_def reverse_decision_def)
qed

section \<open>A concrete pool\<close>

text \<open>The phone path keeps its promise to the pool: a credit for a review event touches no pool credit.\<close>

lemma phone_credit_keeps:
  assumes ok: "pool_ok t"
    and credit: "append_review_compensation lower from_str uuid event segment_id reviewer source action effective revision (pt_pay t) = Inr pay"
  shows "others_keep t (t\<lparr>pt_pay := pay\<rparr>)"
proof -
  have book: "book_ok (pt_pay t)" using ok by (simp add: pool_ok_def pool_book.mirrors_def)
  obtain e where e: "pay = pt_pay t\<lparr>ledger := ledger (pt_pay t) @ [e]\<rparr>" "is_credit e (pt_pay t)"
    "le_entry_key e = lit ''review-event:'' @ lit (show_int event)"
    using credit by (rule credit_step_cases)
  have row: "ledger_row_ok e (pt_pay t)" "le_reverses e = None" using e(2) by (simp_all add: is_credit_def)
  have same: "is_reversed f pay = is_reversed f (pt_pay t)" for f using e(1) row(2) by (simp add: is_reversed_append)
  have "book_ok pay"
    using book row ledger_ok_credit [OF _ e(2)] e(1,3) by (simp add: book_ok_def ledger_row_ok_def)
  moreover have "open_decisions pay = open_decisions (pt_pay t)" "credited_decisions pay = credited_decisions (pt_pay t)"
    "undo_operations pay = undo_operations (pt_pay t)"
    using e(3) unfolding open_decisions_def credited_decisions_def undo_operations_def same by (auto simp: e(1))
  ultimately show ?thesis using ok by (simp add: others_keep_def pool_ok_def floors_ok_def consumptions_ok_def next_decision_id_def)
qed

definition sample_clip :: review_segment where
  "sample_clip = (sample_row ''s2'')\<lparr>rs_verified := True, rs_human_decision := Some (lit ''accept''),
     rs_reviewed_by := Some (lit ''omar''), rs_raw_transcript := lit ''slaw'', rs_verdict_transcript := None,
     rs_annotated_transcript := None, rs_review_revision := 1, rs_model_version_id := Some (lit ''m'')\<rparr>"

definition sample_member :: pool_member where
  "sample_member = \<lparr>pm_pool_id = lit ''p'', pm_segment_id = lit ''s2'', pm_voice_name = lit ''v'',
     pm_raw_transcript = lit ''slaw'', pm_model_version_id = lit ''m'', pm_audio_content_hash = replicate 64 97,
     pm_source_start_ms = 0, pm_source_end_ms = 1000, pm_duration_ms = 1000\<rparr>"

definition sample_op :: utext where
  "sample_op = lit ''00000000-0000-0000-0000-000000000001''"

definition sample_tables :: pool_tables where
  "sample_tables = \<lparr>pt_pay = sample_pay\<lparr>segments := [sample_clip]\<rparr>, pt_registry = Some (lit ''p''),
     pt_members = [sample_member], pt_exclusions = [], pt_certificates = [], pt_decisions = [], pt_reversals = [],
     pt_adjudications = [], pt_legacy = [], pt_legacy_reversals = [], pt_reopen = [], pt_other_operations = [],
     pt_sessions = [\<lparr>ps_receipt_id = lit ''r'', ps_surface = lit ''couch'', ps_segment_id = lit ''s2'',
       ps_segment_revision = 1, ps_audio_content_hash = replicate 64 97, ps_reviewer = Some (lit ''sara''),
       ps_source_start_ms = 0, ps_source_end_ms = 1000\<rparr>],
     pt_receipts = [\<lparr>pb_session_id = Some (lit ''r''), pb_policy_version = 4, pb_segment_id = lit ''s2'',
       pb_segment_revision = 1, pb_audio_fingerprint = replicate 64 97, pb_reviewer = Some (lit ''sara''),
       pb_source_start_ms = Some 0, pb_source_end_ms = Some 1000, pb_played_ms = 900, pb_clip_duration_ms = 1000\<rparr>],
     pt_intervals = [(lit ''r'', 0, 900)], pt_consumptions = []\<rparr>"

definition sample_env :: pool_env where
  "sample_env = \<lparr>pe_nfc = id, pe_sha256 = (\<lambda>_. replicate 32 0), pe_lower = id, pe_from_str = sample_span,
     pe_json_extract = (\<lambda>_ key. Some (Some (if key = lit ''$.source_start_ms'' then 0 else 1000))),
     pe_uuid = Some, pe_policy = default_policy_trust, pe_git_sha = replicate 40 97\<rparr>"

definition sample_pool :: review_pool where
  "sample_pool = \<lparr>rp_pool_id = lit ''p'', rp_member_ids = [lit ''s2'']\<rparr>"

definition sample_input :: pool_decision_input where
  "sample_input = \<lparr>pi_segment_id = lit ''s2'', pi_reviewer = lit ''sara'', pi_action = lit ''edit'',
     pi_submitted_transcript = Some (lit ''slaw u''), pi_served_transcript = lit ''slaw'', pi_served_revision = 1,
     pi_audio_content_hash = Some (replicate 64 97), pi_source_start_ms = Some 0, pi_source_end_ms = Some 1000,
     pi_duration_ms = 1000, pi_requested_action = lit ''edit'', pi_requested_transcript = lit ''slaw u'',
     pi_operation_id = sample_op, pi_payload_hash = replicate 64 97, pi_created_at_ms = 5,
     pi_playback_authority = Some (lit ''r'')\<rparr>"

lemma trim_samples: "trim (lit ''slaw'') = lit ''slaw''" "trim (lit ''slaw u'') = lit ''slaw u''"
  "trim (lit ''s2'') = lit ''s2''" "trim (lit ''omar'') = lit ''omar''"
  "sql_trim (lit ''sara'') = lit ''sara''" "sql_trim (lit ''slaw'') = lit ''slaw''" "sql_trim (lit ''slaw u'') = lit ''slaw u''"
  "sql_trim (lit ''omar'') = lit ''omar''"
  by (simp_all add: trim_def trim_start_def trim_end_def sql_trim_def lit_def is_whitespace_def)

lemma lower_samples: "map ascii_lower (lit ''sara'') = lit ''sara''" "map ascii_lower (lit ''omar'') = lit ''omar''"
  by (simp_all add: ascii_lower_def lit_def)

lemma length_lit [simp]: "length (lit s) = length s"
  by (simp add: lit_def)

lemma sample_op_ok: "operation_id_ok sample_op"
  by (simp add: operation_id_ok_def sample_op_def lit_def sql_trim_def ascii_lower_def)

lemma sample_rows: "coverage_rows ids sample_tables =
   (if wanted ids (lit ''s2'') then [(lit ''s2'', lit ''omar'', lit ''canonical:'' @ lit (show_int 1), lit ''accept'', Some (lit ''slaw''))] else [])"
  by (simp add: coverage_rows_def sample_tables_def canonical_row_def sample_member_def find_segment_def sample_clip_def
      sample_row_def retaining_actions_def current_reopen_def canonical_transcript_def nonblank_def desktop_reviewer_def
      effective_pool_decisions_def effective_legacy_decisions_def List.map_filter_def)

lemma sample_family: "family (lit ''s2'') sample_tables = {lit ''s2''}"
  by (simp add: family_def family_edges_def sample_tables_def)

lemma sample_sets:
  "wanted ids (lit ''s2'') \<Longrightarrow> reviewer_sets_for_ids sample_env ids sample_tables = Inr [lit ''s2'' \<mapsto>
     \<lparr>judged = [(lit ''omar'', \<lparr>je_reviewer = lit ''omar'', je_evidence_id = lit ''canonical:'' @ lit (show_int 1),
        je_outcome = Retain (lit ''slaw'')\<rparr>)], seen = {lit ''omar''}\<rparr>]"
  by (simp add: reviewer_sets_for_ids_def sample_rows insert_judgement_def entry_of_def outcome_from_action_def
      canonical_verbatim_text_def sample_env_def reviewer_key_def trim_samples lower_samples Let_def)

lemma sample_adjudications: "owner_adjudications_for_ids sample_env ids sample_tables = Inr Map.empty"
  by (simp add: owner_adjudications_for_ids_def sample_tables_def)

lemma sample_unseen: "require_unseen_pool_family sample_env (lit ''s2'') (lit ''sara'') sample_tables = Inr ()"
  by (simp add: require_unseen_pool_family_def family_coverage_def sample_family sample_sets wanted_def entry_of_def
      reviewer_key_def trim_sara lower_samples) (simp add: sample_tables_def)

lemma sample_pending:
  "fst (resolution_of sample_env (lit ''s2'') [lit ''s2'' \<mapsto> \<lparr>judged = [(lit ''omar'', e)], seen = s\<rparr>] Map.empty) = Pending"
  by (simp add: resolution_of_def derive_resolution_def Let_def resolve_trust_def trusted_evidence_def resolve_trusted_def
      matching_outcomes_def outcomes_of_def sample_env_def default_policy_trust_def)

lemma sample_open: "require_open_clip sample_env sample_input sample_tables = Inr ()"
proof -
  have "require_pool_operation_namespace sample_op False sample_tables = Inr ()"
    by (simp add: require_pool_operation_namespace_def operation_collides_def sample_tables_def sample_pay_def sample_event_def)
  then show ?thesis
    unfolding require_open_clip_def Let_def reviewer_sets_def sample_adjudications
    by (simp add: sample_input_def sample_unseen sample_sets wanted_def sample_pending reviewer_key_def trim_sara lower_samples)
qed

definition sample_decision :: pool_decision where
  "sample_decision = served_row sample_env sample_pool sample_input sample_clip sample_member sample_tables"

lemma sample_lookup:
  "find_segment (lit ''s2'') (pt_pay sample_tables) = Some sample_clip"
  "find (\<lambda>m. pm_segment_id m = lit ''s2'' \<and> pm_pool_id m = lit ''p'') (pt_members sample_tables) = Some sample_member"
  by (simp_all add: sample_tables_def find_segment_def sample_clip_def sample_row_def sample_member_def)

lemma sample_still_served: "still_served sample_env sample_input sample_clip sample_member = Some True"
  by (simp add: still_served_def member_unchanged_def alignment_ms_def sample_input_def sample_clip_def sample_row_def
      sample_member_def sample_env_def trim_samples)

lemma sample_columns: "decision_columns_ok sample_decision sample_tables"
  using sample_op_ok
  by (simp add: decision_columns_ok_def sample_decision_def served_row_def sample_input_def sample_pool_def sample_env_def
      sample_member_def sample_clip_def sample_row_def reviewer_name_ok_def lower_hex_def trim_samples Let_def list_all_length
      sample_tables_def)

lemma sample_row_ok: "decision_row_ok sample_env sample_decision sample_tables"
proof -
  have "decision_transcript_ok sample_decision \<and> decision_identity_ok sample_decision"
    by (simp add: decision_transcript_ok_def decision_identity_ok_def sample_decision_def served_row_def sample_input_def
        sample_member_def nonblank_def trim_samples lower_hex_def list_all_length Let_def)
  moreover have "decision_matches_member sample_env sample_decision sample_tables"
    by (simp add: decision_matches_member_def sample_decision_def served_row_def sample_input_def sample_pool_def
        sample_member_def sample_clip_def sample_row_def member_unchanged_def alignment_ms_def sample_env_def trim_samples
        Let_def sample_tables_def)
  moreover have "decision_independent sample_decision sample_tables"
    by (simp add: decision_independent_def sample_decision_def served_row_def sample_input_def sample_clip_def
        sample_row_def desktop_reviewer_def sql_name_def trim_samples lower_samples Let_def effective_pool_decisions_def
        effective_legacy_decisions_def sample_pay_def sample_event_def sample_tables_def)
  moreover have "decision_not_terminal sample_decision sample_tables \<and> \<not> is_excluded (lit ''p'') (lit ''s2'') sample_tables"
    by (simp add: decision_not_terminal_def voice_certified_def judging_names_def is_excluded_def sample_decision_def
        served_row_def sample_clip_def sample_row_def Let_def effective_pool_decisions_def effective_legacy_decisions_def
        sample_tables_def)
  ultimately show ?thesis
    using sample_columns by (simp add: decision_row_ok_def)
      (simp add: sample_decision_def sample_pool_def sample_clip_def sample_row_def)
qed


definition sample_consumption :: playback_consumption where
  "sample_consumption = \<lparr>pc_receipt_id = lit ''r'', pc_namespace = lit ''independent'', pc_operation_id = sample_op,
     pc_reviewer = lit ''sara'', pc_segment_id = lit ''s2'', pc_created_at_ms = 5\<rparr>"

definition sample_pool_credit_row :: ledger_entry where
  "sample_pool_credit_row = sample_credit 1 ''e1'' (pool_entry_key 1) None ''s2'' ''couch_pool'' ''edit'' (Some 1)
     10000 5000000 5000000 1000 1000"

definition sample_listened :: pool_tables where
  "sample_listened = sample_tables\<lparr>pt_decisions := [sample_decision], pt_consumptions := [sample_consumption]\<rparr>"

definition sample_judged :: pool_tables where
  "sample_judged = sample_listened\<lparr>pt_pay := sample_pay\<lparr>segments := [sample_clip], ledger := [sample_pool_credit_row]\<rparr>\<rparr>"

lemma sample_evidence:
  "has_sufficient_playback_evidence sample_env (lit ''s2'') 1 (replicate 64 97) 0 1000 (Some (lit ''sara'')) (lit ''r'')
     (sample_tables\<lparr>pt_decisions := [sample_decision]\<rparr>)"
  by (simp add: has_sufficient_playback_evidence_def authority_matches_def DESKTOP_PLAYBACK_POLICY_VERSION_def
      alignment_ms_def sample_env_def is_canonical_audio_content_hash_def list_all_length sample_tables_def sample_clip_def sample_row_def)

lemma sample_consume:
  "consume_authority_for_pool_decision sample_env (lit ''r'') (lit ''sara'') (lit ''s2'') 1 (replicate 64 97) 0 1000 sample_op 5
     (sample_tables\<lparr>pt_decisions := [sample_decision]\<rparr>) = Inr sample_listened"
proof -
  have "consumption_row_ok sample_consumption (sample_tables\<lparr>pt_decisions := [sample_decision]\<rparr>)"
    by (simp add: consumption_row_ok_def sample_consumption_def trim_samples sample_tables_def sample_clip_def sample_row_def)
  moreover have "pe_uuid sample_env x = Some x" for x by (simp add: sample_env_def)
  moreover have "pt_consumptions sample_tables = []" by (simp add: sample_tables_def)
  ultimately show ?thesis
    unfolding consume_authority_for_pool_decision_def consume_couch_playback_authority_def Let_def sample_consumption_def
    by (simp add: sample_evidence trim_sara trim_samples sample_listened_def sample_consumption_def require_def)
qed

lemma sample_clip_identity:
  "segments t = [sample_clip] \<Longrightarrow> compensation_audio_identity sample_span (lit ''s2'') t =
     Inr (audio_work_id (replicate 64 97) 0 1000, lit ''audio_content_hash+source_span'', 1000)"
  by (simp add: compensation_audio_identity_def find_segment_def sample_clip_def sample_row_def canonical_source_span_def
      sample_span_def json_get_def json_as_i64_def in_i64_def source_span_matches_duration_def
      is_canonical_audio_content_hash_def list_all_length)

lemma sample_clip_credit:
  "append_review_pool_compensation id sample_span (lit ''e1'') 1 (lit ''s2'') (lit ''sara'') (lit ''edit'') 1
     (sample_pay\<lparr>segments := [sample_clip]\<rparr>) = Inr (sample_pay\<lparr>segments := [sample_clip], ledger := [sample_pool_credit_row]\<rparr>)"
  by (simp add: append_review_pool_compensation_def append_review_compensation_entry_def sample_policy sample_clip_identity)
    (simp add: sample_simps sample_pool_credit_row_def sample_credit_def sample_event_def sample_pay_def)

lemma sample_first_id [simp]: "next_decision_id sample_tables = 1"
  by (simp add: next_decision_id_def sample_tables_def)

lemma sample_env_fields: "pe_lower sample_env = id" "pe_from_str sample_env = sample_span" "pe_uuid sample_env = Some"
  by (simp_all add: sample_env_def)

lemma sample_listened_pay: "pt_pay sample_listened = sample_pay\<lparr>segments := [sample_clip]\<rparr>"
  by (simp add: sample_listened_def sample_tables_def)

lemma sample_decision_id: "pd_id sample_decision = 1"
  by (simp add: sample_decision_def)

lemma sample_inserted:
  "insert_decision sample_env sample_pool sample_input sample_tables =
     Inr (Some sample_decision, sample_tables\<lparr>pt_decisions := [sample_decision]\<rparr>)"
proof -
  have "pi_segment_id sample_input = lit ''s2''" "rp_pool_id sample_pool = lit ''p''" "pt_decisions sample_tables = []"
    by (simp_all add: sample_input_def sample_pool_def sample_tables_def)
  then show ?thesis
    using sample_row_ok sample_still_served sample_lookup unfolding insert_decision_def Let_def by (simp add: sample_decision_def)
qed

lemma sample_paid_decision:
  "pay_decision sample_env (lit ''e1'') sample_input sample_decision (sample_tables\<lparr>pt_decisions := [sample_decision]\<rparr>) =
     Inr sample_judged"
  using sample_consume sample_clip_credit
  by (simp add: pay_decision_def sample_input_def sample_decision_id sample_env_fields map_err_def sample_listened_pay sample_judged_def)

lemma sample_recorded: "record_decision sample_env (lit ''e1'') sample_pool sample_input sample_tables = Inr (Some 1, sample_judged)"
proof -
  have "decision_input_ok sample_input = Inr ()"
    by (simp add: decision_input_ok_def sample_input_def valid_lower_sha256_def list_all_length trim_sara trim_samples require_def)
  moreover have "canonical_uuid sample_env (pi_operation_id sample_input) = Inr ()"
    by (simp add: canonical_uuid_def sample_env_fields)
  moreover have "pool_contains sample_pool (pi_segment_id sample_input)" "pi_action sample_input \<noteq> lit ''skip''"
    by (simp_all add: pool_contains_def sample_pool_def sample_input_def)
  ultimately show ?thesis
    using sample_open unfolding record_decision_def
    by (simp add: sample_inserted sample_paid_decision sample_decision_id require_def)
qed

lemma sample_start: "pool_reachable sample_env sample_tables"
proof (rule pool_reachable.fresh)
  show "book_ok (pt_pay sample_tables)"
    using ledger_ok_empty [of "pt_pay sample_tables"] by (simp add: book_ok_def sample_tables_def sample_pay_def)
qed (simp_all add: sample_tables_def consumptions_ok_def floors_ok_def credited_decisions_def undo_operations_def sample_pay_def)

lemma sample_judged_reachable: "pool_reachable sample_env sample_judged"
  using pool_reachable.pool [OF sample_start, of "Record (lit ''e1'') sample_pool sample_input"] sample_recorded by simp


theorem one_listen_per_judgement_witness: "\<exists>c \<in> set (pt_consumptions sample_judged). listens c sample_decision"
proof -
  have "sample_decision \<in> set (pt_decisions sample_judged)" "pd_action sample_decision \<noteq> lit ''skip''"
    by (simp_all add: sample_judged_def sample_listened_def sample_decision_def sample_input_def)
  then show ?thesis using one_listen_per_judgement [OF sample_judged_reachable] by blast
qed

theorem judgement_counts_once_witness:
  "\<exists>before after. reviewer_sets sample_env sample_tables = Inr before \<and> reviewer_sets sample_env sample_judged = Inr after \<and>
     length (judged (entry_of after (lit ''s2''))) \<le> 3"
  using judgement_counts_once [OF sample_start _ sample_recorded]
  by (simp add: sample_env_def sample_input_def) blast

theorem per_clip_read_agrees_witness: "is_decided sample_env (lit ''s2'') sample_tables = Inr False"
proof -
  have "reviewer_sets sample_env sample_tables = Inr [lit ''s2'' \<mapsto>
     \<lparr>judged = [(lit ''omar'', \<lparr>je_reviewer = lit ''omar'', je_evidence_id = lit ''canonical:'' @ lit (show_int 1),
        je_outcome = Retain (lit ''slaw'')\<rparr>)], seen = {lit ''omar''}\<rparr>]"
    by (simp add: reviewer_sets_def sample_sets wanted_def)
  from per_clip_read_agrees [OF this sample_adjudications, of "lit ''s2''"] show ?thesis
    by (simp add: sample_pending)
qed

theorem coverage_well_formed_witness:
  "judgements_ok [(lit ''omar'', \<lparr>je_reviewer = lit ''omar'', je_evidence_id = lit ''canonical:'' @ lit (show_int 1),
     je_outcome = Retain (lit ''slaw'')\<rparr>)]"
  using coverage_well_formed [OF sample_sets, of None "lit ''s2''"] by (simp add: wanted_def)


definition sample_undo_op :: utext where
  "sample_undo_op = lit ''00000000-0000-0000-0000-000000000002''"

definition sample_undo_row :: ledger_entry where
  "sample_undo_row = sample_pool_credit_row\<lparr>le_id := 2, le_entry_id := lit ''e2'', le_entry_key := lit ''undo:'' @ sample_undo_op,
     le_source := lit ''couch_pool_undo'', le_action := lit ''undo'', le_effective_decision := lit ''undo'',
     le_basis_points := 0, le_entitlement := 0, le_delta := - 5000000, le_corrected_entitlement := 0,
     le_delta_corrected := - 1000, le_reverses := Some (lit ''e1'')\<rparr>"

lemma sample_credit_undone:
  "append_review_pool_compensation_reversal (lit ''e2'') 1 sample_undo_op
     (sample_pay\<lparr>segments := [sample_clip], ledger := [sample_pool_credit_row]\<rparr>) =
   Inr (sample_pay\<lparr>segments := [sample_clip], ledger := [sample_pool_credit_row, sample_undo_row]\<rparr>)"
  by (simp add: append_review_pool_compensation_reversal_def sample_policy)
    (simp add: sample_simps append_reversal_def latest_unreversed_def is_reversed_def
      sample_pool_credit_row_def sample_undo_row_def sample_credit_def sample_pay_def)

lemma sample_reversed:
  "\<exists>t'. reverse_decision sample_env (lit ''e2'') sample_pool 1 (lit ''sara'') sample_undo_op 6 sample_judged = Inr t'"
proof -
  have op: "operation_id_ok sample_undo_op"
    by (simp add: operation_id_ok_def sample_undo_op_def lit_def sql_trim_def ascii_lower_def)
  have fields: "pt_decisions sample_judged = [sample_decision]" "pt_reversals sample_judged = []"
    "pt_other_operations sample_judged = []" "pt_legacy sample_judged = []" "pt_legacy_reversals sample_judged = []"
    "pt_certificates sample_judged = []"
    "pt_pay sample_judged = sample_pay\<lparr>segments := [sample_clip], ledger := [sample_pool_credit_row]\<rparr>"
    by (simp_all add: sample_judged_def sample_listened_def sample_tables_def)
  have d: "pd_reviewer sample_decision = lit ''sara''" "pd_pool_id sample_decision = lit ''p''" "pd_operation_id sample_decision = sample_op"
    by (simp_all add: sample_decision_def sample_input_def sample_pool_def trim_samples)
  have "\<not> operation_collides sample_undo_op True sample_judged"
    by (simp add: operation_collides_def fields d sample_pay_def sample_event_def sample_undo_op_def sample_op_def)
  moreover have "reversal_row_ok \<lparr>pr_decision_id = 1, pr_operation_id = sample_undo_op, pr_reviewer = lit ''sara'',
      pr_created_at_ms = 6\<rparr> sample_judged"
    using op by (simp add: reversal_row_ok_def fields d sample_decision_id reviewer_name_ok_def trim_samples voice_certified_def list_ex_iff)
  ultimately show ?thesis
    using sample_credit_undone
    by (simp add: reverse_decision_def canonical_uuid_def sample_env_fields require_pool_operation_namespace_def fields d
        sample_decision_id sample_pool_def write_reversal_def require_def map_err_def)
qed

theorem reversal_replay_witness:
  "\<exists>t'. reverse_decision sample_env (lit ''e2'') sample_pool 1 (lit ''sara'') sample_undo_op 6 sample_judged = Inr t' \<and>
     1 \<notin> open_decisions (pt_pay t')"
  using sample_reversed reversal_replay [OF sample_judged_reachable] by blast

end
