(* ===== verification/Batch_Journal.thy ===== *)
theory Batch_Journal
  imports Import_Journal "HOL-Library.Countable" "HOL-Library.List_Lexorder"
begin

text \<open>
  The durable batch journal (\<open>db/batch_jobs.rs\<close> with \<open>batch_jobs/lifecycle.rs\<close> and \<open>batch_jobs/history.rs\<close>) and
  its tables and triggers (\<open>migrations/mod.rs\<close>, schema 68): admission of a batch, the commit of one item, the
  terminalization of a batch, recovery at startup, and the exact inverse behind undo and redo.

  A table is the list of its rows; the headers are the rows of \<open>jobs\<close> with a batch kind, which no other kind
  enters or leaves. A method runs inside one savepoint with the writer reserved, so it is one function of the
  tables; its error leaves them as they were. Failures of SQLite other than constraints and triggers are not
  modelled, and an error keeps its fixed text without the interpolated values. A finite \<open>f64\<close> is the rational
  number it denotes. SHA-256, NFC, serde's JSON, the uuid parser and Unicode's alphanumeric class are the
  fields of \<open>batch_env\<close>. \<open>terminal_at\<close>, \<open>created_at\<close> of an item and \<open>updated_at\<close>, which no method reads, have no column.
\<close>

section \<open>Data\<close>

datatype batch_kind = Transcribe | Normalize_Batch

definition batch_kind_str :: "batch_kind \<Rightarrow> utext" where
  "batch_kind_str k =
     (case k of Transcribe \<Rightarrow> lit ''batch_transcribe_v1'' | Normalize_Batch \<Rightarrow> lit ''batch_normalize_v1'')"

datatype batch_lifecycle = B_Queued | B_Running | B_Succeeded | B_Failed | B_Cancelled

definition batch_terminal :: "batch_lifecycle \<Rightarrow> bool" where
  "batch_terminal s \<longleftrightarrow> s = B_Succeeded \<or> s = B_Failed \<or> s = B_Cancelled"

datatype item_state = I_Pending | I_Applied | I_Skipped | I_Failed | I_Abandoned

datatype batch_error = BatchValidation string | BatchEvidence string | BatchAbort string

record speech_segment =
  ss_id :: utext
  ss_created_at :: "utext option"
  ss_audio_path :: utext
  ss_raw_transcript :: utext
  ss_normalized_transcript :: "utext option"
  ss_annotated_transcript :: "utext option"
  ss_alignment_json :: "utext option"
  ss_duration_ms :: int
  ss_speaker_id :: "utext option"
  ss_verified :: bool
  ss_confidence :: "rat option"
  ss_ctc_score :: "rat option"
  ss_clipping_ratio :: "rat option"
  ss_rms_db :: "rat option"
  ss_snr_db :: "rat option"
  ss_split :: "utext option"
  ss_signal_anomaly_score :: "rat option"
  ss_verdict :: "utext option"
  ss_verdict_transcript :: "utext option"
  ss_rationale :: "utext option"
  ss_evidence_json :: "utext option"
  ss_agreement_score :: "rat option"
  ss_escalated :: bool
  ss_human_decision :: "utext option"
  ss_corrected_at :: "utext option"
  ss_is_gold :: bool
  ss_alignment_quality :: "utext option"
  ss_model_version_id :: "utext option"
  ss_confidence_source :: "utext option"
  ss_cloud_call :: bool
  ss_decoder_config_hash :: "utext option"
  ss_normalizer_version :: "utext option"
  ss_denoised :: "bool option"
  ss_diarized :: "bool option"
  ss_vad_backend :: "utext option"
  ss_reviewed_by :: "utext option"
  ss_speaker_change_score :: "rat option"

record stored_hypothesis =
  sh_segment_id :: utext
  sh_model_id :: utext
  sh_transcript :: utext
  sh_confidence :: "rat option"
  sh_model_version_id :: utext
  sh_created_at :: utext

record projection =
  pj_schema :: int
  pj_segment :: speech_segment
  pj_review_revision :: int
  pj_audio_content_hash :: "utext option"
  pj_hypotheses :: "stored_hypothesis list"

record source_identity =
  si_schema :: int
  si_segment_id :: utext
  si_audio_path :: utext
  si_alignment_json :: "utext option"
  si_duration_ms :: int
  si_audio_content_hash :: "utext option"

record request_item =
  ri_ordinal :: int
  ri_segment_id :: utext
  ri_base_revision :: int
  ri_source_identity_sha256 :: utext
  ri_before_projection_sha256 :: utext

record executor_identity =
  ex_git_sha :: utext
  ex_token_sha256 :: utext
  ex_attempt_generation :: int

record batch_payload =
  bp_schema :: int
  bp_operation_id :: utext
  bp_kind :: batch_kind
  bp_request_sha256 :: utext
  bp_config_sha256 :: utext
  bp_executor_git_sha :: utext
  bp_attempt_generation :: int
  bp_executor_token_sha256 :: utext

record item_counts =
  ct_pending :: int
  ct_applied :: int
  ct_skipped :: int
  ct_failed :: int
  ct_abandoned :: int

definition counts_terminal :: "item_counts \<Rightarrow> int" where
  "counts_terminal c = ct_applied c + ct_skipped c + ct_failed c + ct_abandoned c"

record batch_status =
  st_operation_id :: utext
  st_kind :: batch_kind
  st_state :: batch_lifecycle
  st_total :: int
  st_completed :: int
  st_progress :: rat
  st_counts :: item_counts
  st_request_sha256 :: utext
  st_config_sha256 :: utext
  st_error_code :: "utext option"
  st_started_at :: "utext option"
  st_finished_at :: "utext option"

record champion_draft =
  cd_raw_transcript :: utext
  cd_normalized_transcript :: "utext option"
  cd_confidence :: "rat option"
  cd_confidence_source :: "utext option"
  cd_model_version_id :: utext
  cd_deployment_sha256 :: utext
  cd_cloud_call :: bool
  cd_normalizer_version :: "utext option"

datatype commit_outcome =
    Applied int
  | AlreadyApplied int
  | Skipped utext
  | Failed_Item utext
  | AlreadyTerminal item_state "utext option"

datatype terminal_intent = Intent_Succeeded | Intent_Failed utext | Intent_Cancelled utext

datatype history_side = Before | After

fun opposite :: "history_side \<Rightarrow> history_side" where
  "opposite Before = After"
| "opposite After = Before"

record history_endpoint =
  ep_ordinal :: int
  ep_segment_id :: utext
  ep_projection_sha256 :: utext
  ep_review_revision :: int

record history_token =
  ht_operation_id :: utext
  ht_kind :: batch_kind
  ht_expected_side :: history_side
  ht_items :: "history_endpoint list"

section \<open>Tables\<close>

record segment_record =
  sg_segment :: speech_segment
  sg_review_revision :: int
  sg_audio_content_hash :: "utext option"

record batch_header =
  bh_id :: utext
  bh_kind :: batch_kind
  bh_state :: batch_lifecycle
  bh_progress :: rat
  bh_completed :: int
  bh_total :: int
  bh_error_code :: "utext option"
  bh_payload_json :: utext
  bh_started_at :: "utext option"
  bh_finished_at :: "utext option"

record batch_item =
  bi_job_id :: utext
  bi_ordinal :: int
  bi_segment_id :: utext
  bi_base_revision :: int
  bi_source_identity_sha256 :: utext
  bi_before_projection_json :: utext
  bi_before_projection_sha256 :: utext
  bi_state :: item_state
  bi_after_projection_json :: "utext option"
  bi_after_projection_sha256 :: "utext option"
  bi_effect_revision :: "int option"
  bi_result_code :: "utext option"

record model_row =
  mr_id :: utext
  mr_family :: utext
  mr_status :: utext
  mr_checkpoint_sha256 :: utext

record batch_db =
  bd_schema :: int
  bd_segments :: "segment_record list"
  bd_hypotheses :: "stored_hypothesis list"
  bd_headers :: "batch_header list"
  bd_items :: "batch_item list"
  bd_models :: "model_row list"

record batch_env =
  be_nfc :: "utext \<Rightarrow> utext"
  be_sha256 :: "utext \<Rightarrow> utext"
  be_uuid :: "utext \<Rightarrow> bool"
  be_alnum :: "uchar \<Rightarrow> bool"
  be_text_json :: "utext \<Rightarrow> utext"
  be_projection_json :: "projection \<Rightarrow> utext"
  be_parse_projection :: "utext \<Rightarrow> projection option"
  be_source_json :: "source_identity \<Rightarrow> utext"
  be_request_item_json :: "request_item \<Rightarrow> utext"
  be_payload_json :: "batch_payload \<Rightarrow> utext"
  be_parse_payload :: "utext \<Rightarrow> batch_payload option"

definition MAX_BATCH_ITEMS_V1 :: nat where
  "MAX_BATCH_ITEMS_V1 = 100000"

definition BATCH_PENDING_PAGE_SIZE_V1 :: nat where
  "BATCH_PENDING_PAGE_SIZE_V1 = 128"

definition MAX_BATCH_SEGMENT_TEXT_FIELD_BYTES_V1 :: nat where
  "MAX_BATCH_SEGMENT_TEXT_FIELD_BYTES_V1 = 512 * 1024"

definition MAX_BATCH_SEGMENT_TEXT_BYTES_V1 :: nat where
  "MAX_BATCH_SEGMENT_TEXT_BYTES_V1 = 2 * 1024 * 1024"

definition MAX_BATCH_PROJECTION_JSON_BYTES_V1 :: nat where
  "MAX_BATCH_PROJECTION_JSON_BYTES_V1 = 32 * 1024 * 1024"

definition MAX_BATCH_PENDING_PAGE_ENCODED_BYTES_V1 :: nat where
  "MAX_BATCH_PENDING_PAGE_ENCODED_BYTES_V1 = 64 * 1024 * 1024"

definition MAX_STORED_HYPOTHESES_PER_SEGMENT :: nat where
  "MAX_STORED_HYPOTHESES_PER_SEGMENT = 64"

definition MAX_STORED_HYPOTHESIS_TRANSCRIPT_BYTES :: nat where
  "MAX_STORED_HYPOTHESIS_TRANSCRIPT_BYTES = 512 * 1024"

definition MAX_STORED_HYPOTHESIS_TRANSCRIPT_BYTES_PER_SEGMENT :: nat where
  "MAX_STORED_HYPOTHESIS_TRANSCRIPT_BYTES_PER_SEGMENT = 2 * 1024 * 1024"

definition MAX_STORED_HYPOTHESIS_METADATA_FIELD_BYTES :: nat where
  "MAX_STORED_HYPOTHESIS_METADATA_FIELD_BYTES = 4 * 1024"

definition MAX_STORED_HYPOTHESIS_METADATA_BYTES_PER_SEGMENT :: nat where
  "MAX_STORED_HYPOTHESIS_METADATA_BYTES_PER_SEGMENT = 512 * 1024"

section \<open>Validation\<close>

definition is_lower_hex :: "nat \<Rightarrow> utext \<Rightarrow> bool" where
  "is_lower_hex n value \<longleftrightarrow> utf8_len value = n \<and> list_all (\<lambda>c. (48 \<le> c \<and> c \<le> 57) \<or> (97 \<le> c \<and> c \<le> 102)) value"

definition validate_sha256 :: "utext \<Rightarrow> batch_error + unit" where
  "validate_sha256 value = require (is_lower_hex 64 value) (BatchValidation ''must be a canonical lowercase SHA-256'')"

definition validate_git_sha :: "utext \<Rightarrow> batch_error + unit" where
  "validate_git_sha value =
     require (is_lower_hex 40 value)
       (BatchValidation ''executor Git SHA must be exactly 40 lowercase hexadecimal characters'')"

definition result_code_ok :: "utext \<Rightarrow> bool" where
  "result_code_ok value \<longleftrightarrow> value \<noteq> [] \<and> utf8_len value \<le> 64 \<and>
     list_all (\<lambda>c. (65 \<le> c \<and> c \<le> 90) \<or> (48 \<le> c \<and> c \<le> 57) \<or> c = 95) value"

definition validate_result_code :: "utext \<Rightarrow> batch_error + unit" where
  "validate_result_code value =
     require (result_code_ok value)
       (BatchValidation ''batch result code must contain 1-64 uppercase ASCII letters, digits, or underscores'')"

definition validate_batch_item_count :: "nat \<Rightarrow> batch_error + unit" where
  "validate_batch_item_count n =
     require (n \<noteq> 0 \<and> n \<le> MAX_BATCH_ITEMS_V1) (BatchValidation ''batch must contain between 1 and 100000 segment ids'')"

definition check_identifier :: "batch_env \<Rightarrow> utext \<Rightarrow> batch_error + unit" where
  "check_identifier env s =
     (case validate_identifier (be_alnum env) s of
        Inl _ \<Rightarrow> Inl (BatchValidation ''invalid identifier'') | Inr u \<Rightarrow> Inr u)"

definition validate_text :: "nat \<Rightarrow> utext \<Rightarrow> batch_error + unit" where
  "validate_text max_len s = require (length s \<le> max_len) (BatchValidation ''text too long'')"

definition validate_operation_uuid :: "batch_env \<Rightarrow> utext \<Rightarrow> batch_error + unit" where
  "validate_operation_uuid env s = require (be_uuid env s) (BatchValidation ''operation id must be a canonical UUID'')"

definition require_batch_schema :: "batch_db \<Rightarrow> batch_error + unit" where
  "require_batch_schema db =
     require (68 \<le> bd_schema db) (BatchValidation ''durable batch authority requires schema 68'')"

fun all_ok :: "('a \<Rightarrow> 'e + unit) \<Rightarrow> 'a list \<Rightarrow> 'e + unit" where
  "all_ok f [] = Inr ()"
| "all_ok f (x # xs) = and_then (f x) (\<lambda>_. all_ok f xs)"

definition validate_stored_hypothesis_payload :: "batch_env \<Rightarrow> stored_hypothesis \<Rightarrow> batch_error + unit" where
  "validate_stored_hypothesis_payload env h =
     and_then (check_identifier env (sh_segment_id h)) (\<lambda>_.
     and_then (check_identifier env (sh_model_id h)) (\<lambda>_.
     require (utf8_len (sh_transcript h) \<le> MAX_STORED_HYPOTHESIS_TRANSCRIPT_BYTES)
       (BatchValidation ''E_HYPOTHESIS_LIMIT_EXCEEDED'')))"

section \<open>Projections\<close>

definition or_empty :: "utext option \<Rightarrow> utext" where
  "or_empty t = (case t of None \<Rightarrow> [] | Some s \<Rightarrow> s)"

definition segment_text_fields :: "speech_segment \<Rightarrow> utext option \<Rightarrow> utext list" where
  "segment_text_fields s audio_hash =
     [ss_id s, or_empty (ss_created_at s), ss_audio_path s, ss_raw_transcript s,
      or_empty (ss_normalized_transcript s), or_empty (ss_annotated_transcript s), or_empty (ss_alignment_json s),
      or_empty (ss_speaker_id s), or_empty (ss_split s), or_empty (ss_verdict s), or_empty (ss_verdict_transcript s),
      or_empty (ss_rationale s), or_empty (ss_evidence_json s), or_empty (ss_human_decision s),
      or_empty (ss_corrected_at s), or_empty (ss_alignment_quality s), or_empty (ss_model_version_id s),
      or_empty (ss_confidence_source s), or_empty (ss_decoder_config_hash s), or_empty (ss_normalizer_version s),
      or_empty (ss_vad_backend s), or_empty (ss_reviewed_by s), or_empty audio_hash]"

definition sum_bytes :: "utext list \<Rightarrow> nat" where
  "sum_bytes ts = sum_list (map utf8_len ts)"

definition largest_bytes :: "utext list \<Rightarrow> nat" where
  "largest_bytes ts = foldr max (map utf8_len ts) 0"

definition hypothesis_metadata :: "stored_hypothesis list \<Rightarrow> utext list" where
  "hypothesis_metadata hs = concat (map (\<lambda>h. [sh_model_id h, sh_model_version_id h, sh_created_at h]) hs)"

text \<open>
  The limits on one projection, checked on the columns of the row before the row is read
  (\<open>batch_projection_footprint_on\<close>) and on a decoded value (\<open>validate_batch_projection_value_v1\<close>).
\<close>

definition validate_batch_projection_footprint ::
  "utext list \<Rightarrow> stored_hypothesis list \<Rightarrow> batch_error + unit" where
  "validate_batch_projection_footprint texts hs =
     require
       (sum_bytes texts \<le> MAX_BATCH_SEGMENT_TEXT_BYTES_V1 \<and>
        largest_bytes texts \<le> MAX_BATCH_SEGMENT_TEXT_FIELD_BYTES_V1 \<and>
        length hs \<le> MAX_STORED_HYPOTHESES_PER_SEGMENT \<and>
        sum_bytes (map sh_transcript hs) \<le> MAX_STORED_HYPOTHESIS_TRANSCRIPT_BYTES_PER_SEGMENT \<and>
        largest_bytes (map sh_transcript hs) \<le> MAX_STORED_HYPOTHESIS_TRANSCRIPT_BYTES \<and>
        sum_bytes (hypothesis_metadata hs) \<le> MAX_STORED_HYPOTHESIS_METADATA_BYTES_PER_SEGMENT \<and>
        largest_bytes (hypothesis_metadata hs) \<le> MAX_STORED_HYPOTHESIS_METADATA_FIELD_BYTES)
       (BatchEvidence ''E_BATCH_PROJECTION_LIMIT_EXCEEDED'')"

definition validate_batch_projection_value :: "batch_env \<Rightarrow> projection \<Rightarrow> batch_error + unit" where
  "validate_batch_projection_value env p =
     and_then (all_ok (validate_stored_hypothesis_payload env) (pj_hypotheses p)) (\<lambda>_.
     validate_batch_projection_footprint
       (segment_text_fields (pj_segment p) (pj_audio_content_hash p)) (pj_hypotheses p))"

definition validate_projection_json_length :: "utext \<Rightarrow> batch_error + unit" where
  "validate_projection_json_length json =
     require (utf8_len json \<noteq> 0 \<and> utf8_len json \<le> MAX_BATCH_PROJECTION_JSON_BYTES_V1)
       (BatchEvidence ''E_BATCH_PROJECTION_LIMIT_EXCEEDED'')"

definition source_identity_of :: "projection \<Rightarrow> source_identity" where
  "source_identity_of p =
     \<lparr>si_schema = 1, si_segment_id = ss_id (pj_segment p), si_audio_path = ss_audio_path (pj_segment p),
      si_alignment_json = ss_alignment_json (pj_segment p), si_duration_ms = ss_duration_ms (pj_segment p),
      si_audio_content_hash = pj_audio_content_hash p\<rparr>"

definition projection_authority :: "batch_env \<Rightarrow> projection \<Rightarrow> batch_error + utext \<times> utext \<times> utext" where
  "projection_authority env p =
     and_then (validate_batch_projection_value env p) (\<lambda>_.
     and_then (validate_projection_json_length (be_projection_json env p)) (\<lambda>_.
     Inr (be_projection_json env p, be_sha256 env (be_projection_json env p),
          be_sha256 env (be_source_json env (source_identity_of p)))))"

definition projection_semantic_sha256 :: "batch_env \<Rightarrow> projection \<Rightarrow> utext" where
  "projection_semantic_sha256 env p = be_sha256 env (be_projection_json env (p\<lparr>pj_review_revision := 0\<rparr>))"

definition segment_is_human_owned :: "speech_segment \<Rightarrow> bool" where
  "segment_is_human_owned s \<longleftrightarrow>
     ss_verified s \<or> ss_is_gold s \<or> ss_annotated_transcript s \<noteq> None \<or>
     (case ss_human_decision s of None \<Rightarrow> False | Some v \<Rightarrow> trim v \<noteq> []) \<or>
     (case ss_verdict s of None \<Rightarrow> False
      | Some v \<Rightarrow> v = lit ''human_accept'' \<or> v = lit ''human_edit'' \<or> v = lit ''human_reject'') \<or>
     (case ss_reviewed_by s of None \<Rightarrow> False | Some v \<Rightarrow> trim v \<noteq> []) \<or>
     ss_corrected_at s \<noteq> None"

definition stored_segment :: "batch_db \<Rightarrow> utext \<Rightarrow> segment_record option" where
  "stored_segment db i = find (\<lambda>r. ss_id (sg_segment r) = i) (bd_segments db)"

definition hypotheses_of :: "batch_db \<Rightarrow> utext \<Rightarrow> stored_hypothesis list" where
  "hypotheses_of db i = sort_key sh_model_id (filter (\<lambda>h. sh_segment_id h = i) (bd_hypotheses db))"

definition read_batch_projection :: "batch_env \<Rightarrow> batch_db \<Rightarrow> utext \<Rightarrow> batch_error + projection option" where
  "read_batch_projection env db i =
     (case stored_segment db i of
        None \<Rightarrow> Inr None
      | Some r \<Rightarrow>
          and_then (validate_batch_projection_footprint
                      (segment_text_fields (sg_segment r) (sg_audio_content_hash r)) (hypotheses_of db i)) (\<lambda>_.
          and_then (all_ok (validate_stored_hypothesis_payload env) (hypotheses_of db i)) (\<lambda>_.
          Inr (Some \<lparr>pj_schema = 1, pj_segment = sg_segment r, pj_review_revision = sg_review_revision r,
                     pj_audio_content_hash = sg_audio_content_hash r, pj_hypotheses = hypotheses_of db i\<rparr>))))"

section \<open>Reading the journal\<close>

definition read_batch_header :: "batch_db \<Rightarrow> utext \<Rightarrow> batch_header option" where
  "read_batch_header db op = find (\<lambda>h. bh_id h = op) (bd_headers db)"

definition items_of :: "batch_db \<Rightarrow> utext \<Rightarrow> batch_item list" where
  "items_of db op = filter (\<lambda>i. bi_job_id i = op) (bd_items db)"

definition read_batch_item :: "batch_db \<Rightarrow> utext \<Rightarrow> int \<Rightarrow> batch_error + batch_item option" where
  "read_batch_item db op ordinal =
     (case find (\<lambda>i. bi_ordinal i = ordinal) (items_of db op) of
        None \<Rightarrow> Inr None
      | Some i \<Rightarrow>
          and_then (validate_projection_json_length (bi_before_projection_json i)) (\<lambda>_.
          and_then (case bi_after_projection_json i of
                      None \<Rightarrow> Inr ()
                    | Some json \<Rightarrow> if utf8_len json = 0 then Inr () else validate_projection_json_length json) (\<lambda>_.
          Inr (Some i))))"

definition count_state :: "item_state \<Rightarrow> batch_item list \<Rightarrow> int" where
  "count_state s is' = int (length (filter (\<lambda>i. bi_state i = s) is'))"

definition counts_of :: "batch_item list \<Rightarrow> item_counts" where
  "counts_of is' =
     \<lparr>ct_pending = count_state I_Pending is', ct_applied = count_state I_Applied is',
      ct_skipped = count_state I_Skipped is', ct_failed = count_state I_Failed is',
      ct_abandoned = count_state I_Abandoned is'\<rparr>"

definition batch_item_counts :: "batch_db \<Rightarrow> utext \<Rightarrow> item_counts" where
  "batch_item_counts db op = counts_of (items_of db op)"

definition parse_batch_payload :: "batch_env \<Rightarrow> batch_header \<Rightarrow> batch_error + batch_payload" where
  "parse_batch_payload env h =
     (case be_parse_payload env (bh_payload_json h) of
        None \<Rightarrow> Inl (BatchEvidence ''payload cannot be decoded'')
      | Some p \<Rightarrow>
          and_then (require (be_payload_json env p = bh_payload_json h)
                      (BatchEvidence ''payload is not in canonical typed JSON form'')) (\<lambda>_.
          and_then (require (bp_schema p = 1 \<and> bp_operation_id p = bh_id h \<and> bp_kind p = bh_kind h \<and>
                             1 \<le> bp_attempt_generation p)
                      (BatchEvidence ''payload disagrees with its header'')) (\<lambda>_.
          and_then (require (is_lower_hex 64 (bp_request_sha256 p)) (BatchEvidence ''stored batch request hash'')) (\<lambda>_.
          and_then (require (is_lower_hex 64 (bp_config_sha256 p)) (BatchEvidence ''stored batch config hash'')) (\<lambda>_.
          and_then (require (is_lower_hex 40 (bp_executor_git_sha p)) (BatchEvidence ''executor Git SHA'')) (\<lambda>_.
          and_then (require (is_lower_hex 64 (bp_executor_token_sha256 p)) (BatchEvidence ''stored executor token hash'')) (\<lambda>_.
          Inr p)))))))"

definition require_batch_executor ::
  "batch_env \<Rightarrow> batch_header \<Rightarrow> executor_identity \<Rightarrow> batch_error + batch_payload" where
  "require_batch_executor env h ex =
     and_then (validate_git_sha (ex_git_sha ex)) (\<lambda>_.
     and_then (validate_sha256 (ex_token_sha256 ex)) (\<lambda>_.
     and_then (require (1 \<le> ex_attempt_generation ex)
                 (BatchValidation ''executor attempt generation must be positive'')) (\<lambda>_.
     and_then (parse_batch_payload env h) (\<lambda>p.
     and_then (require (bp_executor_git_sha p = ex_git_sha ex \<and>
                        bp_attempt_generation p = ex_attempt_generation ex \<and>
                        bp_executor_token_sha256 p = ex_token_sha256 ex)
                 (BatchValidation ''E_BATCH_EXECUTOR_MISMATCH'')) (\<lambda>_.
     Inr p)))))"

definition decode_before_projection :: "batch_env \<Rightarrow> batch_item \<Rightarrow> batch_error + projection" where
  "decode_before_projection env i =
     (case be_parse_projection env (bi_before_projection_json i) of
        None \<Rightarrow> Inl (BatchEvidence ''before projection cannot be decoded'')
      | Some p \<Rightarrow>
          and_then (projection_authority env p) (\<lambda>(canonical, sha, source_sha).
          if canonical \<noteq> bi_before_projection_json i \<or> sha \<noteq> bi_before_projection_sha256 i \<or>
             source_sha \<noteq> bi_source_identity_sha256 i \<or> pj_schema p \<noteq> 1 \<or>
             ss_id (pj_segment p) \<noteq> bi_segment_id i \<or> pj_review_revision p \<noteq> bi_base_revision i \<or>
             list_ex (\<lambda>h. sh_segment_id h \<noteq> bi_segment_id i) (pj_hypotheses p)
          then Inl (BatchEvidence ''before projection authority does not match its identity columns'')
          else Inr p))"

definition decode_after_projection :: "batch_env \<Rightarrow> batch_item \<Rightarrow> batch_error + projection option" where
  "decode_after_projection env i =
     (case bi_after_projection_json i of
        None \<Rightarrow>
          if bi_after_projection_sha256 i \<noteq> None \<or> bi_effect_revision i \<noteq> None
          then Inl (BatchEvidence ''partial after authority'') else Inr None
      | Some json \<Rightarrow>
          (case be_parse_projection env json of
             None \<Rightarrow> Inl (BatchEvidence ''after projection cannot be decoded'')
           | Some p \<Rightarrow>
               and_then (projection_authority env p) (\<lambda>(canonical, sha, _).
               if canonical \<noteq> json \<or> bi_after_projection_sha256 i \<noteq> Some sha \<or> pj_schema p \<noteq> 1 \<or>
                  ss_id (pj_segment p) \<noteq> bi_segment_id i \<or>
                  bi_effect_revision i \<noteq> Some (pj_review_revision p) \<or>
                  pj_review_revision p \<le> bi_base_revision i \<or>
                  list_ex (\<lambda>h. sh_segment_id h \<noteq> bi_segment_id i) (pj_hypotheses p)
               then Inl (BatchEvidence ''after projection authority does not match its effect columns'')
               else Inr (Some p))))"

section \<open>Status and validation\<close>

definition lifecycle_agrees :: "batch_header \<Rightarrow> item_counts \<Rightarrow> bool" where
  "lifecycle_agrees h c =
     (case bh_state h of
        B_Queued \<Rightarrow> \<not> (bh_completed h \<noteq> 0 \<or> bh_started_at h \<noteq> None \<or> bh_finished_at h \<noteq> None)
      | B_Running \<Rightarrow> \<not> (bh_started_at h = None \<or> bh_finished_at h \<noteq> None \<or> bh_error_code h \<noteq> None)
      | B_Succeeded \<Rightarrow>
          \<not> (ct_pending c \<noteq> 0 \<or> ct_failed c \<noteq> 0 \<or> ct_abandoned c \<noteq> 0 \<or> bh_finished_at h = None \<or> bh_error_code h \<noteq> None)
      | B_Failed \<Rightarrow>
          \<not> (ct_pending c \<noteq> 0 \<or> ct_failed c + ct_abandoned c = 0 \<or> bh_finished_at h = None \<or> bh_error_code h = None)
      | B_Cancelled \<Rightarrow>
          \<not> (ct_pending c \<noteq> 0 \<or> ct_failed c \<noteq> 0 \<or> ct_abandoned c = 0 \<or> bh_finished_at h = None \<or> bh_error_code h = None))"

definition status_from_header :: "batch_env \<Rightarrow> batch_db \<Rightarrow> batch_header \<Rightarrow> batch_error + batch_status" where
  "status_from_header env db h =
     and_then (parse_batch_payload env h) (\<lambda>p.
     let c = batch_item_counts db (bh_id h) in
     if bh_total h < 1 \<or> int MAX_BATCH_ITEMS_V1 < bh_total h \<or>
        ct_pending c + counts_terminal c \<noteq> bh_total h \<or> bh_completed h \<noteq> counts_terminal c \<or>
        1 / 10 ^ 9 < \<bar>bh_progress h - of_int (bh_completed h) / of_int (bh_total h)\<bar>
     then Inl (BatchEvidence ''header progress disagrees with durable item counts'')
     else if \<not> lifecycle_agrees h c then Inl (BatchEvidence ''job contradicts item evidence'')
     else Inr \<lparr>st_operation_id = bh_id h, st_kind = bh_kind h, st_state = bh_state h, st_total = bh_total h,
               st_completed = bh_completed h, st_progress = bh_progress h, st_counts = c,
               st_request_sha256 = bp_request_sha256 p, st_config_sha256 = bp_config_sha256 p,
               st_error_code = bh_error_code h, st_started_at = bh_started_at h, st_finished_at = bh_finished_at h\<rparr>)"

definition get_batch_job_status ::
  "batch_env \<Rightarrow> batch_db \<Rightarrow> utext \<Rightarrow> batch_error + batch_status option" where
  "get_batch_job_status env db op =
     and_then (require_batch_schema db) (\<lambda>_.
     and_then (validate_operation_uuid env op) (\<lambda>_.
     case read_batch_header db op of
       None \<Rightarrow> Inr None
     | Some h \<Rightarrow> and_then (status_from_header env db h) (\<lambda>s. Inr (Some s))))"

definition batch_live :: "batch_header \<Rightarrow> bool" where
  "batch_live h \<longleftrightarrow> bh_state h = B_Queued \<or> bh_state h = B_Running"

definition active_batch_job :: "batch_env \<Rightarrow> batch_db \<Rightarrow> batch_error + batch_status option" where
  "active_batch_job env db =
     and_then (require_batch_schema db) (\<lambda>_.
     case filter batch_live (bd_headers db) of
       [] \<Rightarrow> Inr None
     | [h] \<Rightarrow> get_batch_job_status env db (bh_id h)
     | _ \<Rightarrow> Inl (BatchEvidence ''live batch headers exist''))"

text \<open>
  The request digest hashes the bytes of one JSON object without building it: \<open>digest_new\<close> is the text before
  the first item, \<open>digest_push\<close> appends an item, \<open>digest_finish\<close> closes the array and hashes.
\<close>

definition digest_new :: "batch_env \<Rightarrow> utext \<Rightarrow> batch_kind \<Rightarrow> utext \<Rightarrow> utext \<times> bool" where
  "digest_new env op kind config =
     (lit ''{'' @ [34] @ lit ''schema'' @ [34] @ lit '':1,'' @ [34] @ lit ''operationId'' @ [34] @ lit '':'' @
      be_text_json env op @ lit '','' @ [34] @ lit ''kind'' @ [34] @ lit '':'' @ be_text_json env (batch_kind_str kind) @
      lit '','' @ [34] @ lit ''configSha256'' @ [34] @ lit '':'' @ be_text_json env config @
      lit '','' @ [34] @ lit ''items'' @ [34] @ lit '':['', False)"

definition digest_push :: "batch_env \<Rightarrow> utext \<times> bool \<Rightarrow> request_item \<Rightarrow> utext \<times> bool" where
  "digest_push env d i =
     (fst d @ (if snd d then lit '','' else []) @ be_request_item_json env i, True)"

definition digest_finish :: "batch_env \<Rightarrow> utext \<times> bool \<Rightarrow> utext" where
  "digest_finish env d = be_sha256 env (fst d @ lit '']}'')"

definition item_evidence_ok :: "batch_env \<Rightarrow> batch_item \<Rightarrow> batch_error + unit" where
  "item_evidence_ok env i =
     (case bi_state i of
        I_Pending \<Rightarrow>
          require (\<not> (bi_after_projection_json i \<noteq> None \<or> bi_after_projection_sha256 i \<noteq> None \<or>
                     bi_effect_revision i \<noteq> None \<or> bi_result_code i \<noteq> None))
            (BatchEvidence ''pending item carries terminal evidence'')
      | I_Applied \<Rightarrow>
          if bi_result_code i \<noteq> None then Inl (BatchEvidence ''applied item lacks exact after authority'')
          else and_then (decode_after_projection env i) (\<lambda>after.
               require (after \<noteq> None) (BatchEvidence ''applied item lacks exact after authority''))
      | _ \<Rightarrow>
          require (\<not> (bi_result_code i = None \<or> bi_after_projection_json i \<noteq> None \<or>
                     bi_after_projection_sha256 i \<noteq> None \<or> bi_effect_revision i \<noteq> None))
            (BatchEvidence ''non-applied terminal item has malformed evidence''))"

definition request_item_of :: "batch_item \<Rightarrow> int \<Rightarrow> projection \<Rightarrow> request_item" where
  "request_item_of i ordinal before =
     \<lparr>ri_ordinal = ordinal, ri_segment_id = ss_id (pj_segment before), ri_base_revision = pj_review_revision before,
      ri_source_identity_sha256 = bi_source_identity_sha256 i,
      ri_before_projection_sha256 = bi_before_projection_sha256 i\<rparr>"

fun validate_items ::
  "batch_env \<Rightarrow> batch_db \<Rightarrow> utext \<Rightarrow> int list \<Rightarrow> utext \<times> bool \<Rightarrow> batch_error + utext \<times> bool" where
  "validate_items env db op [] d = Inr d"
| "validate_items env db op (ordinal # ordinals) d =
     and_then (read_batch_item db op ordinal) (\<lambda>found.
     case found of
       None \<Rightarrow> Inl (BatchEvidence ''job is missing an ordinal'')
     | Some i \<Rightarrow>
         and_then (decode_before_projection env i) (\<lambda>before.
         and_then (item_evidence_ok env i) (\<lambda>_.
         validate_items env db op ordinals (digest_push env d (request_item_of i ordinal before)))))"

definition validate_one_batch_job_authority ::
  "batch_env \<Rightarrow> batch_db \<Rightarrow> utext \<Rightarrow> batch_error + batch_status" where
  "validate_one_batch_job_authority env db op =
     (case read_batch_header db op of
        None \<Rightarrow> Inl (BatchValidation ''batch operation does not exist'')
      | Some h \<Rightarrow>
          and_then (parse_batch_payload env h) (\<lambda>p.
          and_then (status_from_header env db h) (\<lambda>s.
          and_then (validate_items env db op (map int [0..<nat (st_total s)])
                      (digest_new env op (st_kind s) (bp_config_sha256 p))) (\<lambda>d.
          if digest_finish env d \<noteq> st_request_sha256 s
          then Inl (BatchEvidence ''request digest does not match its items'') else Inr s))))"

fun validate_ids :: "batch_env \<Rightarrow> batch_db \<Rightarrow> utext list \<Rightarrow> nat \<Rightarrow> batch_error + nat" where
  "validate_ids env db [] live = Inr live"
| "validate_ids env db (op # ops) live =
     and_then (validate_one_batch_job_authority env db op) (\<lambda>s.
     validate_ids env db ops (if st_state s = B_Queued \<or> st_state s = B_Running then live + 1 else live))"

definition validate_batch_job_authority_on :: "batch_env \<Rightarrow> batch_db \<Rightarrow> batch_error + unit" where
  "validate_batch_job_authority_on env db =
     (if bd_schema db < 68 then Inr ()
      else and_then (validate_ids env db (map bh_id (bd_headers db)) 0) (\<lambda>live.
           require (live \<le> 1) (BatchEvidence ''live batch headers exist'')))"

definition validate_batch_job_authority :: "batch_env \<Rightarrow> batch_db \<Rightarrow> batch_error + unit" where
  "validate_batch_job_authority env db =
     and_then (require_batch_schema db) (\<lambda>_. validate_batch_job_authority_on env db)"

section \<open>Statements\<close>

text \<open>
  A statement succeeds when the constraints and triggers of its table hold. Every write of a header that stays
  running is checked by \<open>jobs_v68_batch_progress_validate\<close>, the start and the end of a batch by
  \<open>jobs_v68_batch_start_validate\<close> and \<open>jobs_v68_batch_terminal_validate\<close>; an item leaves the state pending once.
  The insert triggers also check the form of the operation id, of the digests and of the payload; these values are
  validated by the admission itself or built from a SHA-256 (\<open>hex_digests\<close> in the theory Batch_Safety), so the
  checks are not repeated here. An operation id that a job of another kind already has is outside the model.
\<close>

definition insert_header :: "batch_header \<Rightarrow> batch_db \<Rightarrow> batch_error + batch_db" where
  "insert_header h db =
     and_then (require (bh_state h = B_Queued \<and> 1 \<le> bh_total h \<and> bh_total h \<le> 100000 \<and> bh_completed h = 0 \<and>
                        bh_progress h = 0 \<and> bh_error_code h = None) (BatchAbort ''invalid batch job header'')) (\<lambda>_.
     and_then (require (bh_id h \<notin> bh_id ` set (bd_headers db) \<and> \<not> list_ex batch_live (bd_headers db))
                 (BatchAbort ''UNIQUE constraint failed'')) (\<lambda>_.
     Inr (db\<lparr>bd_headers := bd_headers db @ [h]\<rparr>)))"

definition insert_item :: "batch_item \<Rightarrow> batch_db \<Rightarrow> batch_error + batch_db" where
  "insert_item i db =
     and_then (require (list_ex (\<lambda>h. bh_id h = bi_job_id i \<and> bh_state h = B_Queued \<and> bi_ordinal i < bh_total h) (bd_headers db))
                 (BatchAbort ''batch item requires matching queued parent and ordinal'')) (\<lambda>_.
     and_then (require (0 \<le> bi_ordinal i \<and> bi_ordinal i < 100000 \<and> sql_trim (bi_segment_id i) \<noteq> [] \<and> 0 \<le> bi_base_revision i)
                 (BatchAbort ''CHECK constraint failed'')) (\<lambda>_.
     and_then (require (\<not> list_ex (\<lambda>j. bi_job_id j = bi_job_id i \<and>
                          (bi_ordinal j = bi_ordinal i \<or> bi_segment_id j = bi_segment_id i)) (bd_items db))
                 (BatchAbort ''UNIQUE constraint failed'')) (\<lambda>_.
     Inr (db\<lparr>bd_items := bd_items db @ [i]\<rparr>))))"

definition update_item ::
  "utext \<Rightarrow> (batch_item \<Rightarrow> bool) \<Rightarrow> (batch_item \<Rightarrow> batch_item) \<Rightarrow> batch_db \<Rightarrow> nat \<times> batch_db" where
  "update_item op P f db =
     (let hit = (\<lambda>i. bi_job_id i = op \<and> bi_state i = I_Pending \<and> P i)
      in (length (filter hit (bd_items db)),
          db\<lparr>bd_items := map (\<lambda>i. if hit i then f i else i) (bd_items db)\<rparr>))"

definition update_header ::
  "(batch_header \<Rightarrow> bool) \<Rightarrow> (batch_header \<Rightarrow> batch_header) \<Rightarrow> batch_db \<Rightarrow> nat \<times> batch_db" where
  "update_header P f db =
     (length (filter P (bd_headers db)),
      db\<lparr>bd_headers := map (\<lambda>h. if P h then f h else h) (bd_headers db)\<rparr>)"

text \<open>The trigger of schema 53: an update that keeps the revision advances it by one.\<close>

definition update_segment ::
  "(segment_record \<Rightarrow> bool) \<Rightarrow> (speech_segment \<Rightarrow> speech_segment) \<Rightarrow> batch_db \<Rightarrow> nat \<times> batch_db" where
  "update_segment P f db =
     (length (filter P (bd_segments db)),
      db\<lparr>bd_segments := map (\<lambda>r. if P r then r\<lparr>sg_segment := f (sg_segment r), sg_review_revision := sg_review_revision r + 1\<rparr>
                                 else r) (bd_segments db)\<rparr>)"

text \<open>The triggers of schema 68: every inserted or deleted hypothesis advances the revision of its segment.\<close>

definition advance_revision :: "utext \<Rightarrow> nat \<Rightarrow> batch_db \<Rightarrow> batch_db" where
  "advance_revision i n db =
     db\<lparr>bd_segments := map (\<lambda>r. if ss_id (sg_segment r) = i then r\<lparr>sg_review_revision := sg_review_revision r + int n\<rparr> else r)
                          (bd_segments db)\<rparr>"

definition delete_hypotheses :: "utext \<Rightarrow> batch_db \<Rightarrow> batch_db" where
  "delete_hypotheses i db =
     advance_revision i (length (filter (\<lambda>h. sh_segment_id h = i) (bd_hypotheses db)))
       (db\<lparr>bd_hypotheses := filter (\<lambda>h. sh_segment_id h \<noteq> i) (bd_hypotheses db)\<rparr>)"

definition insert_hypothesis :: "stored_hypothesis \<Rightarrow> batch_db \<Rightarrow> batch_error + batch_db" where
  "insert_hypothesis h db =
     and_then (require (\<not> list_ex (\<lambda>g. sh_segment_id g = sh_segment_id h \<and> sh_model_id g = sh_model_id h) (bd_hypotheses db) \<and>
                        list_ex (\<lambda>r. ss_id (sg_segment r) = sh_segment_id h) (bd_segments db))
                 (BatchAbort ''constraint failed'')) (\<lambda>_.
     Inr (advance_revision (sh_segment_id h) 1 (db\<lparr>bd_hypotheses := bd_hypotheses db @ [h]\<rparr>)))"

text \<open>A method's savepoint: its error leaves the tables as they were.\<close>

definition savepoint :: "batch_db \<Rightarrow> batch_error + 'a \<times> batch_db \<Rightarrow> (batch_error + 'a) \<times> batch_db" where
  "savepoint db r = (case r of Inl e \<Rightarrow> (Inl e, db) | Inr (x, db') \<Rightarrow> (Inr x, db'))"

section \<open>Admission\<close>

definition batch_request_item ::
  "batch_env \<Rightarrow> int \<Rightarrow> utext \<Rightarrow> projection \<Rightarrow> batch_error + request_item \<times> utext" where
  "batch_request_item env ordinal segment_id p =
     and_then (projection_authority env p) (\<lambda>(json, sha, source_sha).
     Inr (\<lparr>ri_ordinal = ordinal, ri_segment_id = segment_id, ri_base_revision = pj_review_revision p,
           ri_source_identity_sha256 = source_sha, ri_before_projection_sha256 = sha\<rparr>, json))"

definition require_not_cancelled :: "(nat \<Rightarrow> bool) \<Rightarrow> nat \<Rightarrow> batch_error + unit" where
  "require_not_cancelled cancel k = require (\<not> cancel k) (BatchValidation ''BATCH_ADMISSION_CANCELLED'')"

text \<open>\<open>cancel k\<close> is what the \<open>k\<close>-th read of the cancellation flag sees; without a flag it is always false.\<close>

fun admit_digest ::
  "batch_env \<Rightarrow> batch_db \<Rightarrow> (nat \<Rightarrow> bool) \<Rightarrow> nat \<Rightarrow> utext list \<Rightarrow> int \<Rightarrow> utext \<times> bool \<Rightarrow> batch_error + utext \<times> bool" where
  "admit_digest env db cancel k [] ordinal d = Inr d"
| "admit_digest env db cancel k (i # ids) ordinal d =
     and_then (require_not_cancelled cancel k) (\<lambda>_.
     and_then (read_batch_projection env db i) (\<lambda>found.
     case found of
       None \<Rightarrow> Inl (BatchValidation ''batch segment does not exist; no batch was admitted'')
     | Some p \<Rightarrow>
         and_then (batch_request_item env ordinal i p) (\<lambda>(item, _).
         admit_digest env db cancel (k + 1) ids (ordinal + 1) (digest_push env d item))))"

definition pending_item :: "utext \<Rightarrow> int \<Rightarrow> projection \<Rightarrow> utext \<Rightarrow> request_item \<Rightarrow> batch_item" where
  "pending_item op ordinal p json item =
     \<lparr>bi_job_id = op, bi_ordinal = ordinal, bi_segment_id = ss_id (pj_segment p),
      bi_base_revision = pj_review_revision p, bi_source_identity_sha256 = ri_source_identity_sha256 item,
      bi_before_projection_json = json, bi_before_projection_sha256 = ri_before_projection_sha256 item,
      bi_state = I_Pending, bi_after_projection_json = None, bi_after_projection_sha256 = None,
      bi_effect_revision = None, bi_result_code = None\<rparr>"

fun admit_insert ::
  "batch_env \<Rightarrow> (nat \<Rightarrow> bool) \<Rightarrow> nat \<Rightarrow> utext \<Rightarrow> utext list \<Rightarrow> int \<Rightarrow> utext \<times> bool \<Rightarrow> batch_db \<Rightarrow>
   batch_error + (utext \<times> bool) \<times> batch_db" where
  "admit_insert env cancel k op [] ordinal d db = Inr (d, db)"
| "admit_insert env cancel k op (i # ids) ordinal d db =
     and_then (require_not_cancelled cancel k) (\<lambda>_.
     and_then (read_batch_projection env db i) (\<lambda>found.
     case found of
       None \<Rightarrow> Inl (BatchEvidence ''batch segment vanished inside its reserved admission epoch'')
     | Some p \<Rightarrow>
         and_then (batch_request_item env ordinal i p) (\<lambda>(item, json).
         and_then (insert_item (pending_item op ordinal p json item) db) (\<lambda>db'.
         admit_insert env cancel (k + 1) op ids (ordinal + 1) (digest_push env d item) db'))))"

definition start_batch :: "utext \<Rightarrow> utext \<Rightarrow> batch_db \<Rightarrow> batch_error + nat \<times> batch_db" where
  "start_batch op now db =
     (let P = (\<lambda>h. bh_id h = op \<and> bh_state h = B_Queued);
          contiguous = (\<lambda>h. int (length (items_of db op)) = bh_total h \<and>
            items_of db op \<noteq> [] \<and> Min (bi_ordinal ` set (items_of db op)) = 0 \<and>
            Max (bi_ordinal ` set (items_of db op)) = bh_total h - 1)
      in and_then (require (list_all (\<lambda>h. P h \<longrightarrow> bh_finished_at h = None \<and> bh_error_code h = None \<and>
                              bh_completed h = 0 \<and> bh_progress h = 0 \<and> contiguous h) (bd_headers db))
                     (BatchAbort ''batch cannot run before its exact contiguous item set exists'')) (\<lambda>_.
         Inr (update_header P (\<lambda>h. h\<lparr>bh_state := B_Running, bh_started_at := Some now\<rparr>) db)))"

definition admit_tx ::
  "batch_env \<Rightarrow> utext \<Rightarrow> batch_kind \<Rightarrow> utext list \<Rightarrow> utext \<Rightarrow> executor_identity \<Rightarrow> (nat \<Rightarrow> bool) \<Rightarrow> utext \<Rightarrow> batch_db \<Rightarrow>
   batch_error + batch_db" where
  "admit_tx env op kind ids config ex cancel now db =
     (let n = length ids in
     and_then (admit_digest env db cancel 1 ids 0 (digest_new env op kind config)) (\<lambda>d.
     and_then (require_not_cancelled cancel (n + 1)) (\<lambda>_.
     let payload = \<lparr>bp_schema = 1, bp_operation_id = op, bp_kind = kind, bp_request_sha256 = digest_finish env d,
                    bp_config_sha256 = config, bp_executor_git_sha = ex_git_sha ex,
                    bp_attempt_generation = ex_attempt_generation ex, bp_executor_token_sha256 = ex_token_sha256 ex\<rparr> in
     and_then (insert_header \<lparr>bh_id = op, bh_kind = kind, bh_state = B_Queued, bh_progress = 0, bh_completed = 0,
                 bh_total = int n, bh_error_code = None, bh_payload_json = be_payload_json env payload,
                 bh_started_at = None, bh_finished_at = None\<rparr> db) (\<lambda>db1.
     and_then (admit_insert env cancel (n + 2) op ids 0 (digest_new env op kind config) db1) (\<lambda>(d', db2).
     and_then (require (digest_finish env d' = digest_finish env d)
                 (BatchEvidence ''batch request authority changed inside its reserved admission epoch'')) (\<lambda>_.
     and_then (require_not_cancelled cancel (2 * n + 2)) (\<lambda>_.
     and_then (start_batch op now db2) (\<lambda>(changed, db3).
     and_then (require (changed = 1) (BatchEvidence ''admitted batch did not enter running state'')) (\<lambda>_.
     Inr db3)))))))))"

definition admission_checks ::
  "batch_env \<Rightarrow> utext \<Rightarrow> utext list \<Rightarrow> utext \<Rightarrow> executor_identity \<Rightarrow> (nat \<Rightarrow> bool) \<Rightarrow> batch_db \<Rightarrow> batch_error + unit" where
  "admission_checks env op ids config ex cancel db =
     and_then (require_not_cancelled cancel 0) (\<lambda>_.
     and_then (require_batch_schema db) (\<lambda>_.
     and_then (validate_operation_uuid env op) (\<lambda>_.
     and_then (validate_sha256 config) (\<lambda>_.
     and_then (validate_git_sha (ex_git_sha ex)) (\<lambda>_.
     and_then (validate_sha256 (ex_token_sha256 ex)) (\<lambda>_.
     and_then (require (1 \<le> ex_attempt_generation ex)
                 (BatchValidation ''executor attempt generation must be positive'')) (\<lambda>_.
     and_then (validate_batch_item_count (length ids)) (\<lambda>_.
     all_ok (check_identifier env) ids))))))))"

text \<open>A committed write is followed by a read of the status, whose failure does not undo the write.\<close>

definition with_status ::
  "batch_env \<Rightarrow> utext \<Rightarrow> batch_db \<Rightarrow> batch_error + batch_db \<Rightarrow> (batch_error + batch_status) \<times> batch_db" where
  "with_status env op db r =
     (case r of
        Inl e \<Rightarrow> (Inl e, db)
      | Inr db' \<Rightarrow>
          (and_then (get_batch_job_status env db' op) (\<lambda>s.
           case s of None \<Rightarrow> Inl (BatchEvidence ''batch disappeared immediately after durable commit'') | Some s \<Rightarrow> Inr s), db'))"

definition admit_batch_job ::
  "batch_env \<Rightarrow> utext \<Rightarrow> batch_kind \<Rightarrow> utext list \<Rightarrow> utext \<Rightarrow> executor_identity \<Rightarrow> (nat \<Rightarrow> bool) \<Rightarrow> utext \<Rightarrow> batch_db \<Rightarrow>
   (batch_error + batch_status) \<times> batch_db" where
  "admit_batch_job env op kind ids config ex cancel now db =
     with_status env op db
       (and_then (admission_checks env op ids config ex cancel db) (\<lambda>_.
        admit_tx env op kind ids config ex cancel now db))"

section \<open>Pending pages\<close>

fun page_ordinals :: "nat \<Rightarrow> bool \<Rightarrow> batch_item list \<Rightarrow> batch_error + int list" where
  "page_ordinals bytes none_yet [] = Inr []"
| "page_ordinals bytes none_yet (i # is') =
     and_then (validate_projection_json_length (bi_before_projection_json i)) (\<lambda>_.
     let next_bytes = bytes + utf8_len (bi_before_projection_json i) in
     if MAX_BATCH_PENDING_PAGE_ENCODED_BYTES_V1 < next_bytes
     then if none_yet then Inl (BatchEvidence ''E_BATCH_PROJECTION_LIMIT_EXCEEDED'') else Inr []
     else and_then (page_ordinals next_bytes False is') (\<lambda>rest. Inr (bi_ordinal i # rest)))"

fun read_pending :: "batch_env \<Rightarrow> batch_db \<Rightarrow> utext \<Rightarrow> int list \<Rightarrow> batch_error + (int \<times> utext \<times> projection) list" where
  "read_pending env db op [] = Inr []"
| "read_pending env db op (ordinal # ordinals) =
     and_then (read_batch_item db op ordinal) (\<lambda>found.
     case found of
       None \<Rightarrow> Inl (BatchEvidence ''pending item vanished during a stable connection read'')
     | Some i \<Rightarrow>
         and_then (decode_before_projection env i) (\<lambda>before.
         and_then (read_pending env db op ordinals) (\<lambda>rest. Inr ((ordinal, bi_segment_id i, before) # rest))))"

definition pending_candidates :: "batch_db \<Rightarrow> utext \<Rightarrow> int option \<Rightarrow> batch_item list" where
  "pending_candidates db op after_ordinal =
     take BATCH_PENDING_PAGE_SIZE_V1 (sort_key bi_ordinal
       (filter (\<lambda>i. bi_state i = I_Pending \<and> (case after_ordinal of None \<Rightarrow> - 1 | Some k \<Rightarrow> k) < bi_ordinal i)
          (items_of db op)))"

definition pending_batch_item_page ::
  "batch_env \<Rightarrow> batch_db \<Rightarrow> utext \<Rightarrow> int option \<Rightarrow> batch_error + (int \<times> utext \<times> projection) list" where
  "pending_batch_item_page env db op after_ordinal =
     and_then (require_batch_schema db) (\<lambda>_.
     and_then (validate_operation_uuid env op) (\<lambda>_.
     and_then (require (case after_ordinal of None \<Rightarrow> True | Some k \<Rightarrow> 0 \<le> k \<and> k < int MAX_BATCH_ITEMS_V1)
                 (BatchValidation ''pending-item cursor out of range'')) (\<lambda>_.
     case read_batch_header db op of
       None \<Rightarrow> Inl (BatchValidation ''batch operation does not exist'')
     | Some h \<Rightarrow>
         if batch_terminal (bh_state h) then Inr []
         else and_then (page_ordinals 0 True (pending_candidates db op after_ordinal)) (read_pending env db op))))"

section \<open>Committing an item\<close>

definition advance_batch_progress :: "utext \<Rightarrow> batch_db \<Rightarrow> batch_error + batch_db" where
  "advance_batch_progress op db =
     (let completed = int (length (filter (\<lambda>i. bi_state i \<noteq> I_Pending) (items_of db op))) in
      case (read_batch_header db op, completed = 0) of
        (Some h, False) \<Rightarrow>
          let (changed, db') =
                update_header (\<lambda>g. bh_id g = op \<and> bh_state g = B_Running \<and> bh_total g = bh_total h)
                  (\<lambda>g. g\<lparr>bh_completed := completed, bh_progress := of_int completed / of_int (bh_total g)\<rparr>) db
          in if changed = 1 then Inr db' else Inl (BatchEvidence ''running batch rejected durable progress'')
      | _ \<Rightarrow> Inl (BatchAbort ''Invalid column type Null''))"

definition mark_batch_item_terminal ::
  "utext \<Rightarrow> int \<Rightarrow> item_state \<Rightarrow> utext \<Rightarrow> batch_db \<Rightarrow> batch_error + batch_db" where
  "mark_batch_item_terminal op ordinal state code db =
     and_then (require (state = I_Skipped \<or> state = I_Failed \<or> state = I_Abandoned)
                 (BatchEvidence ''non-applied item terminalizer received an invalid state'')) (\<lambda>_.
     and_then (validate_result_code code) (\<lambda>_.
     let (changed, db') = update_item op (\<lambda>i. bi_ordinal i = ordinal) (\<lambda>i. i\<lparr>bi_state := state, bi_result_code := Some code\<rparr>) db
     in if changed = 1 then advance_batch_progress op db'
        else Inl (BatchEvidence ''pending item could not be terminalized'')))"

text \<open>The item claims its effect: the after projection, its digest and the revision of the effect.\<close>

definition claim_item :: "utext \<Rightarrow> int \<Rightarrow> utext \<Rightarrow> utext \<Rightarrow> int \<Rightarrow> batch_db \<Rightarrow> batch_error + batch_db" where
  "claim_item op ordinal json sha revision db =
     (let (changed, db') = update_item op (\<lambda>i. bi_ordinal i = ordinal)
            (\<lambda>i. i\<lparr>bi_state := I_Applied, bi_after_projection_json := Some json, bi_after_projection_sha256 := Some sha,
                    bi_effect_revision := Some revision\<rparr>) db
      in if changed = 1 then advance_batch_progress op db'
         else Inl (BatchEvidence ''effect could not claim its pending ledger item''))"

definition compare_current_to_before ::
  "batch_env \<Rightarrow> batch_db \<Rightarrow> batch_item \<Rightarrow> batch_error + (utext + projection)" where
  "compare_current_to_before env db i =
     and_then (read_batch_projection env db (bi_segment_id i)) (\<lambda>found.
     case found of
       None \<Rightarrow> Inr (Inl (lit ''BATCH_SEGMENT_MISSING''))
     | Some p \<Rightarrow>
         if segment_is_human_owned (pj_segment p) then Inr (Inl (lit ''BATCH_HUMAN_OWNED''))
         else and_then (projection_authority env p) (\<lambda>(_, sha, source_sha).
              if source_sha \<noteq> bi_source_identity_sha256 i then Inr (Inl (lit ''BATCH_SOURCE_CHANGED''))
              else if pj_review_revision p \<noteq> bi_base_revision i then Inr (Inl (lit ''BATCH_REVISION_CHANGED''))
              else if sha \<noteq> bi_before_projection_sha256 i then Inr (Inl (lit ''BATCH_PROJECTION_CHANGED''))
              else Inr (Inr p)))"

definition require_batch_not_hard_stopped :: "batch_db \<Rightarrow> utext \<Rightarrow> batch_error + unit" where
  "require_batch_not_hard_stopped db op =
     require (\<not> list_ex (\<lambda>i. bi_state i = I_Failed \<or> bi_state i = I_Abandoned) (items_of db op))
       (BatchValidation ''BATCH_HARD_STOPPED'')"

definition skip_item :: "utext \<Rightarrow> int \<Rightarrow> utext \<Rightarrow> batch_db \<Rightarrow> batch_error + commit_outcome \<times> batch_db" where
  "skip_item op ordinal code db =
     and_then (mark_batch_item_terminal op ordinal I_Skipped code db) (\<lambda>db'. Inr (Skipped code, db'))"

text \<open>The guard of the compare-and-swap in SQL, which repeats the precheck on the row.\<close>

definition swap_guard :: "batch_item \<Rightarrow> projection \<Rightarrow> segment_record \<Rightarrow> bool" where
  "swap_guard i before r \<longleftrightarrow>
     (let s = sg_segment r; b = pj_segment before in
      ss_id s = bi_segment_id i \<and> sg_review_revision r = bi_base_revision i \<and> \<not> ss_verified s \<and>
      (ss_human_decision s = None \<or> ss_human_decision s = Some []) \<and>
      (case ss_verdict s of None \<Rightarrow> True
       | Some v \<Rightarrow> \<not> (v = lit ''human_accept'' \<or> v = lit ''human_edit'' \<or> v = lit ''human_reject'')) \<and>
      ss_annotated_transcript s = None \<and> ss_audio_path s = ss_audio_path b \<and>
      ss_alignment_json s = ss_alignment_json b \<and> ss_duration_ms s = ss_duration_ms b \<and>
      sg_audio_content_hash r = pj_audio_content_hash before)"

definition existing_normalize_outcome :: "batch_env \<Rightarrow> batch_item \<Rightarrow> utext \<Rightarrow> utext \<Rightarrow> batch_error + commit_outcome" where
  "existing_normalize_outcome env i normalized version =
     (if bi_state i = I_Applied
      then and_then (decode_after_projection env i) (\<lambda>found.
           case found of
             None \<Rightarrow> Inl (BatchEvidence ''applied normalize item has no after projection'')
           | Some after \<Rightarrow>
               if ss_normalized_transcript (pj_segment after) \<noteq> Some normalized \<or>
                  ss_normalizer_version (pj_segment after) \<noteq> Some version
               then Inl (BatchEvidence ''normalize retry payload disagrees with the already-applied durable result'')
               else Inr (AlreadyApplied (pj_review_revision after)))
      else Inr (AlreadyTerminal (bi_state i) (bi_result_code i)))"

text \<open>
  The part the two commits share: the header, its kind, the executor and the item are read and checked; an item
  that is no longer pending is answered by \<open>existing\<close>, a pending one goes to \<open>apply_effect\<close>.
\<close>

definition commit_item ::
  "batch_env \<Rightarrow> utext \<Rightarrow> int \<Rightarrow> batch_kind \<Rightarrow> executor_identity \<Rightarrow> batch_db \<Rightarrow>
   (batch_payload \<Rightarrow> batch_item \<Rightarrow> batch_error + commit_outcome) \<Rightarrow>
   (batch_payload \<Rightarrow> batch_item \<Rightarrow> projection \<Rightarrow> batch_error + commit_outcome \<times> batch_db) \<Rightarrow>
   batch_error + commit_outcome \<times> batch_db" where
  "commit_item env op ordinal kind ex db existing apply_effect =
     (case read_batch_header db op of
        None \<Rightarrow> Inl (BatchValidation ''batch operation does not exist'')
      | Some h \<Rightarrow>
          and_then (require (bh_kind h = kind) (BatchValidation ''batch operation is not a job of this kind'')) (\<lambda>_.
          and_then (require_batch_executor env h ex) (\<lambda>payload.
          and_then (read_batch_item db op ordinal) (\<lambda>found.
          case found of
            None \<Rightarrow> Inl (BatchValidation ''batch item ordinal does not exist'')
          | Some i \<Rightarrow>
              and_then (decode_before_projection env i) (\<lambda>_.
              if bi_state i \<noteq> I_Pending then and_then (existing payload i) (\<lambda>outcome. Inr (outcome, db))
              else if bh_state h \<noteq> B_Running then Inl (BatchEvidence ''pending item belongs to a non-running job'')
              else and_then (require_batch_not_hard_stopped db op) (\<lambda>_.
                   and_then (compare_current_to_before env db i) (\<lambda>compared.
                   case compared of
                     Inl code \<Rightarrow> skip_item op ordinal code db
                   | Inr before \<Rightarrow> apply_effect payload i before)))))))"

definition commit_normalized ::
  "batch_env \<Rightarrow> utext \<Rightarrow> int \<Rightarrow> utext \<Rightarrow> utext \<Rightarrow> batch_db \<Rightarrow> batch_item \<Rightarrow> projection \<Rightarrow>
   batch_error + commit_outcome \<times> batch_db" where
  "commit_normalized env op ordinal normalized version db i before =
     (if ss_normalized_transcript (pj_segment before) = Some normalized \<and>
         ss_normalizer_version (pj_segment before) = Some version
      then skip_item op ordinal (lit ''UNCHANGED'') db
      else
        let (changed, db1) = update_segment (swap_guard i before)
              (\<lambda>s. s\<lparr>ss_normalized_transcript := Some normalized, ss_normalizer_version := Some version\<rparr>) db
        in and_then (require (changed = 1)
                       (BatchEvidence ''normalize compare-and-swap changed no row after exact precheck'')) (\<lambda>_.
           and_then (read_batch_projection env db1 (bi_segment_id i)) (\<lambda>found.
           case found of
             None \<Rightarrow> Inl (BatchEvidence ''normalized segment disappeared before evidence capture'')
           | Some after \<Rightarrow>
               and_then (require (\<not> (pj_review_revision after \<le> bi_base_revision i \<or>
                            ss_normalized_transcript (pj_segment after) \<noteq> Some normalized \<or>
                            ss_normalizer_version (pj_segment after) \<noteq> Some version))
                          (BatchEvidence ''normalized after projection disagrees with the intended write'')) (\<lambda>_.
               and_then (projection_authority env after) (\<lambda>(json, sha, _).
               and_then (claim_item op ordinal json sha (pj_review_revision after) db1) (\<lambda>db2.
               Inr (Applied (pj_review_revision after), db2)))))))"

definition commit_batch_normalization ::
  "batch_env \<Rightarrow> utext \<Rightarrow> int \<Rightarrow> utext \<Rightarrow> utext \<Rightarrow> executor_identity \<Rightarrow> batch_db \<Rightarrow>
   (batch_error + commit_outcome) \<times> batch_db" where
  "commit_batch_normalization env op ordinal text_value version ex db =
     savepoint db
       (and_then (require_batch_schema db) (\<lambda>_.
        and_then (validate_operation_uuid env op) (\<lambda>_.
        and_then (validate_text 100000 text_value) (\<lambda>_.
        and_then (validate_text 128 version) (\<lambda>_.
        and_then (require (trim version \<noteq> []) (BatchValidation ''normalizer version must not be blank'')) (\<lambda>_.
        let normalized = be_nfc env text_value in
        commit_item env op ordinal Normalize_Batch ex db
          (\<lambda>_ i. existing_normalize_outcome env i normalized version)
          (\<lambda>_ i before. commit_normalized env op ordinal normalized version db i before)))))))"

definition is_placeholder_transcript :: "utext \<Rightarrow> bool" where
  "is_placeholder_transcript t \<longleftrightarrow>
     take 16 (trim t) = lit ''[ASR unavailable'' \<or> take 8 (trim t) = lit ''[Pending'' \<or>
     eq_nocase (trim t) (lit ''n/a'') \<or> eq_nocase (trim t) (lit ''null'')"

definition draft_checks :: "batch_env \<Rightarrow> champion_draft \<Rightarrow> batch_error + unit" where
  "draft_checks env d =
     and_then (require (trim (cd_raw_transcript d) \<noteq> []) (BatchValidation ''refusing to persist a blank ASR transcript'')) (\<lambda>_.
     and_then (require (\<not> is_placeholder_transcript (cd_raw_transcript d))
                 (BatchValidation ''champion draft is a placeholder, not transcript truth'')) (\<lambda>_.
     and_then (validate_text 100000 (cd_raw_transcript d)) (\<lambda>_.
     and_then (case cd_normalized_transcript d of None \<Rightarrow> Inr () | Some n \<Rightarrow> validate_text 100000 n) (\<lambda>_.
     and_then (check_identifier env (cd_model_version_id d)) (\<lambda>_.
     and_then (validate_sha256 (cd_deployment_sha256 d)) (\<lambda>_.
     and_then (require ((cd_normalized_transcript d = None) = (cd_normalizer_version d = None))
                 (BatchValidation ''normalized champion text and its normalizer version travel together'')) (\<lambda>_.
     and_then (case cd_normalizer_version d of
                 None \<Rightarrow> Inr ()
               | Some v \<Rightarrow> and_then (validate_text 128 v) (\<lambda>_.
                   require (trim v \<noteq> []) (BatchValidation ''normalizer version must not be blank''))) (\<lambda>_.
     and_then (case cd_confidence_source d of
                 None \<Rightarrow> Inr ()
               | Some v \<Rightarrow> and_then (validate_text 128 v) (\<lambda>_.
                   require (trim v \<noteq> []) (BatchValidation ''confidence source must not be blank''))) (\<lambda>_.
     require (case cd_confidence d of None \<Rightarrow> True | Some c \<Rightarrow> 0 \<le> c \<and> c \<le> 1)
       (BatchValidation ''champion confidence must be finite and between 0 and 1''))))))))))"

definition confidence_source_of :: "champion_draft \<Rightarrow> utext" where
  "confidence_source_of d = (case cd_confidence_source d of None \<Rightarrow> lit ''unknown'' | Some v \<Rightarrow> v)"

definition existing_champion_outcome ::
  "batch_env \<Rightarrow> batch_payload \<Rightarrow> batch_item \<Rightarrow> champion_draft \<Rightarrow> batch_error + commit_outcome" where
  "existing_champion_outcome env payload i d =
     (if bi_state i = I_Applied
      then and_then (decode_after_projection env i) (\<lambda>found.
           case found of
             None \<Rightarrow> Inl (BatchEvidence ''applied champion item has no after projection'')
           | Some after \<Rightarrow>
               let s = pj_segment after; raw = be_nfc env (cd_raw_transcript d);
                   hypothesis_matches =
                     (case pj_hypotheses after of
                        [h] \<Rightarrow> sh_model_id h = cd_model_version_id d \<and> sh_model_version_id h = cd_model_version_id d \<and>
                               sh_transcript h = raw \<and> sh_confidence h = cd_confidence d
                      | _ \<Rightarrow> False)
               in if ss_raw_transcript s \<noteq> raw \<or>
                     ss_normalized_transcript s \<noteq> map_option (be_nfc env) (cd_normalized_transcript d) \<or>
                     ss_confidence s \<noteq> cd_confidence d \<or> ss_confidence_source s \<noteq> Some (confidence_source_of d) \<or>
                     ss_model_version_id s \<noteq> Some (cd_model_version_id d) \<or> ss_cloud_call s \<noteq> cd_cloud_call d \<or>
                     ss_decoder_config_hash s \<noteq> Some (bp_config_sha256 payload) \<or>
                     ss_normalizer_version s \<noteq> cd_normalizer_version d \<or> \<not> hypothesis_matches
                  then Inl (BatchEvidence ''champion retry payload disagrees with the already-applied durable result'')
                  else Inr (AlreadyApplied (pj_review_revision after)))
      else Inr (AlreadyTerminal (bi_state i) (bi_result_code i)))"

definition champion_is_current :: "batch_db \<Rightarrow> champion_draft \<Rightarrow> bool" where
  "champion_is_current db d \<longleftrightarrow>
     list_ex (\<lambda>m. mr_id m = cd_model_version_id d \<and> mr_family m = lit ''omniasr-7b'' \<and> mr_status m = lit ''champion'' \<and>
                 mr_checkpoint_sha256 m = cd_deployment_sha256 d) (bd_models db)"

definition publish_draft ::
  "champion_draft \<Rightarrow> utext \<Rightarrow> utext option \<Rightarrow> utext \<Rightarrow> speech_segment \<Rightarrow> speech_segment" where
  "publish_draft d raw normalized config s =
     s\<lparr>ss_raw_transcript := raw, ss_normalized_transcript := normalized, ss_confidence := cd_confidence d,
       ss_confidence_source := Some (confidence_source_of d), ss_model_version_id := Some (cd_model_version_id d),
       ss_cloud_call := cd_cloud_call d, ss_decoder_config_hash := Some config,
       ss_normalizer_version := cd_normalizer_version d\<rparr>"

definition draft_hypothesis :: "utext \<Rightarrow> champion_draft \<Rightarrow> utext \<Rightarrow> utext \<Rightarrow> stored_hypothesis" where
  "draft_hypothesis i d raw now =
     \<lparr>sh_segment_id = i, sh_model_id = cd_model_version_id d, sh_transcript = raw, sh_confidence = cd_confidence d,
      sh_model_version_id = cd_model_version_id d, sh_created_at = now\<rparr>"

definition commit_champion ::
  "batch_env \<Rightarrow> utext \<Rightarrow> int \<Rightarrow> champion_draft \<Rightarrow> utext \<Rightarrow> batch_db \<Rightarrow> batch_payload \<Rightarrow> batch_item \<Rightarrow> projection \<Rightarrow>
   batch_error + commit_outcome \<times> batch_db" where
  "commit_champion env op ordinal d now db payload i before =
     (let raw = be_nfc env (cd_raw_transcript d);
          normalized = map_option (be_nfc env) (cd_normalized_transcript d);
          hyp = draft_hypothesis (bi_segment_id i) d raw now in
      and_then (validate_stored_hypothesis_payload env hyp) (\<lambda>_.
      if \<not> champion_is_current db d
      then and_then (mark_batch_item_terminal op ordinal I_Failed (lit ''MODEL_IDENTITY_CHANGED'') db) (\<lambda>db'.
           Inr (Failed_Item (lit ''MODEL_IDENTITY_CHANGED''), db'))
      else
        let (changed, db1) = update_segment (swap_guard i before)
              (publish_draft d raw normalized (bp_config_sha256 payload)) db
        in and_then (require (changed = 1)
                       (BatchEvidence ''champion compare-and-swap changed no row after exact precheck'')) (\<lambda>_.
           and_then (insert_hypothesis hyp (delete_hypotheses (bi_segment_id i) db1)) (\<lambda>db2.
           and_then (read_batch_projection env db2 (bi_segment_id i)) (\<lambda>found.
           case found of
             None \<Rightarrow> Inl (BatchEvidence ''transcribed segment disappeared before evidence capture'')
           | Some after \<Rightarrow>
               and_then (require (\<not> (pj_review_revision after \<le> bi_base_revision i \<or>
                            ss_raw_transcript (pj_segment after) \<noteq> raw \<or>
                            ss_normalized_transcript (pj_segment after) \<noteq> normalized \<or>
                            ss_normalizer_version (pj_segment after) \<noteq> cd_normalizer_version d \<or>
                            \<not> (case pj_hypotheses after of
                                 [h] \<Rightarrow> sh_model_id h = cd_model_version_id d \<and>
                                        sh_model_version_id h = cd_model_version_id d \<and> sh_transcript h = raw
                               | _ \<Rightarrow> False)))
                          (BatchEvidence ''champion after projection disagrees with the intended write'')) (\<lambda>_.
               and_then (projection_authority env after) (\<lambda>(json, sha, _).
               and_then (claim_item op ordinal json sha (pj_review_revision after) db2) (\<lambda>db3.
               Inr (Applied (pj_review_revision after), db3))))))))) "

definition commit_batch_champion_draft ::
  "batch_env \<Rightarrow> utext \<Rightarrow> int \<Rightarrow> champion_draft \<Rightarrow> executor_identity \<Rightarrow> utext \<Rightarrow> batch_db \<Rightarrow>
   (batch_error + commit_outcome) \<times> batch_db" where
  "commit_batch_champion_draft env op ordinal d ex now db =
     savepoint db
       (and_then (require_batch_schema db) (\<lambda>_.
        and_then (validate_operation_uuid env op) (\<lambda>_.
        and_then (draft_checks env d) (\<lambda>_.
        commit_item env op ordinal Transcribe ex db
          (\<lambda>payload i. existing_champion_outcome env payload i d)
          (commit_champion env op ordinal d now db)))))"

section \<open>Terminalization and recovery\<close>

definition abandon_pending :: "utext \<Rightarrow> utext \<Rightarrow> batch_db \<Rightarrow> batch_db" where
  "abandon_pending op code db =
     snd (update_item op (\<lambda>_. True) (\<lambda>i. i\<lparr>bi_state := I_Abandoned, bi_result_code := Some code\<rparr>) db)"

definition terminal_evidence_ok :: "batch_lifecycle \<Rightarrow> utext option \<Rightarrow> batch_item list \<Rightarrow> bool" where
  "terminal_evidence_ok target code is' \<longleftrightarrow>
     list_all (\<lambda>i. bi_state i \<noteq> I_Pending) is' \<and>
     (target = B_Succeeded \<longrightarrow> code = None \<and> list_all (\<lambda>i. bi_state i \<noteq> I_Failed \<and> bi_state i \<noteq> I_Abandoned) is') \<and>
     (target \<noteq> B_Succeeded \<longrightarrow> (case code of None \<Rightarrow> False | Some c \<Rightarrow> result_code_ok c)) \<and>
     (target = B_Failed \<longrightarrow> list_ex (\<lambda>i. bi_state i = I_Failed \<or> bi_state i = I_Abandoned) is') \<and>
     (target = B_Cancelled \<longrightarrow> list_ex (\<lambda>i. bi_state i = I_Abandoned) is' \<and> list_all (\<lambda>i. bi_state i \<noteq> I_Failed) is')"

definition finish_header ::
  "utext \<Rightarrow> batch_lifecycle \<Rightarrow> utext option \<Rightarrow> utext \<Rightarrow> batch_db \<Rightarrow> batch_error + nat \<times> batch_db" where
  "finish_header op target code now db =
     (let P = (\<lambda>h. bh_id h = op \<and> bh_state h = B_Running \<and> bh_total h = counts_terminal (batch_item_counts db op))
      in and_then (require (list_all (\<lambda>h. P h \<longrightarrow> terminal_evidence_ok target code (items_of db op)) (bd_headers db))
                     (BatchAbort ''batch terminal state disagrees with durable item evidence'')) (\<lambda>_.
         Inr (update_header P (\<lambda>h. h\<lparr>bh_state := target, bh_completed := bh_total h, bh_progress := 1,
                                       bh_error_code := code, bh_finished_at := Some now\<rparr>) db)))"

fun intent_target :: "terminal_intent \<Rightarrow> batch_lifecycle" where
  "intent_target Intent_Succeeded = B_Succeeded"
| "intent_target (Intent_Failed _) = B_Failed"
| "intent_target (Intent_Cancelled _) = B_Cancelled"

fun intent_code :: "terminal_intent \<Rightarrow> utext option" where
  "intent_code Intent_Succeeded = None"
| "intent_code (Intent_Failed code) = Some code"
| "intent_code (Intent_Cancelled code) = Some code"

definition settle_pending :: "utext \<Rightarrow> terminal_intent \<Rightarrow> batch_db \<Rightarrow> batch_error + batch_db" where
  "settle_pending op intent db =
     (case intent_code intent of
        Some code \<Rightarrow> Inr (abandon_pending op code db)
      | None \<Rightarrow> and_then (require (count_state I_Pending (items_of db op) = 0)
                          (BatchValidation ''cannot succeed batch: item(s) remain pending'')) (\<lambda>_. Inr db))"

definition finish_tx ::
  "batch_env \<Rightarrow> utext \<Rightarrow> terminal_intent \<Rightarrow> executor_identity \<Rightarrow> utext \<Rightarrow> batch_db \<Rightarrow> batch_error + batch_db" where
  "finish_tx env op intent ex now db =
     (case read_batch_header db op of
        None \<Rightarrow> Inl (BatchValidation ''batch operation does not exist'')
      | Some h \<Rightarrow>
          and_then (require_batch_executor env h ex) (\<lambda>_.
          if batch_terminal (bh_state h)
          then if bh_state h = intent_target intent \<and> bh_error_code h = intent_code intent then Inr db
               else if bh_state h = B_Succeeded \<and> (intent_target intent = B_Failed \<or> intent_target intent = B_Cancelled)
               then and_then (status_from_header env db h) (\<lambda>_. Inr db)
               else Inl (BatchEvidence ''terminal batch cannot be rewritten to a different outcome'')
          else if bh_state h \<noteq> B_Running then Inl (BatchEvidence ''only a running batch can be normally terminalized'')
          else and_then (settle_pending op intent db) (\<lambda>db1.
               let c = batch_item_counts db1 op in
               and_then (require (\<not> (intent_target intent = B_Cancelled \<and> ct_failed c \<noteq> 0))
                           (BatchValidation ''BATCH_TERMINAL_CONFLICT'')) (\<lambda>_.
               let (target, code) = (if ct_failed c = 0 \<and> ct_abandoned c = 0 then (B_Succeeded, None)
                                     else (intent_target intent, intent_code intent)) in
               and_then (finish_header op target code now db1) (\<lambda>(changed, db2).
               and_then (require (changed = 1) (BatchEvidence ''batch header rejected its terminal item evidence'')) (\<lambda>_.
               Inr db2))))))"

definition finish_batch_job ::
  "batch_env \<Rightarrow> utext \<Rightarrow> terminal_intent \<Rightarrow> executor_identity \<Rightarrow> utext \<Rightarrow> batch_db \<Rightarrow>
   (batch_error + batch_status) \<times> batch_db" where
  "finish_batch_job env op intent ex now db =
     with_status env op db
       (and_then (require_batch_schema db) (\<lambda>_.
        and_then (validate_operation_uuid env op) (\<lambda>_.
        and_then (case intent_code intent of None \<Rightarrow> Inr () | Some code \<Rightarrow> validate_result_code code) (\<lambda>_.
        finish_tx env op intent ex now db))))"

definition recover_tx :: "utext \<Rightarrow> utext \<Rightarrow> batch_db \<Rightarrow> batch_error + batch_db" where
  "recover_tx op now db =
     (case read_batch_header db op of
        None \<Rightarrow> Inl (BatchEvidence ''active batch vanished during recovery'')
      | Some h \<Rightarrow>
          and_then (if bh_state h = B_Queued then start_batch op now db else Inr (0, db)) (\<lambda>(_, db1).
          let db2 = abandon_pending op (lit ''PROCESS_INTERRUPTED'') db1;
              c = batch_item_counts db2 op in
          and_then (if ct_failed c = 0 then Inr None
                    else case sort_key bi_ordinal (filter (\<lambda>i. bi_state i = I_Failed) (items_of db2 op)) of
                           i # _ \<Rightarrow> (case bi_result_code i of
                              None \<Rightarrow> Inl (BatchEvidence ''interrupted batch failure code could not be recovered'')
                            | Some code \<Rightarrow> Inr (Some code))
                         | [] \<Rightarrow> Inl (BatchEvidence ''interrupted batch failure code could not be recovered'')) (\<lambda>first_failure.
          let (target, code) = (if ct_failed c + ct_abandoned c = 0 then (B_Succeeded, None)
                else (B_Failed, Some (case first_failure of None \<Rightarrow> lit ''PROCESS_INTERRUPTED'' | Some code \<Rightarrow> code))) in
          and_then (finish_header op target code now db2) (\<lambda>(changed, db3).
          and_then (require (changed = 1)
                      (BatchEvidence ''interrupted batch could not be reconciled from item evidence'')) (\<lambda>_.
          Inr db3)))))"

definition recover_active_batch_job ::
  "batch_env \<Rightarrow> utext \<Rightarrow> batch_db \<Rightarrow> (batch_error + batch_status option) \<times> batch_db" where
  "recover_active_batch_job env now db =
     (case active_batch_job env db of
        Inl e \<Rightarrow> (Inl e, db)
      | Inr None \<Rightarrow> (Inr None, db)
      | Inr (Some active) \<Rightarrow>
          (case validate_batch_job_authority env db of
             Inl e \<Rightarrow> (Inl e, db)
           | Inr _ \<Rightarrow>
               (case recover_tx (st_operation_id active) now db of
                  Inl e \<Rightarrow> (Inl e, db)
                | Inr db' \<Rightarrow> (get_batch_job_status env db' (st_operation_id active), db'))))"

section \<open>Undo and redo of a batch\<close>

fun token_items :: "batch_env \<Rightarrow> batch_db \<Rightarrow> utext \<Rightarrow> int list \<Rightarrow> batch_error + history_endpoint list" where
  "token_items env db op [] = Inr []"
| "token_items env db op (ordinal # ordinals) =
     and_then (read_batch_item db op ordinal) (\<lambda>found.
     case found of
       None \<Rightarrow> Inl (BatchEvidence ''job is missing an ordinal'')
     | Some i \<Rightarrow>
         and_then (decode_before_projection env i) (\<lambda>_.
         if bi_state i \<noteq> I_Applied then token_items env db op ordinals
         else and_then (decode_after_projection env i) (\<lambda>found_after.
              case found_after of
                None \<Rightarrow> Inl (BatchEvidence ''applied history item has no after projection'')
              | Some after \<Rightarrow>
                  and_then (read_batch_projection env db (bi_segment_id i)) (\<lambda>found_current.
                  case found_current of
                    None \<Rightarrow> Inl (BatchValidation ''batch history segment no longer exists'')
                  | Some now \<Rightarrow>
                      and_then (projection_authority env now) (\<lambda>(_, sha, _).
                      and_then (require (\<not> (pj_review_revision now \<noteq> pj_review_revision after \<or>
                                   bi_after_projection_sha256 i \<noteq> Some sha))
                                 (BatchValidation ''BATCH_HISTORY_CONFLICT: segment no longer matches the applied journal endpoint'')) (\<lambda>_.
                      and_then (token_items env db op ordinals) (\<lambda>rest.
                      Inr (\<lparr>ep_ordinal = ordinal, ep_segment_id = bi_segment_id i, ep_projection_sha256 = sha,
                            ep_review_revision = pj_review_revision now\<rparr> # rest))))))))"

definition batch_job_history_token ::
  "batch_env \<Rightarrow> batch_db \<Rightarrow> utext \<Rightarrow> batch_error + history_token option" where
  "batch_job_history_token env db op =
     and_then (require_batch_schema db) (\<lambda>_.
     and_then (validate_operation_uuid env op) (\<lambda>_.
     and_then (validate_one_batch_job_authority env db op) (\<lambda>s.
     and_then (require (batch_terminal (st_state s))
                 (BatchValidation ''batch history is unavailable until durable terminalization'')) (\<lambda>_.
     and_then (token_items env db op (map int [0..<nat (st_total s)])) (\<lambda>items.
     Inr (if items = [] then None
          else Some \<lparr>ht_operation_id = op, ht_kind = st_kind s, ht_expected_side = After, ht_items = items\<rparr>))))))"

definition prepare_batch_history_item ::
  "batch_env \<Rightarrow> batch_db \<Rightarrow> utext \<Rightarrow> history_endpoint \<Rightarrow> history_side \<Rightarrow> batch_error + int \<times> projection" where
  "prepare_batch_history_item env db op e side =
     and_then (read_batch_item db op (ep_ordinal e)) (\<lambda>found.
     case found of
       None \<Rightarrow> Inl (BatchEvidence ''history token ordinal is absent from the journal'')
     | Some i \<Rightarrow>
         and_then (require (\<not> (bi_state i \<noteq> I_Applied \<or> bi_segment_id i \<noteq> ep_segment_id e))
                     (BatchValidation ''BATCH_HISTORY_CONFLICT: token endpoint is not the matching applied journal item'')) (\<lambda>_.
         and_then (decode_before_projection env i) (\<lambda>before.
         and_then (decode_after_projection env i) (\<lambda>found_after.
         case found_after of
           None \<Rightarrow> Inl (BatchEvidence ''applied history item has no after projection'')
         | Some after \<Rightarrow>
             let (expected, target) = (case side of Before \<Rightarrow> (projection_semantic_sha256 env before, after)
                                       | After \<Rightarrow> (projection_semantic_sha256 env after, before)) in
             and_then (read_batch_projection env db (ep_segment_id e)) (\<lambda>found_current.
             case found_current of
               None \<Rightarrow> Inl (BatchValidation ''BATCH_HISTORY_CONFLICT: target segment is missing'')
             | Some now \<Rightarrow>
                 and_then (projection_authority env now) (\<lambda>(_, sha, _).
                 and_then (require (\<not> (pj_review_revision now \<noteq> ep_review_revision e \<or> sha \<noteq> ep_projection_sha256 e \<or>
                              projection_semantic_sha256 env now \<noteq> expected))
                            (BatchValidation ''BATCH_HISTORY_CONFLICT: segment changed after the history token was issued'')) (\<lambda>_.
                 Inr (pj_review_revision now, target))))))))"

definition restore_normalized :: "speech_segment \<Rightarrow> speech_segment \<Rightarrow> speech_segment" where
  "restore_normalized t s =
     s\<lparr>ss_normalized_transcript := ss_normalized_transcript t, ss_normalizer_version := ss_normalizer_version t\<rparr>"

definition restore_machine :: "speech_segment \<Rightarrow> speech_segment \<Rightarrow> speech_segment" where
  "restore_machine t s =
     s\<lparr>ss_raw_transcript := ss_raw_transcript t, ss_normalized_transcript := ss_normalized_transcript t,
       ss_confidence := ss_confidence t, ss_confidence_source := ss_confidence_source t,
       ss_model_version_id := ss_model_version_id t, ss_cloud_call := ss_cloud_call t,
       ss_decoder_config_hash := ss_decoder_config_hash t, ss_normalizer_version := ss_normalizer_version t\<rparr>"

fun insert_hypotheses :: "stored_hypothesis list \<Rightarrow> batch_db \<Rightarrow> batch_error + batch_db" where
  "insert_hypotheses [] db = Inr db"
| "insert_hypotheses (h # hs) db = and_then (insert_hypothesis h db) (insert_hypotheses hs)"

definition apply_history_item ::
  "batch_env \<Rightarrow> history_token \<Rightarrow> history_endpoint \<Rightarrow> batch_db \<Rightarrow> batch_error + history_endpoint \<times> batch_db" where
  "apply_history_item env t e db =
     and_then (prepare_batch_history_item env db (ht_operation_id t) e (ht_expected_side t)) (\<lambda>(revision, target).
     let restore = (case ht_kind t of Normalize_Batch \<Rightarrow> restore_normalized | Transcribe \<Rightarrow> restore_machine);
         (changed, db1) = update_segment (\<lambda>r. ss_id (sg_segment r) = ep_segment_id e \<and> sg_review_revision r = revision)
                            (restore (pj_segment target)) db in
     and_then (require (changed = 1)
                 (BatchValidation ''BATCH_HISTORY_CONFLICT: segment rejected its monotonic inverse'')) (\<lambda>_.
     and_then (case ht_kind t of
                 Transcribe \<Rightarrow> insert_hypotheses (pj_hypotheses target) (delete_hypotheses (ep_segment_id e) db1)
               | Normalize_Batch \<Rightarrow> Inr db1) (\<lambda>db2.
     and_then (read_batch_projection env db2 (ep_segment_id e)) (\<lambda>found.
     case found of
       None \<Rightarrow> Inl (BatchEvidence ''history target vanished before after-read'')
     | Some restored \<Rightarrow>
         and_then (require (\<not> (pj_review_revision restored \<le> revision \<or>
                      projection_semantic_sha256 env restored \<noteq> projection_semantic_sha256 env target))
                    (BatchEvidence ''history restore does not equal its immutable journal endpoint'')) (\<lambda>_.
         and_then (projection_authority env restored) (\<lambda>(_, sha, _).
         Inr (\<lparr>ep_ordinal = ep_ordinal e, ep_segment_id = ep_segment_id e, ep_projection_sha256 = sha,
               ep_review_revision = pj_review_revision restored\<rparr>, db2)))))))"

fun apply_history_items ::
  "batch_env \<Rightarrow> history_token \<Rightarrow> history_endpoint list \<Rightarrow> batch_db \<Rightarrow> batch_error + history_endpoint list \<times> batch_db" where
  "apply_history_items env t [] db = Inr ([], db)"
| "apply_history_items env t (e # es) db =
     and_then (apply_history_item env t e db) (\<lambda>(e', db').
     and_then (apply_history_items env t es db') (\<lambda>(es', db''). Inr (e' # es', db'')))"

fun endpoints_ok :: "batch_env \<Rightarrow> int option \<Rightarrow> history_endpoint list \<Rightarrow> batch_error + unit" where
  "endpoints_ok env previous [] = Inr ()"
| "endpoints_ok env previous (e # es) =
     and_then (check_identifier env (ep_segment_id e)) (\<lambda>_.
     and_then (validate_sha256 (ep_projection_sha256 e)) (\<lambda>_.
     and_then (require (\<not> (ep_ordinal e < 0 \<or> ep_review_revision e < 0))
                 (BatchValidation ''batch history endpoint identity is invalid'')) (\<lambda>_.
     and_then (require (case previous of None \<Rightarrow> True | Some p \<Rightarrow> p < ep_ordinal e)
                 (BatchValidation ''batch history endpoints must be unique and strictly ordered by ordinal'')) (\<lambda>_.
     endpoints_ok env (Some (ep_ordinal e)) es))))"

definition apply_history_tx :: "batch_env \<Rightarrow> history_token \<Rightarrow> batch_db \<Rightarrow> batch_error + history_token \<times> batch_db" where
  "apply_history_tx env t db =
     and_then (validate_one_batch_job_authority env db (ht_operation_id t)) (\<lambda>s.
     and_then (require (\<not> list_ex batch_live (bd_headers db))
                 (BatchValidation ''BATCH_HISTORY_CONFLICT: undo and redo are blocked while another batch is active'')) (\<lambda>_.
     and_then (require (batch_terminal (st_state s) \<and> st_kind s = ht_kind t)
                 (BatchValidation ''BATCH_HISTORY_CONFLICT: token does not name the terminal journal operation'')) (\<lambda>_.
     and_then (require (ct_applied (st_counts s) = int (length (ht_items t)))
                 (BatchValidation ''BATCH_HISTORY_CONFLICT: token does not cover the exact applied item set'')) (\<lambda>_.
     and_then (all_ok (\<lambda>e. and_then (prepare_batch_history_item env db (ht_operation_id t) e (ht_expected_side t)) (\<lambda>_. Inr ()))
                 (ht_items t)) (\<lambda>_.
     and_then (apply_history_items env t (ht_items t) db) (\<lambda>(items, db').
     Inr (t\<lparr>ht_expected_side := opposite (ht_expected_side t), ht_items := items\<rparr>, db')))))))"

definition apply_batch_job_history ::
  "batch_env \<Rightarrow> history_token \<Rightarrow> batch_db \<Rightarrow> (batch_error + history_token) \<times> batch_db" where
  "apply_batch_job_history env t db =
     savepoint db
       (and_then (require_batch_schema db) (\<lambda>_.
        and_then (validate_operation_uuid env (ht_operation_id t)) (\<lambda>_.
        and_then (require (\<not> (ht_items t = [] \<or> MAX_BATCH_ITEMS_V1 < length (ht_items t)))
                    (BatchValidation ''batch history token must contain at least one applied item'')) (\<lambda>_.
        and_then (endpoints_ok env None (ht_items t)) (\<lambda>_.
        apply_history_tx env t db)))))"

end
