(* ===== verification/Batch_Safety.thy ===== *)
theory Batch_Safety
  imports Batch_Journal
begin

text \<open>
  What the batch journal keeps: the evidence of every batch is valid under any interleaving of its methods with
  other writers of segments and hypotheses, recovery at startup settles what a crash left behind, an item takes
  effect once, no commit touches a row a human owns, and undo followed by redo restores the content.
\<close>

section \<open>The journal invariant\<close>

definition codec :: "batch_env \<Rightarrow> bool" where
  "codec env \<longleftrightarrow>
     (\<forall>p. be_parse_projection env (be_projection_json env p) = Some p) \<and>
     (\<forall>p. be_parse_payload env (be_payload_json env p) = Some p)"

definition hex_digests :: "batch_env \<Rightarrow> bool" where
  "hex_digests env \<longleftrightarrow> (\<forall>t. is_lower_hex 64 (be_sha256 env t))"

definition request_of :: "batch_item \<Rightarrow> request_item" where
  "request_of i =
     \<lparr>ri_ordinal = bi_ordinal i, ri_segment_id = bi_segment_id i, ri_base_revision = bi_base_revision i,
      ri_source_identity_sha256 = bi_source_identity_sha256 i,
      ri_before_projection_sha256 = bi_before_projection_sha256 i\<rparr>"

definition lengths_ok :: "batch_item \<Rightarrow> bool" where
  "lengths_ok i \<longleftrightarrow> validate_projection_json_length (bi_before_projection_json i) = Inr () \<and>
     (case bi_after_projection_json i of None \<Rightarrow> True | Some json \<Rightarrow> validate_projection_json_length json = Inr ())"

text \<open>The row an applied item left behind was not owned by a human.\<close>

definition effect_ok :: "batch_env \<Rightarrow> batch_item \<Rightarrow> bool" where
  "effect_ok env i \<longleftrightarrow>
     (bi_state i = I_Applied \<longrightarrow>
      (\<exists>after. decode_after_projection env i = Inr (Some after) \<and> \<not> segment_is_human_owned (pj_segment after)))"

definition code_ok :: "batch_item \<Rightarrow> bool" where
  "code_ok i \<longleftrightarrow> (case bi_result_code i of None \<Rightarrow> True | Some code \<Rightarrow> result_code_ok code)"

definition item_ok :: "batch_env \<Rightarrow> batch_item \<Rightarrow> bool" where
  "item_ok env i \<longleftrightarrow> lengths_ok i \<and> (\<exists>p. decode_before_projection env i = Inr p) \<and>
     item_evidence_ok env i = Inr () \<and> effect_ok env i \<and> code_ok i"

definition settled :: "batch_item list \<Rightarrow> int" where
  "settled is' = int (length (filter (\<lambda>i. bi_state i \<noteq> I_Pending) is'))"

definition request_digest :: "batch_env \<Rightarrow> batch_header \<Rightarrow> utext \<Rightarrow> batch_item list \<Rightarrow> utext" where
  "request_digest env h config is' =
     digest_finish env (foldl (digest_push env) (digest_new env (bh_id h) (bh_kind h) config) (map request_of is'))"

definition header_ok :: "batch_env \<Rightarrow> batch_item list \<Rightarrow> batch_header \<Rightarrow> bool" where
  "header_ok env is' h \<longleftrightarrow> be_uuid env (bh_id h) \<and>
     (\<exists>p. parse_batch_payload env h = Inr p \<and> bp_request_sha256 p = request_digest env h (bp_config_sha256 p) is') \<and>
     1 \<le> bh_total h \<and> bh_total h \<le> int MAX_BATCH_ITEMS_V1 \<and>
     map bi_ordinal is' = map int [0..<nat (bh_total h)] \<and> (\<forall>i \<in> set is'. item_ok env i) \<and>
     bh_completed h = settled is' \<and> bh_progress h = of_int (bh_completed h) / of_int (bh_total h) \<and>
     bh_state h \<noteq> B_Queued \<and> lifecycle_agrees h (counts_of is')"

definition journal_ok :: "batch_env \<Rightarrow> batch_db \<Rightarrow> bool" where
  "journal_ok env db \<longleftrightarrow> 68 \<le> bd_schema db \<and> distinct (map bh_id (bd_headers db)) \<and>
     (\<forall>h \<in> set (bd_headers db). header_ok env (items_of db (bh_id h)) h) \<and>
     length (filter batch_live (bd_headers db)) \<le> 1 \<and>
     bi_job_id ` set (bd_items db) \<subseteq> bh_id ` set (bd_headers db)"

section \<open>The validator accepts the invariant\<close>

lemma settled_terminal: "counts_terminal (counts_of is') = settled is'"
proof (induction is')
  case (Cons i is')
  then show ?case
    by (cases "bi_state i") (simp_all add: counts_terminal_def counts_of_def count_state_def settled_def)
qed (simp add: counts_terminal_def counts_of_def count_state_def settled_def)

lemma pending_settled: "count_state I_Pending is' + settled is' = int (length is')"
  by (induction is') (simp_all add: count_state_def settled_def)

lemma header_ok_length: "header_ok env is' h \<Longrightarrow> int (length is') = bh_total h"
proof -
  assume "header_ok env is' h"
  then have "length (map bi_ordinal is') = length (map int [0..<nat (bh_total h)])" and "1 \<le> bh_total h"
    unfolding header_ok_def by metis+
  then show ?thesis by simp
qed

lemma header_ok_ordinals: "header_ok env is' h \<Longrightarrow> distinct (map bi_ordinal is')"
  unfolding header_ok_def by (metis distinct_map distinct_upt inj_on_of_nat)

lemma read_header:
  assumes "distinct (map bh_id (bd_headers db))" and "h \<in> set (bd_headers db)"
  shows "read_batch_header db (bh_id h) = Some h"
  unfolding read_batch_header_def using find_unique [OF assms] by simp

lemma read_header_Some: "read_batch_header db op = Some h \<Longrightarrow> h \<in> set (bd_headers db) \<and> bh_id h = op"
  unfolding read_batch_header_def by (auto dest: find_SomeD)

lemma read_item:
  assumes "header_ok env (items_of db op) h" and "i \<in> set (items_of db op)"
  shows "read_batch_item db op (bi_ordinal i) = Inr (Some i)"
proof -
  have "find (\<lambda>j. bi_ordinal j = bi_ordinal i) (items_of db op) = Some i"
    by (rule find_unique [OF header_ok_ordinals [OF assms(1)] assms(2)])
  moreover have "lengths_ok i" using assms by (simp add: header_ok_def item_ok_def)
  ultimately show ?thesis
    by (simp add: read_batch_item_def lengths_ok_def split: option.splits)
qed

lemma status_ok:
  assumes "header_ok env (items_of db (bh_id h)) h"
  obtains s where "status_from_header env db h = Inr s" and "st_total s = bh_total h" and "st_kind s = bh_kind h"
    and "st_state s = bh_state h" and "st_operation_id s = bh_id h" and "st_counts s = counts_of (items_of db (bh_id h))"
    and "\<And>p. parse_batch_payload env h = Inr p \<Longrightarrow> st_request_sha256 s = bp_request_sha256 p"
proof -
  obtain p where p: "parse_batch_payload env h = Inr p" using assms by (auto simp: header_ok_def)
  let ?is = "items_of db (bh_id h)"
  have "ct_pending (counts_of ?is) + counts_terminal (counts_of ?is) = bh_total h"
    using pending_settled [of ?is] header_ok_length [OF assms] unfolding settled_terminal
    by (simp add: counts_of_def)
  moreover have "counts_terminal (counts_of ?is) = bh_completed h"
    using assms unfolding settled_terminal by (simp add: header_ok_def)
  ultimately show ?thesis
    using that p assms by (simp add: status_from_header_def batch_item_counts_def header_ok_def Let_def)
qed

lemma decode_before_fields:
  assumes "decode_before_projection env i = Inr p"
  shows "be_parse_projection env (bi_before_projection_json i) = Some p"
    and "projection_authority env p = Inr (bi_before_projection_json i, bi_before_projection_sha256 i, bi_source_identity_sha256 i)"
    and "ss_id (pj_segment p) = bi_segment_id i" and "pj_review_revision p = bi_base_revision i" and "pj_schema p = 1"
    and "\<forall>h \<in> set (pj_hypotheses p). sh_segment_id h = bi_segment_id i"
  using assms unfolding decode_before_projection_def
  by (auto simp: result_simps list_ex_iff split: option.splits if_splits)

lemma validate_items_ok:
  assumes "\<forall>i \<in> set js. read_batch_item db op (bi_ordinal i) = Inr (Some i) \<and> item_ok env i"
  shows "validate_items env db op (map bi_ordinal js) d = Inr (foldl (digest_push env) d (map request_of js))"
  using assms
proof (induction js arbitrary: d)
  case (Cons i js)
  then obtain p where p: "decode_before_projection env i = Inr p" by (auto simp: item_ok_def)
  have "request_item_of i (bi_ordinal i) p = request_of i"
    using decode_before_fields [OF p] by (simp add: request_item_of_def request_of_def)
  with Cons p show ?case by (simp add: item_ok_def)
qed simp

lemma validate_one_ok:
  assumes "journal_ok env db" and "h \<in> set (bd_headers db)"
  obtains s where "validate_one_batch_job_authority env db (bh_id h) = Inr s" and "st_state s = bh_state h"
    and "st_kind s = bh_kind h" and "st_total s = bh_total h" and "status_from_header env db h = Inr s"
proof -
  let ?is = "items_of db (bh_id h)"
  have ok: "header_ok env ?is h" and d: "distinct (map bh_id (bd_headers db))"
    using assms by (auto simp: journal_ok_def)
  obtain p where p: "parse_batch_payload env h = Inr p"
    and digest: "bp_request_sha256 p = request_digest env h (bp_config_sha256 p) ?is"
    using ok by (auto simp: header_ok_def)
  obtain s where s: "status_from_header env db h = Inr s" "st_total s = bh_total h" "st_kind s = bh_kind h"
      "st_state s = bh_state h" "st_request_sha256 s = bp_request_sha256 p"
    using status_ok [OF ok] p by metis
  have ords: "map int [0..<nat (bh_total h)] = map bi_ordinal ?is"
    using ok unfolding header_ok_def by simp
  have "validate_items env db (bh_id h) (map bi_ordinal ?is) d0 =
      Inr (foldl (digest_push env) d0 (map request_of ?is))" for d0
    by (rule validate_items_ok) (use ok read_item [OF ok] in \<open>simp add: header_ok_def\<close>)
  then have "validate_one_batch_job_authority env db (bh_id h) = Inr s"
    using s p digest by (simp add: validate_one_batch_job_authority_def read_header [OF d assms(2)] request_digest_def ords)
  then show ?thesis using that s by blast
qed

lemma validate_ids_ok:
  assumes "journal_ok env db" and "set hs \<subseteq> set (bd_headers db)"
  shows "validate_ids env db (map bh_id hs) n = Inr (n + length (filter batch_live hs))"
  using assms(2)
proof (induction hs arbitrary: n)
  case (Cons h hs)
  obtain s where "validate_one_batch_job_authority env db (bh_id h) = Inr s" "st_state s = bh_state h"
    using validate_one_ok [OF assms(1), of h] Cons.prems by auto
  with Cons show ?case by (simp add: batch_live_def)
qed simp

lemma journal_validates: "journal_ok env db \<Longrightarrow> validate_batch_job_authority env db = Inr ()"
  using validate_ids_ok [of env db "bd_headers db" 0]
  by (simp add: validate_batch_job_authority_def require_batch_schema_def require_def journal_ok_def
      validate_batch_job_authority_on_def)

section \<open>Writes of the journal\<close>

definition same_item :: "batch_item \<Rightarrow> batch_item \<Rightarrow> bool" where
  "same_item i j \<longleftrightarrow> bi_job_id j = bi_job_id i \<and> request_of j = request_of i \<and>
     bi_before_projection_json j = bi_before_projection_json i"

lemma same_item_decode: "same_item i j \<Longrightarrow> decode_before_projection env j = decode_before_projection env i"
  by (simp add: same_item_def request_of_def decode_before_projection_def cong: option.case_cong)

definition rewrite_items :: "utext \<Rightarrow> (batch_item \<Rightarrow> batch_item) \<Rightarrow> batch_db \<Rightarrow> batch_db" where
  "rewrite_items op g db = db\<lparr>bd_items := map (\<lambda>i. if bi_job_id i = op then g i else i) (bd_items db)\<rparr>"

lemma rewrite_items_of:
  assumes "\<And>i. bi_job_id (g i) = bi_job_id i"
  shows "items_of (rewrite_items op g db) op' = (if op' = op then map g (items_of db op) else items_of db op')"
proof -
  have "filter (\<lambda>i. bi_job_id i = op') (map (\<lambda>i. if bi_job_id i = op then g i else i) is') =
      (if op' = op then map g (filter (\<lambda>i. bi_job_id i = op) is') else filter (\<lambda>i. bi_job_id i = op') is')" for is'
    using assms by (induction is') auto
  then show ?thesis by (simp add: items_of_def rewrite_items_def)
qed

text \<open>Evidence of a settled item is never rewritten.\<close>

definition keeps_settled :: "batch_db \<Rightarrow> batch_db \<Rightarrow> bool" where
  "keeps_settled db db' \<longleftrightarrow> (\<forall>i \<in> set (bd_items db). bi_state i \<noteq> I_Pending \<longrightarrow> i \<in> set (bd_items db'))"

lemma keeps_settled_refl [simp]: "keeps_settled db db"
  by (simp add: keeps_settled_def)

lemma keeps_settled_trans: "keeps_settled a b \<Longrightarrow> keeps_settled b c \<Longrightarrow> keeps_settled a c"
  by (simp add: keeps_settled_def)

lemma keeps_settled_cong: "bd_items db' = bd_items db \<Longrightarrow> keeps_settled db db'"
  by (simp add: keeps_settled_def)

lemma keeps_settled_rewrite:
  assumes "\<And>i. bi_state i \<noteq> I_Pending \<Longrightarrow> g i = i"
  shows "keeps_settled db (rewrite_items op g db)"
proof -
  have "i \<in> set (map (\<lambda>i. if bi_job_id i = op then g i else i) (bd_items db))"
    if "i \<in> set (bd_items db)" "bi_state i \<noteq> I_Pending" for i
    unfolding list.set_map using assms [OF that(2)] that(1) by (metis (mono_tags, lifting) image_eqI)
  then show ?thesis by (simp add: keeps_settled_def rewrite_items_def)
qed

lemma update_item_rewrite:
  "snd (update_item op P f db) =
     rewrite_items op (\<lambda>i. if bi_state i = I_Pending \<and> P i then f i else i) db"
  unfolding update_item_def rewrite_items_def by (simp add: Let_def cong: if_cong)

lemma update_item_count:
  "fst (update_item op P f db) = length (filter (\<lambda>i. bi_state i = I_Pending \<and> P i) (items_of db op))"
  by (simp add: update_item_def items_of_def Let_def conj_ac)

lemma rewrite_job_ids:
  assumes "\<And>i. bi_job_id (g i) = bi_job_id i"
  shows "bi_job_id ` set (bd_items (rewrite_items op g db)) = bi_job_id ` set (bd_items db)"
proof -
  have "map bi_job_id (bd_items (rewrite_items op g db)) = map bi_job_id (bd_items db)"
    using assms by (simp add: rewrite_items_def)
  then show ?thesis by (metis list.set_map)
qed

lemma rewrite_fields [simp]:
  "bd_headers (rewrite_items op g db) = bd_headers db" "bd_schema (rewrite_items op g db) = bd_schema db"
  "bd_segments (rewrite_items op g db) = bd_segments db" "bd_hypotheses (rewrite_items op g db) = bd_hypotheses db"
  "bd_models (rewrite_items op g db) = bd_models db"
  by (simp_all add: rewrite_items_def)

text \<open>The evidence of one batch after its items were rewritten and its header updated accordingly.\<close>

lemma header_ok_rewrite:
  assumes ok: "header_ok env is' h" and same: "\<And>i. i \<in> set is' \<Longrightarrow> same_item i (g i) \<and> item_ok env (g i)"
    and h': "bh_id h' = bh_id h" "bh_kind h' = bh_kind h" "bh_payload_json h' = bh_payload_json h"
      "bh_total h' = bh_total h" "bh_completed h' = settled (map g is')"
      "bh_progress h' = of_int (bh_completed h') / of_int (bh_total h')"
    and state: "bh_state h' \<noteq> B_Queued" "lifecycle_agrees h' (counts_of (map g is'))"
  shows "header_ok env (map g is') h'"
proof -
  have req: "map request_of (map g is') = map request_of is'" and ord: "map bi_ordinal (map g is') = map bi_ordinal is'"
    using same by (auto simp: same_item_def request_of_def)
  have "parse_batch_payload env h' = parse_batch_payload env h"
    using h' by (simp add: parse_batch_payload_def cong: option.case_cong)
  moreover have "request_digest env h' c (map g is') = request_digest env h c is'" for c
    unfolding request_digest_def req using h' by simp
  ultimately show ?thesis
    using ok same h' state ord unfolding header_ok_def by auto
qed

definition map_header :: "utext \<Rightarrow> (batch_header \<Rightarrow> batch_header) \<Rightarrow> batch_db \<Rightarrow> batch_db" where
  "map_header op f db = db\<lparr>bd_headers := map (\<lambda>h. if bh_id h = op then f h else h) (bd_headers db)\<rparr>"

lemma update_header_unique:
  assumes "distinct (map bh_id (bd_headers db))" and "h \<in> set (bd_headers db)" and "bh_id h = op"
    and "\<And>g. P g \<Longrightarrow> bh_id g = op"
  shows "update_header P f db = (if P h then (1, map_header op f db) else (0, db))"
proof -
  have only: "g = h" if "g \<in> set (bd_headers db)" "bh_id g = op" for g
    using that assms by (metis distinct_map inj_onD)
  have count: "length (filter P hs) = (if P h \<and> h \<in> set hs then 1 else 0)"
    if "set hs \<subseteq> set (bd_headers db)" "distinct hs" for hs
    using that
  proof (induction hs)
    case (Cons g hs)
    then show ?case using only [of g] assms(4) [of g] by auto
  qed simp
  have "map (\<lambda>g. if P g then f g else g) (bd_headers db) =
      (if P h then map (\<lambda>g. if bh_id g = op then f g else g) (bd_headers db) else bd_headers db)"
    using only assms(4) by (auto intro!: map_idI)
  then show ?thesis
    using count [of "bd_headers db"] assms(1,2) by (auto simp: update_header_def map_header_def distinct_map)
qed

lemma map_header_fields [simp]:
  "bd_items (map_header op f db) = bd_items db" "bd_schema (map_header op f db) = bd_schema db"
  "bd_segments (map_header op f db) = bd_segments db" "bd_hypotheses (map_header op f db) = bd_hypotheses db"
  "bd_models (map_header op f db) = bd_models db"
  "bd_headers (map_header op f db) = map (\<lambda>h. if bh_id h = op then f h else h) (bd_headers db)" "items_of (map_header op f db) op' = items_of db op'"
  by (simp_all add: map_header_def items_of_def)

lemma journal_ok_cong:
  assumes "bd_schema db' = bd_schema db" and "bd_headers db' = bd_headers db" and "bd_items db' = bd_items db"
  shows "journal_ok env db' \<longleftrightarrow> journal_ok env db"
  using assms by (simp add: journal_ok_def items_of_def)

lemma live_map:
  assumes "\<And>h. h \<in> set hs \<Longrightarrow> batch_live (f h) \<Longrightarrow> batch_live h"
  shows "length (filter batch_live (map f hs)) \<le> length (filter batch_live hs)"
  using assms by (induction hs) (auto simp: le_Suc_eq)

text \<open>Rewriting the items of one batch and its header keeps the invariant.\<close>

lemma journal_ok_rewrite:
  assumes ok: "journal_ok env db" and h: "h \<in> set (bd_headers db)" "bh_id h = op"
    and g: "\<And>i. bi_job_id (g i) = bi_job_id i"
    and f: "\<And>x. bh_id (f x) = bh_id x" "batch_live (f h) \<Longrightarrow> batch_live h"
    and new: "header_ok env (map g (items_of db op)) (f h)"
  shows "journal_ok env (map_header op f (rewrite_items op g db))"
proof -
  have d: "distinct (map bh_id (bd_headers db))" using ok by (simp add: journal_ok_def)
  have only: "x = h" if "x \<in> set (bd_headers db)" "bh_id x = op" for x
    using that d h by (metis distinct_map inj_onD)
  let ?F = "\<lambda>x. if bh_id x = op then f x else x"
  have ids: "map bh_id (map ?F (bd_headers db)) = map bh_id (bd_headers db)" using f by simp
  have "header_ok env (items_of (rewrite_items op g db) (bh_id (?F x))) (?F x)" if "x \<in> set (bd_headers db)" for x
  proof (cases "bh_id x = op")
    case True
    then show ?thesis using only [OF that] new f by (simp add: rewrite_items_of [OF g])
  next
    case False
    then show ?thesis using ok that by (simp add: rewrite_items_of [OF g] journal_ok_def)
  qed
  moreover have "length (filter batch_live (map ?F (bd_headers db))) \<le> 1"
    using live_map [of "bd_headers db" ?F] ok f(2) only by (fastforce simp: journal_ok_def split: if_splits)
  moreover have "bh_id ` set (map ?F (bd_headers db)) = bh_id ` set (bd_headers db)"
    using ids by (metis list.set_map)
  ultimately have A: "\<forall>x \<in> set (map ?F (bd_headers db)). header_ok env (items_of (rewrite_items op g db) (bh_id x)) x"
    and B: "length (filter batch_live (map ?F (bd_headers db))) \<le> 1"
    and C: "bh_id ` set (map ?F (bd_headers db)) = bh_id ` set (bd_headers db)"
    by (unfold list.set_map ball_simps) (blast, assumption+)
  have D: "distinct (map bh_id (map ?F (bd_headers db)))" unfolding ids by (rule d)
  have E: "68 \<le> bd_schema db" and F: "bi_job_id ` set (bd_items db) \<subseteq> bh_id ` set (bd_headers db)"
    using ok by (simp_all add: journal_ok_def)
  show ?thesis
    unfolding journal_ok_def map_header_fields rewrite_fields rewrite_job_ids [OF g]
    by (intro conjI A B D E) (unfold C, rule F)
qed

lemma same_item_refl [simp]: "same_item i i"
  by (simp add: same_item_def)

lemma pending_running:
  assumes "header_ok env is' h" and "i \<in> set is'" and "bi_state i = I_Pending"
  shows "bh_state h = B_Running"
proof -
  have "filter (\<lambda>i. bi_state i = I_Pending) is' \<noteq> []" using assms(2,3) by (auto simp: filter_empty_conv)
  then have "ct_pending (counts_of is') \<noteq> 0" by (simp add: counts_of_def count_state_def)
  then show ?thesis
    using assms(1) by (cases "bh_state h") (auto simp: header_ok_def lifecycle_agrees_def)
qed

lemma update_item_one:
  assumes "update_item op P f db = (1, db')"
  obtains i where "i \<in> set (items_of db op)" and "bi_state i = I_Pending" and "P i"
proof -
  have "length (filter (\<lambda>i. bi_state i = I_Pending \<and> P i) (items_of db op)) = 1"
    using assms update_item_count [of op P f db] by simp
  then have "filter (\<lambda>i. bi_state i = I_Pending \<and> P i) (items_of db op) \<noteq> []" by auto
  then show ?thesis using that by (auto simp: filter_empty_conv)
qed

lemma advance_cases:
  assumes "advance_batch_progress op db = Inr db'" and "distinct (map bh_id (bd_headers db))"
  obtains h where "read_batch_header db op = Some h" and "bh_state h = B_Running"
    and "db' = map_header op (\<lambda>g. g\<lparr>bh_completed := settled (items_of db op),
                 bh_progress := of_int (settled (items_of db op)) / of_int (bh_total g)\<rparr>) db"
proof -
  obtain h where h: "read_batch_header db op = Some h"
    using assms(1) by (cases "read_batch_header db op") (auto simp: advance_batch_progress_def Let_def)
  let ?f = "\<lambda>g. g\<lparr>bh_completed := settled (items_of db op),
                 bh_progress := of_int (settled (items_of db op)) / of_int (bh_total g)\<rparr>"
  let ?P = "\<lambda>g. bh_id g = op \<and> bh_state g = B_Running \<and> bh_total g = bh_total h"
  have "update_header ?P ?f db = (if ?P h then (1, map_header op ?f db) else (0, db))"
    by (rule update_header_unique [OF assms(2)]) (use read_header_Some [OF h] in auto)
  then have "bh_state h = B_Running \<and> db' = map_header op ?f db"
    using assms(1) h read_header_Some [OF h] unfolding advance_batch_progress_def settled_def [symmetric]
    by (auto simp: Let_def split: if_splits bool.splits)
  then show ?thesis using that h by blast
qed

text \<open>One pending item takes its terminal state and the header follows.\<close>

lemma settle_one:
  assumes ok: "journal_ok env db" and upd: "update_item op (\<lambda>j. bi_ordinal j = k) f db = (1, db1)"
    and adv: "advance_batch_progress op db1 = Inr db2"
    and same: "\<And>j. same_item j (f j)"
    and good: "\<And>j. j \<in> set (items_of db op) \<Longrightarrow> bi_state j = I_Pending \<Longrightarrow> bi_ordinal j = k \<Longrightarrow> item_ok env (f j)"
  shows "journal_ok env db2" and "bd_segments db2 = bd_segments db" and "bd_hypotheses db2 = bd_hypotheses db"
    and "bd_models db2 = bd_models db" and "bd_schema db2 = bd_schema db"
    and "items_of db2 op = map (\<lambda>j. if bi_state j = I_Pending \<and> bi_ordinal j = k then f j else j) (items_of db op)"
    and "map bh_id (bd_headers db2) = map bh_id (bd_headers db)" and "keeps_settled db db2"
proof -
  let ?g = "\<lambda>j. if bi_state j = I_Pending \<and> bi_ordinal j = k then f j else j"
  have g: "bi_job_id (?g j) = bi_job_id j" for j using same [of j] by (simp add: same_item_def)
  have db1: "db1 = rewrite_items op ?g db"
    using upd update_item_rewrite [of op "\<lambda>j. bi_ordinal j = k" f db] by simp
  have d: "distinct (map bh_id (bd_headers db))" using ok by (simp add: journal_ok_def)
  let ?s = "settled (items_of db1 op)"
  let ?f = "\<lambda>x. x\<lparr>bh_completed := ?s, bh_progress := of_int ?s / of_int (bh_total x)\<rparr>"
  obtain h where h: "read_batch_header db1 op = Some h" "bh_state h = B_Running" "db2 = map_header op ?f db1"
    using advance_cases [OF adv] d db1 by auto
  have mem: "h \<in> set (bd_headers db)" "bh_id h = op" using read_header_Some [OF h(1)] db1 by auto
  have old: "header_ok env (items_of db op) h" using ok mem by (auto simp: journal_ok_def)
  have items: "items_of db1 op = map ?g (items_of db op)" unfolding db1 by (simp add: rewrite_items_of [OF g])
  have "header_ok env (map ?g (items_of db op)) (?f h)"
  proof (rule header_ok_rewrite [OF old])
    fix j
    assume "j \<in> set (items_of db op)"
    then show "same_item j (?g j) \<and> item_ok env (?g j)" using same good old by (auto simp: header_ok_def)
  next
    show "lifecycle_agrees (?f h) (counts_of (map ?g (items_of db op)))"
      using old h(2) by (simp add: header_ok_def lifecycle_agrees_def)
  qed (use h(2) items in simp_all)
  then show "journal_ok env db2"
    unfolding h(3) db1 by (intro journal_ok_rewrite [OF ok mem g]) (simp_all add: batch_live_def)
  show "items_of db2 op = map ?g (items_of db op)" using items h(3) by simp
  show "map bh_id (bd_headers db2) = map bh_id (bd_headers db)" "bd_segments db2 = bd_segments db"
    "bd_hypotheses db2 = bd_hypotheses db" "bd_models db2 = bd_models db" "bd_schema db2 = bd_schema db"
    by (simp_all add: h(3) db1)
  have "keeps_settled db db1" unfolding db1 by (rule keeps_settled_rewrite) simp
  then show "keeps_settled db db2" by (simp add: keeps_settled_def h(3))
qed

lemma journal_item_header:
  assumes "journal_ok env db" and "i \<in> set (items_of db op)"
  obtains h where "h \<in> set (bd_headers db)" and "bh_id h = op" and "header_ok env (items_of db op) h"
proof -
  have "op \<in> bi_job_id ` set (bd_items db)" using assms(2) by (auto simp: items_of_def)
  then have "op \<in> bh_id ` set (bd_headers db)" using assms(1) unfolding journal_ok_def by blast
  then show ?thesis using that assms(1) by (auto simp: journal_ok_def)
qed

lemma journal_item_ok: "journal_ok env db \<Longrightarrow> i \<in> set (items_of db op) \<Longrightarrow> item_ok env i"
  by (erule (1) journal_item_header) (simp add: header_ok_def)

lemma authority_lengths:
  "projection_authority env p = Inr (json, sha, source) \<Longrightarrow>
     validate_projection_json_length json = Inr () \<and> json = be_projection_json env p \<and>
     sha = be_sha256 env json \<and> source = be_sha256 env (be_source_json env (source_identity_of p))"
  by (auto simp: projection_authority_def result_simps)

lemma stopped_item_ok:
  assumes "item_ok env j" and "bi_state j = I_Pending" and "state = I_Skipped \<or> state = I_Failed \<or> state = I_Abandoned"
    and "result_code_ok code"
  shows "item_ok env (j\<lparr>bi_state := state, bi_result_code := Some code\<rparr>)"
proof -
  let ?j = "j\<lparr>bi_state := state, bi_result_code := Some code\<rparr>"
  have "same_item j ?j" by (simp add: same_item_def request_of_def)
  then have before: "decode_before_projection env ?j = decode_before_projection env j" by (rule same_item_decode)
  have old: "lengths_ok j" "\<exists>p. decode_before_projection env j = Inr p" "item_evidence_ok env j = Inr ()"
    using assms(1) by (simp_all add: item_ok_def)
  then have "bi_after_projection_json j = None" "bi_after_projection_sha256 j = None" "bi_effect_revision j = None"
    using assms(2) by (simp_all add: item_evidence_ok_def)
  then show ?thesis
    using old(1,2) assms(3,4) before
    by (auto simp: item_ok_def lengths_ok_def item_evidence_ok_def effect_ok_def code_ok_def require_def)
qed

lemma mark_terminal:
  assumes ok: "journal_ok env db" and run: "mark_batch_item_terminal op k state code db = Inr db'"
  shows "journal_ok env db'" and "bd_segments db' = bd_segments db" and "bd_hypotheses db' = bd_hypotheses db"
    and "bd_models db' = bd_models db"
    and "items_of db' op = map (\<lambda>j. if bi_state j = I_Pending \<and> bi_ordinal j = k
                                  then j\<lparr>bi_state := state, bi_result_code := Some code\<rparr> else j) (items_of db op)"
    and "map bh_id (bd_headers db') = map bh_id (bd_headers db)" and "keeps_settled db db'"
proof -
  let ?f = "\<lambda>j. j\<lparr>bi_state := state, bi_result_code := Some code\<rparr>"
  have state: "state = I_Skipped \<or> state = I_Failed \<or> state = I_Abandoned"
    using run by (auto simp: mark_batch_item_terminal_def result_simps)
  obtain db1 where upd: "update_item op (\<lambda>j. bi_ordinal j = k) ?f db = (1, db1)" and adv: "advance_batch_progress op db1 = Inr db'"
    using run by (auto simp: mark_batch_item_terminal_def result_simps split: prod.splits if_splits)
  have same: "same_item j (?f j)" for j by (simp add: same_item_def request_of_def)
  have "result_code_ok code"
    using run by (auto simp: mark_batch_item_terminal_def validate_result_code_def result_simps)
  then have good: "item_ok env (?f j)" if j: "j \<in> set (items_of db op)" "bi_state j = I_Pending" for j
    by (rule stopped_item_ok [OF journal_item_ok [OF ok j(1)] j(2) state])
  note one = settle_one [OF ok upd adv same good]
  show "journal_ok env db'" "bd_segments db' = bd_segments db" "bd_hypotheses db' = bd_hypotheses db" "bd_models db' = bd_models db"
    "items_of db' op = map (\<lambda>j. if bi_state j = I_Pending \<and> bi_ordinal j = k then ?f j else j) (items_of db op)"
    "map bh_id (bd_headers db') = map bh_id (bd_headers db)" "keeps_settled db db'"
    using one by blast+
qed

lemma same_ordinal_same_item:
  assumes "journal_ok env db" and "i \<in> set (items_of db op)" and "j \<in> set (items_of db op)"
    and "bi_ordinal i = bi_ordinal j"
  shows "i = j"
proof -
  have "distinct (map bi_ordinal (items_of db op))"
    using journal_item_header [OF assms(1,2)] header_ok_ordinals by metis
  then show ?thesis using assms(2-4) by (auto simp: distinct_map inj_on_def)
qed

lemma claim:
  assumes ok: "journal_ok env db" and codec: "codec env" and i: "i \<in> set (items_of db op)" "bi_ordinal i = k"
    and auth: "projection_authority env p = Inr (json, sha, source)"
    and p: "pj_schema p = 1" "ss_id (pj_segment p) = bi_segment_id i" "bi_base_revision i < pj_review_revision p"
      "\<forall>h \<in> set (pj_hypotheses p). sh_segment_id h = bi_segment_id i" "\<not> segment_is_human_owned (pj_segment p)"
    and run: "claim_item op k json sha (pj_review_revision p) db = Inr db'"
  shows "journal_ok env db'" and "bd_segments db' = bd_segments db" and "bd_hypotheses db' = bd_hypotheses db"
    and "\<exists>j. j \<in> set (items_of db' op) \<and> bi_ordinal j = k \<and> same_item i j \<and> bi_state j = I_Applied \<and>
           decode_after_projection env j = Inr (Some p)"
    and "map bh_id (bd_headers db') = map bh_id (bd_headers db)" and "keeps_settled db db'"
proof -
  let ?f = "\<lambda>j. j\<lparr>bi_state := I_Applied, bi_after_projection_json := Some json, bi_after_projection_sha256 := Some sha,
                  bi_effect_revision := Some (pj_review_revision p)\<rparr>"
  obtain db1 where upd: "update_item op (\<lambda>j. bi_ordinal j = k) ?f db = (1, db1)" and adv: "advance_batch_progress op db1 = Inr db'"
    using run by (auto simp: claim_item_def result_simps split: prod.splits if_splits)
  have same: "same_item j (?f j)" for j by (simp add: same_item_def request_of_def)
  have parse: "be_parse_projection env json = Some p"
    using codec authority_lengths [OF auth] by (simp add: codec_def)
  have after: "decode_after_projection env (?f i) = Inr (Some p)"
    using p auth by (simp add: decode_after_projection_def parse list_ex_iff)
  have pending: "bi_state i = I_Pending"
    using update_item_one [OF upd] same_ordinal_same_item [OF ok i(1)] i(2) by metis
  have good: "item_ok env (?f i)"
  proof -
    have old: "lengths_ok i" "\<exists>b. decode_before_projection env i = Inr b" "item_evidence_ok env i = Inr ()"
      using journal_item_ok [OF ok i(1)] by (simp_all add: item_ok_def)
    have "bi_result_code i = None" using old(3) pending by (simp add: item_evidence_ok_def)
    then have "item_evidence_ok env (?f i) = Inr ()" "effect_ok env (?f i)" "code_ok (?f i)"
      using after p(5) by (simp_all add: item_evidence_ok_def effect_ok_def code_ok_def require_def)
    moreover have "lengths_ok (?f i)"
      using old(1) conjunct1 [OF authority_lengths [OF auth]] by (simp add: lengths_ok_def)
    moreover have "\<exists>b. decode_before_projection env (?f i) = Inr b"
      using old(2) same_item_decode [OF same, of env i] by simp
    ultimately show ?thesis by (simp only: item_ok_def)
  qed
  have good': "item_ok env (?f j)" if "j \<in> set (items_of db op)" "bi_ordinal j = k" for j
    using good same_ordinal_same_item [OF ok i(1) that(1)] that(2) i(2) by metis
  note one = settle_one [OF ok upd adv same good']
  show "journal_ok env db'" "bd_segments db' = bd_segments db" "bd_hypotheses db' = bd_hypotheses db"
    "map bh_id (bd_headers db') = map bh_id (bd_headers db)" "keeps_settled db db'"
    using one by blast+
  have "items_of db' op = map (\<lambda>j. if bi_state j = I_Pending \<and> bi_ordinal j = k then ?f j else j) (items_of db op)"
    using one by blast
  then have "?f i \<in> set (items_of db' op)" using i pending by force
  then show "\<exists>j. j \<in> set (items_of db' op) \<and> bi_ordinal j = k \<and> same_item i j \<and> bi_state j = I_Applied \<and>
           decode_after_projection env j = Inr (Some p)"
    using after i same by (intro exI [of _ "?f i"]) simp
qed

section \<open>Commits\<close>

lemma human_restore [simp]: "segment_is_human_owned (restore_machine t s) = segment_is_human_owned s"
  by (simp add: segment_is_human_owned_def restore_machine_def)

lemma restore_restore [simp]: "restore_machine a (restore_machine b c) = restore_machine a c"
  by (simp add: restore_machine_def)

definition machine_only :: "(speech_segment \<Rightarrow> speech_segment) \<Rightarrow> bool" where
  "machine_only f \<longleftrightarrow> (\<forall>s. restore_machine s (f s) = s)"

lemma machine_only_human: "machine_only f \<Longrightarrow> segment_is_human_owned (f s) = segment_is_human_owned s"
  unfolding machine_only_def by (metis human_restore)

lemma machine_only_id: "machine_only f \<Longrightarrow> ss_id (f s) = ss_id s"
proof -
  assume "machine_only f"
  then have "ss_id (restore_machine s (f s)) = ss_id s" by (simp add: machine_only_def)
  then show ?thesis by (simp add: restore_machine_def)
qed

lemma machine_only_writes [simp]:
  "machine_only (\<lambda>s. s\<lparr>ss_normalized_transcript := a, ss_normalizer_version := b\<rparr>)"
  "machine_only (publish_draft d raw normalized config)"
  "machine_only (restore_normalized t)" "machine_only (restore_machine t)"
  by (simp_all add: machine_only_def publish_draft_def restore_normalized_def restore_machine_def)

lemma read_projection_fields:
  assumes "read_batch_projection env db i = Inr (Some p)"
  obtains r where "stored_segment db i = Some r" and "pj_segment p = sg_segment r" and "pj_schema p = 1"
    and "ss_id (pj_segment p) = i" and "pj_review_revision p = sg_review_revision r"
    and "pj_audio_content_hash p = sg_audio_content_hash r" and "pj_hypotheses p = hypotheses_of db i"
    and "\<forall>h \<in> set (pj_hypotheses p). sh_segment_id h = i"
proof -
  obtain r where r: "stored_segment db i = Some r"
    using assms by (cases "stored_segment db i") (simp_all add: read_batch_projection_def)
  then have p: "p = \<lparr>pj_schema = 1, pj_segment = sg_segment r, pj_review_revision = sg_review_revision r,
                     pj_audio_content_hash = sg_audio_content_hash r, pj_hypotheses = hypotheses_of db i\<rparr>"
    using assms by (auto simp: read_batch_projection_def result_simps)
  have id: "ss_id (sg_segment r) = i" using r unfolding stored_segment_def by (auto dest: find_SomeD)
  have hyps: "\<forall>h \<in> set (hypotheses_of db i). sh_segment_id h = i" by (simp add: hypotheses_of_def)
  show ?thesis by (rule that [OF r]; unfold p projection.select_convs; (rule refl | rule id | rule hyps))
qed

lemma compare_cases:
  assumes "compare_current_to_before env db i = Inr (Inr p)"
  shows "read_batch_projection env db (bi_segment_id i) = Inr (Some p)" and "\<not> segment_is_human_owned (pj_segment p)"
    and "pj_review_revision p = bi_base_revision i"
proof -
  obtain found where f: "read_batch_projection env db (bi_segment_id i) = Inr found"
    using assms by (cases "read_batch_projection env db (bi_segment_id i)") (simp_all add: compare_current_to_before_def)
  then obtain q where q: "found = Some q"
    using assms by (cases found) (simp_all add: compare_current_to_before_def)
  have h: "\<not> segment_is_human_owned (pj_segment q)"
    using assms f q by (simp add: compare_current_to_before_def split: if_splits)
  obtain x where "projection_authority env q = Inr x"
    using assms f q h by (cases "projection_authority env q") (simp_all add: compare_current_to_before_def)
  then have "q = p \<and> pj_review_revision q = bi_base_revision i"
    using assms f q h by (cases x) (simp add: compare_current_to_before_def split: if_splits)
  then show "read_batch_projection env db (bi_segment_id i) = Inr (Some p)"
    "\<not> segment_is_human_owned (pj_segment p)" "pj_review_revision p = bi_base_revision i"
    using f q h by auto
qed

lemma commit_item_cases:
  assumes "commit_item env op k kind ex db existing apply_effect = Inr (outcome, db')"
  obtains h payload i where "read_batch_header db op = Some h" and "require_batch_executor env h ex = Inr payload"
    and "bh_kind h = kind" and "read_batch_item db op k = Inr (Some i)"
    and "bi_state i \<noteq> I_Pending" and "existing payload i = Inr outcome" and "db' = db"
  | i code where "read_batch_item db op k = Inr (Some i)" and "bi_state i = I_Pending" and "skip_item op k code db = Inr (outcome, db')"
  | h payload i before where "read_batch_header db op = Some h" and "require_batch_executor env h ex = Inr payload"
    and "bh_kind h = kind" and "read_batch_item db op k = Inr (Some i)" and "bi_state i = I_Pending"
    and "compare_current_to_before env db i = Inr (Inr before)" and "apply_effect payload i before = Inr (outcome, db')"
proof -
  obtain h where h: "read_batch_header db op = Some h"
    using assms by (cases "read_batch_header db op") (simp_all add: commit_item_def)
  obtain payload found where A: "bh_kind h = kind" "require_batch_executor env h ex = Inr payload"
      "read_batch_item db op k = Inr found"
    using assms unfolding commit_item_def h by (auto simp: and_then_eq_Inr_iff)
  obtain i where i: "found = Some i"
    using assms A by (cases found) (simp_all add: commit_item_def h require_def)
  have rest: "(if bi_state i \<noteq> I_Pending then and_then (existing payload i) (\<lambda>outcome. Inr (outcome, db))
              else if bh_state h \<noteq> B_Running then Inl (BatchEvidence ''pending item belongs to a non-running job'')
              else and_then (require_batch_not_hard_stopped db op) (\<lambda>_.
                   and_then (compare_current_to_before env db i) (\<lambda>compared.
                   case compared of
                     Inl code \<Rightarrow> skip_item op k code db
                   | Inr before \<Rightarrow> apply_effect payload i before))) = Inr (outcome, db')"
    using assms A i by (cases "decode_before_projection env i") (simp_all add: commit_item_def h require_def)
  note A = h A(2,1) A(3) [unfolded i]
  show ?thesis
  proof (cases "bi_state i = I_Pending")
    case False
    then show ?thesis using that(1) [OF A] rest by (auto simp: result_simps)
  next
    case True
    then obtain compared where c: "compare_current_to_before env db i = Inr compared"
      and "(case compared of Inl code \<Rightarrow> skip_item op k code db | Inr before \<Rightarrow> apply_effect payload i before) = Inr (outcome, db')"
      using rest by (auto simp: result_simps split: if_splits)
    then show ?thesis using that(2,3) A True by (cases compared) auto
  qed
qed

lemma read_batch_item_Some:
  assumes "read_batch_item db op k = Inr (Some i)"
  shows "i \<in> set (items_of db op)" and "bi_ordinal i = k"
proof -
  have "find (\<lambda>i. bi_ordinal i = k) (items_of db op) = Some i"
    using assms unfolding read_batch_item_def
    by (cases "find (\<lambda>i. bi_ordinal i = k) (items_of db op)") (auto simp: result_simps)
  then show "i \<in> set (items_of db op)" "bi_ordinal i = k" by (auto dest: find_SomeD)
qed

text \<open>How one row may change: not at all, or in the machine columns with a newer revision.\<close>

definition machine_step :: "segment_record \<Rightarrow> segment_record \<Rightarrow> bool" where
  "machine_step r r' \<longleftrightarrow> sg_audio_content_hash r' = sg_audio_content_hash r \<and>
     restore_machine (sg_segment r) (sg_segment r') = sg_segment r \<and> sg_review_revision r \<le> sg_review_revision r'"

definition rewrites_rows :: "(segment_record \<Rightarrow> segment_record) \<Rightarrow> utext \<Rightarrow> batch_db \<Rightarrow> batch_db \<Rightarrow> bool" where
  "rewrites_rows F i db db' \<longleftrightarrow> bd_segments db' = map F (bd_segments db) \<and> (\<forall>r. machine_step r (F r)) \<and>
     (\<forall>r. ss_id (sg_segment r) \<noteq> i \<longrightarrow> F r = r) \<and> bd_headers db' = bd_headers db \<and> bd_items db' = bd_items db \<and>
     bd_schema db' = bd_schema db \<and> bd_models db' = bd_models db"

lemma machine_step_refl [simp]: "machine_step r r"
  by (simp add: machine_step_def restore_machine_def)

lemma machine_step_trans: "machine_step a b \<Longrightarrow> machine_step b c \<Longrightarrow> machine_step a c"
  unfolding machine_step_def by (metis restore_restore order_trans)

lemma machine_step_id: "machine_step r r' \<Longrightarrow> ss_id (sg_segment r') = ss_id (sg_segment r)"
  by (auto simp: machine_step_def restore_machine_def dest: arg_cong [of _ _ ss_id])

lemma machine_step_human:
  "machine_step r r' \<Longrightarrow> segment_is_human_owned (sg_segment r') = segment_is_human_owned (sg_segment r)"
  unfolding machine_step_def by (metis human_restore)

lemma rewrites_rows_trans:
  assumes "rewrites_rows F i db db1" and "rewrites_rows G i db1 db2"
  shows "rewrites_rows (G \<circ> F) i db db2"
proof -
  have "machine_step r (G (F r))" for r
    using assms machine_step_trans [of r "F r" "G (F r)"] by (simp add: rewrites_rows_def)
  then show ?thesis using assms by (simp add: rewrites_rows_def)
qed

lemma rewrites_update:
  assumes "update_segment P f db = (n, db')" and "machine_only f" and "\<And>r. P r \<Longrightarrow> ss_id (sg_segment r) = i"
  shows "rewrites_rows (\<lambda>r. if P r then r\<lparr>sg_segment := f (sg_segment r), sg_review_revision := sg_review_revision r + 1\<rparr>
                        else r) i db db'"
  using assms by (auto simp: update_segment_def rewrites_rows_def machine_step_def machine_only_def restore_machine_def)

lemma rewrites_advance:
  "rewrites_rows (\<lambda>r. if ss_id (sg_segment r) = i then r\<lparr>sg_review_revision := sg_review_revision r + int n\<rparr> else r) i
     db (advance_revision i n (db\<lparr>bd_hypotheses := hs\<rparr>))"
  by (simp add: advance_revision_def rewrites_rows_def machine_step_def restore_machine_def)

lemma rewrites_delete: "\<exists>F. rewrites_rows F i db (delete_hypotheses i db)"
  unfolding delete_hypotheses_def using rewrites_advance by blast

lemma rewrites_insert:
  "insert_hypothesis h db = Inr db' \<Longrightarrow> \<exists>F. rewrites_rows F (sh_segment_id h) db db'"
  unfolding insert_hypothesis_def and_then_eq_Inr_iff
  by (elim exE conjE) (drule sum.inject(2) [THEN iffD1], hypsubst, rule exI, rule rewrites_advance)

lemma rewrites_segment_row:
  assumes "rewrites_rows F i db db'"
  shows "stored_segment db' j = map_option F (stored_segment db j)"
proof -
  have id: "ss_id (sg_segment (F r)) = ss_id (sg_segment r)" for r
    using assms machine_step_id by (simp add: rewrites_rows_def)
  have "find (\<lambda>r. ss_id (sg_segment r) = j) (map F rs) = map_option F (find (\<lambda>r. ss_id (sg_segment r) = j) rs)" for rs
    using id by (induction rs) simp_all
  then show ?thesis using assms by (simp add: stored_segment_def rewrites_rows_def)
qed

lemma rewrites_journal: "rewrites_rows F i db db' \<Longrightarrow> journal_ok env db' = journal_ok env db"
  by (rule journal_ok_cong) (simp_all add: rewrites_rows_def)

lemma rewrites_items: "rewrites_rows F i db db' \<Longrightarrow> items_of db' op = items_of db op"
  by (simp add: rewrites_rows_def items_of_def)

text \<open>The effect of a commit on the journal, from the row it was compared with to the claimed item.\<close>

lemma claim_effect:
  assumes ok: "journal_ok env db" and codec: "codec env" and i: "i \<in> set (items_of db op)" "bi_ordinal i = k"
    and compared: "compare_current_to_before env db i = Inr (Inr before)"
    and rows: "rewrites_rows F (bi_segment_id i) db db1"
    and read: "read_batch_projection env db1 (bi_segment_id i) = Inr (Some after)"
    and newer: "bi_base_revision i < pj_review_revision after"
    and auth: "projection_authority env after = Inr (json, sha, source)"
    and run: "claim_item op k json sha (pj_review_revision after) db1 = Inr db'"
  shows "journal_ok env db'" and "bd_segments db' = map F (bd_segments db)"
    and "\<exists>j. j \<in> set (items_of db' op) \<and> bi_ordinal j = k \<and> same_item i j \<and> bi_state j = I_Applied \<and>
           decode_after_projection env j = Inr (Some after)"
    and "map bh_id (bd_headers db') = map bh_id (bd_headers db)" and "keeps_settled db db'"
proof -
  obtain r0 where r0: "stored_segment db (bi_segment_id i) = Some r0" "pj_segment before = sg_segment r0"
    using read_projection_fields [OF compare_cases(1) [OF compared]] by metis
  obtain r1 where r1: "stored_segment db1 (bi_segment_id i) = Some r1" "pj_segment after = sg_segment r1" "pj_schema after = 1"
      "ss_id (pj_segment after) = bi_segment_id i" "\<forall>h \<in> set (pj_hypotheses after). sh_segment_id h = bi_segment_id i"
    using read_projection_fields [OF read] by metis
  have "r1 = F r0" using rewrites_segment_row [OF rows, of "bi_segment_id i"] r0 r1 by simp
  moreover have "machine_step r0 (F r0)" using rows by (simp add: rewrites_rows_def)
  ultimately have human: "\<not> segment_is_human_owned (pj_segment after)"
    using machine_step_human compare_cases(2) [OF compared] r0 r1 by metis
  have ok1: "journal_ok env db1" and i1: "i \<in> set (items_of db1 op)"
    using rewrites_journal [OF rows] rewrites_items [OF rows] ok i by auto
  note c = claim [OF ok1 codec i1 i(2) auth r1(3,4) newer r1(5) human run]
  show "journal_ok env db'" "\<exists>j. j \<in> set (items_of db' op) \<and> bi_ordinal j = k \<and> same_item i j \<and> bi_state j = I_Applied \<and>
           decode_after_projection env j = Inr (Some after)" by (rule c)+
  show "map bh_id (bd_headers db') = map bh_id (bd_headers db)" using c(5) rows by (simp add: rewrites_rows_def)
  show "keeps_settled db db'" using c(6) rows by (simp add: rewrites_rows_def keeps_settled_def)
  show "bd_segments db' = map F (bd_segments db)" using c(2) rows by (simp add: rewrites_rows_def)
qed

text \<open>The outcome of a commit: the item was settled before, is skipped or failed, or takes effect.\<close>

definition commit_result ::
  "batch_env \<Rightarrow> utext \<Rightarrow> int \<Rightarrow> batch_db \<Rightarrow> commit_outcome \<Rightarrow> batch_db \<Rightarrow> bool" where
  "commit_result env op k db outcome db' \<longleftrightarrow> journal_ok env db' \<and> keeps_settled db db' \<and>
     map bh_id (bd_headers db') = map bh_id (bd_headers db) \<and>
     (bd_segments db' = bd_segments db \<and> bd_hypotheses db' = bd_hypotheses db \<and> (\<forall>r. outcome \<noteq> Applied r) \<or>
      (\<exists>i before after F. i \<in> set (items_of db op) \<and> bi_ordinal i = k \<and> bi_state i = I_Pending \<and>
         compare_current_to_before env db i = Inr (Inr before) \<and> bd_segments db' = map F (bd_segments db) \<and>
         (\<forall>r. machine_step r (F r)) \<and> (\<forall>r. ss_id (sg_segment r) \<noteq> bi_segment_id i \<longrightarrow> F r = r) \<and>
         outcome = Applied (pj_review_revision after) \<and>
         (\<exists>j. j \<in> set (items_of db' op) \<and> bi_ordinal j = k \<and> same_item i j \<and> bi_state j = I_Applied \<and>
              decode_after_projection env j = Inr (Some after))))"

lemma skip_result:
  assumes "journal_ok env db" and "skip_item op k code db = Inr (outcome, db')"
  shows "commit_result env op k db outcome db'"
proof -
  obtain db1 where m: "mark_batch_item_terminal op k I_Skipped code db = Inr db1" and o: "outcome = Skipped code" "db' = db1"
    using assms(2) by (auto simp: skip_item_def result_simps)
  show ?thesis using mark_terminal [OF assms(1) m] o by (simp add: commit_result_def)
qed

lemma claim_result:
  assumes ok: "journal_ok env db" and codec: "codec env" and i: "i \<in> set (items_of db op)" "bi_ordinal i = k" "bi_state i = I_Pending"
    and compared: "compare_current_to_before env db i = Inr (Inr before)"
    and rows: "rewrites_rows F (bi_segment_id i) db db1"
    and read: "read_batch_projection env db1 (bi_segment_id i) = Inr (Some after)"
    and newer: "bi_base_revision i < pj_review_revision after"
    and auth: "projection_authority env after = Inr (json, sha, source)"
    and run: "claim_item op k json sha (pj_review_revision after) db1 = Inr db'"
  shows "commit_result env op k db (Applied (pj_review_revision after)) db'"
proof -
  note c = claim_effect [OF ok codec i(1,2) compared rows read newer auth run]
  have "(\<forall>r. machine_step r (F r)) \<and> (\<forall>r. ss_id (sg_segment r) \<noteq> bi_segment_id i \<longrightarrow> F r = r)"
    using rows by (simp add: rewrites_rows_def)
  then show ?thesis
    unfolding commit_result_def
    by (intro conjI disjI2 exI [of _ i] exI [of _ before] exI [of _ after] exI [of _ F] c i compared) (use c in auto)
qed

lemma commit_normalized_result:
  assumes ok: "journal_ok env db" and codec: "codec env" and i: "i \<in> set (items_of db op)" "bi_ordinal i = k" "bi_state i = I_Pending"
    and compared: "compare_current_to_before env db i = Inr (Inr before)"
    and run: "commit_normalized env op k normalized version db i before = Inr (outcome, db')"
  shows "commit_result env op k db outcome db'"
proof (cases "ss_normalized_transcript (pj_segment before) = Some normalized \<and> ss_normalizer_version (pj_segment before) = Some version")
  case True
  then show ?thesis using run skip_result [OF ok] by (simp add: commit_normalized_def)
next
  case False
  obtain n db1 where upd: "update_segment (swap_guard i before)
      (\<lambda>s. s\<lparr>ss_normalized_transcript := Some normalized, ss_normalizer_version := Some version\<rparr>) db = (n, db1)"
    by (rule prod.exhaust)
  note run = run [unfolded commit_normalized_def if_not_P [OF False] upd prod.case Let_def and_then_eq_Inr_iff]
  obtain found where found: "read_batch_projection env db1 (bi_segment_id i) = Inr found" using run by blast
  obtain after where after: "found = Some after" using run found by (cases found) auto
  obtain json sha source where more: "\<not> pj_review_revision after \<le> bi_base_revision i"
      "projection_authority env after = Inr (json, sha, source)" "claim_item op k json sha (pj_review_revision after) db1 = Inr db'"
      "outcome = Applied (pj_review_revision after)"
    using run found after by (auto simp: and_then_eq_Inr_iff)
  have "swap_guard i before r \<Longrightarrow> ss_id (sg_segment r) = bi_segment_id i" for r by (simp add: swap_guard_def Let_def)
  from rewrites_update [OF upd machine_only_writes(1) this] show ?thesis
    unfolding more(4) by (rule claim_result [OF ok codec i compared]) (use found after more in auto)
qed

lemma commit_champion_result:
  assumes ok: "journal_ok env db" and codec: "codec env" and i: "i \<in> set (items_of db op)" "bi_ordinal i = k" "bi_state i = I_Pending"
    and compared: "compare_current_to_before env db i = Inr (Inr before)"
    and run: "commit_champion env op k d now db payload i before = Inr (outcome, db')"
  shows "commit_result env op k db outcome db'"
proof (cases "champion_is_current db d")
  case False
  then obtain db1 where "mark_batch_item_terminal op k I_Failed (lit ''MODEL_IDENTITY_CHANGED'') db = Inr db1"
      "outcome = Failed_Item (lit ''MODEL_IDENTITY_CHANGED'')" "db' = db1"
    using run by (auto simp: commit_champion_def Let_def and_then_eq_Inr_iff)
  then show ?thesis using mark_terminal [OF ok] by (simp add: commit_result_def)
next
  case True
  then have current: "\<not> \<not> champion_is_current db d" by simp
  let ?hyp = "draft_hypothesis (bi_segment_id i) d (be_nfc env (cd_raw_transcript d)) now"
  obtain n db1 where upd: "update_segment (swap_guard i before) (publish_draft d (be_nfc env (cd_raw_transcript d))
      (map_option (be_nfc env) (cd_normalized_transcript d)) (bp_config_sha256 payload)) db = (n, db1)"
    by (rule prod.exhaust)
  note run = run [unfolded commit_champion_def Let_def if_not_P [OF current] upd prod.case and_then_eq_Inr_iff]
  obtain db2 where ins: "insert_hypothesis ?hyp (delete_hypotheses (bi_segment_id i) db1) = Inr db2" using run by blast
  obtain found where found: "read_batch_projection env db2 (bi_segment_id i) = Inr found" using run ins by auto
  obtain after where after: "found = Some after" using run ins found by (cases found) auto
  obtain json sha source where more: "\<not> pj_review_revision after \<le> bi_base_revision i"
      "projection_authority env after = Inr (json, sha, source)" "claim_item op k json sha (pj_review_revision after) db2 = Inr db'"
      "outcome = Applied (pj_review_revision after)"
    using run ins found after by (auto simp: and_then_eq_Inr_iff)
  have "swap_guard i before r \<Longrightarrow> ss_id (sg_segment r) = bi_segment_id i" for r by (simp add: swap_guard_def Let_def)
  note u = rewrites_update [OF upd machine_only_writes(2) this]
  obtain F where F: "rewrites_rows F (bi_segment_id i) db1 (delete_hypotheses (bi_segment_id i) db1)"
    using rewrites_delete by metis
  obtain G where G: "rewrites_rows G (bi_segment_id i) (delete_hypotheses (bi_segment_id i) db1) db2"
    using rewrites_insert [OF ins] by (auto simp: draft_hypothesis_def)
  from rewrites_rows_trans [OF u rewrites_rows_trans [OF F G]] show ?thesis
    unfolding more(4) by (rule claim_result [OF ok codec i compared]) (use found after more in auto)
qed

lemma commit_item_result:
  assumes ok: "journal_ok env db"
    and run: "commit_item env op k kind ex db existing apply_effect = Inr (outcome, db')"
    and seen: "\<And>payload i r. existing payload i \<noteq> Inr (Applied r)"
    and eff: "\<And>payload i before. i \<in> set (items_of db op) \<Longrightarrow> bi_ordinal i = k \<Longrightarrow> bi_state i = I_Pending \<Longrightarrow>
      compare_current_to_before env db i = Inr (Inr before) \<Longrightarrow> apply_effect payload i before = Inr (outcome, db') \<Longrightarrow>
      commit_result env op k db outcome db'"
  shows "commit_result env op k db outcome db'"
  using run
proof (cases rule: commit_item_cases)
  case (1 h payload i)
  then show ?thesis using ok seen [of payload i] by (auto simp: commit_result_def)
next
  case (2 i code)
  then show ?thesis using skip_result [OF ok] by blast
next
  case (3 h payload i before)
  then show ?thesis using eff read_batch_item_Some by metis
qed

lemma savepoint_cases:
  assumes "savepoint db r = (res, db')"
  obtains e where "res = Inl e" and "db' = db" | x where "r = Inr (x, db')" and "res = Inr x"
  using assms by (cases r) (auto simp: savepoint_def)

lemma savepoint_error: "savepoint db r = (Inl e, db') \<Longrightarrow> db' = db"
  by (cases r) (auto simp: savepoint_def)

lemma existing_normalize: "existing_normalize_outcome env i n v \<noteq> Inr (Applied r)"
  unfolding existing_normalize_outcome_def by (auto simp: and_then_eq_Inr_iff split: option.splits if_splits)

lemma existing_champion: "existing_champion_outcome env payload i d \<noteq> Inr (Applied r)"
  unfolding existing_champion_outcome_def Let_def by (auto simp: and_then_eq_Inr_iff split: option.splits if_splits)

lemma normalization_result:
  assumes ok: "journal_ok env db" and codec: "codec env"
    and run: "commit_batch_normalization env op k t v ex db = (res, db')"
  shows "(\<exists>e. res = Inl e \<and> db' = db) \<or> (\<exists>outcome. res = Inr outcome \<and> commit_result env op k db outcome db')"
  using run unfolding commit_batch_normalization_def
proof (cases rule: savepoint_cases)
  case (2 outcome)
  then have "commit_item env op k Normalize_Batch ex db (\<lambda>_ i. existing_normalize_outcome env i (be_nfc env t) v)
      (\<lambda>_ i before. commit_normalized env op k (be_nfc env t) v db i before) = Inr (outcome, db')"
    unfolding Let_def and_then_eq_Inr_iff by blast
  then have "commit_result env op k db outcome db'"
    by (rule commit_item_result [OF ok]) (use existing_normalize commit_normalized_result [OF ok codec] in blast)+
  then show ?thesis using 2 by blast
qed blast

lemma champion_result:
  assumes ok: "journal_ok env db" and codec: "codec env"
    and run: "commit_batch_champion_draft env op k d ex now db = (res, db')"
  shows "(\<exists>e. res = Inl e \<and> db' = db) \<or> (\<exists>outcome. res = Inr outcome \<and> commit_result env op k db outcome db')"
  using run unfolding commit_batch_champion_draft_def
proof (cases rule: savepoint_cases)
  case (2 outcome)
  then have "commit_item env op k Transcribe ex db (\<lambda>payload i. existing_champion_outcome env payload i d)
      (commit_champion env op k d now db) = Inr (outcome, db')"
    unfolding and_then_eq_Inr_iff by blast
  then have "commit_result env op k db outcome db'"
    by (rule commit_item_result [OF ok]) (use existing_champion commit_champion_result [OF ok codec] in blast)+
  then show ?thesis using 2 by blast
qed blast

section \<open>Terminalization\<close>

text \<open>The items of a batch after every pending one was abandoned, or left alone when there is none.\<close>

definition stops_items :: "batch_env \<Rightarrow> utext \<Rightarrow> (batch_item \<Rightarrow> batch_item) \<Rightarrow> batch_db \<Rightarrow> bool" where
  "stops_items env op g db \<longleftrightarrow> (\<forall>i. same_item i (g i)) \<and> (\<forall>i \<in> set (items_of db op). item_ok env (g i)) \<and>
     (\<forall>i. bi_state i \<noteq> I_Pending \<longrightarrow> g i = i)"

lemma abandon_stops:
  assumes "journal_ok env db" and "result_code_ok code"
  shows "\<exists>g. abandon_pending op code db = rewrite_items op g db \<and> stops_items env op g db \<and>
     (\<forall>i. bi_state i = I_Pending \<longrightarrow> g i = i\<lparr>bi_state := I_Abandoned, bi_result_code := Some code\<rparr>)"
proof -
  let ?g = "\<lambda>i. if bi_state i = I_Pending \<and> True then i\<lparr>bi_state := I_Abandoned, bi_result_code := Some code\<rparr> else i"
  have "abandon_pending op code db = rewrite_items op ?g db"
    unfolding abandon_pending_def update_item_rewrite ..
  moreover have "item_ok env (?g i)" if "i \<in> set (items_of db op)" for i
    using stopped_item_ok [OF journal_item_ok [OF assms(1) that], of I_Abandoned code] journal_item_ok [OF assms(1) that] assms(2)
    by simp
  ultimately show ?thesis
    by (intro exI [of _ ?g]) (simp add: stops_items_def same_item_def request_of_def)
qed

lemma rewrite_items_id: "rewrite_items op (\<lambda>i. i) db = db"
  by (simp add: rewrite_items_def)

lemma settled_all:
  "\<forall>i \<in> set is'. bi_state i \<noteq> I_Pending \<Longrightarrow> settled is' = int (length is')"
  by (simp add: settled_def)

lemma count_zero: "count_state s is' = 0 \<longleftrightarrow> (\<forall>i \<in> set is'. bi_state i \<noteq> s)"
  by (simp add: count_state_def filter_empty_conv)

lemma terminal_header_ok:
  assumes ok: "header_ok env is' h" and g: "\<And>i. i \<in> set is' \<Longrightarrow> same_item i (g i) \<and> item_ok env (g i)"
    and evidence: "terminal_evidence_ok target code (map g is')" and target: "batch_terminal target"
  shows "header_ok env (map g is') (h\<lparr>bh_state := target, bh_completed := bh_total h, bh_progress := 1,
           bh_error_code := code, bh_finished_at := Some now\<rparr>)"
proof -
  let ?c = "counts_of (map g is')"
  let ?h = "h\<lparr>bh_state := target, bh_completed := bh_total h, bh_progress := 1, bh_error_code := code, bh_finished_at := Some now\<rparr>"
  have nopend: "\<forall>i \<in> set (map g is'). bi_state i \<noteq> I_Pending"
    using evidence by (simp add: terminal_evidence_ok_def list_all_iff)
  have total: "1 \<le> bh_total h" using ok by (simp add: header_ok_def)
  have completed: "settled (map g is') = bh_total h"
    using settled_all [OF nopend] header_ok_length [OF ok] by simp
  have zero: "ct_pending ?c = 0" "ct_failed ?c = 0 \<longleftrightarrow> (\<forall>i \<in> set (map g is'). bi_state i \<noteq> I_Failed)"
      "ct_abandoned ?c = 0 \<longleftrightarrow> (\<forall>i \<in> set (map g is'). bi_state i \<noteq> I_Abandoned)"
    using nopend by (simp_all only: counts_of_def item_counts.select_convs count_zero)
  have "0 \<le> ct_failed ?c" "0 \<le> ct_abandoned ?c" by (simp_all add: counts_of_def count_state_def)
  then have either: "ct_failed ?c + ct_abandoned ?c = 0 \<longleftrightarrow> ct_failed ?c = 0 \<and> ct_abandoned ?c = 0" by arith
  have agrees: "lifecycle_agrees ?h ?c"
  proof (cases target)
    case B_Succeeded
    then show ?thesis using evidence zero by (simp add: terminal_evidence_ok_def lifecycle_agrees_def list_all_iff)
  next
    case B_Failed
    then have "ct_failed ?c + ct_abandoned ?c \<noteq> 0"
      using evidence unfolding either zero by (auto simp: terminal_evidence_ok_def list_ex_iff)
    then show ?thesis using B_Failed evidence zero(1) by (auto simp: terminal_evidence_ok_def lifecycle_agrees_def split: option.splits)
  next
    case B_Cancelled
    then have "ct_abandoned ?c \<noteq> 0" "ct_failed ?c = 0"
      using evidence unfolding zero by (auto simp: terminal_evidence_ok_def list_ex_iff list_all_iff)
    then show ?thesis using B_Cancelled evidence zero(1) by (auto simp: terminal_evidence_ok_def lifecycle_agrees_def split: option.splits)
  qed (use target in \<open>simp_all add: batch_terminal_def\<close>)
  show ?thesis
    by (rule header_ok_rewrite [OF ok g]) (use agrees completed total target in \<open>auto simp: batch_terminal_def\<close>)
qed

definition terminal_header :: "batch_lifecycle \<Rightarrow> utext option \<Rightarrow> utext \<Rightarrow> batch_header \<Rightarrow> batch_header" where
  "terminal_header target code now h =
     h\<lparr>bh_state := target, bh_completed := bh_total h, bh_progress := 1, bh_error_code := code, bh_finished_at := Some now\<rparr>"

lemma finish_header_eq:
  assumes ok: "journal_ok env db" and g: "stops_items env op g db" and h: "h \<in> set (bd_headers db)" "bh_id h = op"
  shows "finish_header op target code now (rewrite_items op g db) =
    (let P = bh_state h = B_Running \<and> bh_total h = settled (map g (items_of db op)) in
     if P \<and> \<not> terminal_evidence_ok target code (map g (items_of db op))
     then Inl (BatchAbort ''batch terminal state disagrees with durable item evidence'')
     else Inr (if P then (1, map_header op (terminal_header target code now) (rewrite_items op g db)) else (0, rewrite_items op g db)))"
proof -
  have d: "distinct (map bh_id (bd_headers db))" using ok by (simp add: journal_ok_def)
  have gid: "bi_job_id (g i) = bi_job_id i" for i using g by (simp add: stops_items_def same_item_def)
  have items: "items_of (rewrite_items op g db) op = map g (items_of db op)" by (simp add: rewrite_items_of [OF gid])
  let ?P = "\<lambda>x. bh_id x = op \<and> bh_state x = B_Running \<and> bh_total x = settled (map g (items_of db op))"
  have only: "x = h" if "x \<in> set (bd_headers db)" "bh_id x = op" for x
    using that d h by (metis distinct_map inj_onD)
  have all: "list_all (\<lambda>x. ?P x \<longrightarrow> B) (bd_headers db) \<longleftrightarrow> (?P h \<longrightarrow> B)" for B
    unfolding list_all_iff using h(1) only by (intro iffI ballI impI) metis+
  have "update_header ?P (terminal_header target code now) (rewrite_items op g db) =
      (if ?P h then (1, map_header op (terminal_header target code now) (rewrite_items op g db)) else (0, rewrite_items op g db))"
    by (rule update_header_unique) (use d h in auto)
  moreover have "finish_header op target code now (rewrite_items op g db) =
      and_then (require (list_all (\<lambda>x. ?P x \<longrightarrow> terminal_evidence_ok target code (map g (items_of db op))) (bd_headers db))
                  (BatchAbort ''batch terminal state disagrees with durable item evidence''))
        (\<lambda>_. Inr (update_header ?P (terminal_header target code now) (rewrite_items op g db)))"
    unfolding finish_header_def batch_item_counts_def settled_terminal items Let_def rewrite_fields
      terminal_header_def [of target code now, abs_def] ..
  ultimately show ?thesis
    unfolding all Let_def using h(2) by (simp add: require_def)
qed

lemma finish_header_ok:
  assumes ok: "journal_ok env db" and g: "stops_items env op g db" and h: "h \<in> set (bd_headers db)" "bh_id h = op"
    and evidence: "terminal_evidence_ok target code (map g (items_of db op))" and target: "batch_terminal target"
  shows "journal_ok env (map_header op (terminal_header target code now) (rewrite_items op g db))"
proof -
  have gid: "bi_job_id (g i) = bi_job_id i" for i using g by (simp add: stops_items_def same_item_def)
  have old: "header_ok env (items_of db op) h" using ok h by (auto simp: journal_ok_def)
  have new: "header_ok env (map g (items_of db op)) (terminal_header target code now h)"
    unfolding terminal_header_def
    by (rule terminal_header_ok [OF old _ evidence target]) (use g in \<open>simp add: stops_items_def\<close>)
  show ?thesis
  proof (rule journal_ok_rewrite [OF ok h gid])
    show "header_ok env (map g (items_of db op)) (terminal_header target code now h)" by (rule new)
  qed (use target in \<open>auto simp: terminal_header_def batch_live_def batch_terminal_def\<close>)
qed

lemma stops_items_id: "journal_ok env db \<Longrightarrow> stops_items env op (\<lambda>i. i) db"
  by (simp add: stops_items_def journal_item_ok)

lemma settle_pending_stops:
  assumes "journal_ok env db" and "settle_pending op intent db = Inr db1"
    and "case intent_code intent of None \<Rightarrow> True | Some code \<Rightarrow> result_code_ok code"
  obtains g where "db1 = rewrite_items op g db" and "stops_items env op g db"
proof (cases "intent_code intent")
  case None
  then have "db1 = db" using assms(2) by (simp add: settle_pending_def result_simps)
  then show ?thesis using that [of "\<lambda>i. i"] stops_items_id [OF assms(1)] rewrite_items_id by metis
next
  case (Some code)
  then have "db1 = abandon_pending op code db" using assms(2) by (simp add: settle_pending_def)
  then show ?thesis using that abandon_stops [OF assms(1), of code op] assms(3) Some by auto
qed

lemma finish_tx_ok:
  assumes ok: "journal_ok env db" and run: "finish_tx env op intent ex now db = Inr db'"
    and code: "case intent_code intent of None \<Rightarrow> True | Some code \<Rightarrow> result_code_ok code"
  shows "journal_ok env db' \<and> keeps_settled db db'"
proof -
  obtain h where rh: "read_batch_header db op = Some h"
    using run by (cases "read_batch_header db op") (simp_all add: finish_tx_def)
  have h: "h \<in> set (bd_headers db)" "bh_id h = op" using read_header_Some [OF rh] by auto
  obtain p where p: "require_batch_executor env h ex = Inr p"
    using run rh by (cases "require_batch_executor env h ex") (simp_all add: finish_tx_def)
  note run = run [unfolded finish_tx_def rh option.case p and_then_simps]
  show ?thesis
  proof (cases "batch_terminal (bh_state h)")
    case True
    then have "db' = db" using run by (auto simp: result_simps split: if_splits)
    then show ?thesis using ok by simp
  next
    case False
    then have running: "bh_state h = B_Running" using run by (simp split: if_splits)
    obtain db1 where s: "settle_pending op intent db = Inr db1"
      using run False running by (cases "settle_pending op intent db") simp_all
    obtain g where g: "db1 = rewrite_items op g db" "stops_items env op g db"
      using settle_pending_stops [OF ok s code] by blast
    obtain target c where tc: "(if ct_failed (batch_item_counts db1 op) = 0 \<and> ct_abandoned (batch_item_counts db1 op) = 0
        then (B_Succeeded, None) else (intent_target intent, intent_code intent)) = (target, c)" by (rule prod.exhaust)
    have target: "batch_terminal target" using tc by (cases intent) (auto simp: batch_terminal_def split: if_splits)
    have "\<exists>db2. finish_header op target c now (rewrite_items op g db) = Inr (1, db2) \<and> db' = db2"
      using run False running s unfolding g(1) [symmetric] by (auto simp: Let_def tc and_then_eq_Inr_iff)
    then have "terminal_evidence_ok target c (map g (items_of db op)) \<and>
        db' = map_header op (terminal_header target c now) (rewrite_items op g db)"
      unfolding finish_header_eq [OF ok g(2) h] by (auto simp: Let_def split: if_splits)
    moreover have "keeps_settled db (rewrite_items op g db)"
      by (rule keeps_settled_rewrite) (use g(2) in \<open>simp add: stops_items_def\<close>)
    ultimately show ?thesis using finish_header_ok [OF ok g(2) h _ target] by (simp add: keeps_settled_def)
  qed
qed

section \<open>Recovery\<close>

lemma interrupted_code [simp]: "result_code_ok (lit ''PROCESS_INTERRUPTED'')"
  by (simp add: result_code_ok_def lit_def utf8_len_def)

definition interrupt_item :: "batch_item \<Rightarrow> batch_item" where
  "interrupt_item i =
     (if bi_state i = I_Pending then i\<lparr>bi_state := I_Abandoned, bi_result_code := Some (lit ''PROCESS_INTERRUPTED'')\<rparr> else i)"

lemma interrupt_rewrite:
  "abandon_pending op (lit ''PROCESS_INTERRUPTED'') db = rewrite_items op interrupt_item db"
proof -
  have "interrupt_item = (\<lambda>i. if bi_state i = I_Pending \<and> True
      then i\<lparr>bi_state := I_Abandoned, bi_result_code := Some (lit ''PROCESS_INTERRUPTED'')\<rparr> else i)"
    by (rule ext) (simp add: interrupt_item_def)
  then show ?thesis unfolding abandon_pending_def update_item_rewrite by (rule ssubst) (rule refl)
qed

lemma interrupt_stops: "journal_ok env db \<Longrightarrow> stops_items env op interrupt_item db"
  using stopped_item_ok [OF journal_item_ok, of env db _ op I_Abandoned "lit ''PROCESS_INTERRUPTED''"]
  by (auto simp: stops_items_def interrupt_item_def same_item_def request_of_def journal_item_ok)

lemma interrupt_no_pending: "bi_state (interrupt_item i) \<noteq> I_Pending"
  by (simp add: interrupt_item_def)

lemma recover_tx_eq:
  assumes ok: "journal_ok env db" and h: "h \<in> set (bd_headers db)" "bh_state h = B_Running"
  shows "\<exists>target c. batch_terminal target \<and>
     terminal_evidence_ok target c (map interrupt_item (items_of db (bh_id h))) \<and>
     recover_tx (bh_id h) now db =
       Inr (map_header (bh_id h) (terminal_header target c now) (rewrite_items (bh_id h) interrupt_item db))"
proof -
  let ?op = "bh_id h" and ?g = interrupt_item
  let ?is = "map ?g (items_of db ?op)"
  have g: "stops_items env ?op ?g db" by (rule interrupt_stops [OF ok])
  have gid: "bi_job_id (?g i) = bi_job_id i" for i by (simp add: interrupt_item_def)
  have d: "distinct (map bh_id (bd_headers db))" using ok by (simp add: journal_ok_def)
  have rh: "read_batch_header db ?op = Some h" by (rule read_header [OF d h(1)])
  have items: "items_of (rewrite_items ?op ?g db) ?op = ?is" by (simp add: rewrite_items_of [OF gid])
  have nopend: "\<forall>i \<in> set ?is. bi_state i \<noteq> I_Pending" using interrupt_no_pending by auto
  have old: "header_ok env (items_of db ?op) h" using ok h by (simp add: journal_ok_def)
  have total: "bh_total h = settled ?is" using settled_all [OF nopend] header_ok_length [OF old] by simp
  have good: "\<forall>i \<in> set ?is. item_ok env i" using g by (simp add: stops_items_def)
  let ?c = "counts_of ?is"
  have zero: "ct_failed ?c = 0 \<longleftrightarrow> (\<forall>i \<in> set ?is. bi_state i \<noteq> I_Failed)"
      "ct_abandoned ?c = 0 \<longleftrightarrow> (\<forall>i \<in> set ?is. bi_state i \<noteq> I_Abandoned)"
    by (simp_all only: counts_of_def item_counts.select_convs count_zero)
  have "0 \<le> ct_failed ?c" "0 \<le> ct_abandoned ?c" by (simp_all add: counts_of_def count_state_def)
  then have either: "ct_failed ?c + ct_abandoned ?c = 0 \<longleftrightarrow> ct_failed ?c = 0 \<and> ct_abandoned ?c = 0" by arith
  have "\<exists>first. (case first of None \<Rightarrow> True | Some code \<Rightarrow> result_code_ok code) \<and>
      (if ct_failed ?c = 0 then Inr None
       else case sort_key bi_ordinal (filter (\<lambda>i. bi_state i = I_Failed) ?is) of
              i # _ \<Rightarrow> (case bi_result_code i of
                 None \<Rightarrow> Inl (BatchEvidence ''interrupted batch failure code could not be recovered'')
               | Some code \<Rightarrow> Inr (Some code))
            | [] \<Rightarrow> Inl (BatchEvidence ''interrupted batch failure code could not be recovered'')) = (Inr first :: batch_error + utext option)"
  proof (cases "ct_failed ?c = 0")
    case False
    then have "filter (\<lambda>i. bi_state i = I_Failed) ?is \<noteq> []" unfolding zero filter_empty_conv by blast
    then obtain i js where i: "sort_key bi_ordinal (filter (\<lambda>i. bi_state i = I_Failed) ?is) = i # js"
      by (metis neq_Nil_conv set_empty set_sort)
    have "i \<in> set (sort_key bi_ordinal (filter (\<lambda>i. bi_state i = I_Failed) ?is))" unfolding i by simp
    then have "i \<in> set ?is" "bi_state i = I_Failed" unfolding set_sort set_filter by blast+
    then have "item_evidence_ok env i = Inr ()" "code_ok i" using good unfolding item_ok_def by blast+
    then show ?thesis
      using False i \<open>bi_state i = I_Failed\<close>
      by (cases "bi_result_code i") (simp_all add: item_evidence_ok_def code_ok_def require_def)
  qed (auto intro: exI [of _ None])
  then obtain first where first: "case first of None \<Rightarrow> True | Some code \<Rightarrow> result_code_ok code"
    and fe: "(if ct_failed ?c = 0 then Inr None
       else case sort_key bi_ordinal (filter (\<lambda>i. bi_state i = I_Failed) ?is) of
              i # _ \<Rightarrow> (case bi_result_code i of
                 None \<Rightarrow> Inl (BatchEvidence ''interrupted batch failure code could not be recovered'')
               | Some code \<Rightarrow> Inr (Some code))
            | [] \<Rightarrow> Inl (BatchEvidence ''interrupted batch failure code could not be recovered'')) = (Inr first :: batch_error + utext option)"
    by blast
  have run: "recover_tx ?op now db =
      (let (target, code) = (if ct_failed ?c + ct_abandoned ?c = 0 then (B_Succeeded, None)
             else (B_Failed, Some (case first of None \<Rightarrow> lit ''PROCESS_INTERRUPTED'' | Some code \<Rightarrow> code))) in
       and_then (finish_header ?op target code now (rewrite_items ?op ?g db)) (\<lambda>(changed, db3).
       and_then (require (changed = 1) (BatchEvidence ''interrupted batch could not be reconciled from item evidence'')) (\<lambda>_.
       Inr db3)))"
    by (simp only: recover_tx_def rh option.case h(2) batch_lifecycle.distinct if_False and_then_simps prod.case
        interrupt_rewrite batch_item_counts_def items Let_def fe)
  obtain target c where tc: "(if ct_failed ?c + ct_abandoned ?c = 0 then (B_Succeeded, None)
      else (B_Failed, Some (case first of None \<Rightarrow> lit ''PROCESS_INTERRUPTED'' | Some code \<Rightarrow> code))) = (target, c)"
    by (rule prod.exhaust)
  have evidence: "terminal_evidence_ok target c ?is" "batch_terminal target"
    using tc nopend first unfolding either zero
    by (auto simp: terminal_evidence_ok_def list_all_iff list_ex_iff batch_terminal_def split: if_splits option.splits)
  have "recover_tx ?op now db = Inr (map_header ?op (terminal_header target c now) (rewrite_items ?op ?g db))"
    unfolding run tc Let_def prod.case finish_header_eq [OF ok g h(1) refl]
    using evidence h(2) total by (simp add: require_def)
  then show ?thesis using evidence by blast
qed

lemma status_read:
  assumes "journal_ok env db" and "h \<in> set (bd_headers db)"
  obtains s where "get_batch_job_status env db (bh_id h) = Inr (Some s)" and "st_state s = bh_state h"
    and "st_operation_id s = bh_id h" and "st_counts s = counts_of (items_of db (bh_id h))"
proof -
  have h: "header_ok env (items_of db (bh_id h)) h" and d: "distinct (map bh_id (bd_headers db))" and v: "68 \<le> bd_schema db"
    using assms by (auto simp: journal_ok_def)
  obtain s where s: "status_from_header env db h = Inr s" "st_state s = bh_state h" "st_operation_id s = bh_id h"
      "st_counts s = counts_of (items_of db (bh_id h))"
    by (rule status_ok [OF h]) blast
  have "be_uuid env (bh_id h)" using h by (simp add: header_ok_def)
  then have "get_batch_job_status env db (bh_id h) = Inr (Some s)"
    using v s(1) read_header [OF d assms(2)]
    by (simp add: get_batch_job_status_def require_batch_schema_def validate_operation_uuid_def require_def)
  then show ?thesis using that s by blast
qed

lemma live_running: "journal_ok env db \<Longrightarrow> h \<in> set (bd_headers db) \<Longrightarrow> batch_live h \<Longrightarrow> bh_state h = B_Running"
  by (auto simp: journal_ok_def header_ok_def batch_live_def)

lemma no_live_no_pending:
  assumes "journal_ok env db" and "\<not> list_ex batch_live (bd_headers db)" and "i \<in> set (bd_items db)"
  shows "bi_state i \<noteq> I_Pending"
proof
  assume p: "bi_state i = I_Pending"
  have i: "i \<in> set (items_of db (bi_job_id i))" using assms(3) by (simp add: items_of_def)
  obtain h where "h \<in> set (bd_headers db)" "header_ok env (items_of db (bi_job_id i)) h"
    using journal_item_header [OF assms(1) i] by metis
  then show False using assms(2) pending_running [OF _ i p] by (auto simp: list_ex_iff batch_live_def)
qed

lemma recovery_cases:
  assumes ok: "journal_ok env db"
  shows "(\<not> list_ex batch_live (bd_headers db) \<and> recover_active_batch_job env now db = (Inr None, db)) \<or>
    (\<exists>h target c s db'. h \<in> set (bd_headers db) \<and> batch_terminal target \<and>
       db' = map_header (bh_id h) (terminal_header target c now) (rewrite_items (bh_id h) interrupt_item db) \<and>
       recover_active_batch_job env now db = (Inr (Some s), db') \<and> journal_ok env db' \<and> \<not> list_ex batch_live (bd_headers db'))"
proof (cases "filter batch_live (bd_headers db)")
  case Nil
  then have "\<not> list_ex batch_live (bd_headers db)" by (simp add: filter_empty_conv list_ex_iff)
  moreover have "active_batch_job env db = Inr None"
    using ok Nil by (simp add: active_batch_job_def require_batch_schema_def require_def journal_ok_def)
  ultimately show ?thesis by (simp add: recover_active_batch_job_def)
next
  case (Cons h hs)
  then have one: "filter batch_live (bd_headers db) = [h]" using ok by (simp add: journal_ok_def)
  have "h \<in> set (filter batch_live (bd_headers db))" unfolding one by simp
  then have h: "h \<in> set (bd_headers db)" and live: "batch_live h" by auto
  have running: "bh_state h = B_Running" by (rule live_running [OF ok h live])
  obtain s0 where s0: "get_batch_job_status env db (bh_id h) = Inr (Some s0)" "st_operation_id s0 = bh_id h"
    using status_read [OF ok h] by metis
  have act: "active_batch_job env db = Inr (Some s0)"
    using ok one s0 by (simp add: active_batch_job_def require_batch_schema_def require_def journal_ok_def)
  obtain target c where t: "batch_terminal target"
      "terminal_evidence_ok target c (map interrupt_item (items_of db (bh_id h)))"
      "recover_tx (bh_id h) now db = Inr (map_header (bh_id h) (terminal_header target c now) (rewrite_items (bh_id h) interrupt_item db))"
    using recover_tx_eq [OF ok h running, of now] by blast
  let ?db = "map_header (bh_id h) (terminal_header target c now) (rewrite_items (bh_id h) interrupt_item db)"
  have ok': "journal_ok env ?db" by (rule finish_header_ok [OF ok interrupt_stops [OF ok] h refl t(2,1)])
  have "terminal_header target c now h \<in> set (bd_headers ?db)" using h by force
  then obtain s where s: "get_batch_job_status env ?db (bh_id h) = Inr (Some s)"
    using status_read [OF ok', of "terminal_header target c now h"] by (auto simp: terminal_header_def)
  have dead: "x = h" if "x \<in> set (bd_headers db)" "batch_live x" for x
  proof -
    have "x \<in> set (filter batch_live (bd_headers db))" using that by simp
    then show ?thesis unfolding one by simp
  qed
  have nolive: "\<not> batch_live (if bh_id x = bh_id h then terminal_header target c now x else x)" if "x \<in> set (bd_headers db)" for x
    using dead [OF that] t(1) by (auto simp: terminal_header_def batch_live_def batch_terminal_def)
  have "\<not> list_ex batch_live (bd_headers ?db)"
    unfolding list_ex_iff map_header_fields rewrite_fields list.set_map using nolive by blast
  moreover have "recover_active_batch_job env now db = (Inr (Some s), ?db)"
    using act journal_validates [OF ok] t(3) s s0 by (simp add: recover_active_batch_job_def)
  ultimately show ?thesis using h t(1) ok' by blast
qed

section \<open>Admission\<close>

lemma batch_request_item_cases:
  assumes "batch_request_item env k i p = Inr (item, json)"
  obtains sha source where "projection_authority env p = Inr (json, sha, source)"
    and "item = \<lparr>ri_ordinal = k, ri_segment_id = i, ri_base_revision = pj_review_revision p,
                 ri_source_identity_sha256 = source, ri_before_projection_sha256 = sha\<rparr>"
  using assms by (auto simp: batch_request_item_def and_then_eq_Inr_iff)

lemma pending_item_ok:
  assumes codec: "codec env" and p: "read_batch_projection env db i = Inr (Some p)"
    and item: "batch_request_item env k i p = Inr (item, json)"
  shows "item_ok env (pending_item op k p json item)" and "request_of (pending_item op k p json item) = item"
proof -
  obtain sha source where auth: "projection_authority env p = Inr (json, sha, source)"
    and it: "item = \<lparr>ri_ordinal = k, ri_segment_id = i, ri_base_revision = pj_review_revision p,
                 ri_source_identity_sha256 = source, ri_before_projection_sha256 = sha\<rparr>"
    by (rule batch_request_item_cases [OF item])
  have f: "pj_schema p = 1" "ss_id (pj_segment p) = i" "\<forall>h \<in> set (pj_hypotheses p). sh_segment_id h = i"
    using read_projection_fields [OF p] by metis+
  have "be_parse_projection env json = Some p"
    using codec authority_lengths [OF auth] by (simp add: codec_def)
  then have "decode_before_projection env (pending_item op k p json item) = Inr p"
    using auth f by (simp add: decode_before_projection_def pending_item_def it list_ex_iff)
  then show "item_ok env (pending_item op k p json item)"
    using conjunct1 [OF authority_lengths [OF auth]]
    by (simp add: item_ok_def lengths_ok_def item_evidence_ok_def effect_ok_def code_ok_def require_def pending_item_def)
  show "request_of (pending_item op k p json item) = item"
    by (simp add: request_of_def pending_item_def it f)
qed

lemma admit_insert_items:
  assumes "codec env" and "admit_insert env cancel c op ids (int k) d db = Inr (d', db')"
  shows "\<exists>new. db' = db\<lparr>bd_items := bd_items db @ new\<rparr> \<and> (\<forall>i \<in> set new. item_ok env i \<and> bi_job_id i = op \<and> bi_state i = I_Pending) \<and>
    map bi_ordinal new = map int [k..<k + length ids] \<and> d' = foldl (digest_push env) d (map request_of new)"
  using assms(2)
proof (induction ids arbitrary: c k d db)
  case Nil
  then show ?case by (intro exI [of _ "[]"]) simp
next
  case (Cons i ids)
  obtain found where found: "read_batch_projection env db i = Inr found"
    using Cons.prems by (auto simp: and_then_eq_Inr_iff)
  obtain p where p: "found = Some p" using Cons.prems found by (cases found) (auto simp: and_then_eq_Inr_iff)
  obtain item json db1 where item: "batch_request_item env (int k) i p = Inr (item, json)"
    and ins: "insert_item (pending_item op (int k) p json item) db = Inr db1"
    and rest: "admit_insert env cancel (c + 1) op ids (int (Suc k)) (digest_push env d item) db1 = Inr (d', db')"
    using Cons.prems found p by (auto simp: and_then_eq_Inr_iff add.commute)
  let ?i = "pending_item op (int k) p json item"
  have db1: "db1 = db\<lparr>bd_items := bd_items db @ [?i]\<rparr>" using ins by (simp add: insert_item_def and_then_eq_Inr_iff)
  obtain new where new: "db' = db1\<lparr>bd_items := bd_items db1 @ new\<rparr>"
      "\<forall>i \<in> set new. item_ok env i \<and> bi_job_id i = op \<and> bi_state i = I_Pending"
      "map bi_ordinal new = map int [Suc k..<Suc k + length ids]"
      "d' = foldl (digest_push env) (digest_push env d item) (map request_of new)"
    using Cons.IH [OF rest] by blast
  have "item_ok env ?i" "request_of ?i = item" using pending_item_ok [OF assms(1) _ item] found p by auto
  then show ?case
    using new db1 by (intro exI [of _ "?i # new"]) (simp add: pending_item_def upt_rec)
qed

lemma admission_result:
  assumes ok: "journal_ok env db" and codec: "codec env" and hex: "hex_digests env"
    and checks: "admission_checks env op ids config ex cancel db = Inr ()"
    and run: "admit_tx env op kind ids config ex cancel now db = Inr db'"
  shows "journal_ok env db' \<and> keeps_settled db db'"
proof -
  note run = run [unfolded admit_tx_def Let_def and_then_eq_Inr_iff require_eq_Inr_iff]
  define pl where "pl d = \<lparr>bp_schema = 1, bp_operation_id = op, bp_kind = kind, bp_request_sha256 = digest_finish env d,
      bp_config_sha256 = config, bp_executor_git_sha = ex_git_sha ex, bp_attempt_generation = ex_attempt_generation ex,
      bp_executor_token_sha256 = ex_token_sha256 ex\<rparr>" for d
  define h0 where "h0 d = \<lparr>bh_id = op, bh_kind = kind, bh_state = B_Queued, bh_progress = 0, bh_completed = 0,
      bh_total = int (length ids), bh_error_code = None, bh_payload_json = be_payload_json env (pl d),
      bh_started_at = None, bh_finished_at = None\<rparr>" for d
  obtain d db1 d' db2 n where ins: "insert_header (h0 d) db = Inr db1"
    and items: "admit_insert env cancel (length ids + 2) op ids (int 0) (digest_new env op kind config) db1 = Inr (d', db2)"
    and same: "digest_finish env d' = digest_finish env d" and start: "start_batch op now db2 = Inr (n, db')" and n: "n = 1"
    using run by (auto simp: h0_def pl_def and_then_eq_Inr_iff)
  have fresh: "op \<notin> bh_id ` set (bd_headers db)" and nolive: "\<not> list_ex batch_live (bd_headers db)"
    and db1: "db1 = db\<lparr>bd_headers := bd_headers db @ [h0 d]\<rparr>"
    using ins by (auto simp: insert_header_def and_then_eq_Inr_iff h0_def)
  obtain new where new: "db2 = db1\<lparr>bd_items := bd_items db1 @ new\<rparr>"
      "\<forall>i \<in> set new. item_ok env i \<and> bi_job_id i = op \<and> bi_state i = I_Pending"
      "map bi_ordinal new = map int [0..<0 + length ids]"
      "d' = foldl (digest_push env) (digest_new env op kind config) (map request_of new)"
    using admit_insert_items [OF codec items] by blast
  have jobs: "bi_job_id ` set (bd_items db) \<subseteq> bh_id ` set (bd_headers db)" and d0: "distinct (map bh_id (bd_headers db))"
    using ok by (simp_all add: journal_ok_def)
  let ?F = "\<lambda>h. h\<lparr>bh_state := B_Running, bh_started_at := Some now\<rparr>"
  let ?P = "\<lambda>h. bh_id h = op \<and> bh_state h = B_Queued"
  have "update_header ?P ?F db2 = (if ?P (h0 d) then (1, map_header op ?F db2) else (0, db2))"
    by (rule update_header_unique) (use d0 fresh in \<open>auto simp: new(1) db1 h0_def\<close>)
  then have "db' = map_header op ?F db2"
    using start by (simp add: start_batch_def Let_def and_then_eq_Inr_iff h0_def)
  then have headers: "bd_headers db' = bd_headers db @ [?F (h0 d)]"
    using fresh by (auto simp: new(1) db1 h0_def intro!: map_idI)
  have old_items: "bd_items db' = bd_items db @ new" and schema: "bd_schema db' = bd_schema db"
    using \<open>db' = map_header op ?F db2\<close> by (simp_all add: new(1) db1)
  have none: "filter (\<lambda>i. bi_job_id i = op) (bd_items db) = []" using jobs fresh by (auto simp: filter_empty_conv)
  have mine: "items_of db' op = new" using none new(2) by (simp add: items_of_def old_items filter_id_conv)
  have theirs: "items_of db' (bh_id h) = items_of db (bh_id h)" if "h \<in> set (bd_headers db)" for h
  proof -
    have "bh_id h \<noteq> op" using that fresh by auto
    then have "filter (\<lambda>i. bi_job_id i = bh_id h) new = []" using new(2) by (auto simp: filter_empty_conv)
    then show ?thesis by (simp add: items_of_def old_items)
  qed
  have c: "be_uuid env op" "is_lower_hex 64 config" "is_lower_hex 40 (ex_git_sha ex)" "is_lower_hex 64 (ex_token_sha256 ex)"
      "1 \<le> ex_attempt_generation ex" "1 \<le> int (length ids)" "length ids \<le> MAX_BATCH_ITEMS_V1"
    using checks by (auto simp: admission_checks_def and_then_eq_Inr_iff validate_operation_uuid_def validate_sha256_def
        validate_git_sha_def validate_batch_item_count_def Suc_le_eq)
  have parse: "parse_batch_payload env (?F (h0 d)) = Inr (pl d)"
    using codec c hex by (simp add: parse_batch_payload_def codec_def h0_def pl_def require_def hex_digests_def digest_finish_def)
  have "settled new = 0" using new(2) by (simp add: settled_def filter_empty_conv)
  then have "header_ok env new (?F (h0 d))"
    unfolding header_ok_def using parse c new same
    by (auto simp: h0_def request_digest_def lifecycle_agrees_def pl_def)
  then have all: "\<forall>h \<in> set (bd_headers db'). header_ok env (items_of db' (bh_id h)) h"
    using ok theirs mine unfolding headers by (auto simp: journal_ok_def h0_def)
  have "filter batch_live (bd_headers db) = []" using nolive by (simp add: filter_empty_conv list_ex_iff)
  then have one: "length (filter batch_live (bd_headers db')) \<le> 1" unfolding headers by simp
  have ids: "distinct (map bh_id (bd_headers db'))" "bi_job_id ` set (bd_items db') \<subseteq> bh_id ` set (bd_headers db')"
    using d0 fresh jobs new(2) unfolding headers old_items by (auto simp: h0_def)
  show ?thesis using ok all one ids schema by (simp add: journal_ok_def keeps_settled_def old_items)
qed

section \<open>Undo and redo leave the journal alone\<close>

definition same_journal :: "batch_db \<Rightarrow> batch_db \<Rightarrow> bool" where
  "same_journal db db' \<longleftrightarrow>
     bd_schema db' = bd_schema db \<and> bd_headers db' = bd_headers db \<and> bd_items db' = bd_items db"

lemma same_journal_refl [simp]: "same_journal db db"
  by (simp add: same_journal_def)

lemma same_journal_trans: "same_journal a b \<Longrightarrow> same_journal b c \<Longrightarrow> same_journal a c"
  by (simp add: same_journal_def)

lemma same_journal_ok: "same_journal db db' \<Longrightarrow> journal_ok env db' = journal_ok env db"
  by (rule journal_ok_cong) (simp_all add: same_journal_def)

lemma same_journal_keeps: "same_journal db db' \<Longrightarrow> keeps_settled db db'"
  by (simp add: same_journal_def keeps_settled_def)

lemma same_journal_items: "same_journal db db' \<Longrightarrow> read_batch_item db' op k = read_batch_item db op k"
  by (simp add: same_journal_def read_batch_item_def items_of_def)

lemma same_journal_update: "update_segment P f db = (n, db') \<Longrightarrow> same_journal db db'"
  by (auto simp: update_segment_def same_journal_def)

lemma same_journal_delete: "same_journal db (delete_hypotheses i db)"
  by (simp add: delete_hypotheses_def advance_revision_def same_journal_def)

lemma same_journal_insert: "insert_hypotheses hs db = Inr db' \<Longrightarrow> same_journal db db'"
proof (induction hs arbitrary: db)
  case (Cons h hs)
  then obtain db1 where "insert_hypothesis h db = Inr db1" "insert_hypotheses hs db1 = Inr db'"
    by (auto simp: and_then_eq_Inr_iff)
  moreover have "same_journal db db1"
    using \<open>insert_hypothesis h db = Inr db1\<close>
    by (auto simp: insert_hypothesis_def advance_revision_def same_journal_def and_then_eq_Inr_iff)
  ultimately show ?case using Cons.IH same_journal_trans by blast
qed simp

text \<open>One inverse: what was compared, what was written, what was read back.\<close>

lemma apply_history_item_cases:
  assumes "apply_history_item env t e db = Inr (e', db')"
  obtains revision target db1 restored json sha source where
    "prepare_batch_history_item env db (ht_operation_id t) e (ht_expected_side t) = Inr (revision, target)"
    and "update_segment (\<lambda>r. ss_id (sg_segment r) = ep_segment_id e \<and> sg_review_revision r = revision)
           ((case ht_kind t of Normalize_Batch \<Rightarrow> restore_normalized | Transcribe \<Rightarrow> restore_machine) (pj_segment target)) db = (1, db1)"
    and "(case ht_kind t of
            Transcribe \<Rightarrow> insert_hypotheses (pj_hypotheses target) (delete_hypotheses (ep_segment_id e) db1)
          | Normalize_Batch \<Rightarrow> Inr db1) = Inr db'"
    and "read_batch_projection env db' (ep_segment_id e) = Inr (Some restored)"
    and "revision < pj_review_revision restored"
    and "projection_semantic_sha256 env restored = projection_semantic_sha256 env target"
    and "projection_authority env restored = Inr (json, sha, source)"
    and "e' = \<lparr>ep_ordinal = ep_ordinal e, ep_segment_id = ep_segment_id e, ep_projection_sha256 = sha,
               ep_review_revision = pj_review_revision restored\<rparr>"
proof -
  obtain revision target where prep: "prepare_batch_history_item env db (ht_operation_id t) e (ht_expected_side t) = Inr (revision, target)"
    using assms by (auto simp: apply_history_item_def and_then_eq_Inr_iff)
  obtain n db1 where upd: "update_segment (\<lambda>r. ss_id (sg_segment r) = ep_segment_id e \<and> sg_review_revision r = revision)
      ((case ht_kind t of Normalize_Batch \<Rightarrow> restore_normalized | Transcribe \<Rightarrow> restore_machine) (pj_segment target)) db = (n, db1)"
    by (rule prod.exhaust)
  note run = assms [unfolded apply_history_item_def prep and_then_simps prod.case Let_def upd and_then_eq_Inr_iff require_eq_Inr_iff]
  obtain db2 where hyps: "(case ht_kind t of
            Transcribe \<Rightarrow> insert_hypotheses (pj_hypotheses target) (delete_hypotheses (ep_segment_id e) db1)
          | Normalize_Batch \<Rightarrow> Inr db1) = Inr db2" and n: "n = 1"
    using run by blast
  obtain found where f: "read_batch_projection env db2 (ep_segment_id e) = Inr found" using run hyps by auto
  obtain restored where r: "found = Some restored" using run hyps f by (cases found) auto
  obtain json sha source where "revision < pj_review_revision restored"
      "projection_semantic_sha256 env restored = projection_semantic_sha256 env target"
      "projection_authority env restored = Inr (json, sha, source)"
      "e' = \<lparr>ep_ordinal = ep_ordinal e, ep_segment_id = ep_segment_id e, ep_projection_sha256 = sha,
               ep_review_revision = pj_review_revision restored\<rparr>" "db' = db2"
    using run hyps f r by (auto simp: and_then_eq_Inr_iff)
  then show ?thesis using that [OF prep upd [unfolded n]] hyps f r by blast
qed

lemma apply_item_same_journal: "apply_history_item env t e db = Inr (e', db') \<Longrightarrow> same_journal db db'"
proof (erule apply_history_item_cases)
  fix revision target db1
  assume "update_segment (\<lambda>r. ss_id (sg_segment r) = ep_segment_id e \<and> sg_review_revision r = revision)
           ((case ht_kind t of Normalize_Batch \<Rightarrow> restore_normalized | Transcribe \<Rightarrow> restore_machine) (pj_segment target)) db = (1, db1)"
    and h: "(case ht_kind t of
            Transcribe \<Rightarrow> insert_hypotheses (pj_hypotheses target) (delete_hypotheses (ep_segment_id e) db1)
          | Normalize_Batch \<Rightarrow> Inr db1) = Inr db'"
  then have "same_journal db db1" using same_journal_update by blast
  then show ?thesis
    using h same_journal_insert same_journal_delete same_journal_trans by (cases "ht_kind t") (auto, blast)
qed

lemma apply_items_same_journal: "apply_history_items env t es db = Inr (es', db') \<Longrightarrow> same_journal db db'"
proof (induction es arbitrary: db es')
  case (Cons e es)
  obtain e1 db1 es1 where "apply_history_item env t e db = Inr (e1, db1)" "apply_history_items env t es db1 = Inr (es1, db')"
    using Cons.prems by (auto simp: and_then_eq_Inr_iff)
  then show ?case using Cons.IH apply_item_same_journal same_journal_trans by blast
qed simp

lemma apply_history_cases:
  assumes "apply_batch_job_history env t db = (Inr t', db')"
  obtains s items where "validate_one_batch_job_authority env db (ht_operation_id t) = Inr s" and "\<not> list_ex batch_live (bd_headers db)"
    and "batch_terminal (st_state s)" and "st_kind s = ht_kind t" and "ct_applied (st_counts s) = int (length (ht_items t))"
    and "all_ok (\<lambda>e. and_then (prepare_batch_history_item env db (ht_operation_id t) e (ht_expected_side t)) (\<lambda>_. Inr ())) (ht_items t) = Inr ()"
    and "apply_history_items env t (ht_items t) db = Inr (items, db')"
    and "t' = t\<lparr>ht_expected_side := opposite (ht_expected_side t), ht_items := items\<rparr>"
  using assms unfolding apply_batch_job_history_def
proof (cases rule: savepoint_cases)
  case (2 x)
  then have "apply_history_tx env t db = Inr (t', db')" by (auto simp: and_then_eq_Inr_iff)
  then show ?thesis using that unfolding apply_history_tx_def by (auto simp: and_then_eq_Inr_iff)
qed simp

lemma apply_history_same_journal: "same_journal db (snd (apply_batch_job_history env t db))"
proof -
  obtain res db' where run: "apply_batch_job_history env t db = (res, db')" by (rule prod.exhaust)
  have "same_journal db db'"
  proof (cases res)
    case (Inl e)
    then have "db' = db" using run savepoint_error unfolding apply_batch_job_history_def by blast
    then show ?thesis by simp
  next
    case (Inr t')
    show ?thesis by (rule apply_history_cases [OF run [unfolded Inr]]) (rule apply_items_same_journal)
  qed
  then show ?thesis by (simp add: run)
qed

section \<open>Reachable journals\<close>

text \<open>
  Any method of the journal, with any arguments, and any write of other code to segments, hypotheses and models.
\<close>

inductive batch_step :: "batch_env \<Rightarrow> batch_db \<Rightarrow> batch_db \<Rightarrow> bool" for env where
  "batch_step env db (snd (admit_batch_job env op kind ids config ex cancel now db))"
| "batch_step env db (snd (commit_batch_normalization env op k t v ex db))"
| "batch_step env db (snd (commit_batch_champion_draft env op k d ex now db))"
| "batch_step env db (snd (finish_batch_job env op intent ex now db))"
| "batch_step env db (snd (recover_active_batch_job env now db))"
| "batch_step env db (snd (apply_batch_job_history env t db))"
| "same_journal db db' \<Longrightarrow> batch_step env db db'"

inductive batch_reachable :: "batch_env \<Rightarrow> batch_db \<Rightarrow> bool" for env where
  reach_start: "68 \<le> bd_schema db \<Longrightarrow> bd_headers db = [] \<Longrightarrow> bd_items db = [] \<Longrightarrow> batch_reachable env db"
| reach_step: "batch_reachable env db \<Longrightarrow> batch_step env db db' \<Longrightarrow> batch_reachable env db'"

lemma with_status_snd: "snd (with_status env op db r) = (case r of Inl _ \<Rightarrow> db | Inr db' \<Rightarrow> db')"
  by (cases r) (simp_all add: with_status_def)

lemma batch_step_ok:
  assumes "batch_step env db db'" and ok: "journal_ok env db" and codec: "codec env" and hex: "hex_digests env"
  shows "journal_ok env db' \<and> keeps_settled db db'"
  using assms(1)
proof cases
  case (1 op kind ids config ex cancel now)
  then show ?thesis
    using ok admission_result [OF ok codec hex]
    by (auto simp: admit_batch_job_def with_status_snd and_then_eq_Inr_iff split: sum.split)
next
  case (2 op k t v ex)
  obtain res where "commit_batch_normalization env op k t v ex db = (res, db')" using 2 by (cases "commit_batch_normalization env op k t v ex db") simp
  then show ?thesis using normalization_result [OF ok codec] ok by (force simp: commit_result_def)
next
  case (3 op k d ex now)
  obtain res where "commit_batch_champion_draft env op k d ex now db = (res, db')" using 3 by (cases "commit_batch_champion_draft env op k d ex now db") simp
  then show ?thesis using champion_result [OF ok codec] ok by (force simp: commit_result_def)
next
  case (4 op intent ex now)
  then show ?thesis
    using ok finish_tx_ok [OF ok]
    by (auto simp: finish_batch_job_def with_status_snd and_then_eq_Inr_iff validate_result_code_def split: sum.split option.splits)
next
  case (5 now)
  have keep: "keeps_settled db (map_header op f (rewrite_items op interrupt_item db))" for op f
    using keeps_settled_rewrite [of interrupt_item db op] by (simp add: interrupt_item_def keeps_settled_def)
  show ?thesis
    using recovery_cases [OF ok, of now]
  proof (elim disjE exE conjE)
    assume "recover_active_batch_job env now db = (Inr None, db)"
    then show ?thesis by (simp add: 5 ok)
  next
    fix h target c s d
    assume d: "d = map_header (bh_id h) (terminal_header target c now) (rewrite_items (bh_id h) interrupt_item db)"
      and r: "recover_active_batch_job env now db = (Inr (Some s), d)" and k: "journal_ok env d"
    have eq: "db' = d" unfolding 5 r by simp
    show ?thesis
    proof
      show "journal_ok env db'" unfolding eq by (rule k)
      show "keeps_settled db db'" unfolding eq d by (rule keep)
    qed
  qed
next
  case (6 t)
  have "same_journal db db'" unfolding 6 by (rule apply_history_same_journal)
  then show ?thesis using ok same_journal_ok same_journal_keeps by blast
next
  case 7
  then show ?thesis using ok same_journal_ok same_journal_keeps by blast
qed

lemma batch_steps_ok:
  assumes "(batch_step env)\<^sup>*\<^sup>* db db'" and ok: "journal_ok env db" and codec: "codec env" and hex: "hex_digests env"
  shows "journal_ok env db' \<and> keeps_settled db db'"
  using assms(1)
proof induction
  case base
  then show ?case using ok by simp
next
  case (step db1 db2)
  then show ?case using batch_step_ok [OF step.hyps(2) _ codec hex] keeps_settled_trans by blast
qed

lemma batch_reachable_ok:
  assumes "batch_reachable env db" and "codec env" and "hex_digests env"
  shows "journal_ok env db"
  using assms(1)
proof induction
  case (reach_start db)
  then show ?case by (simp add: journal_ok_def)
next
  case (reach_step db db')
  then show ?case using batch_step_ok assms(2,3) by blast
qed

end
