(* ===== verification/Batch_Undo.thy ===== *)
theory Batch_Undo
  imports Batch_Safety
begin

text \<open>
  What a batch promises its users: recovery after a crash, human rows left alone, one effect per item, and an
  undo that redo takes back.
\<close>

section \<open>Validation and recovery\<close>


lemma interrupt_all:
  assumes ok: "journal_ok env db" and h: "h \<in> set (bd_headers db)"
    and dead: "\<not> list_ex batch_live (bd_headers (map_header (bh_id h) f (rewrite_items (bh_id h) interrupt_item db)))"
  shows "bd_items (rewrite_items (bh_id h) interrupt_item db) = map interrupt_item (bd_items db)"
proof -
  have "interrupt_item i = i" if i: "i \<in> set (bd_items db)" "bi_job_id i \<noteq> bh_id h" for i
  proof -
    have "i \<in> set (items_of db (bi_job_id i))" using i by (simp add: items_of_def)
    then obtain g where g: "g \<in> set (bd_headers db)" "bh_id g = bi_job_id i" "header_ok env (items_of db (bi_job_id i)) g"
      and mem: "i \<in> set (items_of db (bi_job_id i))"
      using journal_item_header [OF ok] by metis
    have "\<not> batch_live g" using dead g(1,2) i(2) by (auto simp: list_ex_iff)
    then have "bi_state i \<noteq> I_Pending" using pending_running [OF g(3) mem] by (auto simp: batch_live_def)
    then show ?thesis by (simp add: interrupt_item_def)
  qed
  then show ?thesis by (simp add: rewrite_items_def)
qed


section \<open>Commits\<close>

definition segment_ids :: "batch_db \<Rightarrow> utext list" where
  "segment_ids db = map (\<lambda>r. ss_id (sg_segment r)) (bd_segments db)"

lemma commit_rows:
  assumes c: "commit_result env op k db outcome db'" and d: "distinct (segment_ids db)"
  shows "list_all2 (\<lambda>r r'. machine_step r r' \<and> (segment_is_human_owned (sg_segment r) \<longrightarrow> r' = r)) (bd_segments db) (bd_segments db')"
proof -
  consider "bd_segments db' = bd_segments db"
    | i before F where "compare_current_to_before env db i = Inr (Inr before)" "bd_segments db' = map F (bd_segments db)"
        "\<forall>r. machine_step r (F r)" "\<forall>r. ss_id (sg_segment r) \<noteq> bi_segment_id i \<longrightarrow> F r = r"
    using c unfolding commit_result_def by blast
  then show ?thesis
  proof cases
    case 1
    then show ?thesis by (simp add: list_all2_same)
  next
    case 2
    obtain r0 where r0: "stored_segment db (bi_segment_id i) = Some r0" "pj_segment before = sg_segment r0"
      using read_projection_fields [OF compare_cases(1) [OF 2(1)]] by metis
    have "F r = r" if r: "r \<in> set (bd_segments db)" "segment_is_human_owned (sg_segment r)" for r
    proof (rule ccontr)
      assume "F r \<noteq> r"
      then have id: "ss_id (sg_segment r) = bi_segment_id i" using 2(4) by blast
      have "stored_segment db (ss_id (sg_segment r)) = Some r"
        unfolding stored_segment_def using find_unique [OF d [unfolded segment_ids_def] r(1)] .
      then show False using id r0 r(2) compare_cases(2) [OF 2(1)] by simp
    qed
    then show ?thesis using 2 by (simp add: list_all2_map2 list_all2_same)
  qed
qed


lemma settled_commit:
  assumes j: "journal_ok env db" "j \<in> set (items_of db op)" "bi_ordinal j = k" "bi_state j \<noteq> I_Pending"
    and run: "commit_item env op k kind ex db existing apply_effect = Inr (outcome, db')"
  obtains payload where "existing payload j = Inr outcome" and "db' = db"
  using run
proof (cases rule: commit_item_cases)
  case (1 h payload i)
  then have "i = j" using read_batch_item_Some [OF 1(4)] same_ordinal_same_item [OF j(1) _ j(2)] j(3) by metis
  then show ?thesis using that 1 by blast
next
  case (2 i code)
  then have "i = j" using read_batch_item_Some [OF 2(1)] same_ordinal_same_item [OF j(1) _ j(2)] j(3) by metis
  then show ?thesis using 2 j(4) by simp
next
  case (3 h payload i before)
  then have "i = j" using read_batch_item_Some [OF 3(4)] same_ordinal_same_item [OF j(1) _ j(2)] j(3) by metis
  then show ?thesis using 3 j(4) by simp
qed

lemma existing_applied:
  assumes "bi_state j = I_Applied" and "decode_after_projection env j = Inr (Some after)"
  shows "existing_normalize_outcome env j n v = Inr outcome \<Longrightarrow> outcome = AlreadyApplied (pj_review_revision after)"
    and "existing_champion_outcome env payload j d = Inr outcome \<Longrightarrow> outcome = AlreadyApplied (pj_review_revision after)"
  using assms by (auto simp: existing_normalize_outcome_def existing_champion_outcome_def Let_def split: if_splits)

lemma settled_again:
  assumes j: "journal_ok env db" "j \<in> set (items_of db op)" "bi_ordinal j = k" "bi_state j = I_Applied"
      "decode_after_projection env j = Inr (Some after)"
    and run: "commit_batch_normalization env op k t v ex db = (res, db') \<or> commit_batch_champion_draft env op k d ex now db = (res, db')"
  shows "db' = db \<and> (\<forall>outcome. res = Inr outcome \<longrightarrow> outcome = AlreadyApplied (pj_review_revision after))"
  using run
proof
  assume "commit_batch_normalization env op k t v ex db = (res, db')"
  then show ?thesis
    unfolding commit_batch_normalization_def
  proof (cases rule: savepoint_cases)
    case (2 outcome)
    then have "commit_item env op k Normalize_Batch ex db (\<lambda>_ i. existing_normalize_outcome env i (be_nfc env t) v)
        (\<lambda>_ i before. commit_normalized env op k (be_nfc env t) v db i before) = Inr (outcome, db')"
      unfolding Let_def and_then_eq_Inr_iff by blast
    from settled_commit [OF j(1-3) _ this] have "existing_normalize_outcome env j (be_nfc env t) v = Inr outcome \<and> db' = db"
      using j(4) by auto
    then show ?thesis using existing_applied(1) [OF j(4,5)] 2 by auto
  qed simp
next
  assume "commit_batch_champion_draft env op k d ex now db = (res, db')"
  then show ?thesis
    unfolding commit_batch_champion_draft_def
  proof (cases rule: savepoint_cases)
    case (2 outcome)
    then have "commit_item env op k Transcribe ex db (\<lambda>payload i. existing_champion_outcome env payload i d)
        (commit_champion env op k d now db) = Inr (outcome, db')"
      unfolding and_then_eq_Inr_iff by blast
    from settled_commit [OF j(1-3) _ this] obtain payload where "existing_champion_outcome env payload j d = Inr outcome \<and> db' = db"
      using j(4) by auto
    then show ?thesis using existing_applied(2) [OF j(4,5)] 2 by auto
  qed simp
qed


section \<open>Undo and redo\<close>

definition endpoint_of :: "batch_env \<Rightarrow> batch_db \<Rightarrow> utext \<Rightarrow> int \<Rightarrow> history_side \<Rightarrow> projection option" where
  "endpoint_of env db op ordinal side =
     (case read_batch_item db op ordinal of
        Inr (Some i) \<Rightarrow>
          (case side of
             Before \<Rightarrow> (case decode_before_projection env i of Inr p \<Rightarrow> Some p | Inl _ \<Rightarrow> None)
           | After \<Rightarrow> (case decode_after_projection env i of Inr p \<Rightarrow> p | Inl _ \<Rightarrow> None))
      | _ \<Rightarrow> None)"

lemma endpoint_same_journal: "same_journal db db' \<Longrightarrow> endpoint_of env db' op k side = endpoint_of env db op k side"
  by (simp add: endpoint_of_def same_journal_items)

lemma decode_after_fields:
  assumes "decode_after_projection env i = Inr (Some p)"
  shows "ss_id (pj_segment p) = bi_segment_id i" and "\<forall>h \<in> set (pj_hypotheses p). sh_segment_id h = bi_segment_id i"
  using assms unfolding decode_after_projection_def
  by (auto simp: result_simps list_ex_iff split: option.splits if_splits)

lemma prepare_cases:
  assumes "prepare_batch_history_item env db op e side = Inr (revision, target)"
  obtains p now where "endpoint_of env db op (ep_ordinal e) side = Some p"
    and "endpoint_of env db op (ep_ordinal e) (opposite side) = Some target"
    and "read_batch_projection env db (ep_segment_id e) = Inr (Some now)" and "revision = pj_review_revision now"
    and "projection_semantic_sha256 env now = projection_semantic_sha256 env p"
    and "\<forall>h \<in> set (pj_hypotheses target). sh_segment_id h = ep_segment_id e"
proof -
  obtain found where f: "read_batch_item db op (ep_ordinal e) = Inr found"
    using assms by (cases "read_batch_item db op (ep_ordinal e)") (simp_all add: prepare_batch_history_item_def)
  obtain i where i: "found = Some i" using assms f by (cases found) (simp_all add: prepare_batch_history_item_def)
  note run = assms [unfolded prepare_batch_history_item_def f i and_then_simps option.case and_then_eq_Inr_iff require_eq_Inr_iff]
  obtain before where b: "decode_before_projection env i = Inr before" and seg: "bi_segment_id i = ep_segment_id e"
    using run by blast
  obtain found_after where fa: "decode_after_projection env i = Inr found_after" using run b by auto
  obtain after where a: "found_after = Some after" using run b fa by (cases found_after) auto
  obtain found_now where fn: "read_batch_projection env db (ep_segment_id e) = Inr found_now"
    using run b fa a by (auto simp: Let_def and_then_eq_Inr_iff split: history_side.splits)
  obtain now where n: "found_now = Some now"
    using run b fa a fn by (cases found_now) (auto simp: Let_def and_then_eq_Inr_iff split: history_side.splits)
  have rest: "(case side of Before \<Rightarrow> projection_semantic_sha256 env now = projection_semantic_sha256 env before \<and> target = after
         | After \<Rightarrow> projection_semantic_sha256 env now = projection_semantic_sha256 env after \<and> target = before)"
      "revision = pj_review_revision now"
    using run b fa a fn n by (auto simp: Let_def and_then_eq_Inr_iff split: history_side.splits)
  have hyps: "\<forall>h \<in> set (pj_hypotheses target). sh_segment_id h = ep_segment_id e"
    using rest(1) decode_before_fields(6) [OF b] decode_after_fields(2) [OF fa [unfolded a]] seg
    by (cases side) auto
  show ?thesis
  proof (cases side)
    case Before
    show ?thesis by (rule that [of before now]) (use rest hyps f i b fa a fn n Before in \<open>simp_all add: endpoint_of_def\<close>)
  next
    case After
    show ?thesis by (rule that [of after now]) (use rest hyps f i b fa a fn n After in \<open>simp_all add: endpoint_of_def\<close>)
  qed
qed

text \<open>Rows and hypotheses of other segments.\<close>

definition elsewhere :: "utext \<Rightarrow> batch_db \<Rightarrow> batch_db \<Rightarrow> bool" where
  "elsewhere i db db' \<longleftrightarrow>
     (\<forall>j. j \<noteq> i \<longrightarrow> stored_segment db' j = stored_segment db j \<and> hypotheses_of db' j = hypotheses_of db j)"

lemma elsewhere_trans: "elsewhere i a b \<Longrightarrow> elsewhere i b c \<Longrightarrow> elsewhere i a c"
  by (simp add: elsewhere_def)

lemma elsewhere_rows:
  assumes "rewrites_rows F i db db'" and "\<And>j. j \<noteq> i \<Longrightarrow> hypotheses_of db' j = hypotheses_of db j"
  shows "elsewhere i db db'"
proof -
  have "stored_segment db' j = stored_segment db j" if "j \<noteq> i" for j
  proof (cases "stored_segment db j")
    case (Some r)
    then have "ss_id (sg_segment r) = j" unfolding stored_segment_def by (auto dest: find_SomeD)
    then have "F r = r" using assms(1) that by (simp add: rewrites_rows_def)
    then show ?thesis using rewrites_segment_row [OF assms(1)] Some by simp
  qed (simp add: rewrites_segment_row [OF assms(1)])
  then show ?thesis using assms(2) by (simp add: elsewhere_def)
qed

lemma elsewhere_update:
  assumes "update_segment P f db = (n, db')" and "machine_only f" and "\<And>r. P r \<Longrightarrow> ss_id (sg_segment r) = i"
  shows "elsewhere i db db'"
proof (rule elsewhere_rows [OF rewrites_update [OF assms]])
  fix j show "hypotheses_of db' j = hypotheses_of db j"
    using assms(1) by (auto simp: update_segment_def hypotheses_of_def)
qed

lemma elsewhere_delete: "elsewhere i db (delete_hypotheses i db)"
  unfolding delete_hypotheses_def
  by (intro elsewhere_rows [OF rewrites_advance])
    (auto simp: hypotheses_of_def advance_revision_def intro!: arg_cong [where f = "sort_key sh_model_id"] filter_cong)

lemma elsewhere_insert:
  "insert_hypotheses hs db = Inr db' \<Longrightarrow> \<forall>h \<in> set hs. sh_segment_id h = i \<Longrightarrow> elsewhere i db db'"
proof (induction hs arbitrary: db)
  case Nil
  then show ?case by (simp add: elsewhere_def)
next
  case (Cons h hs)
  obtain db1 where one: "insert_hypothesis h db = Inr db1" and rest: "insert_hypotheses hs db1 = Inr db'"
    using Cons.prems(1) by (auto simp: and_then_eq_Inr_iff)
  have i: "sh_segment_id h = i" using Cons.prems(2) by simp
  have db1: "db1 = advance_revision i 1 (db\<lparr>bd_hypotheses := bd_hypotheses db @ [h]\<rparr>)"
    using one i by (simp add: insert_hypothesis_def and_then_eq_Inr_iff)
  have "elsewhere i db db1"
    unfolding db1 by (rule elsewhere_rows [OF rewrites_advance]) (simp add: hypotheses_of_def advance_revision_def i)
  then show ?case using Cons.IH [OF rest] Cons.prems(2) elsewhere_trans by auto
qed

lemma elsewhere_read:
  "elsewhere i db db' \<Longrightarrow> j \<noteq> i \<Longrightarrow> read_batch_projection env db' j = read_batch_projection env db j"
  by (simp add: elsewhere_def read_batch_projection_def cong: option.case_cong)

lemma apply_item_elsewhere:
  assumes "apply_history_item env t e db = Inr (e', db')"
  shows "elsewhere (ep_segment_id e) db db'"
proof (rule apply_history_item_cases [OF assms])
  fix revision target db1
  assume prep: "prepare_batch_history_item env db (ht_operation_id t) e (ht_expected_side t) = Inr (revision, target)"
    and upd: "update_segment (\<lambda>r. ss_id (sg_segment r) = ep_segment_id e \<and> sg_review_revision r = revision)
           ((case ht_kind t of Normalize_Batch \<Rightarrow> restore_normalized | Transcribe \<Rightarrow> restore_machine) (pj_segment target)) db = (1, db1)"
    and hyps: "(case ht_kind t of
            Transcribe \<Rightarrow> insert_hypotheses (pj_hypotheses target) (delete_hypotheses (ep_segment_id e) db1)
          | Normalize_Batch \<Rightarrow> Inr db1) = Inr db'"
  have "elsewhere (ep_segment_id e) db db1"
    by (rule elsewhere_update [OF upd]) (cases "ht_kind t", auto)
  moreover have "elsewhere (ep_segment_id e) db1 db'"
  proof (cases "ht_kind t")
    case Transcribe
    then have ins: "insert_hypotheses (pj_hypotheses target) (delete_hypotheses (ep_segment_id e) db1) = Inr db'" using hyps by simp
    show ?thesis
      by (rule elsewhere_trans [OF elsewhere_delete elsewhere_insert [OF ins]])
        (rule prepare_cases [OF prep], assumption)
  next
    case Normalize_Batch
    then show ?thesis using hyps by (simp add: elsewhere_def)
  qed
  ultimately show ?thesis by (rule elsewhere_trans)
qed

lemma apply_items_content:
  assumes "apply_history_items env t es db = Inr (es', db')"
  shows "map ep_ordinal es' = map ep_ordinal es \<and> map ep_segment_id es' = map ep_segment_id es \<and>
    (\<forall>i. i \<notin> ep_segment_id ` set es \<longrightarrow> read_batch_projection env db' i = read_batch_projection env db i) \<and>
    (\<forall>i \<in> ep_segment_id ` set es. \<exists>e \<in> set es. \<exists>target q. ep_segment_id e = i \<and>
       endpoint_of env db (ht_operation_id t) (ep_ordinal e) (opposite (ht_expected_side t)) = Some target \<and>
       read_batch_projection env db' i = Inr (Some q) \<and>
       projection_semantic_sha256 env q = projection_semantic_sha256 env target \<and>
       (\<forall>p. read_batch_projection env db i = Inr (Some p) \<longrightarrow> pj_review_revision p < pj_review_revision q))"
  using assms
proof (induction es arbitrary: db es')
  case (Cons e es)
  obtain e1 db1 es1 where one: "apply_history_item env t e db = Inr (e1, db1)"
    and rest: "apply_history_items env t es db1 = Inr (es1, db')" and es': "es' = e1 # es1"
    using Cons.prems by (auto simp: and_then_eq_Inr_iff)
  let ?i = "ep_segment_id e"
  obtain target q p where q: "read_batch_projection env db1 ?i = Inr (Some q)"
      "projection_semantic_sha256 env q = projection_semantic_sha256 env target"
      "endpoint_of env db (ht_operation_id t) (ep_ordinal e) (opposite (ht_expected_side t)) = Some target"
      "read_batch_projection env db ?i = Inr (Some p)" "pj_review_revision p < pj_review_revision q"
      "ep_ordinal e1 = ep_ordinal e" "ep_segment_id e1 = ?i"
    by (rule apply_history_item_cases [OF one], erule prepare_cases) auto
  have other: "read_batch_projection env db1 j = read_batch_projection env db j" if "j \<noteq> ?i" for j
    using elsewhere_read [OF apply_item_elsewhere [OF one] that] .
  have same: "endpoint_of env db1 op k s = endpoint_of env db op k s" for op k s
    by (rule endpoint_same_journal [OF apply_item_same_journal [OF one]])
  note IH = Cons.IH [OF rest, unfolded same]
  show ?case
  proof (intro conjI ballI allI impI)
    fix i
    assume "i \<notin> ep_segment_id ` set (e # es)"
    then show "read_batch_projection env db' i = read_batch_projection env db i" using IH other [of i] by auto
  next
    fix i
    assume i: "i \<in> ep_segment_id ` set (e # es)"
    let ?Q = "\<lambda>e d. \<exists>target q. ep_segment_id e = i \<and>
       endpoint_of env db (ht_operation_id t) (ep_ordinal e) (opposite (ht_expected_side t)) = Some target \<and>
       read_batch_projection env db' i = Inr (Some q) \<and>
       projection_semantic_sha256 env q = projection_semantic_sha256 env target \<and>
       (\<forall>p. read_batch_projection env d i = Inr (Some p) \<longrightarrow> pj_review_revision p < pj_review_revision q)"
    show "\<exists>e \<in> set (e # es). ?Q e db"
    proof (cases "i \<in> ep_segment_id ` set es")
      case True
      then obtain g where g: "g \<in> set es" "?Q g db1" using IH by blast
      have "?Q g db"
      proof (cases "i = ?i")
        case True
        then show ?thesis using g(2) q(1,4,5) by fastforce
      next
        case False
        then show ?thesis using g(2) other [OF False] by simp
      qed
      then show ?thesis using g(1) by auto
    next
      case False
      then have "i = ?i" "read_batch_projection env db' i = read_batch_projection env db1 i" using i IH by auto
      then show ?thesis using q by (intro bexI [of _ e] exI [of _ target] exI [of _ q]) auto
    qed
  qed (use IH es' q in auto)
qed simp

lemma all_ok_iff: "all_ok f xs = Inr () \<longleftrightarrow> (\<forall>x \<in> set xs. f x = Inr ())"
  by (induction xs) (simp_all add: and_then_eq_Inr_iff)

text \<open>
  C10. Undo followed by redo of a batch (or redo by undo) restores every row: each row the token names has the content
  it had before, machine and human columns and hypotheses alike, at a strictly newer revision; every other row reads
  as before; the token faces the same side again and the journal is untouched. Two contents of one row with the same
  semantic digest are taken to be the same content.
\<close>

theorem batch_undo_redo_restores:
  assumes first: "apply_batch_job_history env t db = (Inr t1, db1)"
    and second: "apply_batch_job_history env t1 db1 = (Inr t2, db2)"
    and collision_free: "\<And>i p q. i \<in> ep_segment_id ` set (ht_items t) \<Longrightarrow> read_batch_projection env db i = Inr (Some p) \<Longrightarrow> read_batch_projection env db2 i = Inr (Some q) \<Longrightarrow>
      projection_semantic_sha256 env p = projection_semantic_sha256 env q \<Longrightarrow>
      p\<lparr>pj_review_revision := 0\<rparr> = q\<lparr>pj_review_revision := 0\<rparr>"
  shows "ht_expected_side t2 = ht_expected_side t \<and> bd_headers db2 = bd_headers db \<and> bd_items db2 = bd_items db \<and>
    (\<forall>i. i \<notin> ep_segment_id ` set (ht_items t) \<longrightarrow> read_batch_projection env db2 i = read_batch_projection env db i) \<and>
    (\<forall>i \<in> ep_segment_id ` set (ht_items t). \<exists>p q. read_batch_projection env db i = Inr (Some p) \<and>
       read_batch_projection env db2 i = Inr (Some q) \<and>
       q\<lparr>pj_review_revision := 0\<rparr> = p\<lparr>pj_review_revision := 0\<rparr> \<and> pj_review_revision p < pj_review_revision q)"
proof -
  let ?op = "ht_operation_id t" and ?s = "ht_expected_side t"
  have opp: "opposite (opposite x) = x" for x by (cases x) simp_all
  obtain es1 where pass: "all_ok (\<lambda>e. and_then (prepare_batch_history_item env db ?op e ?s) (\<lambda>_. Inr ())) (ht_items t) = Inr ()"
    and a1: "apply_history_items env t (ht_items t) db = Inr (es1, db1)"
    and t1: "t1 = t\<lparr>ht_expected_side := opposite ?s, ht_items := es1\<rparr>"
    by (rule apply_history_cases [OF first])
  obtain es2 where "apply_history_items env t1 (ht_items t1) db1 = Inr (es2, db2)"
      "t2 = t1\<lparr>ht_expected_side := opposite (ht_expected_side t1), ht_items := es2\<rparr>"
    by (rule apply_history_cases [OF second])
  then have a2: "apply_history_items env t1 es1 db1 = Inr (es2, db2)" and t2: "t2 = t1\<lparr>ht_expected_side := ?s, ht_items := es2\<rparr>"
    using t1 opp by simp_all
  note c1 = apply_items_content [OF a1] and c2 = apply_items_content [OF a2]
  have j: "same_journal db db1" "same_journal db db2"
    using apply_items_same_journal [OF a1] apply_items_same_journal [OF a2] same_journal_trans by blast+
  have segs: "ep_segment_id ` set es1 = ep_segment_id ` set (ht_items t)" using c1 by (metis list.set_map)
  have "\<exists>p q. read_batch_projection env db i = Inr (Some p) \<and> read_batch_projection env db2 i = Inr (Some q) \<and>
       q\<lparr>pj_review_revision := 0\<rparr> = p\<lparr>pj_review_revision := 0\<rparr> \<and> pj_review_revision p < pj_review_revision q"
    if i: "i \<in> ep_segment_id ` set (ht_items t)" for i
  proof -
    obtain r where r: "read_batch_projection env db1 i = Inr (Some r)"
      and pr: "\<forall>p. read_batch_projection env db i = Inr (Some p) \<longrightarrow> pj_review_revision p < pj_review_revision r"
      using c1 i by blast
    obtain e' target q where e': "e' \<in> set es1" "ep_segment_id e' = i"
        "endpoint_of env db ?op (ep_ordinal e') ?s = Some target" "read_batch_projection env db2 i = Inr (Some q)"
        "projection_semantic_sha256 env q = projection_semantic_sha256 env target" "pj_review_revision r < pj_review_revision q"
      using c2 i r unfolding segs [symmetric] endpoint_same_journal [OF j(1)] t1 by (auto simp: opp)
    have "(ep_ordinal e', ep_segment_id e') \<in> set (zip (map ep_ordinal es1) (map ep_segment_id es1))"
      using e'(1) by (auto simp: zip_map_map zip_same)
    then have "(ep_ordinal e', ep_segment_id e') \<in> set (zip (map ep_ordinal (ht_items t)) (map ep_segment_id (ht_items t)))"
      using c1 by simp
    then obtain e where e: "e \<in> set (ht_items t)" "ep_ordinal e = ep_ordinal e'" "ep_segment_id e = i"
      using e'(2) by (auto simp: zip_map_map zip_same)
    obtain x where "prepare_batch_history_item env db ?op e ?s = Inr x"
      using pass e(1) by (auto simp: all_ok_iff and_then_eq_Inr_iff)
    then obtain p where p: "read_batch_projection env db i = Inr (Some p)"
        "projection_semantic_sha256 env p = projection_semantic_sha256 env target"
      using e e'(3) by (cases x) (auto elim!: prepare_cases)
    have "p\<lparr>pj_review_revision := 0\<rparr> = q\<lparr>pj_review_revision := 0\<rparr>"
      by (rule collision_free [OF i p(1) e'(4)]) (simp add: p(2) e'(5))
    then show ?thesis using p(1) e'(4,6) pr by (intro exI [of _ p] exI [of _ q]) auto
  qed
  moreover have "read_batch_projection env db2 i = read_batch_projection env db i" if "i \<notin> ep_segment_id ` set (ht_items t)" for i
    using c1 c2 that segs by simp
  ultimately show ?thesis using t2 j(2) by (simp add: same_journal_def)
qed

lemma applied_endpoint:
  assumes ok: "journal_ok env db" and after: "endpoint_of env db op k After = Some p"
  shows "\<not> segment_is_human_owned (pj_segment p)"
proof -
  obtain i where i: "read_batch_item db op k = Inr (Some i)" "decode_after_projection env i = Inr (Some p)"
    using after unfolding endpoint_of_def by (auto split: sum.splits option.splits)
  have good: "item_ok env i" using journal_item_ok [OF ok] read_batch_item_Some [OF i(1)] by blast
  have "bi_after_projection_json i \<noteq> None"
    using i(2) by (auto simp: decode_after_projection_def split: option.splits if_splits)
  then have "bi_state i = I_Applied"
    using good by (cases "bi_state i") (simp_all add: item_ok_def item_evidence_ok_def)
  then show ?thesis using good i(2) by (simp add: item_ok_def effect_ok_def)
qed


end
