(* ===== verification/Batch_Sample.thy ===== *)
theory Batch_Sample
  imports Batch_Undo
begin

text \<open>
  A sample run of the batch journal: two rows, one of them verified by a human; a batch over the other is admitted,
  its item is committed and the batch is finished, undone and redone. The codec is the enumeration of the countable
  types of projections and payloads.
\<close>

section \<open>Projections and payloads are countable\<close>

instance batch_kind :: countable
  by countable_datatype

instance speech_segment_ext :: (countable) countable
  by (rule countable_classI [of "\<lambda>s. to_nat
      ((ss_id s, ss_created_at s, ss_audio_path s, ss_raw_transcript s, ss_normalized_transcript s, ss_annotated_transcript s,
        ss_alignment_json s, ss_duration_ms s, ss_speaker_id s, ss_verified s, ss_confidence s, ss_ctc_score s),
       (ss_clipping_ratio s, ss_rms_db s, ss_snr_db s, ss_split s, ss_signal_anomaly_score s, ss_verdict s,
        ss_verdict_transcript s, ss_rationale s, ss_evidence_json s, ss_agreement_score s, ss_escalated s, ss_human_decision s),
       (ss_corrected_at s, ss_is_gold s, ss_alignment_quality s, ss_model_version_id s, ss_confidence_source s, ss_cloud_call s,
        ss_decoder_config_hash s, ss_normalizer_version s, ss_denoised s, ss_diarized s, ss_vad_backend s, ss_reviewed_by s),
       ss_speaker_change_score s, speech_segment.more s)"])
    (simp add: speech_segment.equality)

instance stored_hypothesis_ext :: (countable) countable
  by (rule countable_classI [of "\<lambda>h. to_nat (sh_segment_id h, sh_model_id h, sh_transcript h, sh_confidence h,
      sh_model_version_id h, sh_created_at h, stored_hypothesis.more h)"])
    (simp add: stored_hypothesis.equality)

instance projection_ext :: (countable) countable
  by (rule countable_classI [of "\<lambda>p. to_nat (pj_schema p, pj_segment p, pj_review_revision p, pj_audio_content_hash p,
      pj_hypotheses p, projection.more p)"])
    (simp add: projection.equality)

instance batch_payload_ext :: (countable) countable
  by (rule countable_classI [of "\<lambda>p. to_nat (bp_schema p, bp_operation_id p, bp_kind p, bp_request_sha256 p, bp_config_sha256 p,
      bp_executor_git_sha p, bp_attempt_generation p, bp_executor_token_sha256 p, batch_payload.more p)"])
    (simp add: batch_payload.equality)

section \<open>The run\<close>

definition zeros :: "nat \<Rightarrow> utext" where
  "zeros n = replicate n 48"

definition sample_env :: batch_env where
  "sample_env =
     \<lparr>be_nfc = (\<lambda>t. t), be_sha256 = (\<lambda>_. zeros 64), be_uuid = (\<lambda>_. True), be_alnum = (\<lambda>_. True), be_text_json = (\<lambda>t. t),
      be_projection_json = (\<lambda>p. [to_nat p]),
      be_parse_projection = (\<lambda>t. case t of [n] \<Rightarrow> Some (from_nat n) | _ \<Rightarrow> None),
      be_source_json = (\<lambda>_. []), be_request_item_json = (\<lambda>_. []), be_payload_json = (\<lambda>p. [to_nat p]),
      be_parse_payload = (\<lambda>t. case t of [n] \<Rightarrow> Some (from_nat n) | _ \<Rightarrow> None)\<rparr>"

definition sample_speech :: "utext \<Rightarrow> bool \<Rightarrow> utext option \<Rightarrow> utext option \<Rightarrow> speech_segment" where
  "sample_speech i verified normalized version =
     \<lparr>ss_id = i, ss_created_at = None, ss_audio_path = lit ''a.wav'', ss_raw_transcript = lit ''raw'',
      ss_normalized_transcript = normalized, ss_annotated_transcript = None, ss_alignment_json = None, ss_duration_ms = 1000,
      ss_speaker_id = None, ss_verified = verified, ss_confidence = None, ss_ctc_score = None, ss_clipping_ratio = None,
      ss_rms_db = None, ss_snr_db = None, ss_split = None, ss_signal_anomaly_score = None, ss_verdict = None,
      ss_verdict_transcript = None, ss_rationale = None, ss_evidence_json = None, ss_agreement_score = None,
      ss_escalated = False, ss_human_decision = None, ss_corrected_at = None, ss_is_gold = False, ss_alignment_quality = None,
      ss_model_version_id = None, ss_confidence_source = None, ss_cloud_call = False, ss_decoder_config_hash = None,
      ss_normalizer_version = version, ss_denoised = None, ss_diarized = None, ss_vad_backend = None, ss_reviewed_by = None,
      ss_speaker_change_score = None\<rparr>"

definition sample_row :: "int \<Rightarrow> utext option \<Rightarrow> utext option \<Rightarrow> segment_record" where
  "sample_row revision normalized version =
     \<lparr>sg_segment = sample_speech (lit ''c1'') False normalized version, sg_review_revision = revision, sg_audio_content_hash = None\<rparr>"

definition sample_human_row :: segment_record where
  "sample_human_row =
     \<lparr>sg_segment = sample_speech (lit ''c2'') True None None, sg_review_revision = 3, sg_audio_content_hash = None\<rparr>"

definition sample_projection :: "int \<Rightarrow> utext option \<Rightarrow> utext option \<Rightarrow> projection" where
  "sample_projection revision normalized version =
     \<lparr>pj_schema = 1, pj_segment = sample_speech (lit ''c1'') False normalized version, pj_review_revision = revision,
      pj_audio_content_hash = None, pj_hypotheses = []\<rparr>"

definition sample_tables :: "segment_record \<Rightarrow> batch_header list \<Rightarrow> batch_item list \<Rightarrow> batch_db" where
  "sample_tables row hs is' =
     \<lparr>bd_schema = 71, bd_segments = [row, sample_human_row], bd_hypotheses = [], bd_headers = hs, bd_items = is', bd_models = []\<rparr>"

definition sample_executor :: executor_identity where
  "sample_executor = \<lparr>ex_git_sha = zeros 40, ex_token_sha256 = zeros 64, ex_attempt_generation = 1\<rparr>"

definition sample_payload :: batch_payload where
  "sample_payload =
     \<lparr>bp_schema = 1, bp_operation_id = lit ''op'', bp_kind = Normalize_Batch, bp_request_sha256 = zeros 64,
      bp_config_sha256 = zeros 64, bp_executor_git_sha = zeros 40, bp_attempt_generation = 1, bp_executor_token_sha256 = zeros 64\<rparr>"

definition sample_header :: "batch_lifecycle \<Rightarrow> int \<Rightarrow> utext option \<Rightarrow> batch_header" where
  "sample_header state completed finished =
     \<lparr>bh_id = lit ''op'', bh_kind = Normalize_Batch, bh_state = state, bh_progress = of_int completed, bh_completed = completed,
      bh_total = 1, bh_error_code = None, bh_payload_json = [to_nat sample_payload], bh_started_at = Some (lit ''t0''),
      bh_finished_at = finished\<rparr>"

definition sample_pending :: batch_item where
  "sample_pending =
     \<lparr>bi_job_id = lit ''op'', bi_ordinal = 0, bi_segment_id = lit ''c1'', bi_base_revision = 0,
      bi_source_identity_sha256 = zeros 64, bi_before_projection_json = [to_nat (sample_projection 0 None None)],
      bi_before_projection_sha256 = zeros 64, bi_state = I_Pending, bi_after_projection_json = None,
      bi_after_projection_sha256 = None, bi_effect_revision = None, bi_result_code = None\<rparr>"

definition sample_applied :: batch_item where
  "sample_applied = sample_pending\<lparr>bi_state := I_Applied,
     bi_after_projection_json := Some [to_nat (sample_projection 1 (Some (lit ''n'')) (Some (lit ''v1'')))],
     bi_after_projection_sha256 := Some (zeros 64), bi_effect_revision := Some 1\<rparr>"

definition sample_start :: batch_db where
  "sample_start = sample_tables (sample_row 0 None None) [] []"

definition sample_admitted :: batch_db where
  "sample_admitted = sample_tables (sample_row 0 None None) [sample_header B_Running 0 None] [sample_pending]"

definition sample_committed :: batch_db where
  "sample_committed = sample_tables (sample_row 1 (Some (lit ''n'')) (Some (lit ''v1''))) [sample_header B_Running 1 None] [sample_applied]"

definition sample_finished :: "int \<Rightarrow> utext option \<Rightarrow> utext option \<Rightarrow> batch_db" where
  "sample_finished revision normalized version =
     sample_tables (sample_row revision normalized version) [sample_header B_Succeeded 1 (Some (lit ''t1''))] [sample_applied]"

section \<open>Evaluation\<close>

lemma sample_codec: "codec sample_env" and sample_hex: "hex_digests sample_env"
  by (simp_all add: codec_def hex_digests_def sample_env_def is_lower_hex_def zeros_def utf8_len_def list_all_iff sum_list_replicate)

lemma sample_json_length [simp]: "validate_projection_json_length [n] = Inr ()"
  by (simp add: validate_projection_json_length_def require_def utf8_len_def MAX_BATCH_PROJECTION_JSON_BYTES_V1_def)

lemma zeros_hex [simp]: "is_lower_hex n (zeros n)"
  by (simp add: is_lower_hex_def zeros_def utf8_len_def list_all_iff sum_list_replicate)

definition sample_text :: "utext option \<Rightarrow> bool" where
  "sample_text t \<longleftrightarrow> t = None \<or> t = Some (lit ''n'') \<or> t = Some (lit ''v1'')"

lemma sample_footprint:
  "sample_text n \<Longrightarrow> sample_text v \<Longrightarrow>
   validate_batch_projection_footprint (segment_text_fields (sample_speech (lit ''c1'') False n v) None) [] = Inr ()"
  by (auto simp: sample_text_def validate_batch_projection_footprint_def require_def segment_text_fields_def sum_bytes_def
      largest_bytes_def hypothesis_metadata_def sample_speech_def or_empty_def lit_def utf8_len_def
      MAX_BATCH_SEGMENT_TEXT_BYTES_V1_def MAX_BATCH_SEGMENT_TEXT_FIELD_BYTES_V1_def)

lemma sample_authority:
  "sample_text n \<Longrightarrow> sample_text v \<Longrightarrow> projection_authority sample_env (sample_projection r n v) =
     Inr ([to_nat (sample_projection r n v)], zeros 64, zeros 64)"
  by (simp add: projection_authority_def validate_batch_projection_value_def sample_projection_def sample_footprint)
    (simp add: sample_env_def)

lemma sample_read:
  "sample_text n \<Longrightarrow> sample_text v \<Longrightarrow>
   read_batch_projection sample_env (sample_tables (sample_row r n v) hs is') (lit ''c1'') = Inr (Some (sample_projection r n v))"
  by (simp add: read_batch_projection_def stored_segment_def sample_tables_def sample_row_def hypotheses_of_def sample_footprint)
    (simp add: sample_projection_def sample_speech_def)

lemma sample_read_human:
  "read_batch_projection sample_env (sample_tables (sample_row r n v) hs is') (lit ''c2'') =
   Inr (Some \<lparr>pj_schema = 1, pj_segment = sample_speech (lit ''c2'') True None None, pj_review_revision = 3,
              pj_audio_content_hash = None, pj_hypotheses = []\<rparr>)"
  by (simp add: read_batch_projection_def stored_segment_def sample_tables_def sample_row_def hypotheses_of_def sample_human_row_def
      sample_speech_def validate_batch_projection_footprint_def require_def segment_text_fields_def sum_bytes_def
      largest_bytes_def hypothesis_metadata_def or_empty_def lit_def utf8_len_def
      MAX_BATCH_SEGMENT_TEXT_BYTES_V1_def MAX_BATCH_SEGMENT_TEXT_FIELD_BYTES_V1_def)

lemma sample_texts [simp]: "sample_text None" "sample_text (Some (lit ''n''))" "sample_text (Some (lit ''v1''))"
  by (simp_all add: sample_text_def)

lemma sample_parse [simp]: "be_parse_projection sample_env [to_nat p] = Some p"
  by (simp add: sample_env_def)

lemma sample_decode_before:
  "decode_before_projection sample_env sample_pending = Inr (sample_projection 0 None None)"
  "decode_before_projection sample_env sample_applied = Inr (sample_projection 0 None None)"
  by (simp_all add: decode_before_projection_def sample_applied_def sample_pending_def sample_authority)
    (simp_all add: sample_projection_def sample_speech_def)

lemma sample_decode_after:
  "decode_after_projection sample_env sample_applied = Inr (Some (sample_projection 1 (Some (lit ''n'')) (Some (lit ''v1''))))"
  by (simp add: decode_after_projection_def sample_applied_def sample_pending_def sample_authority)
    (simp add: sample_projection_def sample_speech_def)

lemma sample_parse_payload:
  "parse_batch_payload sample_env (sample_header state c f) = Inr sample_payload"
  by (simp add: parse_batch_payload_def sample_header_def sample_env_def require_def)
    (simp add: sample_payload_def)

lemma sample_owner: "require_batch_executor sample_env (sample_header state c f) sample_executor = Inr sample_payload"
  by (simp add: require_batch_executor_def sample_parse_payload validate_git_sha_def validate_sha256_def require_def)
    (simp add: sample_executor_def sample_payload_def)

lemma sample_header_read: "read_batch_header (sample_tables r [sample_header state c f] is') (lit ''op'') = Some (sample_header state c f)"
  by (simp add: read_batch_header_def sample_tables_def sample_header_def)

lemma sample_item_ids:
  "bi_job_id sample_pending = lit ''op''" "bi_job_id sample_applied = lit ''op''"
  "bi_ordinal sample_pending = 0" "bi_ordinal sample_applied = 0" "bi_state sample_pending = I_Pending"
  "bi_state sample_applied = I_Applied" "bi_segment_id sample_pending = lit ''c1''" "bi_segment_id sample_applied = lit ''c1''"
  "bi_base_revision sample_pending = 0" "bi_source_identity_sha256 sample_pending = zeros 64"
  "bi_before_projection_sha256 sample_pending = zeros 64" "bi_result_code sample_applied = None"
  by (simp_all add: sample_pending_def sample_applied_def)

lemma sample_items: "items_of (sample_tables r hs [sample_pending]) (lit ''op'') = [sample_pending]"
  "items_of (sample_tables r hs [sample_applied]) (lit ''op'') = [sample_applied]"
  by (simp_all add: items_of_def sample_tables_def sample_item_ids)

lemma sample_item_read:
  "read_batch_item (sample_tables r hs [sample_pending]) (lit ''op'') 0 = Inr (Some sample_pending)"
  "read_batch_item (sample_tables r hs [sample_applied]) (lit ''op'') 0 = Inr (Some sample_applied)"
  by (simp_all add: read_batch_item_def sample_items sample_item_ids) (simp_all add: sample_pending_def sample_applied_def utf8_len_def)

lemma sample_request: "batch_request_item sample_env 0 (lit ''c1'') (sample_projection 0 None None) =
   Inr (\<lparr>ri_ordinal = 0, ri_segment_id = lit ''c1'', ri_base_revision = 0, ri_source_identity_sha256 = zeros 64,
         ri_before_projection_sha256 = zeros 64\<rparr>, [to_nat (sample_projection 0 None None)])"
  by (simp add: batch_request_item_def sample_authority) (simp add: sample_projection_def)

lemma sample_finish_digest: "digest_finish sample_env d = zeros 64"
  by (simp add: digest_finish_def sample_env_def)

lemma sample_admit_checks:
  "admission_checks sample_env (lit ''op'') [lit ''c1''] (zeros 64) sample_executor (\<lambda>_. False) sample_start = Inr ()"
  by (simp add: admission_checks_def require_not_cancelled_def require_def require_batch_schema_def sample_start_def
      sample_tables_def validate_operation_uuid_def validate_sha256_def validate_git_sha_def sample_executor_def
      validate_batch_item_count_def MAX_BATCH_ITEMS_V1_def check_identifier_def validate_identifier_def sample_env_def
      lit_def utf8_len_def list_all_iff)

lemma sample_insert:
  "insert_header \<lparr>bh_id = lit ''op'', bh_kind = Normalize_Batch, bh_state = B_Queued, bh_progress = 0, bh_completed = 0,
       bh_total = 1, bh_error_code = None, bh_payload_json = [to_nat sample_payload], bh_started_at = None, bh_finished_at = None\<rparr>
     sample_start =
   Inr (sample_tables (sample_row 0 None None)
     [\<lparr>bh_id = lit ''op'', bh_kind = Normalize_Batch, bh_state = B_Queued, bh_progress = 0, bh_completed = 0, bh_total = 1,
       bh_error_code = None, bh_payload_json = [to_nat sample_payload], bh_started_at = None, bh_finished_at = None\<rparr>] [])"
  by (simp add: insert_header_def require_def sample_start_def sample_tables_def)

lemma sample_insert_item:
  "insert_item (pending_item (lit ''op'') 0 (sample_projection 0 None None) [to_nat (sample_projection 0 None None)]
      \<lparr>ri_ordinal = 0, ri_segment_id = lit ''c1'', ri_base_revision = 0, ri_source_identity_sha256 = zeros 64,
       ri_before_projection_sha256 = zeros 64\<rparr>)
     (sample_tables (sample_row 0 None None)
       [\<lparr>bh_id = lit ''op'', bh_kind = Normalize_Batch, bh_state = B_Queued, bh_progress = 0, bh_completed = 0, bh_total = 1,
         bh_error_code = None, bh_payload_json = p, bh_started_at = None, bh_finished_at = None\<rparr>] []) =
   Inr (sample_tables (sample_row 0 None None)
     [\<lparr>bh_id = lit ''op'', bh_kind = Normalize_Batch, bh_state = B_Queued, bh_progress = 0, bh_completed = 0, bh_total = 1,
       bh_error_code = None, bh_payload_json = p, bh_started_at = None, bh_finished_at = None\<rparr>] [sample_pending])"
proof -
  have "pending_item (lit ''op'') 0 (sample_projection 0 None None) [to_nat (sample_projection 0 None None)]
      \<lparr>ri_ordinal = 0, ri_segment_id = lit ''c1'', ri_base_revision = 0, ri_source_identity_sha256 = zeros 64,
       ri_before_projection_sha256 = zeros 64\<rparr> = sample_pending"
    unfolding sample_pending_def pending_item_def by (simp add: sample_projection_def sample_speech_def)
  then show ?thesis
    by (simp add: insert_item_def require_def sample_item_ids sample_tables_def) (simp add: sql_trim_def lit_def)
qed

lemma sample_start_batch:
  "start_batch (lit ''op'') (lit ''t0'')
     (sample_tables r [\<lparr>bh_id = lit ''op'', bh_kind = Normalize_Batch, bh_state = B_Queued, bh_progress = 0, bh_completed = 0,
         bh_total = 1, bh_error_code = None, bh_payload_json = [to_nat sample_payload], bh_started_at = None, bh_finished_at = None\<rparr>]
       [sample_pending]) =
   Inr (1, sample_tables r [sample_header B_Running 0 None] [sample_pending])"
  by (simp add: start_batch_def sample_items require_def update_header_def sample_item_ids)
    (simp add: sample_tables_def sample_header_def)

lemma sample_admission:
  "admit_tx sample_env (lit ''op'') Normalize_Batch [lit ''c1''] (zeros 64) sample_executor (\<lambda>_. False) (lit ''t0'') sample_start =
   Inr sample_admitted"
proof -
  have "be_payload_json sample_env \<lparr>bp_schema = 1, bp_operation_id = lit ''op'', bp_kind = Normalize_Batch,
      bp_request_sha256 = zeros 64, bp_config_sha256 = zeros 64, bp_executor_git_sha = ex_git_sha sample_executor,
      bp_attempt_generation = ex_attempt_generation sample_executor,
      bp_executor_token_sha256 = ex_token_sha256 sample_executor\<rparr> = [to_nat sample_payload]"
    by (simp add: sample_env_def sample_payload_def sample_executor_def)
  then show ?thesis
    unfolding admit_tx_def Let_def
    by (simp add: sample_start_def require_not_cancelled_def require_def sample_finish_digest sample_read sample_request
        sample_insert [unfolded sample_start_def] sample_insert_item sample_start_batch sample_admitted_def)
qed

lemma sample_admitted_reachable: "batch_reachable sample_env sample_admitted"
proof -
  have "snd (admit_batch_job sample_env (lit ''op'') Normalize_Batch [lit ''c1''] (zeros 64) sample_executor (\<lambda>_. False)
      (lit ''t0'') sample_start) = sample_admitted"
    by (simp add: admit_batch_job_def with_status_snd sample_admit_checks sample_admission)
  then have "batch_step sample_env sample_start sample_admitted" by (metis batch_step.intros(1))
  moreover have "batch_reachable sample_env sample_start"
    by (rule reach_start) (simp_all add: sample_start_def sample_tables_def)
  ultimately show ?thesis by (metis reach_step)
qed

lemma sample_compare:
  "compare_current_to_before sample_env sample_admitted sample_pending = Inr (Inr (sample_projection 0 None None))"
  by (simp add: compare_current_to_before_def sample_item_ids sample_admitted_def sample_read sample_authority)
    (simp add: sample_projection_def sample_speech_def segment_is_human_owned_def)

lemma sample_swap:
  "update_segment (swap_guard sample_pending (sample_projection 0 None None))
     (\<lambda>s. s\<lparr>ss_normalized_transcript := Some (lit ''n''), ss_normalizer_version := Some (lit ''v1'')\<rparr>) sample_admitted =
   (1, sample_tables (sample_row 1 (Some (lit ''n'')) (Some (lit ''v1''))) [sample_header B_Running 0 None] [sample_pending])"
  by (simp add: update_segment_def sample_admitted_def sample_tables_def swap_guard_def Let_def sample_item_ids)
    (simp add: sample_row_def sample_human_row_def sample_speech_def sample_projection_def)

lemma sample_claim:
  "claim_item (lit ''op'') 0 [to_nat (sample_projection 1 (Some (lit ''n'')) (Some (lit ''v1'')))] (zeros 64) 1
     (sample_tables r [sample_header B_Running 0 None] [sample_pending]) =
   Inr (sample_tables r [sample_header B_Running 1 None] [sample_applied])"
proof -
  have "update_item (lit ''op'') (\<lambda>i. bi_ordinal i = 0)
      (\<lambda>i. i\<lparr>bi_state := I_Applied, bi_after_projection_json := Some [to_nat (sample_projection 1 (Some (lit ''n'')) (Some (lit ''v1'')))],
          bi_after_projection_sha256 := Some (zeros 64), bi_effect_revision := Some 1\<rparr>)
      (sample_tables r [sample_header B_Running 0 None] [sample_pending]) =
    (1, sample_tables r [sample_header B_Running 0 None] [sample_applied])"
    by (simp add: update_item_def sample_tables_def sample_item_ids sample_applied_def)
  moreover have "advance_batch_progress (lit ''op'') (sample_tables r [sample_header B_Running 0 None] [sample_applied]) =
    Inr (sample_tables r [sample_header B_Running 1 None] [sample_applied])"
    by (simp add: advance_batch_progress_def sample_items sample_item_ids sample_header_read update_header_def)
      (simp add: sample_tables_def sample_header_def)
  ultimately show ?thesis by (simp add: claim_item_def)
qed

lemma sample_commit:
  "commit_batch_normalization sample_env (lit ''op'') 0 (lit ''n'') (lit ''v1'') sample_executor sample_admitted =
   (Inr (Applied 1), sample_committed)"
proof -
  let ?p = "sample_projection 0 None None" and ?q = "sample_projection 1 (Some (lit ''n'')) (Some (lit ''v1''))"
  have fields: "ss_normalized_transcript (pj_segment ?p) = None" "pj_review_revision ?q = 1"
      "ss_normalized_transcript (pj_segment ?q) = Some (lit ''n'')" "ss_normalizer_version (pj_segment ?q) = Some (lit ''v1'')"
    by (simp_all add: sample_projection_def sample_speech_def)
  have effect: "commit_normalized sample_env (lit ''op'') 0 (lit ''n'') (lit ''v1'') sample_admitted sample_pending ?p =
      Inr (Applied 1, sample_committed)"
    by (simp add: commit_normalized_def fields sample_swap sample_item_ids sample_read require_def sample_authority sample_claim
        sample_committed_def)
  have "commit_item sample_env (lit ''op'') 0 Normalize_Batch sample_executor sample_admitted
      (\<lambda>_ i. existing_normalize_outcome sample_env i (lit ''n'') (lit ''v1''))
      (\<lambda>_ i before. commit_normalized sample_env (lit ''op'') 0 (lit ''n'') (lit ''v1'') sample_admitted i before) =
    Inr (Applied 1, sample_committed)"
    using effect
    by (simp add: commit_item_def sample_header_read sample_item_read sample_owner sample_decode_before sample_item_ids
        sample_compare [unfolded sample_admitted_def] require_batch_not_hard_stopped_def sample_items require_def sample_admitted_def)
      (simp add: sample_header_def)
  then show ?thesis
    by (simp add: commit_batch_normalization_def savepoint_def require_batch_schema_def validate_operation_uuid_def validate_text_def
        require_def sample_admitted_def sample_tables_def sample_env_def trim_def trim_start_def trim_end_def lit_def is_whitespace_def)
qed

lemma sample_committed_reachable: "batch_reachable sample_env sample_committed"
proof -
  have "batch_step sample_env sample_admitted (snd (commit_batch_normalization sample_env (lit ''op'') 0 (lit ''n'') (lit ''v1'')
      sample_executor sample_admitted))"
    by (rule batch_step.intros(2))
  then show ?thesis using sample_admitted_reachable reach_step by (simp add: sample_commit)
qed

abbreviation sample_done :: batch_db where
  "sample_done \<equiv> sample_finished 1 (Some (lit ''n'')) (Some (lit ''v1''))"

lemma sample_counts:
  "batch_item_counts (sample_tables r hs [sample_applied]) (lit ''op'') =
     \<lparr>ct_pending = 0, ct_applied = 1, ct_skipped = 0, ct_failed = 0, ct_abandoned = 0\<rparr>"
  by (simp add: batch_item_counts_def sample_items counts_of_def count_state_def sample_item_ids)

lemma sample_finish:
  "finish_tx sample_env (lit ''op'') Intent_Succeeded sample_executor (lit ''t1'') sample_committed = Inr sample_done"
proof -
  have "finish_header (lit ''op'') B_Succeeded None (lit ''t1'') sample_committed = Inr (1, sample_done)"
    by (simp add: finish_header_def sample_committed_def sample_counts counts_terminal_def sample_items terminal_evidence_ok_def
        sample_item_ids update_header_def require_def sample_finished_def)
      (simp add: sample_tables_def sample_header_def)
  then show ?thesis
    by (simp add: finish_tx_def sample_committed_def sample_header_read sample_owner settle_pending_def sample_items count_state_def
        sample_item_ids require_def sample_counts)
      (simp add: sample_header_def batch_terminal_def)
qed

lemma sample_done_reachable: "batch_reachable sample_env sample_done"
proof -
  have "snd (finish_batch_job sample_env (lit ''op'') Intent_Succeeded sample_executor (lit ''t1'') sample_committed) = sample_done"
    by (simp add: finish_batch_job_def with_status_snd sample_finish require_batch_schema_def validate_operation_uuid_def require_def)
      (simp add: sample_committed_def sample_tables_def sample_env_def)
  then have "batch_step sample_env sample_committed sample_done" by (metis batch_step.intros(4))
  then show ?thesis using sample_committed_reachable reach_step by blast
qed

definition sample_token :: "history_side \<Rightarrow> int \<Rightarrow> history_token" where
  "sample_token side revision =
     \<lparr>ht_operation_id = lit ''op'', ht_kind = Normalize_Batch, ht_expected_side = side,
      ht_items = [\<lparr>ep_ordinal = 0, ep_segment_id = lit ''c1'', ep_projection_sha256 = zeros 64, ep_review_revision = revision\<rparr>]\<rparr>"

lemma sample_semantic: "projection_semantic_sha256 sample_env p = zeros 64"
  by (simp add: projection_semantic_sha256_def sample_env_def)

lemma sample_prepare:
  assumes "sample_text n" and "sample_text v"
  shows "prepare_batch_history_item sample_env (sample_finished r n v) (lit ''op'')
      \<lparr>ep_ordinal = 0, ep_segment_id = lit ''c1'', ep_projection_sha256 = zeros 64, ep_review_revision = r\<rparr> side =
    Inr (r, case side of Before \<Rightarrow> sample_projection 1 (Some (lit ''n'')) (Some (lit ''v1'')) | After \<Rightarrow> sample_projection 0 None None)"
  using assms
  by (cases side) (simp_all add: prepare_batch_history_item_def sample_finished_def sample_item_read sample_item_ids require_def
      sample_decode_before sample_decode_after sample_read sample_authority sample_semantic, simp_all add: sample_projection_def)

lemma sample_inverse:
  assumes "sample_text n" and "sample_text v"
  shows "apply_history_item sample_env (sample_token side r)
      \<lparr>ep_ordinal = 0, ep_segment_id = lit ''c1'', ep_projection_sha256 = zeros 64, ep_review_revision = r\<rparr> (sample_finished r n v) =
    Inr (\<lparr>ep_ordinal = 0, ep_segment_id = lit ''c1'', ep_projection_sha256 = zeros 64, ep_review_revision = r + 1\<rparr>,
      case side of Before \<Rightarrow> sample_finished (r + 1) (Some (lit ''n'')) (Some (lit ''v1'')) | After \<Rightarrow> sample_finished (r + 1) None None)"
proof -
  have upd: "update_segment (\<lambda>x. ss_id (sg_segment x) = lit ''c1'' \<and> sg_review_revision x = r)
      (restore_normalized (pj_segment (sample_projection q n' v'))) (sample_finished r n v) = (1, sample_finished (r + 1) n' v')" for q n' v'
    by (simp add: update_segment_def sample_finished_def sample_tables_def sample_row_def sample_human_row_def restore_normalized_def
        sample_projection_def sample_speech_def)
  have read: "read_batch_projection sample_env (sample_finished (r + 1) n' v') (lit ''c1'') = Inr (Some (sample_projection (r + 1) n' v'))"
    if "sample_text n'" "sample_text v'" for n' v'
    using sample_read [OF that] by (simp add: sample_finished_def)
  have rev: "pj_review_revision (sample_projection x n' v') = x" for x n' v' by (simp add: sample_projection_def)
  show ?thesis
    by (cases side) (simp_all add: apply_history_item_def sample_token_def sample_prepare [OF assms] upd read require_def rev
        sample_semantic sample_authority)
qed

lemma sample_endpoints: "0 \<le> r \<Longrightarrow> endpoints_ok sample_env None
   [\<lparr>ep_ordinal = 0, ep_segment_id = lit ''c1'', ep_projection_sha256 = zeros 64, ep_review_revision = r\<rparr>] = Inr ()"
  by (simp add: check_identifier_def validate_identifier_def validate_sha256_def require_def)
    (simp add: sample_env_def lit_def utf8_len_def)

lemma sample_validated:
  "\<exists>s. validate_one_batch_job_authority sample_env (sample_finished r n v) (lit ''op'') = Inr s \<and> st_state s = B_Succeeded \<and>
     st_kind s = Normalize_Batch \<and> ct_applied (st_counts s) = 1"
proof -
  have "same_journal sample_done (sample_finished r n v)"
    by (simp add: same_journal_def sample_finished_def sample_tables_def)
  then have ok: "journal_ok sample_env (sample_finished r n v)"
    using same_journal_ok batch_reachable_ok [OF sample_done_reachable sample_codec sample_hex] by blast
  have h: "sample_header B_Succeeded 1 (Some (lit ''t1'')) \<in> set (bd_headers (sample_finished r n v))"
    by (simp add: sample_finished_def sample_tables_def)
  obtain s where s: "validate_one_batch_job_authority sample_env (sample_finished r n v) (lit ''op'') = Inr s"
      "st_state s = B_Succeeded" "st_kind s = Normalize_Batch"
      "status_from_header sample_env (sample_finished r n v) (sample_header B_Succeeded 1 (Some (lit ''t1''))) = Inr s"
    using validate_one_ok [OF ok h] by (auto simp: sample_header_def)
  have "st_counts s = batch_item_counts (sample_finished r n v) (lit ''op'')"
    using s(4) by (auto simp: status_from_header_def and_then_eq_Inr_iff Let_def sample_header_def split: if_splits)
  then show ?thesis using s sample_counts by (simp add: sample_finished_def)
qed

lemma sample_toggle:
  assumes "sample_text n" and "sample_text v" and "0 \<le> r"
  shows "apply_batch_job_history sample_env (sample_token side r) (sample_finished r n v) =
    (Inr (sample_token (opposite side) (r + 1)),
     case side of Before \<Rightarrow> sample_finished (r + 1) (Some (lit ''n'')) (Some (lit ''v1'')) | After \<Rightarrow> sample_finished (r + 1) None None)"
proof -
  obtain s where s: "validate_one_batch_job_authority sample_env (sample_finished r n v) (lit ''op'') = Inr s"
      "st_state s = B_Succeeded" "st_kind s = Normalize_Batch" "ct_applied (st_counts s) = 1"
    using sample_validated by blast
  have live: "\<not> list_ex batch_live (bd_headers (sample_finished r n v))"
    by (simp add: sample_finished_def sample_tables_def sample_header_def batch_live_def)
  have tok: "ht_operation_id (sample_token side r) = lit ''op''" "ht_kind (sample_token side r) = Normalize_Batch"
      "ht_expected_side (sample_token side r) = side"
      "ht_items (sample_token side r) = [\<lparr>ep_ordinal = 0, ep_segment_id = lit ''c1'', ep_projection_sha256 = zeros 64, ep_review_revision = r\<rparr>]"
    by (simp_all add: sample_token_def)
  have "apply_history_tx sample_env (sample_token side r) (sample_finished r n v) =
    Inr (sample_token (opposite side) (r + 1),
     case side of Before \<Rightarrow> sample_finished (r + 1) (Some (lit ''n'')) (Some (lit ''v1'')) | After \<Rightarrow> sample_finished (r + 1) None None)"
    using s live
    by (simp add: apply_history_tx_def tok require_def batch_terminal_def sample_prepare [OF assms(1,2)] sample_inverse [OF assms(1,2)])
      (simp add: sample_token_def)
  then show ?thesis
    by (simp add: apply_batch_job_history_def savepoint_def tok require_def sample_endpoints [OF assms(3)] MAX_BATCH_ITEMS_V1_def
        del: endpoints_ok.simps)
      (simp add: require_batch_schema_def validate_operation_uuid_def sample_finished_def sample_tables_def sample_env_def require_def)
qed

section \<open>Witnesses\<close>

lemma sample_c1: "bh_id (sample_header st c f) = lit ''op''"
  by (simp add: sample_header_def)



lemma sample_distinct: "distinct (segment_ids sample_admitted)"
  by (simp add: segment_ids_def sample_admitted_def sample_tables_def sample_row_def sample_human_row_def sample_speech_def)



theorem batch_undo_redo_restores_witness:
  "\<exists>p q. read_batch_projection sample_env sample_done (lit ''c1'') = Inr (Some p) \<and>
     read_batch_projection sample_env (sample_finished 3 (Some (lit ''n'')) (Some (lit ''v1''))) (lit ''c1'') = Inr (Some q) \<and>
     q\<lparr>pj_review_revision := 0\<rparr> = p\<lparr>pj_review_revision := 0\<rparr> \<and> pj_review_revision p < pj_review_revision q"
proof -
  have undo: "apply_batch_job_history sample_env (sample_token After 1) sample_done = (Inr (sample_token Before 2), sample_finished 2 None None)"
    using sample_toggle [of "Some (lit ''n'')" "Some (lit ''v1'')" 1 After] by simp
  have redo: "apply_batch_job_history sample_env (sample_token Before 2) (sample_finished 2 None None) =
      (Inr (sample_token After 3), sample_finished 3 (Some (lit ''n'')) (Some (lit ''v1'')))"
    using sample_toggle [of None None 2 Before] by simp
  have ids: "ep_segment_id ` set (ht_items (sample_token After 1)) = {lit ''c1''}" by (simp add: sample_token_def)
  have free: "p\<lparr>pj_review_revision := 0\<rparr> = q\<lparr>pj_review_revision := 0\<rparr>"
    if "i \<in> ep_segment_id ` set (ht_items (sample_token After 1))" "read_batch_projection sample_env sample_done i = Inr (Some p)"
      "read_batch_projection sample_env (sample_finished 3 (Some (lit ''n'')) (Some (lit ''v1''))) i = Inr (Some q)"
      "projection_semantic_sha256 sample_env p = projection_semantic_sha256 sample_env q" for i p q
    using that unfolding ids by (auto simp: sample_finished_def sample_read sample_projection_def)
  show ?thesis
    by (rule batch_undo_redo_restores [OF undo redo, THEN conjunct2, THEN conjunct2, THEN conjunct2, THEN conjunct2, THEN bspec])
      (rule free, assumption+, simp add: ids)
qed


end
