(* ===== verification/Spec2Isabelle.thy ===== *)
theory Spec2Isabelle
  imports Champion_Promotion Engine_Supervisor Edit_Distance Word_Diff Import_Journal Recording_Rights Chunking Dataset_Splits
    Pool_Ledger Batch_Sample
begin

text \<open>
  A verification of cortex-speech, a desktop application that turns recordings of Sorani Kurdish into a
  reviewed speech dataset. The program is the Rust back end under
  \<^verbatim>\<open>src/cortex-speech-app/src-tauri/src\<close>; file names below are relative to that directory.

  \<^bold>\<open>The program and its parts.\<close> An import walks a directory, decodes each recording, refuses recordings it
  already knows, plans chunks of speech, transcribes them with a speech recognition engine that runs as
  a supervised child process, normalizes the text and stores one segment row per chunk in SQLite.
  Reviewers correct the transcripts; the application measures error rates and shows differences;
  an export writes a dataset with training, validation and test splits, subject to the rights recorded for
  each recording. Doubtful clips go to a review pool, where further reviewers judge them, a trust policy decides
  when the verdicts suffice, and a ledger pays every judgement. Long-running work is recorded as durable jobs;
  transcribing or normalizing many segments is a batch with a journal that can be undone and redone;
  replacing the recognition model (the champion) is a saga of durable phases that survives crashes.

  \<^bold>\<open>Theories.\<close> Each theory follows one part of the source, in its order of definitions.

  \<^item> \<^verbatim>\<open>Prelude\<close>: results and the \<open>?\<close> operator, saturating arithmetic, Unicode text, counting loops, and
    three interfaces as locales: tables filled row by row (\<open>dynamic_program\<close>), machines that charge a
    budget (\<open>budgeted_machine\<close>) and fallible operations that implement abstract ones
    (\<open>functional_refinement\<close>).
  \<^item> \<^verbatim>\<open>Jobs\<close> (\<^verbatim>\<open>jobs.rs\<close>, \<^verbatim>\<open>db/jobs_rights.rs\<close>): the job lifecycle and the jobs table. The table is the list
    of its rows; a statement is an operation on that list with the table's constraints; an operation that
    reads and then writes is two steps, so that writers can interleave. Shown: only legal lifecycle edges
    under any interleaving, the table constraints, compare-and-swap with one winner, idempotent creation,
    recorded outcomes, and the reaper at startup.
  \<^item> \<^verbatim>\<open>Champion_Promotion\<close> (\<^verbatim>\<open>champion_promotion.rs\<close>): the promotion saga over its three traits, with
    the jobs table as its journal. Shown: recovery after any number of crashes at phase boundaries, completion,
    verified rollback, and that a started job pins its contract. The loop of \<open>drive\<close> has fuel 12: every
    iteration that continues raises the rank of the persisted phase, and there are ten ranks, so that the
    theorems that it returns need at most ten.
  \<^item> \<^verbatim>\<open>Engine_Supervisor\<close> (\<^verbatim>\<open>engine_supervisor.rs\<close>): circuit breaker, backoff and the supervision tick.
    Time is nanoseconds, saturating where \<open>Duration\<close> saturates. Shown: the state invariant, bounds on
    restarts, giving up and staying there, the backoff formula, the spacing of restarts.
  \<^item> \<^verbatim>\<open>Normalizer\<close> (\<^verbatim>\<open>normalizer.rs\<close>): the whole normalizer, its regular expressions written out as
    functions. Shown: the shape of normalized text, number words read back, and that the
    normalizer is not idempotent.
  \<^item> \<^verbatim>\<open>Edit_Distance\<close> (\<^verbatim>\<open>wer.rs\<close>) and \<^verbatim>\<open>Word_Diff\<close> (\<^verbatim>\<open>diff/mod.rs\<close>): both dynamic programs, with
    their backtracking. Shown: equivalence with the recursive specifications, minimality, exact
    breakdowns, reconstruction of both texts, bounds of rates and similarities.
  \<^item> \<^verbatim>\<open>Import_Journal\<close> (\<^verbatim>\<open>db/jobs_rights.rs\<close>, \<^verbatim>\<open>validation/input.rs\<close>): the journal that makes a directory import
    resumable. Shown: refinement of a one-slot specification and a handoff that keeps all progress.
  \<^item> \<^verbatim>\<open>Fingerprint\<close> (\<^verbatim>\<open>fingerprint.rs\<close>): the duplicate index with its reservations. Shown: the
    four hash maps refine one catalogue, the admission rule, the termination of the token loop, the
    outcomes of a reservation, streaming identity equal to whole-file identity, and a bucket key
    that vanishes on audible audio.
  \<^item> \<^verbatim>\<open>Recording_Rights\<close> (\<^verbatim>\<open>db.rs\<close>, \<^verbatim>\<open>db/jobs_rights.rs\<close>): consent and content identity on the segment rows.
    Shown: withdrawal is permanent, the content hash never drifts on ASCII paths, and how it does
    otherwise.
  \<^item> \<^verbatim>\<open>Chunking\<close> (\<^verbatim>\<open>chunking.rs\<close>, \<^verbatim>\<open>slice_for_export\<close> of \<^verbatim>\<open>export.rs\<close>): the chunk planner and the slicers.
    Shown: the plan keeps all detected speech in order and within its cap; every loop ends; the two
    slicers agree.
  \<^item> \<^verbatim>\<open>Dataset_Splits\<close> (\<^verbatim>\<open>export.rs\<close>): union-find, grouping, shuffle and greedy fill. The grouping is
    proved against the interface \<open>disjoint_sets\<close>, which the union-find implements. Shown: the
    assignment returns, is complete and never leaks a recording or an identified speaker between splits.
  \<^item> \<^verbatim>\<open>Review_Pay\<close> (\<^verbatim>\<open>db/review.rs\<close>, over the values of \<^verbatim>\<open>Json\<close>): prices and the append-only ledger with its credits,
    undos and settlements. Shown: the entries of a piece of work add up to what its last judgement is worth,
    settlements partition the ledger, undoing a credit restores the balances, and one case in which the phone's
    undo underpays.
  \<^item> \<^verbatim>\<open>Review_Consensus\<close> (\<^verbatim>\<open>review_pool.rs\<close>, \<^verbatim>\<open>review_pool/trust.rs\<close>): outcomes, the evidence digest, the trust policy and
    the resolution of a clip. Shown: a decision has the required authority behind it, does not depend on the order of
    a hash map, falls back to two people under a broken policy, and its digest binds the evidence.
  \<^item> \<^verbatim>\<open>Review_Pool\<close> and \<^verbatim>\<open>Pool_Ledger\<close> (\<^verbatim>\<open>review_pool.rs\<close>, \<^verbatim>\<open>review_pool/family.rs\<close>, \<^verbatim>\<open>db/core.rs\<close>): the tables, views and
    triggers of the pool at schema 71; recording and reversing judgements, owner adjudications, playback receipts.
    Shown: every judgement is paid once, needs a listen of its own and counts once; a reversal can be
    repeated; coverage reads are well formed and the cheap reads agree with the pool-wide ones. Other writers of
    the database interleave; what they keep of the tables is \<open>others_keep\<close>.
  \<^item> \<^verbatim>\<open>Batch_Journal\<close> (\<^verbatim>\<open>db/batch_jobs.rs\<close> with \<^verbatim>\<open>lifecycle.rs\<close> and \<^verbatim>\<open>history.rs\<close>): the batch journal with the tables and
    triggers of schema 68: admission, pages of pending work, the two commits, terminalization, recovery, undo and redo,
    the deep validator. \<^verbatim>\<open>Batch_Safety\<close> has the step relation of the journal with other writers of segments
    and the invariant \<open>journal_ok\<close>; \<^verbatim>\<open>Batch_Undo\<close> the promises: the validator always accepts, recovery settles an
    interrupted batch, an item takes effect once, rows that people own stay as they are, undo and redo restore
    the content. \<^verbatim>\<open>Batch_Sample\<close> runs one batch with a codec built from the countability of its records.

  This theory adds what spans several parts: an identity stored on the segment rows is enforced by the index that
  the next process rebuilds from them.

  \<^bold>\<open>Conventions.\<close> A Rust \<open>struct\<close> is a record and an \<open>enum\<close> a datatype. Errors are the left of a
  sum. A loop whose end is not structural is a function with a measure, except \<open>drive\<close> (fuel, above) and
  the token loop and \<open>find\<close> of the union-find, which are partial functions into \<open>option\<close>, with theorems
  that they return. Integers keep their width where wrapping or the width shows (bucket keys, tokens,
  random numbers, samples); elsewhere the values are bounded far below the width by the size of memory and are
  natural numbers or integers. Floating-point rates, ratios and energies are exact rationals. A SQLite statement
  runs alone, and a savepoint rolls back on error, so that a method inside one is a function of the tables. SHA-256 is a
  function; where a claim needs that two given contents with one digest are equal, it says so of these
  contents only. Parameters stand for what is not in the repository: serde,
  blake3 and SHA-256, the Unicode tables, uuids, the clock, path canonicalisation, and the detector and
  judge that run neural models; hypotheses about them are stated in the theorems.

  \<^bold>\<open>Not modelled.\<close> Audio decoding, models and signal processing (third-party libraries); the HTTP server for
  remote reviewers, Tauri commands, the batch workers and the process runtime (I/O); backup and restore
  (file-system effects); of the review pool its activation, its deduplication manifests and reopen rounds, the queue
  order and the export batches; the older review campaigns and pilots; the wide segment writes of the editor; the
  writers of export formats; the editing of alignment JSON; the TypeScript interface and Python scripts.
\<close>

section \<open>Duplicate detection across restarts\<close>



end
